(* ===== verification/Prelude.thy ===== *)
theory Prelude
  imports Complex_Main "HOL-Library.Char_ord" "HOL-Library.List_Lexorder"
begin

text \<open>
  What every component of the development shares: the collections its automation uses,
  Python's string operations on the characters of Latin-1 (a \<open>char\<close> is read as a code
  point below 256), decimal rendering and parsing of integers, first-occurrence
  deduplication, and the generic facts on lists and maps that the component theories
  cite. Times are \<open>rat\<close>: the source compares and subtracts floats, and the rounding of
  those subtractions is not modelled.
\<close>

section \<open>Types and collections\<close>

type_synonym secs = rat

named_theorems window_simps \<open>counting rows of a log inside a window\<close>
named_theorems store_simps \<open>reads of a store after a write\<close>

section \<open>Python strings\<close>

definition py_space :: "char \<Rightarrow> bool" where
  "py_space c =
     (let n = (of_char c :: nat)
      in (9 \<le> n \<and> n \<le> 13) \<or> (28 \<le> n \<and> n \<le> 32) \<or> n = 133 \<or> n = 160)"

definition py_strip :: "string \<Rightarrow> string" where
  "py_strip s = rev (dropWhile py_space (rev (dropWhile py_space s)))"

definition lower_char :: "char \<Rightarrow> char" where
  "lower_char c =
     (let n = (of_char c :: nat)
      in if (65 \<le> n \<and> n \<le> 90) \<or> (192 \<le> n \<and> n \<le> 222 \<and> n \<noteq> 215)
         then char_of (n + 32) else c)"

definition py_lower :: "string \<Rightarrow> string" where
  "py_lower s = map lower_char s"

abbreviation norm_id :: "string \<Rightarrow> string" where
  "norm_id s \<equiv> py_lower (py_strip s)"

definition digit_char :: "nat \<Rightarrow> char" where
  "digit_char d = char_of (48 + d)"

fun str_nat :: "nat \<Rightarrow> string" where
  "str_nat n = (if n < 10 then [digit_char n] else str_nat (n div 10) @ [digit_char (n mod 10)])"

declare str_nat.simps [simp del]

definition str_int :: "int \<Rightarrow> string" where
  "str_int i = (if i < 0 then CHR ''-'' # str_nat (nat (- i)) else str_nat (nat i))"

definition hex_digit :: "nat \<Rightarrow> char" where
  "hex_digit d = (if d < 10 then char_of (48 + d) else char_of (87 + d))"

definition is_digit :: "char \<Rightarrow> bool" where
  "is_digit c = (let n = (of_char c :: nat) in 48 \<le> n \<and> n \<le> 57)"

definition digit_val :: "char \<Rightarrow> nat" where
  "digit_val c = of_char c - 48"

text \<open>
  Python's \<open>int(text)\<close> on ASCII digits: surrounding white space, one sign, digits with
  single underscores between them. The first argument of \<open>py_digits\<close> says whether an
  underscore may come next, the second accumulates.
\<close>

fun py_digits :: "bool \<Rightarrow> nat \<Rightarrow> string \<Rightarrow> nat option" where
  "py_digits after_digit acc [] = (if after_digit then Some acc else None)"
| "py_digits after_digit acc (c # cs) =
     (if is_digit c then py_digits True (10 * acc + digit_val c) cs
      else if c = CHR ''_'' \<and> after_digit \<and> cs \<noteq> [] \<and> is_digit (hd cs)
        then py_digits False acc cs
      else None)"

definition py_int :: "string \<Rightarrow> int option" where
  "py_int text =
     (case py_strip text of
        [] \<Rightarrow> None
      | c # cs \<Rightarrow>
          (if c = CHR ''-'' then map_option (\<lambda>n. - int n) (py_digits False 0 cs)
           else if c = CHR ''+'' then map_option int (py_digits False 0 cs)
           else map_option int (py_digits False 0 (c # cs))))"

text \<open>\<open>a or b\<close> on a string that may be missing: a missing and an empty one both fall through.\<close>

definition str_or :: "string option \<Rightarrow> string \<Rightarrow> string" where
  "str_or x d = (case x of None \<Rightarrow> d | Some s \<Rightarrow> (if s = [] then d else s))"

definition truthy :: "string option \<Rightarrow> bool" where
  "truthy x = (case x of None \<Rightarrow> False | Some s \<Rightarrow> s \<noteq> [])"

text \<open>\<open>text.split(sep)\<close> for a separator of one character: always at least one part.\<close>

fun split_on :: "char \<Rightarrow> string \<Rightarrow> string list" where
  "split_on c [] = [[]]"
| "split_on c (x # xs) =
     (if x = c then [] # split_on c xs
      else (case split_on c xs of [] \<Rightarrow> [[x]] | p # ps \<Rightarrow> (x # p) # ps))"

fun join_with :: "string \<Rightarrow> string list \<Rightarrow> string" where
  "join_with sep [] = []"
| "join_with sep [p] = p"
| "join_with sep (p # q # ps) = p @ sep @ join_with sep (q # ps)"

lemma split_on_nonempty [simp]: "split_on c s \<noteq> []"
  by (induction s) (auto split: list.splits)

lemma split_on_no_sep: "c \<notin> set s \<Longrightarrow> split_on c s = [s]"
  by (induction s) auto

lemma split_on_append:
  "c \<notin> set s \<Longrightarrow> split_on c (s @ c # t) = s # split_on c t"
  by (induction s) auto

lemma split_on_append_all: "split_on c (s @ c # t) = split_on c s @ split_on c t"
proof (induction s)
  case Nil
  then show ?case by simp
next
  case (Cons x xs)
  obtain p ps where sp: "split_on c xs = p # ps" by (cases "split_on c xs") auto
  with Cons show ?case by simp
qed

lemma split_on_parts: "p \<in> set (split_on c s) \<Longrightarrow> c \<notin> set p"
  by (induction s arbitrary: p) (auto split: list.splits if_splits)

lemma join_split_on [simp]: "join_with [c] (split_on c s) = s"
proof (induction s)
  case Nil
  then show ?case by simp
next
  case (Cons x xs)
  obtain p ps where sp: "split_on c xs = p # ps"
    by (cases "split_on c xs") auto
  then show ?case using Cons by (cases ps) auto
qed

lemma join_with_Cons: "ps \<noteq> [] \<Longrightarrow> join_with sep (p # ps) = p @ sep @ join_with sep ps"
  by (cases ps) auto

section \<open>Normal forms of identifiers\<close>

lemma of_lower_char: "(of_char (lower_char c) :: nat) =
   (let n = of_char c in if (65 \<le> n \<and> n \<le> 90) \<or> (192 \<le> n \<and> n \<le> 222 \<and> n \<noteq> 215) then n + 32 else n)"
  by (auto simp: lower_char_def Let_def take_bit_eq_mod)

lemma lower_char_idem [simp]: "lower_char (lower_char c) = lower_char c"
proof -
  have "(of_char (lower_char (lower_char c)) :: nat) = of_char (lower_char c)"
    by (auto simp: of_lower_char Let_def)
  then show ?thesis by (metis char_of_char)
qed

lemma py_space_lower [simp]: "py_space (lower_char c) = py_space c"
  by (auto simp: py_space_def of_lower_char Let_def)

lemma py_strip_lower: "py_strip (py_lower s) = py_lower (py_strip s)"
  by (simp add: py_strip_def py_lower_def dropWhile_map rev_map o_def)

lemma dropWhile_hd: "dropWhile P xs = [] \<or> \<not> P (hd (dropWhile P xs))"
  by (induction xs) auto

lemma py_strip_idem [simp]: "py_strip (py_strip s) = py_strip s"
proof -
  define t where "t = dropWhile py_space s"
  have t: "t = [] \<or> \<not> py_space (hd t)" unfolding t_def by (rule dropWhile_hd)
  obtain ws where ws: "rev t = ws @ dropWhile py_space (rev t)" by (metis takeWhile_dropWhile_id)
  then have "t = rev (dropWhile py_space (rev t)) @ rev ws" by (metis rev_append rev_rev_ident)
  then have split: "t = py_strip s @ rev ws" by (simp add: py_strip_def t_def)
  have "dropWhile py_space (py_strip s) = py_strip s"
  proof (cases "py_strip s")
    case (Cons c cs)
    with split t have "\<not> py_space c" by auto
    with Cons show ?thesis by simp
  qed simp
  moreover have "dropWhile py_space (rev (py_strip s)) = rev (py_strip s)"
    by (simp add: py_strip_def)
  ultimately show ?thesis by (metis py_strip_def rev_rev_ident)
qed

lemma norm_id_idem [simp]: "norm_id (norm_id s) = norm_id s"
  by (simp add: py_strip_lower) (simp add: py_lower_def)

section \<open>Decimal numerals\<close>

lemma of_char_digit_char: "d < 10 \<Longrightarrow> of_char (digit_char d) = (48 + d :: nat)"
  by (simp add: digit_char_def take_bit_eq_mod)

lemma digit_char_facts:
  assumes "d < 10"
  shows "is_digit (digit_char d)" and "digit_val (digit_char d) = d"
    and "digit_char d \<noteq> CHR ''-''" and "digit_char d \<noteq> CHR '':''" and "digit_char d \<noteq> CHR ''(''"
    and "\<not> py_space (digit_char d)"
proof -
  note [simp] = of_char_digit_char [OF assms]
  show "is_digit (digit_char d)" and "digit_val (digit_char d) = d"
    and "\<not> py_space (digit_char d)"
    using assms by (simp_all add: is_digit_def digit_val_def py_space_def Let_def)
  show "digit_char d \<noteq> CHR ''-''" and "digit_char d \<noteq> CHR '':''" and "digit_char d \<noteq> CHR ''(''"
    using \<open>is_digit (digit_char d)\<close> by (auto simp: is_digit_def Let_def simp del: of_char_digit_char [OF assms])
qed

lemma str_nat_nonempty [simp]: "str_nat n \<noteq> []"
  by (subst str_nat.simps) simp

lemma str_nat_digits: "c \<in> set (str_nat n) \<Longrightarrow> \<exists>d < 10. c = digit_char d"
proof (induction n rule: str_nat.induct)
  case (1 n)
  show ?case
  proof (cases "n < 10")
    case True
    with "1.prems" show ?thesis by (auto simp: str_nat.simps [of n])
  next
    case False
    with "1.prems" have "c \<in> set (str_nat (n div 10)) \<or> c = digit_char (n mod 10)"
      by (auto simp: str_nat.simps [of n])
    then show ?thesis
    proof
      assume "c \<in> set (str_nat (n div 10))"
      with "1.IH" False show ?thesis by blast
    next
      assume "c = digit_char (n mod 10)"
      then show ?thesis by (intro exI [of _ "n mod 10"]) simp
    qed
  qed
qed

lemma py_digits_append:
  "\<forall>c \<in> set xs. is_digit c \<Longrightarrow> xs \<noteq> [] \<Longrightarrow>
   py_digits b acc (xs @ ys) = py_digits True (foldl (\<lambda>a c. 10 * a + digit_val c) acc xs) ys"
  by (induction xs arbitrary: b acc) (auto, metis append_Nil foldl_Nil)

lemma foldl_str_nat: "foldl (\<lambda>a c. 10 * a + digit_val c) 0 (str_nat n) = n"
proof (induction n rule: str_nat.induct)
  case (1 n)
  show ?case
  proof (cases "n < 10")
    case True
    then show ?thesis by (simp add: str_nat.simps [of n] digit_char_facts)
  next
    case False
    with "1.IH" show ?thesis
      by (simp add: str_nat.simps [of n] digit_char_facts)
  qed
qed

lemma str_nat_is_digit: "c \<in> set (str_nat n) \<Longrightarrow> is_digit c"
  using str_nat_digits digit_char_facts(1) by blast

lemma py_digits_str_nat: "py_digits False 0 (str_nat n) = Some n"
proof -
  have "py_digits False 0 (str_nat n @ []) = py_digits True n []"
    by (subst py_digits_append) (auto simp: foldl_str_nat dest: str_nat_is_digit)
  then show ?thesis by simp
qed

lemma dropWhile_all_False: "\<forall>x \<in> set xs. \<not> P x \<Longrightarrow> dropWhile P xs = xs"
  by (cases xs) auto

lemma py_strip_no_space: "\<forall>c \<in> set s. \<not> py_space c \<Longrightarrow> py_strip s = s"
  by (simp add: py_strip_def dropWhile_all_False)

lemma py_int_str_nat: "py_int (str_nat n) = Some (int n)"
proof -
  have "py_strip (str_nat n) = str_nat n"
    by (rule py_strip_no_space) (metis digit_char_facts(6) str_nat_digits)
  moreover obtain c cs where c: "str_nat n = c # cs"
    by (cases "str_nat n") auto
  moreover have "is_digit c"
    using c str_nat_is_digit [of c n] by simp
  then have "c \<noteq> CHR ''-''" and "c \<noteq> CHR ''+''"
    by (auto simp: is_digit_def Let_def)
  ultimately show ?thesis
    using py_digits_str_nat [of n] by (simp add: py_int_def)
qed

lemma py_int_str_int: "py_int (str_int i) = Some i"
proof (cases "i < 0")
  case True
  have digits: "\<forall>c \<in> set (CHR ''-'' # str_nat (nat (- i))). \<not> py_space c"
    by (auto simp: py_space_def dest: str_nat_digits digit_char_facts(6))
      (metis digit_char_facts(6) py_space_def str_nat_digits)+
  from py_strip_no_space [OF digits] True show ?thesis
    by (simp add: str_int_def py_int_def py_digits_str_nat)
next
  case False
  then show ?thesis by (simp add: str_int_def py_int_str_nat)
qed

lemma str_int_chars: "c \<in> set (str_int i) \<Longrightarrow> c = CHR ''-'' \<or> is_digit c"
  by (auto simp: str_int_def dest: str_nat_is_digit split: if_splits)

section \<open>Lists\<close>

text \<open>The order-preserving deduplication of \<open>dict.fromkeys\<close> and of \<open>if v not in seen\<close>.\<close>

fun nub :: "'a list \<Rightarrow> 'a list" where
  "nub [] = []"
| "nub (x # xs) = x # nub (filter (\<lambda>y. y \<noteq> x) xs)"

lemma set_nub [simp]: "set (nub xs) = set xs"
  by (induction xs rule: nub.induct) auto

lemma distinct_nub [simp]: "distinct (nub xs)"
  by (induction xs rule: nub.induct) auto

lemma length_nub: "length (nub xs) = card (set xs)"
  using distinct_card [of "nub xs"] by simp

lemma nub_distinct: "distinct xs \<Longrightarrow> nub xs = xs"
proof (induction xs)
  case (Cons x xs)
  then have "filter (\<lambda>y. y \<noteq> x) xs = xs" by (auto intro: filter_True)
  with Cons show ?case by simp
qed simp

lemma sum_list_partition:
  "distinct as \<Longrightarrow>
   (\<Sum>a\<leftarrow>as. length (filter (\<lambda>x. P x \<and> key x = a) xs)) = length (filter (\<lambda>x. P x \<and> key x \<in> set as) xs)"
proof (induction as)
  case Nil
  then show ?case by simp
next
  case (Cons a as)
  have "length (filter (\<lambda>x. P x \<and> key x \<in> set (a # as)) xs)
      = length (filter (\<lambda>x. P x \<and> key x = a) xs) + length (filter (\<lambda>x. P x \<and> key x \<in> set as) xs)"
    using Cons.prems by (induction xs) auto
  with Cons show ?case by simp
qed

lemma length_filter_mono: "(\<And>x. x \<in> set xs \<Longrightarrow> P x \<Longrightarrow> Q x) \<Longrightarrow> length (filter P xs) \<le> length (filter Q xs)"
  by (induction xs) (auto simp: le_Suc_eq)

lemma filter_filter_same: "(\<And>x. x \<in> set xs \<Longrightarrow> P x \<Longrightarrow> Q x) \<Longrightarrow> filter P (filter Q xs) = filter P xs"
  by (induction xs) auto

section \<open>Maps\<close>

lemma option_map_cases: "(case m k of None \<Rightarrow> d | Some v \<Rightarrow> f v) = (if k \<in> dom m then f (the (m k)) else d)"
  by (auto split: option.splits)

end
