(* ===== verification/CosignerAudit.thy ===== *)
theory CosignerAudit
  imports Prelude
begin

text \<open>
  The co-signer's log, \<open>cosigner/audit.py\<close>: the \<open>requests\<close> table in row-id order and
  the \<open>grants\<close> table that remembers the first time a (uid, action) pair was allowed.
  Each SQL statement is the list or map operation it denotes. The interface the limiter
  relies on is the locale \<open>grant_log\<close>, interpreted on these definitions at the end.
\<close>

section \<open>The two tables\<close>

text \<open>The closed set \<open>policy.ACTIONS\<close>; \<open>action_name\<close> is the spelling in a row.\<close>

datatype action = ACTION_WRAP | ACTION_UNWRAP | ACTION_UNWRAP_DATA | ACTION_SIGN | ACTION_REWRAP

datatype decision = ALLOW | DENY

record request_row =
  row_ts :: secs
  row_uid :: string
  row_action :: action
  row_decision :: decision
  row_reason :: "string option"
  row_fingerprint :: "string option"
  row_measurement :: "string option"
  row_attested :: bool

record audit_db =
  db_requests :: "request_row list"
  db_grants :: "string \<times> action \<Rightarrow> secs option"

definition empty_db :: audit_db where
  "empty_db = \<lparr>db_requests = [], db_grants = (\<lambda>_. None)\<rparr>"

section \<open>Opening the log: the schema and its backfill\<close>

definition allowed_times :: "audit_db \<Rightarrow> string \<times> action \<Rightarrow> secs list" where
  "allowed_times db k =
     map row_ts (filter (\<lambda>r. row_decision r = ALLOW \<and> (row_uid r, row_action r) = k) (db_requests db))"

text \<open>
  \<open>INSERT OR IGNORE INTO grants \<dots> SELECT uid, action, MIN(ts) \<dots> GROUP BY uid, action\<close>:
  a pair already present keeps its row, a pair only the log knows gets its earliest time.
\<close>

definition backfill :: "audit_db \<Rightarrow> audit_db" where
  "backfill db = db\<lparr>db_grants := (\<lambda>k.
     case db_grants db k of
       Some t \<Rightarrow> Some t
     | None \<Rightarrow> (case allowed_times db k of [] \<Rightarrow> None | t # ts \<Rightarrow> Some (fold min ts t)))\<rparr>"

section \<open>Writing a row\<close>

definition audit_record ::
  "string \<Rightarrow> action \<Rightarrow> decision \<Rightarrow> string option \<Rightarrow> string option \<Rightarrow> string option \<Rightarrow> bool
   \<Rightarrow> secs \<Rightarrow> audit_db \<Rightarrow> audit_db" where
  "audit_record uid action decision reason fingerprint measurement attested ts db =
     \<lparr>db_requests = db_requests db @
        [\<lparr>row_ts = ts, row_uid = uid, row_action = action, row_decision = decision,
          row_reason = reason, row_fingerprint = fingerprint,
          row_measurement = measurement, row_attested = attested\<rparr>],
      db_grants =
        (if decision = ALLOW \<and> db_grants db (uid, action) = None
         then (db_grants db)((uid, action) \<mapsto> ts) else db_grants db)\<rparr>"

section \<open>The counters\<close>

text \<open>
  The \<open>action\<close> argument of the counters: one action, or a tuple of them. A tuple has a
  first element, so the assertion against an empty set cannot fire.
\<close>

datatype action_arg = One action | Several action "action list"

fun actions_of :: "action_arg \<Rightarrow> action list" where
  "actions_of (One a) = [a]"
| "actions_of (Several a as) = nub (a # as)"

definition count_all :: "secs \<Rightarrow> string option \<Rightarrow> audit_db \<Rightarrow> nat" where
  "count_all since uid db =
     length (filter (\<lambda>r. row_decision r = ALLOW \<and> since \<le> row_ts r
       \<and> (case uid of None \<Rightarrow> True | Some u \<Rightarrow> row_uid r = u)) (db_requests db))"

definition count_action :: "secs \<Rightarrow> action \<Rightarrow> string option \<Rightarrow> audit_db \<Rightarrow> nat" where
  "count_action since a uid db =
     length (filter (\<lambda>r. (row_decision r = ALLOW \<and> since \<le> row_ts r
       \<and> (case uid of None \<Rightarrow> True | Some u \<Rightarrow> row_uid r = u)) \<and> row_action r = a) (db_requests db))"

definition granted_since :: "secs \<Rightarrow> action_arg option \<Rightarrow> string option \<Rightarrow> audit_db \<Rightarrow> nat" where
  "granted_since since action uid db =
     (case action of
        None \<Rightarrow> count_all since uid db
      | Some arg \<Rightarrow> (\<Sum>one\<leftarrow>actions_of arg. count_action since one uid db))"

definition uids_for_action :: "secs \<Rightarrow> action \<Rightarrow> audit_db \<Rightarrow> string list" where
  "uids_for_action since a db =
     map row_uid (filter (\<lambda>r. row_decision r = ALLOW \<and> since \<le> row_ts r \<and> row_action r = a)
       (db_requests db))"

definition distinct_uids_since :: "secs \<Rightarrow> action_arg \<Rightarrow> audit_db \<Rightarrow> nat" where
  "distinct_uids_since since action db =
     length (nub (concat (map (\<lambda>one. uids_for_action since one db) (actions_of action))))"

definition ever_granted :: "string \<Rightarrow> action \<Rightarrow> audit_db \<Rightarrow> bool" where
  "ever_granted uid action db \<longleftrightarrow> db_grants db (uid, action) \<noteq> None"

text \<open>Newest first; SQLite reads a negative \<open>LIMIT\<close> as no limit.\<close>

definition recent :: "int \<Rightarrow> audit_db \<Rightarrow> request_row list" where
  "recent limit db =
     (if limit < 0 then rev (db_requests db) else take (nat limit) (rev (db_requests db)))"

section \<open>What the counters count\<close>

definition granted_rows :: "action_arg \<Rightarrow> audit_db \<Rightarrow> request_row list" where
  "granted_rows arg db =
     filter (\<lambda>r. row_decision r = ALLOW \<and> row_action r \<in> set (actions_of arg)) (db_requests db)"

lemma distinct_actions_of [simp]: "distinct (actions_of arg)"
  by (cases arg) auto

lemma granted_since_in_clause [window_simps]:
  "granted_since since (Some arg) uid db =
     length (filter (\<lambda>r. since \<le> row_ts r \<and> (case uid of None \<Rightarrow> True | Some u \<Rightarrow> row_uid r = u))
       (granted_rows arg db))"
  unfolding granted_since_def count_action_def option.case granted_rows_def filter_filter
  by (subst sum_list_partition) (auto intro!: arg_cong[where f = length] filter_cong)

lemma distinct_uids_since_card [window_simps]:
  "distinct_uids_since since arg db =
     card (row_uid ` {r \<in> set (granted_rows arg db). since \<le> row_ts r})"
  unfolding distinct_uids_since_def length_nub
  by (rule arg_cong[where f = card]) (auto simp: uids_for_action_def granted_rows_def)

lemma granted_rows_record [window_simps]:
  "granted_rows arg (audit_record uid a d re fp me att ts db) =
     granted_rows arg db @
     (if d = ALLOW \<and> a \<in> set (actions_of arg)
      then [\<lparr>row_ts = ts, row_uid = uid, row_action = a, row_decision = d, row_reason = re,
             row_fingerprint = fp, row_measurement = me, row_attested = att\<rparr>] else [])"
  by (simp add: granted_rows_def audit_record_def)

lemma ever_granted_record [store_simps]:
  "ever_granted u b (audit_record uid a d re fp me att ts db) \<longleftrightarrow>
     ever_granted u b db \<or> (d = ALLOW \<and> u = uid \<and> b = a)"
  by (auto simp: ever_granted_def audit_record_def)

lemma recent_record [store_simps]:
  "0 < limit \<Longrightarrow> recent limit (audit_record uid a d re fp me att ts db) =
     \<lparr>row_ts = ts, row_uid = uid, row_action = a, row_decision = d, row_reason = re,
      row_fingerprint = fp, row_measurement = me, row_attested = att\<rparr> # recent (limit - 1) db"
proof -
  assume "0 < limit"
  then have "nat limit = Suc (nat (limit - 1))" by simp
  with \<open>0 < limit\<close> show ?thesis by (simp add: recent_def audit_record_def)
qed

section \<open>The two tables agree\<close>

text \<open>Every allowed row has its grant, so the pair a caller reads cannot disagree.\<close>

definition db_agree :: "audit_db \<Rightarrow> bool" where
  "db_agree db \<longleftrightarrow>
     (\<forall>r \<in> set (db_requests db). row_decision r = ALLOW \<longrightarrow> ever_granted (row_uid r) (row_action r) db)"

lemma db_agree_empty: "db_agree empty_db"
  by (simp add: db_agree_def empty_db_def)

lemma db_agree_record:
  "db_agree db \<Longrightarrow> db_agree (audit_record uid a d re fp me att ts db)"
  by (auto simp: db_agree_def ever_granted_def audit_record_def)

lemma allowed_times_Nil:
  "allowed_times db k = [] \<longleftrightarrow>
     \<not> (\<exists>r \<in> set (db_requests db). row_decision r = ALLOW \<and> (row_uid r, row_action r) = k)"
  by (auto simp: allowed_times_def filter_empty_conv)

lemma ever_granted_backfill [store_simps]:
  "ever_granted u a (backfill db) \<longleftrightarrow>
     ever_granted u a db \<or>
     (\<exists>r \<in> set (db_requests db). row_decision r = ALLOW \<and> row_uid r = u \<and> row_action r = a)"
  using allowed_times_Nil [of db "(u, a)"]
  by (auto simp: ever_granted_def backfill_def split: option.splits list.splits)

lemma db_requests_backfill [simp]: "db_requests (backfill db) = db_requests db"
  by (simp add: backfill_def)

lemma granted_rows_backfill [window_simps]: "granted_rows arg (backfill db) = granted_rows arg db"
  by (simp add: granted_rows_def)

lemma db_agree_backfill: "db_agree (backfill db)"
  unfolding db_agree_def by (auto simp: store_simps)

lemma backfill_agreeing: "db_agree db \<Longrightarrow> backfill db = db"
proof -
  assume agree: "db_agree db"
  have "(case db_grants db k of Some t \<Rightarrow> Some t
     | None \<Rightarrow> (case allowed_times db k of [] \<Rightarrow> None | t # ts \<Rightarrow> Some (fold min ts t))) = db_grants db k" for k
  proof (cases "db_grants db k")
    case None
    with agree have "allowed_times db k = []"
      unfolding allowed_times_Nil db_agree_def ever_granted_def by force
    with None show ?thesis by simp
  qed simp
  then show ?thesis by (simp add: backfill_def)
qed

section \<open>The interface the limiter relies on\<close>

text \<open>
  A log of grants, as the limiter sees it: \<open>allow\<close> and \<open>deny\<close> append a decision at a
  time, \<open>rows\<close> are the grants an argument selects, and \<open>count\<close> and \<open>breadth\<close> answer
  windowed questions about exactly those rows. The window lemmas are proved once here.
\<close>

locale grant_log =
  fixes rows :: "'k \<Rightarrow> 'db \<Rightarrow> ('u \<times> secs) list"
    and allow :: "'u \<Rightarrow> 'a \<Rightarrow> secs \<Rightarrow> 'db \<Rightarrow> 'db"
    and deny :: "'u \<Rightarrow> 'a \<Rightarrow> secs \<Rightarrow> 'db \<Rightarrow> 'db"
    and selects :: "'k \<Rightarrow> 'a \<Rightarrow> bool"
    and count :: "secs \<Rightarrow> 'k \<Rightarrow> 'u option \<Rightarrow> 'db \<Rightarrow> nat"
    and breadth :: "secs \<Rightarrow> 'k \<Rightarrow> 'db \<Rightarrow> nat"
  assumes rows_allow: "rows k (allow u a t db) = rows k db @ (if selects k a then [(u, t)] else [])"
    and rows_deny: "rows k (deny u a t db) = rows k db"
    and count_rows: "count since k w db =
      length (filter (\<lambda>(u, t). since \<le> t \<and> (case w of None \<Rightarrow> True | Some v \<Rightarrow> u = v)) (rows k db))"
    and breadth_rows: "breadth since k db = card (fst ` {x \<in> set (rows k db). since \<le> snd x})"
begin

definition volume_bounded :: "'k \<Rightarrow> 'u option \<Rightarrow> secs \<Rightarrow> int \<Rightarrow> 'db \<Rightarrow> bool" where
  "volume_bounded k w len limit db \<longleftrightarrow>
     (\<forall>x. int (length (filter (\<lambda>(u, t). x \<le> t \<and> t \<le> x + len
        \<and> (case w of None \<Rightarrow> True | Some v \<Rightarrow> u = v)) (rows k db))) \<le> limit)"

definition breadth_bounded :: "'k \<Rightarrow> secs \<Rightarrow> int \<Rightarrow> 'db \<Rightarrow> bool" where
  "breadth_bounded k len limit db \<longleftrightarrow>
     (\<forall>x. int (card (fst ` {e \<in> set (rows k db). x \<le> snd e \<and> snd e \<le> x + len})) \<le> limit)"

definition times_upto :: "secs \<Rightarrow> 'db \<Rightarrow> bool" where
  "times_upto now db \<longleftrightarrow> (\<forall>k. \<forall>e \<in> set (rows k db). snd e \<le> now)"

lemma deny_keeps_counts:
  "count since k w (deny u a t db) = count since k w db"
  "breadth since k (deny u a t db) = breadth since k db"
  by (simp_all add: count_rows breadth_rows rows_deny)

lemma volume_bounded_allow:
  assumes inv: "volume_bounded k w len limit db"
    and below: "int (count since k w db) < limit"
    and since: "since \<le> t - len"
  shows "volume_bounded k w len limit (allow u a t db)"
  unfolding volume_bounded_def
proof
  fix x
  let ?P = "\<lambda>(v, s). x \<le> s \<and> s \<le> x + len \<and> (case w of None \<Rightarrow> True | Some v' \<Rightarrow> v = v')"
  have old: "int (length (filter ?P (rows k db))) \<le> limit"
    using inv by (simp add: volume_bounded_def)
  show "int (length (filter ?P (rows k (allow u a t db)))) \<le> limit"
  proof (cases "x + len < t")
    case True
    then show ?thesis using old by (simp add: rows_allow)
  next
    case False
    then have "length (filter ?P (rows k db)) \<le> count since k w db"
      unfolding count_rows using since by (intro length_filter_mono) auto
    with below have "int (length (filter ?P (rows k db))) + 1 \<le> limit" by linarith
    then show ?thesis using old by (auto simp: rows_allow)
  qed
qed

lemma volume_bounded_allow_other:
  "volume_bounded k (Some v) len limit db \<Longrightarrow> u \<noteq> v \<Longrightarrow>
   volume_bounded k (Some v) len limit (allow u a t db)"
  by (auto simp: volume_bounded_def rows_allow)

lemma volume_bounded_unselected:
  "volume_bounded k w len limit db \<Longrightarrow> \<not> selects k a \<Longrightarrow> volume_bounded k w len limit (allow u a t db)"
  by (simp add: volume_bounded_def rows_allow)

lemma volume_bounded_deny:
  "volume_bounded k w len limit (deny u a t db) = volume_bounded k w len limit db"
  by (simp add: volume_bounded_def rows_deny)

lemma breadth_bounded_unselected:
  "breadth_bounded k len limit db \<Longrightarrow> \<not> selects k a \<Longrightarrow> breadth_bounded k len limit (allow u a t db)"
  by (simp add: breadth_bounded_def rows_allow)

lemma breadth_bounded_deny:
  "breadth_bounded k len limit (deny u a t db) = breadth_bounded k len limit db"
  by (simp add: breadth_bounded_def rows_deny)

lemma volume_bounded_filter:
  assumes "volume_bounded k w len limit db" and "rows k db' = filter P (rows k db)"
  shows "volume_bounded k w len limit db'"
  unfolding volume_bounded_def
proof
  fix x
  let ?Q = "\<lambda>(u, t). x \<le> t \<and> t \<le> x + len \<and> (case w of None \<Rightarrow> True | Some v \<Rightarrow> u = v)"
  have "length (filter ?Q (rows k db')) \<le> length (filter ?Q (rows k db))"
    unfolding assms(2) filter_filter by (rule length_filter_mono) simp
  moreover have "int (length (filter ?Q (rows k db))) \<le> limit"
    using assms(1) unfolding volume_bounded_def by blast
  ultimately show "int (length (filter ?Q (rows k db'))) \<le> limit" by linarith
qed

lemma breadth_bounded_filter:
  assumes "breadth_bounded k len limit db" and "rows k db' = filter P (rows k db)"
  shows "breadth_bounded k len limit db'"
  unfolding breadth_bounded_def
proof
  fix x
  let ?A = "\<lambda>d. fst ` {e \<in> set (rows k d). x \<le> snd e \<and> snd e \<le> x + len}"
  have "card (?A db') \<le> card (?A db)"
    unfolding assms(2) by (rule card_mono) auto
  moreover have "int (card (?A db)) \<le> limit"
    using assms(1) unfolding breadth_bounded_def by blast
  ultimately show "int (card (?A db')) \<le> limit" by linarith
qed

lemma breadth_bounded_allow:
  assumes inv: "breadth_bounded k len limit db"
    and past: "times_upto s db" and later: "s \<le> t"
    and ok: "0 < count (s - len) k (Some u) db \<or> int (breadth (s - len) k db) < limit"
  shows "breadth_bounded k len limit (allow u a t db)"
  unfolding breadth_bounded_def
proof
  fix x
  let ?W = "{e \<in> set (rows k db). x \<le> snd e \<and> snd e \<le> x + len}"
  let ?S = "{e \<in> set (rows k db). s - len \<le> snd e}"
  have recent_window: "?S = {e \<in> set (rows k db). s - len \<le> snd e \<and> snd e \<le> s - len + len}"
    using past by (auto simp: times_upto_def)
  have old: "int (card (fst ` ?W)) \<le> limit"
    using inv by (simp add: breadth_bounded_def)
  have recent: "int (card (fst ` ?S)) \<le> limit"
    unfolding recent_window using inv unfolding breadth_bounded_def by blast
  have new: "int (card (insert u (fst ` ?S))) \<le> limit"
  proof (cases "u \<in> fst ` ?S")
    case True
    then have "insert u (fst ` ?S) = fst ` ?S" by blast
    with recent show ?thesis by simp
  next
    case False
    then have none: "filter (\<lambda>(v, r). s - len \<le> r \<and> v = u) (rows k db) = []"
      by (force simp: filter_empty_conv)
    have "count (s - len) k (Some u) db = 0"
      unfolding count_rows using none by simp
    with ok have "int (card (fst ` ?S)) < limit" by (simp add: breadth_rows)
    then show ?thesis using card_insert_le_m1 [of "card (fst ` ?S) + 1" "fst ` ?S" u] by simp
  qed
  show "int (card (fst ` {e \<in> set (rows k (allow u a t db)). x \<le> snd e \<and> snd e \<le> x + len})) \<le> limit"
  proof (cases "x + len < t")
    case True
    then have "{e \<in> set (rows k (allow u a t db)). x \<le> snd e \<and> snd e \<le> x + len} = ?W"
      by (auto simp: rows_allow)
    with old show ?thesis by simp
  next
    case False
    then have "fst ` {e \<in> set (rows k (allow u a t db)). x \<le> snd e \<and> snd e \<le> x + len}
        \<subseteq> insert u (fst ` ?S)"
      using later by (auto simp: rows_allow)
    then have "card (fst ` {e \<in> set (rows k (allow u a t db)). x \<le> snd e \<and> snd e \<le> x + len})
        \<le> card (insert u (fst ` ?S))"
      by (intro card_mono) auto
    with new show ?thesis by linarith
  qed
qed

end

definition grant_pairs :: "action_arg \<Rightarrow> audit_db \<Rightarrow> (string \<times> secs) list" where
  "grant_pairs arg db = map (\<lambda>r. (row_uid r, row_ts r)) (granted_rows arg db)"

definition write_decision ::
  "decision \<Rightarrow> string \<Rightarrow> action \<times> string option \<times> string option \<times> string option \<times> bool
   \<Rightarrow> secs \<Rightarrow> audit_db \<Rightarrow> audit_db" where
  "write_decision d uid info ts db =
     (case info of (a, re, fp, me, att) \<Rightarrow> audit_record uid a d re fp me att ts db)"

interpretation glog: grant_log grant_pairs "write_decision ALLOW" "write_decision DENY"
  "\<lambda>arg info. fst info \<in> set (actions_of arg)" "\<lambda>since arg. granted_since since (Some arg)"
  distinct_uids_since
proof unfold_locales
  show "grant_pairs k (write_decision ALLOW u a t db) =
      grant_pairs k db @ (if fst a \<in> set (actions_of k) then [(u, t)] else [])" for k u a t db
    by (cases a) (auto simp: grant_pairs_def write_decision_def window_simps)
  show "grant_pairs k (write_decision DENY u a t db) = grant_pairs k db" for k u a t db
    by (cases a) (simp add: grant_pairs_def write_decision_def window_simps)
  show "granted_since since (Some k) w db =
      length (filter (\<lambda>(u, t). since \<le> t \<and> (case w of None \<Rightarrow> True | Some v \<Rightarrow> u = v)) (grant_pairs k db))"
    for since k w db
    by (simp add: window_simps grant_pairs_def filter_map o_def)
  show "distinct_uids_since since k db = card (fst ` {x \<in> set (grant_pairs k db). since \<le> snd x})"
    for since k db
    unfolding window_simps grant_pairs_def
    by (rule arg_cong[where f = card]) force
qed

end
