(* ===== verification/TtlCache.thy ===== *)
theory TtlCache
  imports Prelude
begin

text \<open>
  The shape every in-process cache of the program has: a value stored at a time is
  answered until its life is over and never afterwards. The attestation verdicts, the
  opened data keys and the sign-in notes keep this contract, and each interprets the locale on
  its own definitions.
\<close>

locale ttl_cache =
  fixes get :: "secs \<Rightarrow> 'k \<Rightarrow> 's \<Rightarrow> 'v option"
    and put :: "secs \<Rightarrow> 'k \<Rightarrow> 'v \<Rightarrow> 's \<Rightarrow> 's"
    and forget :: "'k \<Rightarrow> 's \<Rightarrow> 's"
    and fresh :: "'s"
    and life :: "'v \<Rightarrow> secs"
  assumes get_fresh: "get t k fresh = None"
    and get_put: "get t' k (put t k v s) = (if t' < t + life v then Some v else None)"
    and get_put_other: "k' \<noteq> k \<Longrightarrow> t \<le> t' \<Longrightarrow> get t' k' (put t k v s) = get t' k' s"
    and get_forget: "get t k (forget k s) = None"
    and get_forget_other: "k' \<noteq> k \<Longrightarrow> get t k' (forget k s) = get t k' s"
begin

text \<open>A history of the cache: each entry stores a value, or drops a key when it has none.\<close>

fun replay :: "(secs \<times> 'k \<times> 'v option) list \<Rightarrow> 's" where
  "replay [] = fresh"
| "replay ((t, k, Some v) # es) = put t k v (replay es)"
| "replay ((t, k, None) # es) = forget k (replay es)"

lemma replay_get:
  "get t' k (replay es) = Some v \<Longrightarrow> \<forall>e \<in> set es. fst e \<le> t' \<Longrightarrow>
   \<exists>t. (t, k, Some v) \<in> set es \<and> t' < t + life v"
proof (induction es rule: replay.induct)
  case 1
  then show ?case by (simp add: get_fresh)
next
  case (2 t j w es)
  show ?case
  proof (cases "k = j")
    case True
    with "2.prems" show ?thesis by (auto simp: get_put split: if_splits)
  next
    case False
    with "2.prems" have "get t' k (replay es) = Some v"
      by (simp add: get_put_other)
    with "2.IH" "2.prems"(2) show ?thesis by auto
  qed
next
  case (3 t j es)
  show ?case
  proof (cases "k = j")
    case True
    with "3.prems" show ?thesis by (simp add: get_forget)
  next
    case False
    with "3.prems" have "get t' k (replay es) = Some v"
      by (simp add: get_forget_other)
    with "3.IH" "3.prems"(2) show ?thesis by auto
  qed
qed

lemma expired: "t + life v \<le> t' \<Longrightarrow> get t' k (put t k v s) = None"
  by (simp add: get_put)

end

end
