(* ===== verification/QuotePolicy.thy ===== *)
theory QuotePolicy
  imports TtlCache "HOL-Library.Word"
begin

text \<open>
  \<open>backend/tee/quote_policy.py\<close>: the checks that decide whether a TDX quote is one the
  operator authorized, and the cache of their verdicts. \<open>dcap_qvl\<close> and the hash are
  parameters. Every \<open>raise\<close> of the file is a constructor of \<open>allowlist_error\<close>, its
  \<open>assert\<close> on an empty quote one more; a verdict that refuses carries the text of the source.
\<close>

type_synonym bytes = "8 word list"

section \<open>The allowlist file\<close>

record entry =
  entry_name :: "string option"
  entry_scope :: "string option"
  entry_field :: "string \<Rightarrow> string option"

text \<open>A row of \<open>composes\<close>: a compose file the enclave may have started, by its digest.\<close>

record compose_row =
  cr_scope :: "string option"
  cr_file :: "string option"
  cr_sha256 :: "string option"

record allowlist =
  al_mode :: "string option"
  al_measurements :: "entry list"
  al_expires :: "string option"
  al_tcb_status :: "string list"
  al_rejected :: "string list"
  al_quote_oid :: "string option"
  al_binding :: "string option"
  al_pccs_url :: "string option"
  al_composes :: "compose_row list"

datatype file_content = NoFile | NotJson | NotObject | Object allowlist

datatype allowlist_error =
    NoAllowlist | AllowlistNotJson | AllowlistNotObject
  | UnknownMode string | NamesMeasurements | NoExpiryDate | BadExpiryDate string | DevInsecureExpired
  | EntryWithoutMrTd string | EmptyBinding | UnknownBinding | NoQuoteOid | DevInsecureUnderTee
  | RepointedUnderTee string | EmptyQuote

definition load_policy :: "file_content \<Rightarrow> allowlist_error + allowlist" where
  "load_policy f =
     (case f of NoFile \<Rightarrow> Inl NoAllowlist | NotJson \<Rightarrow> Inl AllowlistNotJson
      | NotObject \<Rightarrow> Inl AllowlistNotObject | Object a \<Rightarrow> Inr a)"

definition REQUIRED :: string where "REQUIRED = ''required''"
definition DEV_INSECURE :: string where "DEV_INSECURE = ''dev-insecure''"

definition MEASUREMENT_FIELDS :: "string list" where
  "MEASUREMENT_FIELDS = [''mr_td'', ''rt_mr0'', ''rt_mr1'', ''rt_mr2'', ''rt_mr3'']"

definition rows :: "string option \<Rightarrow> allowlist \<Rightarrow> entry list" where
  "rows scope al =
     (case scope of None \<Rightarrow> al_measurements al
      | Some s \<Rightarrow> filter (\<lambda>e. entry_scope e = Some s) (al_measurements al))"

abbreviation entries :: "string option \<Rightarrow> allowlist \<Rightarrow> entry list" where
  "entries \<equiv> rows"

definition compose_rows :: "string option \<Rightarrow> allowlist \<Rightarrow> compose_row list" where
  "compose_rows scope al =
     (case scope of None \<Rightarrow> al_composes al
      | Some s \<Rightarrow> filter (\<lambda>e. cr_scope e = Some s) (al_composes al))"

section \<open>Dates\<close>

text \<open>\<open>datetime.date\<close> as (year, month, day); \<open>fromisoformat\<close> on the two calendar forms.\<close>

type_synonym date = "nat \<times> nat \<times> nat"

definition leap :: "nat \<Rightarrow> bool" where
  "leap y \<longleftrightarrow> y mod 4 = 0 \<and> (y mod 100 \<noteq> 0 \<or> y mod 400 = 0)"

definition days_in_month :: "nat \<Rightarrow> nat \<Rightarrow> nat" where
  "days_in_month y m =
     (if m = 2 then (if leap y then 29 else 28) else if m \<in> {4, 6, 9, 11} then 30 else 31)"

definition mk_date :: "string \<Rightarrow> string \<Rightarrow> string \<Rightarrow> date option" where
  "mk_date ys ms ds =
     (if list_all is_digit (ys @ ms @ ds)
      then (let val = foldl (\<lambda>a c. 10 * a + digit_val c) 0; y = val ys; m = val ms; d = val ds
            in if 1 \<le> y \<and> 1 \<le> m \<and> m \<le> 12 \<and> 1 \<le> d \<and> d \<le> days_in_month y m
               then Some (y, m, d) else None)
      else None)"

definition fromisoformat :: "string \<Rightarrow> date option" where
  "fromisoformat s =
     (if length s = 10 \<and> s ! 4 = CHR ''-'' \<and> s ! 7 = CHR ''-''
      then mk_date (take 4 s) (take 2 (drop 5 s)) (drop 8 s)
      else if length s = 8 then mk_date (take 4 s) (take 2 (drop 4 s)) (drop 6 s)
      else None)"

definition after :: "date \<Rightarrow> date \<Rightarrow> bool" where
  "after a b =
     (case (a, b) of ((y, m, d), (y', m', d')) \<Rightarrow>
        y > y' \<or> (y = y' \<and> (m > m' \<or> (m = m' \<and> d > d'))))"

section \<open>The mode\<close>

definition check_dev_insecure_expiry :: "date \<Rightarrow> allowlist \<Rightarrow> allowlist_error + unit" where
  "check_dev_insecure_expiry today al =
     (case al_expires al of
        None \<Rightarrow> Inl NoExpiryDate
      | Some stated \<Rightarrow>
          (if stated = [] then Inl NoExpiryDate
           else case fromisoformat (py_strip stated) of
              None \<Rightarrow> Inl (BadExpiryDate stated)
            | Some expires \<Rightarrow> if after today expires then Inl DevInsecureExpired else Inr ()))"

definition policy_mode :: "string option \<Rightarrow> date \<Rightarrow> allowlist \<Rightarrow> allowlist_error + string" where
  "policy_mode override today al =
     (let value = py_strip (str_or override (str_or (al_mode al) REQUIRED))
      in if value \<noteq> REQUIRED \<and> value \<noteq> DEV_INSECURE then Inl (UnknownMode value)
         else if value = DEV_INSECURE
           then (if entries None al \<noteq> [] then Inl NamesMeasurements
                 else case check_dev_insecure_expiry today al of Inl e \<Rightarrow> Inl e | Inr _ \<Rightarrow> Inr value)
           else Inr value)"

section \<open>Matching measurements\<close>

definition entry_matches :: "entry \<Rightarrow> (string \<Rightarrow> string option) \<Rightarrow> bool" where
  "entry_matches e actual =
     list_all (\<lambda>f. entry_field e f = None \<or> entry_field e f = actual f) MEASUREMENT_FIELDS"

fun match_entries ::
  "entry list \<Rightarrow> (string \<Rightarrow> string option) \<Rightarrow> allowlist_error + string option" where
  "match_entries [] actual = Inr None"
| "match_entries (e # es) actual =
     (let name = str_or (entry_name e) ''unnamed''
      in if \<not> truthy (entry_field e ''mr_td'') then Inl (EntryWithoutMrTd name)
         else if entry_matches e actual then Inr (Some name)
         else match_entries es actual)"

definition policy_match ::
  "(string \<Rightarrow> string option) \<Rightarrow> string option \<Rightarrow> allowlist \<Rightarrow> allowlist_error + string option" where
  "policy_match actual scope al = match_entries (entries scope al) actual"

section \<open>Verifying a quote\<close>

record verdict =
  v_ok :: bool
  v_subject :: "string option"
  v_reason :: "string option"
  v_measurement :: "string option"
  v_attested :: bool

definition refused :: "string option \<Rightarrow> string \<Rightarrow> string option \<Rightarrow> verdict" where
  "refused subject reason measurement =
     \<lparr>v_ok = False, v_subject = subject, v_reason = Some reason,
      v_measurement = measurement, v_attested = False\<rparr>"

text \<open>
  What \<open>dcap_qvl\<close> answers; an exception is an \<open>Inl\<close> of its message. A parsed quote has
  its kind, its report data and the five measurement registers as hex.
\<close>

record parsed_quote =
  pq_is_tdx :: bool
  pq_report_data :: bytes
  pq_register :: "string \<Rightarrow> string option"

record tcb_report =
  tr_status :: string
  tr_advisories :: "string list"

record dcap =
  dcap_parse :: "bytes \<Rightarrow> string + parsed_quote"
  dcap_collateral :: "string \<Rightarrow> bytes \<Rightarrow> string + bytes"
  dcap_verify :: "bytes \<Rightarrow> bytes \<Rightarrow> int \<Rightarrow> string + tcb_report"

definition measurements_of :: "parsed_quote \<Rightarrow> string \<Rightarrow> string option" where
  "measurements_of q f = (if f \<in> set MEASUREMENT_FIELDS then pq_register q f else None)"

definition aggregate :: "(string \<Rightarrow> string) \<Rightarrow> (string \<Rightarrow> string option) \<Rightarrow> string" where
  "aggregate sha256_hex actual =
     take 32 (sha256_hex (join_with ''|''
       (map (\<lambda>f. f @ ''='' @ (case actual f of None \<Rightarrow> ''None'' | Some v \<Rightarrow> v)) MEASUREMENT_FIELDS)))"

definition binds :: "bytes \<Rightarrow> bytes \<Rightarrow> allowlist_error + bool" where
  "binds got expected =
     (if expected = [] then Inl EmptyBinding
      else Inr (take (length expected) got = expected
        \<and> list_all (\<lambda>b. b = 0) (drop (length expected) got)))"

definition fetch_collateral :: "dcap \<Rightarrow> string option \<Rightarrow> bytes \<Rightarrow> string + bytes" where
  "fetch_collateral d pccs_url quote =
     (case pccs_url of
        None \<Rightarrow> Inl ''no pccs_url in the allowlist; cannot fetch collateral''
      | Some url \<Rightarrow>
          if url = [] then Inl ''no pccs_url in the allowlist; cannot fetch collateral''
          else dcap_collateral d url quote)"

definition py_repr :: "string \<Rightarrow> string" where
  "py_repr s = [CHR 0x27] @ s @ [CHR 0x27]"

definition repr_list :: "string list \<Rightarrow> string" where
  "repr_list xs = ''['' @ join_with '', '' (map py_repr xs) @ '']''"

definition rejected_of :: "allowlist \<Rightarrow> tcb_report \<Rightarrow> string list" where
  "rejected_of al r = filter (\<lambda>a. a \<in> set (tr_advisories r)) (sort (nub (al_rejected al)))"

definition verify ::
  "dcap option \<Rightarrow> (string \<Rightarrow> string) \<Rightarrow> int \<Rightarrow> bytes \<Rightarrow> allowlist \<Rightarrow> string option \<Rightarrow> bytes
   \<Rightarrow> string option \<Rightarrow> allowlist_error + verdict" where
  "verify dcap_qvl sha256_hex now quote al subject expected scope =
     (if quote = [] then Inl EmptyQuote
      else case dcap_qvl of
        None \<Rightarrow> Inr (refused subject ''dcap-qvl is not installed'' None)
      | Some d \<Rightarrow>
     (case dcap_parse d quote of
        Inl err \<Rightarrow> Inr (refused subject (''quote does not parse: '' @ err) None)
      | Inr parsed \<Rightarrow>
     (if \<not> pq_is_tdx parsed then Inr (refused subject ''quote is not a TDX quote'' None)
      else
     (case binds (pq_report_data parsed) expected of
        Inl e \<Rightarrow> Inl e
      | Inr False \<Rightarrow> Inr (refused subject ''report_data does not carry the expected binding'' None)
      | Inr True \<Rightarrow>
     (let actual = measurements_of parsed
      in case policy_match actual scope al of
        Inl e \<Rightarrow> Inl e
      | Inr None \<Rightarrow> Inr (refused subject ''measurement is not on the allowlist''
                       (Some (aggregate sha256_hex actual)))
      | Inr (Some name) \<Rightarrow>
     (case (case fetch_collateral d (al_pccs_url al) quote of
              Inl err \<Rightarrow> Inl err | Inr collateral \<Rightarrow> dcap_verify d quote collateral now) of
        Inl err \<Rightarrow> Inr (refused subject (''quote verification failed: '' @ err) (Some name))
      | Inr report \<Rightarrow>
     (if tr_status report \<notin> set (al_tcb_status al)
      then Inr (refused subject (''TCB status '' @ tr_status report) (Some name))
      else if rejected_of al report \<noteq> []
      then Inr (refused subject (''rejected advisories '' @ repr_list (rejected_of al report)) (Some name))
      else Inr \<lparr>v_ok = True, v_subject = subject, v_reason = None,
                v_measurement = Some name, v_attested = True\<rparr>)))))))"

section \<open>The cache of verdicts\<close>

definition RECHECK_SECONDS :: secs where "RECHECK_SECONDS = 24 * 3600"
definition FAILURE_RECHECK_SECONDS :: secs where "FAILURE_RECHECK_SECONDS = 60"

type_synonym verdict_cache = "string \<Rightarrow> (verdict \<times> secs) option"

definition cache_ttl :: "verdict \<Rightarrow> secs" where
  "cache_ttl v = (if v_ok v then RECHECK_SECONDS else FAILURE_RECHECK_SECONDS)"

definition cache_get :: "secs \<Rightarrow> string \<Rightarrow> verdict_cache \<Rightarrow> verdict option" where
  "cache_get now subject c =
     (case c subject of
        None \<Rightarrow> None
      | Some (v, t) \<Rightarrow> if cache_ttl v \<le> now - t then None else Some v)"

definition cache_put :: "secs \<Rightarrow> string \<Rightarrow> verdict \<Rightarrow> verdict_cache \<Rightarrow> verdict_cache" where
  "cache_put now subject v c = c(subject \<mapsto> (v, now))"

definition cache_clear :: verdict_cache where
  "cache_clear = (\<lambda>_. None)"

interpretation verdicts: ttl_cache cache_get cache_put "\<lambda>k c. c(k := None)" cache_clear cache_ttl
  by unfold_locales (auto simp: cache_get_def cache_put_def cache_clear_def)

section \<open>Lemmas\<close>

lemma cache_ttl_bounds: "cache_ttl v \<le> RECHECK_SECONDS" "0 < cache_ttl v"
  by (simp_all add: cache_ttl_def RECHECK_SECONDS_def FAILURE_RECHECK_SECONDS_def)

lemma refused_simps [simp]:
  "v_ok (refused s r m) = False" "v_attested (refused s r m) = False"
  "v_subject (refused s r m) = s" "v_reason (refused s r m) = Some r" "v_measurement (refused s r m) = m"
  by (simp_all add: refused_def)

lemma match_entries_Some:
  "match_entries es actual = Inr (Some name) \<Longrightarrow>
   \<exists>e \<in> set es. truthy (entry_field e ''mr_td'') \<and> entry_field e ''mr_td'' = actual ''mr_td''
     \<and> entry_matches e actual \<and> name = str_or (entry_name e) ''unnamed''"
proof (induction es)
  case Nil
  then show ?case by simp
next
  case (Cons e es)
  have "entry_matches e actual \<Longrightarrow> truthy (entry_field e ''mr_td'') \<Longrightarrow>
        entry_field e ''mr_td'' = actual ''mr_td''"
    by (auto simp: entry_matches_def MEASUREMENT_FIELDS_def truthy_def)
  with Cons show ?case by (auto simp: Let_def split: if_splits)
qed

lemma policy_match_Some:
  assumes "policy_match actual scope al = Inr (Some name)"
  shows "\<exists>e \<in> set (al_measurements al).
    (case scope of None \<Rightarrow> True | Some s \<Rightarrow> entry_scope e = Some s) \<and>
    truthy (entry_field e ''mr_td'') \<and> entry_matches e actual"
  using match_entries_Some [OF assms [unfolded policy_match_def]]
  by (auto simp: rows_def split: option.splits)

lemma policy_mode_dev:
  assumes "policy_mode override today al = Inr DEV_INSECURE"
  shows "al_measurements al = [] \<and> (\<exists>stated expires. al_expires al = Some stated \<and>
    fromisoformat (py_strip stated) = Some expires \<and> \<not> after today expires)"
  using assms
  by (auto simp: policy_mode_def check_dev_insecure_expiry_def rows_def REQUIRED_def DEV_INSECURE_def
      Let_def split: if_splits sum.splits option.splits)

lemma policy_mode_values: "policy_mode override today al = Inr m \<Longrightarrow> m = REQUIRED \<or> m = DEV_INSECURE"
  by (auto simp: policy_mode_def Let_def split: if_splits sum.splits)

lemma set_rejected_of: "set (rejected_of al r) = set (al_rejected al) \<inter> set (tr_advisories r)"
  by (auto simp: rejected_of_def)

lemma verify_ok_facts:
  assumes "verify dcap_qvl sha now quote al subject expected scope = Inr v" and "v_ok v"
  shows "v_attested v \<and> v_subject v = subject \<and> al_measurements al \<noteq> []"
  using assms
  by (auto simp: verify_def Let_def split: option.splits sum.splits if_splits bool.splits
      dest!: policy_match_Some)

section \<open>A concrete provisioning, for the witnesses\<close>

definition demo_dcap :: dcap where
  "demo_dcap =
     \<lparr>dcap_parse = (\<lambda>q. Inr \<lparr>pq_is_tdx = True, pq_report_data = [7, 0],
        pq_register = (\<lambda>f. if f = ''mr_td'' then Some ''aa'' else None)\<rparr>),
      dcap_collateral = (\<lambda>u q. Inr []),
      dcap_verify = (\<lambda>q c n. Inr \<lparr>tr_status = ''UpToDate'', tr_advisories = []\<rparr>)\<rparr>"

definition demo_allowlist :: allowlist where
  "demo_allowlist =
     \<lparr>al_mode = None,
      al_measurements = [\<lparr>entry_name = Some ''v1'', entry_scope = None,
        entry_field = (\<lambda>f. if f = ''mr_td'' then Some ''aa'' else None)\<rparr>],
      al_expires = None, al_tcb_status = [''UpToDate''], al_rejected = [''INTEL-SA-1''],
      al_quote_oid = Some ''1.2'', al_binding = Some ''pem-sha256'', al_pccs_url = Some ''https://pccs'', al_composes = []\<rparr>"

definition demo_verdict :: "string \<Rightarrow> verdict" where
  "demo_verdict fp =
     \<lparr>v_ok = True, v_subject = Some fp, v_reason = None, v_measurement = Some ''v1'', v_attested = True\<rparr>"

lemma demo_verify:
  "verify (Some demo_dcap) sha n (b # q) demo_allowlist (Some fp) [7] None = Inr (demo_verdict fp)"
  by (simp add: verify_def demo_dcap_def demo_allowlist_def demo_verdict_def binds_def policy_match_def
      rows_def entry_matches_def MEASUREMENT_FIELDS_def measurements_of_def truthy_def str_or_def
      fetch_collateral_def rejected_of_def Let_def)

lemma verify_ok_checks:
  assumes "verify dcap_qvl sha now quote al subject expected scope = Inr v" and "v_ok v"
  shows "v_attested v \<and> v_subject v = subject \<and> v_reason v = None \<and>
    (\<exists>d parsed e report collateral.
       dcap_qvl = Some d \<and> dcap_parse d quote = Inr parsed \<and> pq_is_tdx parsed
       \<and> expected \<noteq> []
       \<and> pq_report_data parsed
           = expected @ replicate (length (pq_report_data parsed) - length expected) 0
       \<and> e \<in> set (al_measurements al)
       \<and> (case scope of None \<Rightarrow> True | Some s \<Rightarrow> entry_scope e = Some s)
       \<and> truthy (entry_field e ''mr_td'') \<and> entry_matches e (measurements_of parsed)
       \<and> fetch_collateral d (al_pccs_url al) quote = Inr collateral
       \<and> dcap_verify d quote collateral now = Inr report
       \<and> tr_status report \<in> set (al_tcb_status al)
       \<and> set (al_rejected al) \<inter> set (tr_advisories report) = {})"
proof -
  obtain d where d: "dcap_qvl = Some d" and q: "quote \<noteq> []"
    using assms by (auto simp: verify_def split: option.splits if_splits)
  obtain parsed where p: "dcap_parse d quote = Inr parsed" and tdx: "pq_is_tdx parsed"
    using assms d q by (auto simp: verify_def split: sum.splits if_splits)
  have b: "binds (pq_report_data parsed) expected = Inr True"
    using assms d q p tdx by (auto simp: verify_def split: sum.splits bool.splits)
  obtain name where m: "policy_match (measurements_of parsed) scope al = Inr (Some name)"
    using assms d q p tdx b by (auto simp: verify_def Let_def split: sum.splits option.splits)
  obtain report collateral where c: "fetch_collateral d (al_pccs_url al) quote = Inr collateral"
    and r: "dcap_verify d quote collateral now = Inr report"
    using assms d q p tdx b m by (auto simp: verify_def Let_def split: sum.splits)
  have rest: "tr_status report \<in> set (al_tcb_status al)" "rejected_of al report = []"
    "v_attested v \<and> v_subject v = subject \<and> v_reason v = None"
    using assms d q p tdx b m c r by (auto simp: verify_def Let_def split: if_splits)
  have data: "expected \<noteq> [] \<and> pq_report_data parsed
      = expected @ replicate (length (pq_report_data parsed) - length expected) 0"
  proof -
    have *: "expected \<noteq> []" "take (length expected) (pq_report_data parsed) = expected"
      "list_all (\<lambda>b. b = 0) (drop (length expected) (pq_report_data parsed))"
      using b by (auto simp: binds_def split: if_splits)
    have "drop (length expected) (pq_report_data parsed)
        = replicate (length (pq_report_data parsed) - length expected) 0"
      using *(3) by (intro replicate_eqI) (auto simp: list_all_iff)
    then have "pq_report_data parsed
        = take (length expected) (pq_report_data parsed)
          @ replicate (length (pq_report_data parsed) - length expected) 0"
      by (metis append_take_drop_id)
    with * show ?thesis by simp
  qed
  from policy_match_Some [OF m] obtain e where "e \<in> set (al_measurements al)"
    "case scope of None \<Rightarrow> True | Some s \<Rightarrow> entry_scope e = Some s"
    "truthy (entry_field e ''mr_td'')" "entry_matches e (measurements_of parsed)" by blast
  moreover have "set (al_rejected al) \<inter> set (tr_advisories report) = {}"
    using rest(2) set_rejected_of [of al report] by simp
  ultimately show ?thesis using d p tdx c r rest data by blast
qed

text \<open>
  C2: a verdict is positive only when all five checks passed: the quote parses as TDX, its
  report data is exactly the demanded binding padded with zeroes, an entry of the allowlist
  in scope that pins \<open>mr_td\<close> matches every register, the signature chain verified against
  the fetched collateral, and the TCB status is allowed with no rejected advisory. And such
  a verdict is marked attested, names the subject asked about and no refusal reason.
\<close>

theorem verify_all_five_checks:
  assumes "verify dcap_qvl sha now quote al subject expected scope = Inr v" and "v_ok v"
  shows "v_attested v \<and> v_subject v = subject \<and> v_reason v = None \<and>
    (\<exists>d parsed e report collateral.
       dcap_qvl = Some d \<and> dcap_parse d quote = Inr parsed \<and> pq_is_tdx parsed
       \<and> expected \<noteq> []
       \<and> pq_report_data parsed
           = expected @ replicate (length (pq_report_data parsed) - length expected) 0
       \<and> e \<in> set (al_measurements al)
       \<and> (case scope of None \<Rightarrow> True | Some s \<Rightarrow> entry_scope e = Some s)
       \<and> truthy (entry_field e ''mr_td'') \<and> entry_matches e (measurements_of parsed)
       \<and> fetch_collateral d (al_pccs_url al) quote = Inr collateral
       \<and> dcap_verify d quote collateral now = Inr report
       \<and> tr_status report \<in> set (al_tcb_status al)
       \<and> set (al_rejected al) \<inter> set (tr_advisories report) = {})"
  by (rule verify_ok_checks [OF assms])

theorem verify_all_five_checks_witness:
  "v_attested (demo_verdict ''fp'') \<and> (\<exists>parsed. dcap_parse demo_dcap [1] = Inr parsed \<and> pq_is_tdx parsed)"
  using verify_all_five_checks [OF demo_verify [of "\<lambda>s. s" 0 1 "[]" "''fp''"]]
  by (auto simp: demo_verdict_def)

end
