(* ===== verification/Attest.thy ===== *)
theory Attest
  imports QuotePolicy
begin

text \<open>
  \<open>cosigner/attest.py\<close>: which verdict a client certificate gets. The X.509 parser and
  the two digests of a certificate come from the \<open>cryptography\<close> package and are
  parameters, as is the SHA-256 fingerprint. The state is the verdict cache.
\<close>

section \<open>The environment of the service\<close>

type_synonym env = "string \<Rightarrow> string option"

definition env_get :: "env \<Rightarrow> string \<Rightarrow> string" where
  "env_get e name = (case e name of None \<Rightarrow> [] | Some v \<Rightarrow> v)"

definition env_flag :: "env \<Rightarrow> string \<Rightarrow> bool" where
  "env_flag e name \<longleftrightarrow> py_strip (env_get e name) \<in> {''1'', ''true'', ''yes''}"

record cert =
  cert_extension :: "string \<Rightarrow> bytes option"
  cert_pem_sha256 :: bytes
  cert_spki_sha256 :: bytes

record attest_lib =
  al_parse_cert :: "bytes \<Rightarrow> string + cert"
  al_sha256_hex :: "bytes \<Rightarrow> string"
  al_sha256_text :: "string \<Rightarrow> string"
  al_dcap :: "dcap option"

section \<open>The mode and the deploy check\<close>

definition attest_mode :: "env \<Rightarrow> date \<Rightarrow> allowlist \<Rightarrow> allowlist_error + string" where
  "attest_mode e today al =
     (case policy_mode (e ''COSIGNER_ATTESTATION'') today al of
        Inl err \<Rightarrow> Inl err
      | Inr value \<Rightarrow>
          if value = DEV_INSECURE \<and> env_flag e ''TEE_REQUIRED'' then Inl DevInsecureUnderTee
          else Inr value)"

datatype attest_fault = ModeFault allowlist_error | NoEntries | NoOid | NoDcap

definition attest_configured ::
  "attest_lib \<Rightarrow> env \<Rightarrow> date \<Rightarrow> allowlist \<Rightarrow> attest_fault option" where
  "attest_configured lib e today al =
     (case attest_mode e today al of
        Inl err \<Rightarrow> Some (ModeFault err)
      | Inr current \<Rightarrow>
          if current = REQUIRED
          then (if entries None al = [] then Some NoEntries
                else if \<not> truthy (al_quote_oid al) then Some NoOid
                else if al_dcap lib = None then Some NoDcap else None)
          else None)"

section \<open>What a certificate carries\<close>

definition report_data_for_cert :: "allowlist \<Rightarrow> cert \<Rightarrow> allowlist_error + bytes" where
  "report_data_for_cert al c =
     (if al_binding al = Some ''pem-sha256'' then Inr (cert_pem_sha256 c)
      else if al_binding al = Some ''spki-sha256'' then Inr (cert_spki_sha256 c)
      else Inl UnknownBinding)"

definition extract_quote :: "allowlist \<Rightarrow> cert \<Rightarrow> allowlist_error + bytes option" where
  "extract_quote al c =
     (case al_quote_oid al of
        None \<Rightarrow> Inl NoQuoteOid
      | Some oid \<Rightarrow> if oid = [] then Inl NoQuoteOid else Inr (cert_extension c oid))"

section \<open>The verdict for one client\<close>

definition dev_verdict :: "string option \<Rightarrow> verdict" where
  "dev_verdict fp =
     \<lparr>v_ok = True, v_subject = fp, v_reason = Some ''attestation disabled (dev)'',
      v_measurement = None, v_attested = False\<rparr>"

definition verify_fresh ::
  "attest_lib \<Rightarrow> int \<Rightarrow> allowlist \<Rightarrow> string \<Rightarrow> bytes \<Rightarrow> allowlist_error + verdict \<times> bool" where
  "verify_fresh lib now_s al fp cert_der =
     (case al_parse_cert lib cert_der of
        Inl err \<Rightarrow> Inr (refused (Some fp) (''client certificate does not parse: '' @ err) None, False)
      | Inr c \<Rightarrow>
     (case extract_quote al c of
        Inl e \<Rightarrow> Inl e
      | Inr None \<Rightarrow> Inr (refused (Some fp) ''client certificate carries no RA-TLS quote'' None, False)
      | Inr (Some quote) \<Rightarrow>
     (if quote = [] then Inr (refused (Some fp) ''client certificate carries no RA-TLS quote'' None, False)
      else
     (case report_data_for_cert al c of
        Inl e \<Rightarrow> Inl e
      | Inr data \<Rightarrow>
     (case verify (al_dcap lib) (al_sha256_text lib) now_s quote al (Some fp) data None of
        Inl e \<Rightarrow> Inl e
      | Inr v \<Rightarrow> Inr (v, True))))))"

text \<open>
  \<open>now\<close> is the clock the cache reads, \<open>today\<close> the date the mode reads. The result pairs
  the verdict with the cache after the call; a raise leaves the cache as it was.
\<close>

definition verify_client ::
  "attest_lib \<Rightarrow> env \<Rightarrow> date \<Rightarrow> allowlist \<Rightarrow> secs \<Rightarrow> bytes \<Rightarrow> verdict_cache
   \<Rightarrow> allowlist_error + verdict \<times> verdict_cache" where
  "verify_client lib e today al now cert_der cache =
     (case attest_mode e today al of
        Inl err \<Rightarrow> Inl err
      | Inr current \<Rightarrow>
     (if cert_der = []
      then (if current = DEV_INSECURE then Inr (dev_verdict None, cache)
            else Inr (refused None ''no client certificate presented'' None, cache))
      else
     (let fp = al_sha256_hex lib cert_der
      in if current = DEV_INSECURE then Inr (dev_verdict (Some fp), cache)
      else
     (case cache_get now fp cache of
        Some v \<Rightarrow> Inr (v, cache)
      | None \<Rightarrow>
     (case verify_fresh lib \<lfloor>now\<rfloor> al fp cert_der of
        Inl err \<Rightarrow> Inl err
      | Inr (v, store) \<Rightarrow> Inr (v, if store then cache_put now fp v cache else cache))))))"

section \<open>Lemmas\<close>

lemma attest_mode_values: "attest_mode e today al = Inr m \<Longrightarrow> m = REQUIRED \<or> m = DEV_INSECURE"
  by (auto simp: attest_mode_def split: sum.splits if_splits dest: policy_mode_values)

lemma attest_mode_dev:
  "attest_mode e today al = Inr DEV_INSECURE \<Longrightarrow>
   al_measurements al = [] \<and> \<not> env_flag e ''TEE_REQUIRED''"
  by (auto simp: attest_mode_def split: sum.splits if_splits dest: policy_mode_dev)

lemma REQUIRED_not_DEV [simp]: "REQUIRED \<noteq> DEV_INSECURE" "DEV_INSECURE \<noteq> REQUIRED"
  by (simp_all add: REQUIRED_def DEV_INSECURE_def)

lemma verify_fresh_ok:
  assumes "verify_fresh lib now_s al fp der = Inr (v, store)" and "v_ok v"
  shows "store \<and> v_attested v \<and> v_subject v = Some fp \<and> al_measurements al \<noteq> []"
proof -
  obtain c q data where "verify (al_dcap lib) (al_sha256_text lib) now_s q al (Some fp) data None = Inr v"
    and "store"
    using assms by (auto simp: verify_fresh_def split: sum.splits option.splits if_splits)
  moreover from verify_ok_facts [OF this(1) assms(2)]
  have "v_attested v \<and> v_subject v = Some fp \<and> al_measurements al \<noteq> []" by auto
  ultimately show ?thesis by simp
qed

definition cache_sound :: "verdict_cache \<Rightarrow> bool" where
  "cache_sound c \<longleftrightarrow>
     (\<forall>fp v t. c fp = Some (v, t) \<longrightarrow> v_subject v = Some fp \<and> (v_ok v \<longrightarrow> v_attested v))"

lemma cache_sound_clear: "cache_sound cache_clear"
  by (simp add: cache_sound_def cache_clear_def)

lemma verify_subject: "verify d sha n q al s x sc = Inr v \<Longrightarrow> v_subject v = s"
  by (auto simp: verify_def Let_def split: option.splits sum.splits if_splits bool.splits)

lemma verify_fresh_subject:
  "verify_fresh lib now_s al fp der = Inr (v, store) \<Longrightarrow> v_subject v = Some fp"
  by (auto simp: verify_fresh_def split: sum.splits option.splits if_splits dest: verify_subject)

lemma verify_client_cache_sound:
  assumes "cache_sound cache" and "verify_client lib e today al now der cache = Inr (v, cache')"
  shows "cache_sound cache'"
proof (cases "cache' = cache")
  case True
  with assms show ?thesis by simp
next
  case False
  then have fresh: "verify_fresh lib \<lfloor>now\<rfloor> al (al_sha256_hex lib der) der = Inr (v, True)"
    and put: "cache' = cache_put now (al_sha256_hex lib der) v cache"
    using assms(2)
    by (auto simp: verify_client_def Let_def split: sum.splits if_splits option.splits prod.splits)
  have "v_subject v = Some (al_sha256_hex lib der)" by (rule verify_fresh_subject [OF fresh])
  moreover have "v_ok v \<longrightarrow> v_attested v" using verify_fresh_ok [OF fresh] by blast
  ultimately show ?thesis
    using assms(1) by (simp add: put cache_put_def cache_sound_def)
qed

definition demo_attest_lib :: attest_lib where
  "demo_attest_lib =
     \<lparr>al_parse_cert = (\<lambda>der. Inr \<lparr>cert_extension = (\<lambda>oid. Some [1]), cert_pem_sha256 = [7],
        cert_spki_sha256 = [8]\<rparr>),
      al_sha256_hex = (\<lambda>der. ''fp''), al_sha256_text = (\<lambda>s. s), al_dcap = Some demo_dcap\<rparr>"

lemma demo_allowlist_fields:
  "al_quote_oid demo_allowlist = Some ''1.2''" "al_binding demo_allowlist = Some ''pem-sha256''"
  by (simp_all add: demo_allowlist_def)

lemma demo_verify_client:
  "verify_client demo_attest_lib (\<lambda>_. None) (2026, 1, 1) demo_allowlist 0 [1] cache_clear
     = Inr (demo_verdict ''fp'', cache_put 0 ''fp'' (demo_verdict ''fp'') cache_clear)"
proof -
  have "attest_mode (\<lambda>_. None) (2026, 1, 1) demo_allowlist = Inr REQUIRED"
    by (simp add: attest_mode_def policy_mode_def str_or_def demo_allowlist_def REQUIRED_def
        DEV_INSECURE_def py_strip_def py_space_def Let_def)
  moreover have "verify_fresh demo_attest_lib 0 demo_allowlist ''fp'' [1] = Inr (demo_verdict ''fp'', True)"
    using demo_verify [of "\<lambda>s. s" 0 1 "[]" "''fp''"]
    by (simp add: verify_fresh_def demo_attest_lib_def extract_quote_def report_data_for_cert_def
        demo_allowlist_fields)
  ultimately show ?thesis
    by (simp add: verify_client_def cache_get_def cache_clear_def Let_def demo_attest_lib_def)
qed

text \<open>
  A client is accepted only if it is attested: under the \<open>required\<close> mode a positive
  verdict is a verdict of the five checks about this very certificate, taken now or
  less than a day ago; and the mode that accepts without verifying is in force only while
  the allowlist authorizes no measurement and \<open>TEE_REQUIRED\<close> is not set.
\<close>

theorem verify_client_attested:
  assumes "cache_sound cache"
    and "verify_client lib e today al now der cache = Inr (v, cache')" and "v_ok v"
  shows "(v_attested v \<and> der \<noteq> [] \<and> v_subject v = Some (al_sha256_hex lib der)
            \<and> ((\<exists>t. cache (al_sha256_hex lib der) = Some (v, t) \<and> now < t + 24 * 3600)
               \<or> verify_fresh lib \<lfloor>now\<rfloor> al (al_sha256_hex lib der) der = Inr (v, True)))
       \<or> (\<not> v_attested v \<and> attest_mode e today al = Inr DEV_INSECURE
            \<and> al_measurements al = [] \<and> \<not> env_flag e ''TEE_REQUIRED'')"
proof (cases "attest_mode e today al = Inr DEV_INSECURE")
  case True
  with assms(2) have "v = dev_verdict (if der = [] then None else Some (al_sha256_hex lib der))"
    by (auto simp: verify_client_def Let_def split: if_splits)
  then show ?thesis using attest_mode_dev [OF True] True by (simp add: dev_verdict_def)
next
  case False
  define fp where "fp = al_sha256_hex lib der"
  have der: "der \<noteq> []"
    using assms False by (auto simp: verify_client_def split: sum.splits if_splits)
  show ?thesis
  proof (cases "cache_get now fp cache")
    case None
    then obtain store where fresh: "verify_fresh lib \<lfloor>now\<rfloor> al fp der = Inr (v, store)"
      using assms False der
      by (auto simp: verify_client_def Let_def fp_def split: sum.splits if_splits prod.splits)
    from verify_fresh_ok [OF fresh assms(3)] fresh der show ?thesis by (simp add: fp_def)
  next
    case (Some w)
    then have "v = w"
      using assms False der by (auto simp: verify_client_def Let_def fp_def split: sum.splits if_splits)
    with Some obtain t where hit: "cache fp = Some (v, t)" and young: "\<not> cache_ttl v \<le> now - t"
      by (auto simp: cache_get_def split: option.splits if_splits)
    have "v_subject v = Some fp \<and> v_attested v"
      using assms(1,3) hit by (auto simp: cache_sound_def)
    moreover have "now < t + 24 * 3600"
      using young cache_ttl_bounds(1) [of v] by (simp add: RECHECK_SECONDS_def)
    ultimately show ?thesis using hit der by (auto simp: fp_def)
  qed
qed

theorem verify_client_attested_witness:
  "v_attested (demo_verdict ''fp'') \<or> attest_mode (\<lambda>_. None) (2026, 1, 1) demo_allowlist = Inr DEV_INSECURE"
  using verify_client_attested [OF cache_sound_clear demo_verify_client]
  by (auto simp: demo_verdict_def)

end
