(* ===== verification/Policy.thy ===== *)
theory Policy
  imports CosignerAudit Attest
begin

text \<open>
  \<open>cosigner/policy.py\<close>: what the co-signer will do, how often, and for whom. The state is
  the audit log, the alert throttle and the alerts sent; \<open>authorize\<close> is the one decision
  point. A limit that does not parse raises \<open>ValueError\<close> out of \<open>authorize\<close> before any
  row is written, so the decision is a sum. The lock makes a call atomic; the four readings
  of the clock a call makes are the fields of \<open>clk\<close>.
\<close>

section \<open>Limits\<close>

datatype limit_error = ValueError string

definition limit_of :: "env \<Rightarrow> string \<Rightarrow> int \<Rightarrow> limit_error + int" where
  "limit_of e name dflt =
     (let raw = py_strip (env_get e name)
      in if raw = [] then Inr dflt
         else case py_int raw of
             None \<Rightarrow> Inl (ValueError name)
           | Some value \<Rightarrow> if value \<le> 0 then Inl (ValueError name) else Inr value)"

definition DEFAULT_PER_USER_HOUR :: int where "DEFAULT_PER_USER_HOUR = 60"
definition DEFAULT_TOTAL_HOUR :: int where "DEFAULT_TOTAL_HOUR = 200"
definition DEFAULT_DISTINCT_UIDS :: int where "DEFAULT_DISTINCT_UIDS = 40"
definition DEFAULT_SIGN_HOUR :: int where "DEFAULT_SIGN_HOUR = DEFAULT_TOTAL_HOUR"
definition DEFAULT_REWRAP_HOUR :: int where "DEFAULT_REWRAP_HOUR = 500"

definition per_user_limit :: "env \<Rightarrow> limit_error + int" where
  "per_user_limit e = limit_of e ''COSIGNER_RATE_PER_USER_HOUR'' DEFAULT_PER_USER_HOUR"
definition total_limit :: "env \<Rightarrow> limit_error + int" where
  "total_limit e = limit_of e ''COSIGNER_RATE_TOTAL_HOUR'' DEFAULT_TOTAL_HOUR"
definition sign_limit :: "env \<Rightarrow> limit_error + int" where
  "sign_limit e = limit_of e ''COSIGNER_RATE_SIGN_HOUR'' DEFAULT_SIGN_HOUR"
definition rewrap_limit :: "env \<Rightarrow> limit_error + int" where
  "rewrap_limit e = limit_of e ''COSIGNER_RATE_REWRAP_HOUR'' DEFAULT_REWRAP_HOUR"
definition distinct_uid_limit :: "env \<Rightarrow> limit_error + int" where
  "distinct_uid_limit e = limit_of e ''COSIGNER_RATE_DISTINCT_UIDS'' DEFAULT_DISTINCT_UIDS"

definition WINDOW_SECONDS :: secs where "WINDOW_SECONDS = 3600"
definition DISTINCT_WINDOW_SECONDS :: secs where "DISTINCT_WINDOW_SECONDS = 900"
definition ALERT_INTERVAL :: secs where "ALERT_INTERVAL = 300"
definition SWEEP_ALERT_INTERVAL :: secs where "SWEEP_ALERT_INTERVAL = DISTINCT_WINDOW_SECONDS"

definition longest_window :: secs where
  "longest_window = max WINDOW_SECONDS DISTINCT_WINDOW_SECONDS"

section \<open>Refusals\<close>

datatype kind = KIND_DISABLED | KIND_ATTESTATION | KIND_REQUEST | KIND_RATE

record refusal =
  rf_kind :: kind
  rf_reason :: string

abbreviation Refusal :: "kind \<Rightarrow> string \<Rightarrow> refusal" where
  "Refusal k r \<equiv> \<lparr>rf_kind = k, rf_reason = r\<rparr>"

definition SWEEP_REASON :: string where
  "SWEEP_REASON = ''distinct-account ceiling reached''"

definition KEY_RELEASING :: action_arg where
  "KEY_RELEASING = Several ACTION_UNWRAP [ACTION_UNWRAP_DATA]"

record box =
  box_env :: env
  box_kill :: bool
  box_kill_path :: string

record clk =
  c_rate :: secs
  c_sweep :: secs
  c_row :: secs
  c_alert :: secs

definition disabled_reason :: "box \<Rightarrow> string option" where
  "disabled_reason b =
     (if env_flag (box_env b) ''COSIGNER_DISABLED'' then Some ''co-signer disabled by COSIGNER_DISABLED''
      else if box_kill b then Some (''co-signer disabled by kill switch at '' @ box_kill_path b)
      else None)"

definition TOKEN_ENDPOINT :: string where
  "TOKEN_ENDPOINT = ''https://oauth2.googleapis.com/token''"

definition allowed_target :: "string \<Rightarrow> string \<Rightarrow> string option" where
  "allowed_target htm htu =
     (if htm \<noteq> ''POST'' then Some (''refusing to sign a proof for method '' @ py_repr htm)
      else if htu \<noteq> TOKEN_ENDPOINT then Some (''refusing to sign a proof for '' @ py_repr htu)
      else None)"

definition wrap_once_refusal :: "string \<Rightarrow> audit_db \<Rightarrow> refusal option" where
  "wrap_once_refusal uid db =
     (if ever_granted uid ACTION_WRAP db
      then Some (Refusal KIND_REQUEST ''already wrapped for this uid'') else None)"

definition ceiling_text :: "string \<Rightarrow> nat \<Rightarrow> int \<Rightarrow> string \<Rightarrow> string" where
  "ceiling_text what n limit unit =
     what @ '' ('' @ str_nat n @ ''/'' @ str_int limit @ unit @ '')''"

definition sweep_refusal ::
  "env \<Rightarrow> clk \<Rightarrow> string \<Rightarrow> audit_db \<Rightarrow> limit_error + refusal option" where
  "sweep_refusal e c uid db =
     (let since = c_sweep c - DISTINCT_WINDOW_SECONDS
      in if granted_since since (Some KEY_RELEASING) (Some uid) db \<noteq> 0 then Inr None
         else
        (let seen = distinct_uids_since since KEY_RELEASING db
         in case distinct_uid_limit e of
              Inl err \<Rightarrow> Inl err
            | Inr limit \<Rightarrow>
                if limit \<le> int seen
                then Inr (Some (Refusal KIND_RATE
                  (ceiling_text SWEEP_REASON seen limit '' accounts in 15 minutes'')))
                else Inr None))"

definition rate_ceiling ::
  "(limit_error + int) \<Rightarrow> nat \<Rightarrow> string \<Rightarrow> limit_error + refusal option" where
  "rate_ceiling limit n what =
     (case limit of Inl err \<Rightarrow> Inl err
      | Inr l \<Rightarrow> if l \<le> int n then Inr (Some (Refusal KIND_RATE (ceiling_text what n l '' per hour'')))
                else Inr None)"

definition rate_refusal ::
  "env \<Rightarrow> clk \<Rightarrow> string \<Rightarrow> action \<Rightarrow> audit_db \<Rightarrow> limit_error + refusal option" where
  "rate_refusal e c uid action db =
     (let since = c_rate c - WINDOW_SECONDS
      in if action = ACTION_WRAP then Inr None
         else if action = ACTION_SIGN
           then rate_ceiling (sign_limit e) (granted_since since (Some (One action)) None db)
                  ''sign ceiling reached''
         else if action = ACTION_REWRAP
           then rate_ceiling (rewrap_limit e) (granted_since since (Some (One action)) None db)
                  ''rewrap ceiling reached''
         else
          (case rate_ceiling (per_user_limit e) (granted_since since (Some (One action)) (Some uid) db)
                  ''per-user rate limit reached'' of
             Inl err \<Rightarrow> Inl err
           | Inr (Some r) \<Rightarrow> Inr (Some r)
           | Inr None \<Rightarrow>
               (case sweep_refusal e c uid db of
                  Inl err \<Rightarrow> Inl err
                | Inr (Some r) \<Rightarrow> Inr (Some r)
                | Inr None \<Rightarrow>
                    rate_ceiling (total_limit e) (granted_since since (Some (One action)) None db)
                      ''aggregate ceiling reached'')))"

section \<open>Alerts\<close>

record alert =
  alert_action :: action
  alert_uid :: string
  alert_reason :: string

type_synonym alert_key = "action \<times> kind \<times> string"

record cosigner =
  cs_audit :: audit_db
  cs_last_alert :: "alert_key \<Rightarrow> secs option"
  cs_alerts :: "alert list"

definition cosigner_start :: cosigner where
  "cosigner_start = \<lparr>cs_audit = empty_db, cs_last_alert = (\<lambda>_. None), cs_alerts = []\<rparr>"

definition alert_interval :: "string \<Rightarrow> secs" where
  "alert_interval reason = (if reason = SWEEP_REASON then SWEEP_ALERT_INTERVAL else ALERT_INTERVAL)"

definition short_reason :: "string \<Rightarrow> string" where
  "short_reason r = py_strip (takeWhile (\<lambda>c. c \<noteq> CHR ''('') r)"

definition send_alert :: "secs \<Rightarrow> string \<Rightarrow> action \<Rightarrow> refusal \<Rightarrow> cosigner \<Rightarrow> cosigner" where
  "send_alert now uid action refusal s =
     (let reason = short_reason (rf_reason refusal); key = (action, rf_kind refusal, reason);
          last = (case cs_last_alert s key of None \<Rightarrow> 0 | Some t \<Rightarrow> t)
      in if now - last < alert_interval reason then s
         else s\<lparr>cs_last_alert := (cs_last_alert s)(key \<mapsto> now),
                cs_alerts := cs_alerts s @
                  [\<lparr>alert_action = action, alert_uid = (if uid = [] then ''(none)'' else uid),
                    alert_reason = rf_reason refusal\<rparr>]\<rparr>)"

section \<open>The decision\<close>

definition decide ::
  "box \<Rightarrow> clk \<Rightarrow> string \<Rightarrow> action \<Rightarrow> verdict \<Rightarrow> string option \<Rightarrow> audit_db
   \<Rightarrow> limit_error + refusal option" where
  "decide b c uid action v precheck db =
     (case disabled_reason b of
        Some d \<Rightarrow> Inr (Some (Refusal KIND_DISABLED d))
      | None \<Rightarrow>
     (if \<not> v_ok v
      then Inr (Some (Refusal KIND_ATTESTATION (str_or (v_reason v) ''attestation refused'')))
      else
     (case precheck of
        Some p \<Rightarrow> Inr (Some (Refusal KIND_REQUEST p))
      | None \<Rightarrow>
     (case (if action = ACTION_WRAP then wrap_once_refusal uid db else None) of
        Some r \<Rightarrow> Inr (Some r)
      | None \<Rightarrow> rate_refusal (box_env b) c uid action db))))"

definition authorize ::
  "box \<Rightarrow> clk \<Rightarrow> string \<Rightarrow> action \<Rightarrow> verdict \<Rightarrow> string option \<Rightarrow> cosigner
   \<Rightarrow> limit_error + refusal option \<times> cosigner" where
  "authorize b c uid action v precheck s =
     (case decide b c uid action v precheck (cs_audit s) of
        Inl err \<Rightarrow> Inl err
      | Inr r \<Rightarrow>
          (let db = audit_record uid action (case r of None \<Rightarrow> ALLOW | Some _ \<Rightarrow> DENY)
                 (map_option rf_reason r) (v_subject v) (v_measurement v) (v_attested v)
                 (c_row c) (cs_audit s);
               s' = s\<lparr>cs_audit := db\<rparr>
           in Inr (r, case r of None \<Rightarrow> s' | Some f \<Rightarrow> send_alert (c_alert c) uid action f s')))"

section \<open>Lemmas\<close>

lemma cs_audit_send_alert [simp]: "cs_audit (send_alert now uid a f s) = cs_audit s"
  by (simp add: send_alert_def Let_def)

lemma actions_of_simps [simp]:
  "set (actions_of (One a)) = {a}"
  "set (actions_of KEY_RELEASING) = {ACTION_UNWRAP, ACTION_UNWRAP_DATA}"
  by (auto simp: KEY_RELEASING_def)

lemma authorize_allow:
  assumes "authorize b c uid a v p s = Inr (None, s')"
  shows "s' = s\<lparr>cs_audit := write_decision ALLOW uid
      (a, None, v_subject v, v_measurement v, v_attested v) (c_row c) (cs_audit s)\<rparr>"
    and "decide b c uid a v p (cs_audit s) = Inr None"
  using assms by (auto simp: authorize_def write_decision_def Let_def split: sum.splits option.splits)

lemma authorize_deny:
  assumes "authorize b c uid a v p s = Inr (Some f, s')"
  shows "cs_audit s' = write_decision DENY uid
      (a, Some (rf_reason f), v_subject v, v_measurement v, v_attested v) (c_row c) (cs_audit s)"
    and "decide b c uid a v p (cs_audit s) = Inr (Some f)"
  using assms by (auto simp: authorize_def write_decision_def Let_def split: sum.splits option.splits)

lemma decide_allow:
  assumes "decide b c uid a v p db = Inr None"
  shows "disabled_reason b = None" and "v_ok v" and "p = None"
    and "a = ACTION_WRAP \<Longrightarrow> \<not> ever_granted uid ACTION_WRAP db"
    and "rate_refusal (box_env b) c uid a db = Inr None"
  using assms
  by (auto simp: decide_def wrap_once_refusal_def split: option.splits if_splits)

lemma rate_ceiling_None: "rate_ceiling limit n what = Inr None \<longleftrightarrow> (\<exists>l. limit = Inr l \<and> int n < l)"
  by (auto simp: rate_ceiling_def split: sum.splits)

definition key_action :: "action \<Rightarrow> bool" where
  "key_action a \<longleftrightarrow> a \<in> set (actions_of KEY_RELEASING)"

lemma rate_refusal_None:
  assumes "rate_refusal e c uid a db = Inr None"
  shows "a = ACTION_SIGN \<Longrightarrow> \<exists>l. sign_limit e = Inr l
           \<and> int (granted_since (c_rate c - WINDOW_SECONDS) (Some (One a)) None db) < l"
    and "a = ACTION_REWRAP \<Longrightarrow> \<exists>l. rewrap_limit e = Inr l
           \<and> int (granted_since (c_rate c - WINDOW_SECONDS) (Some (One a)) None db) < l"
    and "key_action a \<Longrightarrow> \<exists>l. per_user_limit e = Inr l
           \<and> int (granted_since (c_rate c - WINDOW_SECONDS) (Some (One a)) (Some uid) db) < l"
    and "key_action a \<Longrightarrow> \<exists>l. total_limit e = Inr l
           \<and> int (granted_since (c_rate c - WINDOW_SECONDS) (Some (One a)) None db) < l"
    and "key_action a \<Longrightarrow> sweep_refusal e c uid db = Inr None"
  using assms
  by (auto simp: rate_refusal_def Let_def rate_ceiling_None key_action_def
      split: sum.splits option.splits if_splits)

lemma sweep_refusal_None:
  assumes "sweep_refusal e c uid db = Inr None" and "distinct_uid_limit e = Inr l"
  shows "0 < granted_since (c_sweep c - DISTINCT_WINDOW_SECONDS) (Some KEY_RELEASING) (Some uid) db
    \<or> int (distinct_uids_since (c_sweep c - DISTINCT_WINDOW_SECONDS) KEY_RELEASING db) < l"
  using assms by (auto simp: sweep_refusal_def Let_def split: if_splits)

text \<open>
  every decided request leaves exactly one new row, at the end of the log, and the row
  says what the caller was told: allowed with no reason, or denied with the refusal's
  reason; with the uid, the action, and the verdict's identifiers. A request that is not
  decided (a limit that does not parse) leaves no row at all.
\<close>

theorem authorize_logs_decision:
  "case authorize b c uid a v p s of
     Inl err \<Rightarrow> decide b c uid a v p (cs_audit s) = Inl err
   | Inr (r, s') \<Rightarrow>
       decide b c uid a v p (cs_audit s) = Inr r \<and>
       recent 1 (cs_audit s') =
         [\<lparr>row_ts = c_row c, row_uid = uid, row_action = a,
           row_decision = (if r = None then ALLOW else DENY), row_reason = map_option rf_reason r,
           row_fingerprint = v_subject v, row_measurement = v_measurement v,
           row_attested = v_attested v\<rparr>] \<and>
       length (db_requests (cs_audit s')) = length (db_requests (cs_audit s)) + 1 \<and>
       butlast (db_requests (cs_audit s')) = db_requests (cs_audit s)"
  by (auto simp: authorize_def audit_record_def recent_def Let_def
      split: sum.splits option.splits)

text \<open>
  a refused request consumes no budget: no windowed count, no distinct-account count
  and no wrap-once answer differs after it, whatever it is asked about.
\<close>

theorem refusal_consumes_nothing:
  assumes "authorize b c uid a v p s = Inr (Some f, s')"
  shows "granted_since since (Some arg) who (cs_audit s') = granted_since since (Some arg) who (cs_audit s)
    \<and> distinct_uids_since since arg (cs_audit s') = distinct_uids_since since arg (cs_audit s)
    \<and> ever_granted u w (cs_audit s') = ever_granted u w (cs_audit s)"
  unfolding authorize_deny(1) [OF assms]
  by (simp add: glog.deny_keeps_counts) (simp add: write_decision_def store_simps)

text \<open>
  the order of the refusals. A request is allowed only when the box is not disabled,
  the client is attested, its shape passed, a wrap is the account's first, and no limit is
  reached; otherwise the reported kind is that of the first rule in this order that fails.
\<close>

theorem decide_order:
  assumes "decide b c uid a v p db = Inr r"
  shows "map_option rf_kind r =
     (if disabled_reason b \<noteq> None then Some KIND_DISABLED
      else if \<not> v_ok v then Some KIND_ATTESTATION
      else if p \<noteq> None \<or> (a = ACTION_WRAP \<and> ever_granted uid ACTION_WRAP db) then Some KIND_REQUEST
      else if a = ACTION_WRAP then None
      else (case rate_refusal (box_env b) c uid a db of Inr None \<Rightarrow> None | _ \<Rightarrow> Some KIND_RATE))"
proof -
  have rate: "rf_kind f = KIND_RATE" if "rate_refusal (box_env b) c uid a db = Inr (Some f)" for f
    using that
    by (auto simp: rate_refusal_def sweep_refusal_def rate_ceiling_def Let_def
        split: if_splits sum.splits option.splits)
  have wrap: "rate_refusal (box_env b) c uid ACTION_WRAP db = Inr None"
    by (simp add: rate_refusal_def Let_def)
  show ?thesis
    using assms rate wrap
    by (auto simp: decide_def wrap_once_refusal_def split: option.splits if_splits)
qed

text \<open>
  one alert per incident. A refusal that reached the operator silences every later
  refusal of the same action, kind and reason for its interval, which for the sweep rule is
  the whole window the rule reads; and nothing it silences changes the throttle.
\<close>

theorem alert_throttled:
  assumes "cs_last_alert s (a, rf_kind f, short_reason (rf_reason f)) = Some t"
    and "now < t + (if short_reason (rf_reason f) = SWEEP_REASON then 900 else 300)"
  shows "send_alert now uid a f s = s"
  using assms
  by (auto simp: send_alert_def alert_interval_def Let_def ALERT_INTERVAL_def
      SWEEP_ALERT_INTERVAL_def DISTINCT_WINDOW_SECONDS_def)

lemma takeWhile_append_stop: "\<forall>x \<in> set xs. P x \<Longrightarrow> \<not> P y \<Longrightarrow> takeWhile P (xs @ y # ys) = xs"
  by (induction xs) auto

lemma SWEEP_REASON_no_paren: "\<forall>x \<in> set (SWEEP_REASON @ '' ''). x \<noteq> CHR ''(''"
  by (simp add: SWEEP_REASON_def)

lemma short_reason_sweep:
  "short_reason (ceiling_text SWEEP_REASON n limit unit) = SWEEP_REASON"
proof -
  have "ceiling_text SWEEP_REASON n limit unit
      = (SWEEP_REASON @ '' '') @ CHR ''('' # str_nat n @ ''/'' @ str_int limit @ unit @ '')''"
    by (simp add: ceiling_text_def)
  then have "takeWhile (\<lambda>c. c \<noteq> CHR ''('') (ceiling_text SWEEP_REASON n limit unit) = SWEEP_REASON @ '' ''"
    using takeWhile_append_stop [OF SWEEP_REASON_no_paren] by simp
  moreover have "py_strip (SWEEP_REASON @ '' '') = SWEEP_REASON"
    by (simp add: SWEEP_REASON_def py_strip_def py_space_def Let_def)
  ultimately show ?thesis by (simp add: short_reason_def)
qed

section \<open>Witnesses\<close>

definition demo_box :: box where
  "demo_box = \<lparr>box_env = (\<lambda>_. None), box_kill = False, box_kill_path = ''state/DISABLED''\<rparr>"

definition demo_clk :: "secs \<Rightarrow> clk" where
  "demo_clk t = \<lparr>c_rate = t, c_sweep = t, c_row = t, c_alert = t\<rparr>"

lemma demo_limits:
  "per_user_limit (\<lambda>_. None) = Inr 60" "total_limit (\<lambda>_. None) = Inr 200" "sign_limit (\<lambda>_. None) = Inr 200"
  "rewrap_limit (\<lambda>_. None) = Inr 500" "distinct_uid_limit (\<lambda>_. None) = Inr 40"
  by (simp_all add: per_user_limit_def total_limit_def sign_limit_def rewrap_limit_def
      distinct_uid_limit_def limit_of_def env_get_def py_strip_def DEFAULT_PER_USER_HOUR_def
      DEFAULT_TOTAL_HOUR_def DEFAULT_SIGN_HOUR_def DEFAULT_REWRAP_HOUR_def DEFAULT_DISTINCT_UIDS_def)

lemma demo_disabled: "disabled_reason demo_box = None"
  by (simp add: disabled_reason_def demo_box_def env_flag_def env_get_def py_strip_def)

lemma demo_authorize:
  "authorize demo_box (demo_clk t) ''u'' ACTION_UNWRAP (demo_verdict ''fp'') None cosigner_start
     = Inr (None, cosigner_start\<lparr>cs_audit := write_decision ALLOW ''u''
         (ACTION_UNWRAP, None, Some ''fp'', Some ''v1'', True) t empty_db\<rparr>)"
proof -
  have "granted_since since (Some arg) who empty_db = 0" and "distinct_uids_since since arg empty_db = 0"
    for since arg who
    by (simp_all add: window_simps granted_rows_def empty_db_def)
  then have "decide demo_box (demo_clk t) ''u'' ACTION_UNWRAP (demo_verdict ''fp'') None empty_db = Inr None"
    by (simp add: decide_def demo_disabled demo_verdict_def rate_refusal_def rate_ceiling_def
        sweep_refusal_def Let_def demo_limits demo_box_def [THEN arg_cong [where f = box_env]])
  then show ?thesis
    by (simp add: authorize_def cosigner_start_def write_decision_def demo_verdict_def demo_clk_def Let_def)
qed

lemma demo_refusal:
  "authorize demo_box (demo_clk 400) ''u'' ACTION_UNWRAP (refused None ''no client certificate presented'' None)
      None cosigner_start
   = Inr (Some (Refusal KIND_ATTESTATION ''no client certificate presented''),
       send_alert 400 ''u'' ACTION_UNWRAP (Refusal KIND_ATTESTATION ''no client certificate presented'')
         (cosigner_start\<lparr>cs_audit := write_decision DENY ''u''
            (ACTION_UNWRAP, Some ''no client certificate presented'', None, None, False) 400 empty_db\<rparr>))"
  by (simp add: authorize_def decide_def demo_disabled str_or_def cosigner_start_def write_decision_def
      demo_clk_def Let_def)

theorem refusal_consumes_nothing_witness:
  "\<exists>s'. authorize demo_box (demo_clk 400) ''u'' ACTION_UNWRAP
        (refused None ''no client certificate presented'' None) None cosigner_start
      = Inr (Some (Refusal KIND_ATTESTATION ''no client certificate presented''), s')
    \<and> granted_since 0 (Some KEY_RELEASING) None (cs_audit s')
        = granted_since 0 (Some KEY_RELEASING) None (cs_audit cosigner_start)"
  using demo_refusal refusal_consumes_nothing [OF demo_refusal, of 0 KEY_RELEASING None] by blast

theorem decide_order_witness:
  "map_option rf_kind (wrap_once_refusal ''u''
     (write_decision ALLOW ''u'' (ACTION_WRAP, None, None, None, True) 1 empty_db)) = Some KIND_REQUEST"
proof -
  let ?db = "write_decision ALLOW ''u'' (ACTION_WRAP, None, None, None, True) 1 empty_db"
  have g: "ever_granted ''u'' ACTION_WRAP ?db" by (simp add: write_decision_def store_simps)
  then have "decide demo_box (demo_clk 9) ''u'' ACTION_WRAP (demo_verdict ''fp'') None ?db
      = Inr (wrap_once_refusal ''u'' ?db)"
    by (simp add: decide_def demo_disabled demo_verdict_def wrap_once_refusal_def)
  from decide_order [OF this] g show ?thesis by (simp add: demo_disabled demo_verdict_def)
qed

theorem alert_throttled_witness:
  "send_alert 500 ''u'' ACTION_SIGN (Refusal KIND_RATE ''x'')
     (cosigner_start\<lparr>cs_last_alert := [(ACTION_SIGN, KIND_RATE, ''x'') \<mapsto> 400]\<rparr>)
   = cosigner_start\<lparr>cs_last_alert := [(ACTION_SIGN, KIND_RATE, ''x'') \<mapsto> 400]\<rparr>"
  by (rule alert_throttled [where t = 400])
     (simp_all add: short_reason_def py_strip_def py_space_def SWEEP_REASON_def Let_def)

end
