(* ===== verification/Retention.thy ===== *)
theory Retention
  imports Policy
begin

text \<open>
  \<open>cosigner/retention.py\<close>: the only thing that deletes a row of the log. A prune is two
  deletions by age, one per decision, in one transaction; the vacuum that follows changes
  no row. The assertions that guard it compare constants with the limiter's longest window.
\<close>

definition DAY :: secs where "DAY = 86400"
definition ALLOW_RETENTION_SECONDS :: secs where "ALLOW_RETENTION_SECONDS = 30 * DAY"
definition DENY_RETENTION_SECONDS :: secs where "DENY_RETENTION_SECONDS = 365 * DAY"

datatype prune_error = RetentionBelowWindow | DenialsKeptShorter

definition cutoffs :: "secs \<Rightarrow> secs \<times> secs" where
  "cutoffs now = (now - ALLOW_RETENTION_SECONDS, now - DENY_RETENTION_SECONDS)"

definition delete_older :: "decision \<Rightarrow> secs \<Rightarrow> audit_db \<Rightarrow> nat \<times> audit_db" where
  "delete_older d cutoff db =
     (length (filter (\<lambda>r. row_decision r = d \<and> row_ts r < cutoff) (db_requests db)),
      db\<lparr>db_requests := filter (\<lambda>r. \<not> (row_decision r = d \<and> row_ts r < cutoff)) (db_requests db)\<rparr>)"

definition prune :: "secs \<Rightarrow> audit_db \<Rightarrow> prune_error + (nat \<times> nat) \<times> audit_db" where
  "prune now db =
     (if \<not> longest_window < ALLOW_RETENTION_SECONDS then Inl RetentionBelowWindow
      else if DENY_RETENTION_SECONDS < ALLOW_RETENTION_SECONDS then Inl DenialsKeptShorter
      else
       (let (allow_cutoff, deny_cutoff) = cutoffs now;
            (allowed, db1) = delete_older ALLOW allow_cutoff db;
            (denied, db2) = delete_older DENY deny_cutoff db1
        in Inr ((allowed, denied), db2)))"

definition kept :: "secs \<Rightarrow> request_row \<Rightarrow> bool" where
  "kept now r \<longleftrightarrow>
     (if row_decision r = ALLOW then now - ALLOW_RETENTION_SECONDS \<le> row_ts r
      else now - DENY_RETENTION_SECONDS \<le> row_ts r)"

lemma retention_exceeds_window:
  "longest_window < ALLOW_RETENTION_SECONDS" "ALLOW_RETENTION_SECONDS \<le> DENY_RETENTION_SECONDS"
  by (simp_all add: longest_window_def WINDOW_SECONDS_def DISTINCT_WINDOW_SECONDS_def
      ALLOW_RETENTION_SECONDS_def DENY_RETENTION_SECONDS_def DAY_def)

lemma kept_filter:
  "(\<not> (row_decision r = ALLOW \<and> row_ts r < now - ALLOW_RETENTION_SECONDS)
     \<and> \<not> (row_decision r = DENY \<and> row_ts r < now - DENY_RETENTION_SECONDS)) \<longleftrightarrow> kept now r"
  by (cases "row_decision r") (auto simp: kept_def)

lemma prune_result:
  "\<exists>allowed denied db'. prune now db = Inr ((allowed, denied), db')
     \<and> db_requests db' = filter (kept now) (db_requests db) \<and> db_grants db' = db_grants db
     \<and> allowed + denied + length (db_requests db') = length (db_requests db)"
proof -
  let ?a = "\<lambda>r. row_decision r = ALLOW \<and> row_ts r < now - ALLOW_RETENTION_SECONDS"
  let ?d = "\<lambda>r. row_decision r = DENY \<and> row_ts r < now - DENY_RETENTION_SECONDS"
  have fd: "filter ?d (filter (\<lambda>r. \<not> ?a r) xs) = filter ?d xs" for xs
    by (rule filter_filter_same) auto
  have ff: "filter (\<lambda>r. \<not> ?d r) (filter (\<lambda>r. \<not> ?a r) xs) = filter (kept now) xs" for xs
    unfolding filter_filter by (rule filter_cong) (simp_all only: kept_filter conj_commute)
  have len: "length (filter ?a xs) + length (filter ?d xs) + length (filter (kept now) xs) = length xs" for xs
    by (induction xs) (auto simp: kept_filter [symmetric])
  have "prune now db = Inr ((length (filter ?a (db_requests db)),
        length (filter ?d (filter (\<lambda>r. \<not> ?a r) (db_requests db)))),
      db\<lparr>db_requests := filter (\<lambda>r. \<not> ?d r) (filter (\<lambda>r. \<not> ?a r) (db_requests db))\<rparr>)"
    using retention_exceeds_window
    by (simp add: prune_def cutoffs_def delete_older_def del: filter_filter)
  then have "prune now db = Inr ((length (filter ?a (db_requests db)), length (filter ?d (db_requests db))),
      db\<lparr>db_requests := filter (kept now) (db_requests db)\<rparr>)"
    unfolding fd ff .
  then show ?thesis using len [of "db_requests db"] by simp
qed

text \<open>
  a prune never raises, and removes exactly the aged rows: the log keeps, in order,
  every grant younger than 30 days and every denial younger than 365, the grants table is
  untouched, and the two numbers returned add up to the rows that went.
\<close>

theorem prune_exact:
  "\<exists>allowed denied db'. prune now db = Inr ((allowed, denied), db')
     \<and> db_requests db' = filter (kept now) (db_requests db)
     \<and> db_grants db' = db_grants db
     \<and> allowed + denied + length (db_requests db') = length (db_requests db)"
  using prune_result [of now db] by auto

definition pruned :: "secs \<Rightarrow> audit_db \<Rightarrow> audit_db" where
  "pruned now db = (case prune now db of Inl _ \<Rightarrow> db | Inr (_, db') \<Rightarrow> db')"

lemma pruned_simps:
  "db_requests (pruned now db) = filter (kept now) (db_requests db)"
  "db_grants (pruned now db) = db_grants db"
  using prune_result [of now db] by (auto simp: pruned_def)

lemma ever_granted_pruned [store_simps]: "ever_granted u a (pruned now db) = ever_granted u a db"
  by (simp add: ever_granted_def pruned_simps)

lemma granted_rows_pruned:
  "granted_rows arg (pruned now db)
     = filter (\<lambda>r. now - ALLOW_RETENTION_SECONDS \<le> row_ts r) (granted_rows arg db)"
  by (auto simp: granted_rows_def pruned_simps kept_def intro!: filter_cong)

lemma grant_pairs_pruned:
  "grant_pairs arg (pruned now db)
     = filter (\<lambda>e. now - ALLOW_RETENTION_SECONDS \<le> snd e) (grant_pairs arg db)"
  by (simp add: grant_pairs_def granted_rows_pruned filter_map o_def)

lemma counts_pruned:
  assumes "now - ALLOW_RETENTION_SECONDS \<le> since"
  shows "granted_since since (Some arg) who (pruned now db) = granted_since since (Some arg) who db"
    and "distinct_uids_since since arg (pruned now db) = distinct_uids_since since arg db"
proof -
  show "granted_since since (Some arg) who (pruned now db) = granted_since since (Some arg) who db"
    unfolding window_simps granted_rows_pruned
    by (subst filter_filter_same) (use assms in auto)
  show "distinct_uids_since since arg (pruned now db) = distinct_uids_since since arg db"
    unfolding window_simps granted_rows_pruned
    by (rule arg_cong[where f = card]) (use assms in force)
qed

lemma decide_pruned:
  assumes "now \<le> c_rate c" and "now \<le> c_sweep c"
  shows "decide b c uid a v p (pruned now db) = decide b c uid a v p db"
proof -
  have "now - ALLOW_RETENTION_SECONDS \<le> c_rate c - WINDOW_SECONDS"
    "now - ALLOW_RETENTION_SECONDS \<le> c_sweep c - DISTINCT_WINDOW_SECONDS"
    using assms retention_exceeds_window(1) by (simp_all add: longest_window_def)
  then have "rate_refusal (box_env b) c uid a (pruned now db) = rate_refusal (box_env b) c uid a db"
    by (simp add: rate_refusal_def sweep_refusal_def counts_pruned Let_def
        cong: sum.case_cong option.case_cong)
  moreover have "wrap_once_refusal uid (pruned now db) = wrap_once_refusal uid db"
    by (simp add: wrap_once_refusal_def store_simps)
  ultimately show ?thesis by (simp add: decide_def cong: option.case_cong)
qed

text \<open>
  C32: a prune changes no answer the co-signer gives afterwards: whatever request arrives at
  the time of the prune or later, on whatever box, is decided exactly as it would have been
  on the full log.
\<close>

theorem prune_keeps_every_decision:
  assumes "prune now db = Inr (counts, db')" and "now \<le> c_rate c" and "now \<le> c_sweep c"
  shows "decide b c uid a v p db' = decide b c uid a v p db"
proof -
  have "db' = pruned now db" using assms(1) by (simp add: pruned_def)
  with decide_pruned [OF assms(2,3)] show ?thesis by simp
qed

theorem prune_keeps_every_decision_witness:
  "decide demo_box (demo_clk 9) ''u'' ACTION_UNWRAP (demo_verdict ''fp'') None (pruned 5 empty_db)
     = decide demo_box (demo_clk 9) ''u'' ACTION_UNWRAP (demo_verdict ''fp'') None empty_db"
proof -
  obtain counts where "prune 5 empty_db = Inr (counts, pruned 5 empty_db)"
    using prune_result [of 5 empty_db] by (auto simp: pruned_def)
  from prune_keeps_every_decision [OF this] show ?thesis by (simp add: demo_clk_def)
qed

end
