(* ===== verification/CosignerRun.thy ===== *)
theory CosignerRun
  imports Retention
begin

text \<open>
  The co-signer as a state machine: the histories its log can have. A step is a request
  that was decided, a prune, or a restart (the alert throttle is lost, the schema and the
  backfill run again). The clock of the service never runs backwards; requests are ordered
  by the lock. The rate rules of \<open>cosigner/policy.py\<close> then bound every window of every
  reachable log, which is what the package promises about a compromised enclave.
\<close>

definition restart :: "cosigner \<Rightarrow> cosigner" where
  "restart s = \<lparr>cs_audit = backfill (cs_audit s), cs_last_alert = (\<lambda>_. None), cs_alerts = cs_alerts s\<rparr>"

definition prune_step :: "secs \<Rightarrow> cosigner \<Rightarrow> cosigner" where
  "prune_step now s = s\<lparr>cs_audit := pruned now (cs_audit s)\<rparr>"

inductive reach :: "env \<Rightarrow> secs \<Rightarrow> cosigner \<Rightarrow> bool" for e :: env where
  reach_start: "reach e now cosigner_start"
| reach_request: "reach e now s \<Longrightarrow> box_env b = e \<Longrightarrow>
    now \<le> c_rate c \<Longrightarrow> c_rate c \<le> c_sweep c \<Longrightarrow> c_sweep c \<le> c_row c \<Longrightarrow>
    authorize b c uid a v p s = Inr (r, s') \<Longrightarrow> reach e (c_row c) s'"
| reach_prune: "reach e now s \<Longrightarrow> now \<le> t \<Longrightarrow> reach e t (prune_step t s)"
| reach_restart: "reach e now s \<Longrightarrow> now \<le> t \<Longrightarrow> reach e t (restart s)"

inductive_cases reach_request_cases: "reach e now s"

lemma grant_pairs_backfill [simp]: "grant_pairs arg (backfill db) = grant_pairs arg db"
  by (simp add: grant_pairs_def window_simps)

lemma grant_pairs_empty [simp]: "grant_pairs arg empty_db = []"
  by (simp add: grant_pairs_def granted_rows_def empty_db_def)

lemmas run_simps = restart_def prune_step_def cosigner_start_def

section \<open>Time\<close>

lemma reach_times_upto: "reach e now s \<Longrightarrow> glog.times_upto now (cs_audit s)"
proof (induction rule: reach.induct)
  case reach_start
  then show ?case by (simp add: run_simps glog.times_upto_def)
next
  case (reach_request now s b c uid a v p r s')
  have old: "glog.times_upto (c_row c) (cs_audit s)"
    using reach_request by (fastforce simp: glog.times_upto_def)
  show ?case
  proof (cases r)
    case None
    with authorize_allow(1) reach_request.hyps(6) old show ?thesis
      by (fastforce simp: glog.times_upto_def glog.rows_allow split: if_splits)
  next
    case (Some f)
    with authorize_deny(1) reach_request.hyps(6) old show ?thesis
      by (fastforce simp: glog.times_upto_def glog.rows_deny)
  qed
next
  case (reach_prune now s t)
  then show ?case by (fastforce simp: run_simps glog.times_upto_def grant_pairs_pruned)
next
  case (reach_restart now s t)
  then show ?case by (fastforce simp: run_simps glog.times_upto_def)
qed

section \<open>A bound that every grant respects is a bound of every reachable log\<close>

lemma reach_volume:
  assumes "reach e now s"
    and below: "\<And>b c uid a v p db. box_env b = e \<Longrightarrow> decide b c uid a v p db = Inr None \<Longrightarrow>
      a \<in> set (actions_of k) \<Longrightarrow> (case w of None \<Rightarrow> True | Some u \<Rightarrow> uid = u) \<Longrightarrow>
      int (granted_since (c_rate c - WINDOW_SECONDS) (Some k) w db) < limit"
    and nonneg: "0 \<le> limit"
  shows "glog.volume_bounded k w WINDOW_SECONDS limit (cs_audit s)"
  using assms(1)
proof (induction rule: reach.induct)
  case reach_start
  then show ?case using nonneg by (simp add: run_simps glog.volume_bounded_def)
next
  case (reach_request now s b c uid a v p r s')
  note IH = reach_request.IH
  show ?case
  proof (cases r)
    case (Some f)
    with authorize_deny(1) reach_request.hyps(6) IH show ?thesis
      by (simp add: glog.volume_bounded_deny)
  next
    case None
    with reach_request.hyps(6) have auth: "authorize b c uid a v p s = Inr (None, s')" by simp
    note new = authorize_allow(1) [OF auth]
    note dec = authorize_allow(2) [OF auth]
    consider (other) "a \<notin> set (actions_of k)" | (stranger) u where "w = Some u" "uid \<noteq> u"
      | (counted) "a \<in> set (actions_of k)" "case w of None \<Rightarrow> True | Some u \<Rightarrow> uid = u"
      by (cases w) auto
    then show ?thesis
    proof cases
      case other
      with IH show ?thesis by (simp add: new glog.volume_bounded_unselected)
    next
      case stranger
      with IH show ?thesis by (simp add: new glog.volume_bounded_allow_other)
    next
      case counted
      have "int (granted_since (c_rate c - WINDOW_SECONDS) (Some k) w (cs_audit s)) < limit"
        by (rule below [OF reach_request.hyps(2) dec counted])
      moreover have "c_rate c - WINDOW_SECONDS \<le> c_row c - WINDOW_SECONDS"
        using reach_request.hyps by simp
      ultimately show ?thesis using IH by (simp add: new glog.volume_bounded_allow)
    qed
  qed
next
  case (reach_prune now s t)
  then show ?case
    by (auto simp: run_simps intro: glog.volume_bounded_filter [OF _ grant_pairs_pruned])
next
  case (reach_restart now s t)
  then show ?case by (simp add: run_simps glog.volume_bounded_def)
qed

lemma reach_breadth:
  assumes "reach e now s" and limit: "distinct_uid_limit e = Inr limit" and nonneg: "0 \<le> limit"
  shows "glog.breadth_bounded KEY_RELEASING DISTINCT_WINDOW_SECONDS limit (cs_audit s)"
  using assms(1)
proof (induction rule: reach.induct)
  case reach_start
  then show ?case using nonneg by (simp add: run_simps glog.breadth_bounded_def)
next
  case (reach_request now s b c uid a v p r s')
  note IH = reach_request.IH
  show ?case
  proof (cases r)
    case (Some f)
    with authorize_deny(1) reach_request.hyps(6) IH show ?thesis
      by (simp add: glog.breadth_bounded_deny)
  next
    case None
    with reach_request.hyps(6) have auth: "authorize b c uid a v p s = Inr (None, s')" by simp
    note new = authorize_allow(1) [OF auth]
    show ?thesis
    proof (cases "key_action a")
      case False
      with IH show ?thesis
        by (simp add: new glog.breadth_bounded_unselected key_action_def)
    next
      case True
      have "sweep_refusal e c uid (cs_audit s) = Inr None"
        using rate_refusal_None(5) [OF decide_allow(5) [OF authorize_allow(2) [OF auth]] True]
          reach_request.hyps(2) by simp
      from sweep_refusal_None [OF this limit] show ?thesis
        using glog.breadth_bounded_allow [OF IH, of "c_sweep c" "c_row c" uid]
          reach_times_upto [OF reach_request.hyps(1)] reach_request.hyps
        by (fastforce simp: new glog.times_upto_def)
    qed
  qed
next
  case (reach_prune now s t)
  then show ?case
    by (auto simp: run_simps intro: glog.breadth_bounded_filter [OF _ grant_pairs_pruned])
next
  case (reach_restart now s t)
  then show ?case by (simp add: run_simps glog.breadth_bounded_def)
qed

section \<open>The windows in terms of rows\<close>

definition grants_in :: "secs \<Rightarrow> secs \<Rightarrow> action set \<Rightarrow> audit_db \<Rightarrow> request_row list" where
  "grants_in lo hi as db =
     filter (\<lambda>r. row_decision r = ALLOW \<and> row_action r \<in> as \<and> lo \<le> row_ts r \<and> row_ts r \<le> hi)
       (db_requests db)"

lemma limit_of_pos: "limit_of e n d = Inr l \<Longrightarrow> 0 < d \<Longrightarrow> 0 < l"
  by (auto simp: limit_of_def Let_def split: option.splits if_splits)

lemma limits_pos:
  "per_user_limit e = Inr l \<Longrightarrow> 0 < l" "total_limit e = Inr l \<Longrightarrow> 0 < l" "sign_limit e = Inr l \<Longrightarrow> 0 < l"
  "rewrap_limit e = Inr l \<Longrightarrow> 0 < l" "distinct_uid_limit e = Inr l \<Longrightarrow> 0 < l"
  by (auto simp: per_user_limit_def total_limit_def sign_limit_def rewrap_limit_def
      distinct_uid_limit_def DEFAULT_PER_USER_HOUR_def DEFAULT_TOTAL_HOUR_def DEFAULT_SIGN_HOUR_def
      DEFAULT_REWRAP_HOUR_def DEFAULT_DISTINCT_UIDS_def dest: limit_of_pos)

lemma volume_rows:
  assumes "glog.volume_bounded (One a) w len limit db"
  shows "int (length (filter (\<lambda>r. case w of None \<Rightarrow> True | Some u \<Rightarrow> row_uid r = u)
           (grants_in x (x + len) {a} db))) \<le> limit"
proof -
  have "filter (\<lambda>r. case w of None \<Rightarrow> True | Some u \<Rightarrow> row_uid r = u) (grants_in x (x + len) {a} db)
      = filter (\<lambda>r. x \<le> row_ts r \<and> row_ts r \<le> x + len
          \<and> (case w of None \<Rightarrow> True | Some u \<Rightarrow> row_uid r = u)) (granted_rows (One a) db)"
    by (auto simp: grants_in_def granted_rows_def intro!: filter_cong)
  with assms show ?thesis
    by (simp add: glog.volume_bounded_def grant_pairs_def filter_map o_def split_def
        cong: option.case_cong)
qed

lemma grants_in_both:
  assumes "a \<noteq> b"
  shows "length (filter q (grants_in lo hi {a, b} db)) = length (filter q (grants_in lo hi {a} db)) + length (filter q (grants_in lo hi {b} db))"
proof -
  have "length (filter q (filter (\<lambda>r. row_decision r = ALLOW \<and> row_action r \<in> {a, b} \<and> lo \<le> row_ts r \<and> row_ts r \<le> hi) rs))
      = length (filter q (filter (\<lambda>r. row_decision r = ALLOW \<and> row_action r \<in> {a} \<and> lo \<le> row_ts r \<and> row_ts r \<le> hi) rs))
      + length (filter q (filter (\<lambda>r. row_decision r = ALLOW \<and> row_action r \<in> {b} \<and> lo \<le> row_ts r \<and> row_ts r \<le> hi) rs))" for rs
    using assms by (induction rs) auto
  then show ?thesis by (simp only: grants_in_def)
qed

lemma action_ceilings:
  assumes "reach e now s" and "a = ACTION_UNWRAP \<or> a = ACTION_UNWRAP_DATA"
    and "per_user_limit e = Inr per_user" and "total_limit e = Inr overall"
  shows "int (length (filter (\<lambda>r. row_uid r = uid) (grants_in x (x + 3600) {a} (cs_audit s)))) \<le> per_user
       \<and> int (length (grants_in x (x + 3600) {a} (cs_audit s))) \<le> overall"
proof -
  have key: "key_action a" using assms(2) by (auto simp: key_action_def)
  have "glog.volume_bounded (One a) (Some uid) WINDOW_SECONDS per_user (cs_audit s)"
  proof (rule reach_volume [OF assms(1)])
    show "0 \<le> per_user" using limits_pos(1) [OF assms(3)] by simp
  next
    fix b c uid' a' v p db
    assume "box_env b = e" and "decide b c uid' a' v p db = Inr None"
      and "a' \<in> set (actions_of (One a))" and "case Some uid of None \<Rightarrow> True | Some u \<Rightarrow> uid' = u"
    then show "int (granted_since (c_rate c - WINDOW_SECONDS) (Some (One a)) (Some uid) db) < per_user"
      using rate_refusal_None(3) [OF decide_allow(5)] key assms(3) by fastforce
  qed
  moreover have "glog.volume_bounded (One a) None WINDOW_SECONDS overall (cs_audit s)"
  proof (rule reach_volume [OF assms(1)])
    show "0 \<le> overall" using limits_pos(2) [OF assms(4)] by simp
  next
    fix b c uid' a' v p db
    assume "box_env b = e" and "decide b c uid' a' v p db = Inr None"
      and "a' \<in> set (actions_of (One a))"
    then show "int (granted_since (c_rate c - WINDOW_SECONDS) (Some (One a)) None db) < overall"
      using rate_refusal_None(4) [OF decide_allow(5)] key assms(4) by fastforce
  qed
  ultimately show ?thesis
    using volume_rows [of a "Some uid" WINDOW_SECONDS per_user "cs_audit s" x]
      volume_rows [of a None WINDOW_SECONDS overall "cs_audit s" x]
    by (simp add: WINDOW_SECONDS_def)
qed

text \<open>
  C3: the volume a breach can reach. In every reachable log, whatever requests the enclave
  made and whenever the box pruned or restarted, any hour holds at most the per-user limit
  of grants of one key-releasing action for one account, and at most the total limit of
  grants of that action over all accounts. Each of the two actions is held against its own count, so
  of the releases by both endpoints together an hour holds at most twice either limit.
\<close>

theorem hourly_ceilings:
  assumes "reach e now s" and "per_user_limit e = Inr per_user" and "total_limit e = Inr overall"
  shows "(\<forall>a \<in> {ACTION_UNWRAP, ACTION_UNWRAP_DATA}.
        int (length (filter (\<lambda>r. row_uid r = uid) (grants_in x (x + 3600) {a} (cs_audit s)))) \<le> per_user
        \<and> int (length (grants_in x (x + 3600) {a} (cs_audit s))) \<le> overall)
    \<and> int (length (filter (\<lambda>r. row_uid r = uid) (grants_in x (x + 3600) {ACTION_UNWRAP, ACTION_UNWRAP_DATA} (cs_audit s)))) \<le> 2 * per_user
    \<and> int (length (grants_in x (x + 3600) {ACTION_UNWRAP, ACTION_UNWRAP_DATA} (cs_audit s))) \<le> 2 * overall"
proof -
  have one: "int (length (filter (\<lambda>r. row_uid r = uid) (grants_in x (x + 3600) {a} (cs_audit s)))) \<le> per_user
      \<and> int (length (grants_in x (x + 3600) {a} (cs_audit s))) \<le> overall"
    if "a = ACTION_UNWRAP \<or> a = ACTION_UNWRAP_DATA" for a
    by (rule action_ceilings [OF assms(1) that assms(2,3)])
  have "ACTION_UNWRAP \<noteq> ACTION_UNWRAP_DATA" by simp
  note grants_in_both [OF this, of "\<lambda>r. row_uid r = uid" x "x + 3600" "cs_audit s"]
    grants_in_both [OF this, of "\<lambda>_. True" x "x + 3600" "cs_audit s", simplified]
  with one [of ACTION_UNWRAP] one [of ACTION_UNWRAP_DATA] show ?thesis by auto
qed

text \<open>\<open>i\<close> and \<open>j\<close> releases of one account by the two endpoints at one moment, and nothing else.\<close>

definition spent :: "string \<Rightarrow> secs \<Rightarrow> nat \<Rightarrow> nat \<Rightarrow> cosigner \<Rightarrow> bool" where
  "spent uid t i j s \<longleftrightarrow> grant_pairs (One ACTION_UNWRAP) (cs_audit s) = replicate i (uid, t)
     \<and> grant_pairs (One ACTION_UNWRAP_DATA) (cs_audit s) = replicate j (uid, t)
     \<and> set (grant_pairs KEY_RELEASING (cs_audit s)) \<subseteq> {(uid, t)}"

lemma one_more:
  fixes v :: verdict
  assumes "reach e t s" and "spent uid t i j s"
    and "box_env b = e" "disabled_reason b = None" "v_ok v"
    and "per_user_limit e = Inr p" "total_limit e = Inr n" "p \<le> n" "distinct_uid_limit e = Inr d"
  shows "int i < p \<Longrightarrow> \<exists>s'. reach e t s' \<and> spent uid t (Suc i) j s'"
    and "int j < p \<Longrightarrow> \<exists>s'. reach e t s' \<and> spent uid t i (Suc j) s'"
proof -
  let ?db = "cs_audit s"
  note pairs = assms(2) [unfolded spent_def]
  have count: "granted_since (t - WINDOW_SECONDS) (Some (One ACTION_UNWRAP)) w ?db \<le> i"
    "granted_since (t - WINDOW_SECONDS) (Some (One ACTION_UNWRAP_DATA)) w ?db \<le> j" for w
    using length_filter_le [of _ "replicate i (uid, t)"] length_filter_le [of _ "replicate j (uid, t)"]
    by (simp_all add: glog.count_rows pairs)
  have sweep: "sweep_refusal e (demo_clk t) uid ?db = Inr None"
  proof (cases "grant_pairs KEY_RELEASING ?db = []")
    case True
    then have "distinct_uids_since since KEY_RELEASING ?db = 0" for since by (simp add: glog.breadth_rows)
    with limits_pos(5) [OF assms(9)] assms(9) show ?thesis by (simp add: sweep_refusal_def Let_def)
  next
    case False
    then obtain x xs where "grant_pairs KEY_RELEASING ?db = x # xs" by (cases "grant_pairs KEY_RELEASING ?db") auto
    with pairs have "granted_since (t - DISTINCT_WINDOW_SECONDS) (Some KEY_RELEASING) (Some uid) ?db \<noteq> 0"
      by (simp add: glog.count_rows DISTINCT_WINDOW_SECONDS_def)
    then show ?thesis by (simp add: sweep_refusal_def demo_clk_def)
  qed
  have allow: "\<exists>s'. reach e t s' \<and> cs_audit s' = write_decision ALLOW uid
      (a, None, v_subject v, v_measurement v, v_attested v) t ?db"
    if a: "a = ACTION_UNWRAP \<and> int i < p \<or> a = ACTION_UNWRAP_DATA \<and> int j < p" for a
  proof -
    have "int (granted_since (t - WINDOW_SECONDS) (Some (One a)) w ?db) < p" for w
      using a count [of w] by auto
    then have "rate_ceiling (per_user_limit e) (granted_since (t - WINDOW_SECONDS) (Some (One a)) w ?db) x = Inr None"
      "rate_ceiling (total_limit e) (granted_since (t - WINDOW_SECONDS) (Some (One a)) w ?db) x = Inr None" for w x
      unfolding rate_ceiling_None using assms(6-8) by (auto intro: less_le_trans)
    then have "decide b (demo_clk t) uid a v None ?db = Inr None"
      using a assms(3-5) sweep by (auto simp: decide_def rate_refusal_def Let_def demo_clk_def)
    then have "authorize b (demo_clk t) uid a v None s = Inr (None, s\<lparr>cs_audit := write_decision ALLOW uid
        (a, None, v_subject v, v_measurement v, v_attested v) t ?db\<rparr>)"
      by (simp add: authorize_def write_decision_def demo_clk_def Let_def)
    from reach_request [OF assms(1,3) _ _ _ this] show ?thesis
      by (intro exI conjI) (auto simp: demo_clk_def)
  qed
  have snoc: "replicate k x @ [x] = replicate (Suc k) x" for k and x :: "string \<times> secs"
    by (simp add: replicate_append_same)
  show "\<exists>s'. reach e t s' \<and> spent uid t (Suc i) j s'" if p: "int i < p"
  proof -
    from allow [of ACTION_UNWRAP] p obtain s' where "reach e t s'" and
      db: "cs_audit s' = write_decision ALLOW uid (ACTION_UNWRAP, None, v_subject v, v_measurement v, v_attested v) t ?db"
      by blast
    moreover have "spent uid t (Suc i) j s'"
      unfolding spent_def db glog.rows_allow using pairs by (simp add: snoc del: replicate_Suc)
    ultimately show ?thesis by blast
  qed
  show "\<exists>s'. reach e t s' \<and> spent uid t i (Suc j) s'" if p: "int j < p"
  proof -
    from allow [of ACTION_UNWRAP_DATA] p obtain s' where "reach e t s'" and
      db: "cs_audit s' = write_decision ALLOW uid (ACTION_UNWRAP_DATA, None, v_subject v, v_measurement v, v_attested v) t ?db"
      by blast
    moreover have "spent uid t i (Suc j) s'"
      unfolding spent_def db glog.rows_allow using pairs by (simp add: snoc del: replicate_Suc)
    ultimately show ?thesis by blast
  qed
qed

text \<open>
  C18: the bound is met. The comment on \<open>KEY_RELEASING\<close> asks that using both unwrap endpoints gain
  a caller nothing, but \<open>_rate_refusal\<close> counts each action on its own: on a box in service, for an
  attested caller, some reachable log holds twice the hourly limit of one account in an hour.
\<close>

theorem two_endpoints_double_a_ceiling:
  fixes v :: verdict
  assumes "box_env b = e" "disabled_reason b = None" "v_ok v"
    and "per_user_limit e = Inr p" "total_limit e = Inr n" "p \<le> n" "distinct_uid_limit e = Inr d"
  shows "\<exists>s. reach e t s
    \<and> int (length (filter (\<lambda>r. row_uid r = uid) (grants_in t (t + 3600) {ACTION_UNWRAP, ACTION_UNWRAP_DATA} (cs_audit s)))) = 2 * p"
proof -
  have start: "reach e t cosigner_start \<and> spent uid t 0 0 cosigner_start"
    by (intro conjI reach_start) (simp add: spent_def cosigner_start_def)
  have "int i \<le> p \<Longrightarrow> \<exists>s. reach e t s \<and> spent uid t i 0 s" for i
    by (induction i) (use start one_more(1) [OF _ _ assms] in \<open>fastforce+\<close>)
  from this [of "nat p"] obtain s where s: "reach e t s" "spent uid t (nat p) 0 s" using limits_pos(1) [OF assms(4)] by auto
  have "int j \<le> p \<Longrightarrow> \<exists>s. reach e t s \<and> spent uid t (nat p) j s" for j
    by (induction j) (use s one_more(2) [OF _ _ assms] in \<open>fastforce+\<close>)
  from this [of "nat p"] obtain s where s: "reach e t s" "spent uid t (nat p) (nat p) s" using limits_pos(1) [OF assms(4)] by auto
  have one: "length (filter (\<lambda>r. row_uid r = uid) (grants_in t (t + 3600) {a} (cs_audit s))) = k"
    if "grant_pairs (One a) (cs_audit s) = replicate k (uid, t)" for a k
  proof -
    have "filter (\<lambda>r. row_uid r = uid) (grants_in t (t + 3600) {a} (cs_audit s))
        = filter (\<lambda>r. t \<le> row_ts r \<and> row_ts r \<le> t + 3600 \<and> row_uid r = uid) (granted_rows (One a) (cs_audit s))"
      by (auto simp: grants_in_def granted_rows_def intro!: filter_cong)
    then have "length (filter (\<lambda>r. row_uid r = uid) (grants_in t (t + 3600) {a} (cs_audit s)))
        = length (filter (\<lambda>(u, x). t \<le> x \<and> x \<le> t + 3600 \<and> u = uid) (grant_pairs (One a) (cs_audit s)))"
      by (simp add: grant_pairs_def filter_map o_def split_def)
    then show ?thesis by (simp add: that)
  qed
  have "length (filter (\<lambda>r. row_uid r = uid) (grants_in t (t + 3600) {ACTION_UNWRAP, ACTION_UNWRAP_DATA} (cs_audit s))) = nat p + nat p"
    using s(2) one by (subst grants_in_both) (simp_all add: spent_def)
  with s(1) limits_pos(1) [OF assms(4)] show ?thesis by (intro exI [of _ s]) simp
qed

text \<open>
  C4: the breadth a breach can reach. In every reachable log any quarter of an hour holds
  unwraps, by either of the two key-releasing endpoints together, of at most
  \<open>distinct_uid_limit\<close> different accounts.
\<close>

theorem sweep_ceiling:
  assumes "reach e now s" and "distinct_uid_limit e = Inr limit"
  shows "int (card (row_uid ` set (grants_in x (x + 900) {ACTION_UNWRAP, ACTION_UNWRAP_DATA} (cs_audit s))))
    \<le> limit"
proof -
  let ?db = "cs_audit s"
  have "glog.breadth_bounded KEY_RELEASING DISTINCT_WINDOW_SECONDS limit ?db"
    using assms less_imp_le [OF limits_pos(5) [OF assms(2)]] by (rule reach_breadth)
  then have "int (card (fst ` {g \<in> set (grant_pairs KEY_RELEASING ?db). x \<le> snd g \<and> snd g \<le> x + 900})) \<le> limit"
    unfolding glog.breadth_bounded_def DISTINCT_WINDOW_SECONDS_def by blast
  moreover have "fst ` {g \<in> set (grant_pairs KEY_RELEASING ?db). x \<le> snd g \<and> snd g \<le> x + 900}
      = row_uid ` set (grants_in x (x + 900) {ACTION_UNWRAP, ACTION_UNWRAP_DATA} ?db)"
    by (force simp: grant_pairs_def granted_rows_def grants_in_def)
  ultimately show ?thesis by simp
qed

text \<open>
  the endpoints with no account to charge are metered too: any hour of a reachable log
  holds at most \<open>sign_limit\<close> bare proofs and at most \<open>rewrap_limit\<close> re-wraps.
\<close>

theorem oracle_ceilings:
  assumes "reach e now s" and "sign_limit e = Inr signs" and "rewrap_limit e = Inr rewraps"
  shows "int (length (grants_in x (x + 3600) {ACTION_SIGN} (cs_audit s))) \<le> signs
       \<and> int (length (grants_in x (x + 3600) {ACTION_REWRAP} (cs_audit s))) \<le> rewraps"
proof -
  have "glog.volume_bounded (One ACTION_SIGN) None WINDOW_SECONDS signs (cs_audit s)"
    using limits_pos(3) [OF assms(2)] assms(2)
    by (intro reach_volume [OF assms(1)]) (fastforce dest!: decide_allow(5) rate_refusal_None(1))+
  moreover have "glog.volume_bounded (One ACTION_REWRAP) None WINDOW_SECONDS rewraps (cs_audit s)"
    using limits_pos(4) [OF assms(3)] assms(3)
    by (intro reach_volume [OF assms(1)]) (fastforce dest!: decide_allow(5) rate_refusal_None(2))+
  ultimately show ?thesis
    using volume_rows [of ACTION_SIGN None WINDOW_SECONDS signs "cs_audit s" x]
      volume_rows [of ACTION_REWRAP None WINDOW_SECONDS rewraps "cs_audit s" x]
    by (simp add: WINDOW_SECONDS_def)
qed

section \<open>Wrap once, for good\<close>

text \<open>The states that can follow a state: any number of steps of the machine.\<close>

inductive later :: "cosigner \<Rightarrow> cosigner \<Rightarrow> bool" where
  later_refl: "later s s"
| later_request: "later s t \<Longrightarrow> authorize b c uid a v p t = Inr (r, u) \<Longrightarrow> later s u"
| later_prune: "later s t \<Longrightarrow> later s (prune_step now t)"
| later_restart: "later s t \<Longrightarrow> later s (restart t)"

lemma ever_granted_authorize:
  "authorize b c uid a v p s = Inr (r, s') \<Longrightarrow> ever_granted u w (cs_audit s) \<Longrightarrow> ever_granted u w (cs_audit s')"
  using authorize_allow(1) [of b c uid a v p s s'] authorize_deny(1) [of b c uid a v p s _ s']
  by (cases r) (auto simp: write_decision_def store_simps)

lemma ever_granted_later: "later s t \<Longrightarrow> ever_granted u w (cs_audit s) \<Longrightarrow> ever_granted u w (cs_audit t)"
  by (induction rule: later.induct) (auto simp: run_simps store_simps dest: ever_granted_authorize)

text \<open>
  C5: an account is wrapped once. After a wrap was allowed for a uid, no later state of the
  service, however many requests, prunes and restarts lie between, allows another: the
  request is refused, and as a malformed request when nothing ranks before it.
\<close>

theorem wrap_once:
  assumes "authorize b c uid ACTION_WRAP v p s = Inr (None, s')" and "later s' t"
  shows "\<exists>f. decide b' c' uid ACTION_WRAP v' p' (cs_audit t) = Inr (Some f)
     \<and> (disabled_reason b' = None \<and> v_ok v' \<and> p' = None
        \<longrightarrow> f = Refusal KIND_REQUEST ''already wrapped for this uid'')"
proof -
  have "ever_granted uid ACTION_WRAP (cs_audit s')"
    by (simp add: authorize_allow(1) [OF assms(1)] write_decision_def store_simps)
  then have "ever_granted uid ACTION_WRAP (cs_audit t)"
    using assms(2) by (rule ever_granted_later [rotated])
  then show ?thesis by (auto simp: decide_def wrap_once_refusal_def split: option.splits)
qed

section \<open>Witnesses\<close>

definition demo_state :: cosigner where
  "demo_state = cosigner_start\<lparr>cs_audit := write_decision ALLOW ''u''
     (ACTION_UNWRAP, None, Some ''fp'', Some ''v1'', True) 1 empty_db\<rparr>"

lemma demo_reach: "reach (\<lambda>_. None) 1 demo_state"
  using reach_request [OF reach_start [of "\<lambda>_. None" 0], of demo_box "demo_clk 1" "''u''" ACTION_UNWRAP
      "demo_verdict ''fp''" None None demo_state] demo_authorize [of 1]
  by (simp add: demo_box_def demo_clk_def demo_state_def)

lemma demo_wrap:
  "authorize demo_box (demo_clk 1) ''u'' ACTION_WRAP (demo_verdict ''fp'') None cosigner_start
     = Inr (None, cosigner_start\<lparr>cs_audit := write_decision ALLOW ''u''
         (ACTION_WRAP, None, Some ''fp'', Some ''v1'', True) 1 empty_db\<rparr>)"
  by (simp add: authorize_def decide_def disabled_reason_def demo_box_def env_flag_def env_get_def
      py_strip_def demo_verdict_def wrap_once_refusal_def rate_refusal_def cosigner_start_def
      ever_granted_def empty_db_def write_decision_def Let_def demo_clk_def)

theorem hourly_ceilings_witness:
  "int (length (filter (\<lambda>r. row_uid r = ''u'') (grants_in 0 (0 + 3600) {ACTION_UNWRAP} (cs_audit demo_state)))) \<le> 60
   \<and> int (length (grants_in 0 (0 + 3600) {ACTION_UNWRAP, ACTION_UNWRAP_DATA} (cs_audit demo_state))) \<le> 400"
  using hourly_ceilings [OF demo_reach, of 60 200 "''u''" 0] by (simp add: demo_limits)

theorem two_endpoints_double_a_ceiling_witness:
  "\<exists>s. reach (\<lambda>_. None) 7 s
     \<and> int (length (filter (\<lambda>r. row_uid r = ''u'') (grants_in 7 (7 + 3600) {ACTION_UNWRAP, ACTION_UNWRAP_DATA} (cs_audit s)))) = 120"
  using two_endpoints_double_a_ceiling [of demo_box "\<lambda>_. None" "demo_verdict ''fp''" 60 200 40 7 "''u''"] demo_disabled demo_limits
  by (simp add: demo_box_def demo_verdict_def)

theorem sweep_ceiling_witness:
  "int (card (row_uid ` set (grants_in 0 (0 + 900) {ACTION_UNWRAP, ACTION_UNWRAP_DATA} (cs_audit demo_state)))) \<le> 40"
  by (rule sweep_ceiling [OF demo_reach]) (simp add: demo_limits)

theorem oracle_ceilings_witness:
  "int (length (grants_in 0 (0 + 3600) {ACTION_SIGN} (cs_audit demo_state))) \<le> 200
   \<and> int (length (grants_in 0 (0 + 3600) {ACTION_REWRAP} (cs_audit demo_state))) \<le> 500"
  by (rule oracle_ceilings [OF demo_reach]) (simp_all add: demo_limits)

theorem wrap_once_witness:
  "\<exists>f. decide demo_box (demo_clk 9) ''u'' ACTION_WRAP (demo_verdict ''fp'') None
     (cs_audit (prune_step 5 (cosigner_start\<lparr>cs_audit := write_decision ALLOW ''u''
         (ACTION_WRAP, None, Some ''fp'', Some ''v1'', True) 1 empty_db\<rparr>))) = Inr (Some f)"
  using wrap_once [OF demo_wrap later_prune [OF later_refl], of demo_box "demo_clk 9" "demo_verdict ''fp''" None 5]
  by blast

end
