(* ===== verification/Protocol.thy ===== *)
theory Protocol
  imports Prelude "HOL-Library.Word"
begin

text \<open>
  The codec of \<open>cosigner/protocol.py\<close>: standard base64, and the strict decoder of Python
  3.11 (\<open>binascii.a2b_base64\<close> in strict mode) as the character machine it is: the
  position in the quad, the bits left over, the pads seen, whether padding has started.
\<close>

type_synonym bytes = "8 word list"

section \<open>The alphabet\<close>

definition b64_char :: "nat \<Rightarrow> char" where
  "b64_char v =
     (if v < 26 then char_of (65 + v) else if v < 52 then char_of (97 + (v - 26))
      else if v < 62 then char_of (48 + (v - 52)) else if v = 62 then CHR ''+'' else CHR ''/'')"

definition b64_val :: "char \<Rightarrow> nat option" where
  "b64_val c =
     (let n = (of_char c :: nat)
      in if 65 \<le> n \<and> n \<le> 90 then Some (n - 65)
         else if 97 \<le> n \<and> n \<le> 122 then Some (n - 97 + 26)
         else if 48 \<le> n \<and> n \<le> 57 then Some (n - 48 + 52)
         else if c = CHR ''+'' then Some 62 else if c = CHR ''/'' then Some 63 else None)"

section \<open>Encoding\<close>

fun b64 :: "bytes \<Rightarrow> string" where
  "b64 [] = []"
| "b64 [a] =
     [b64_char (unat a div 4), b64_char (unat a mod 4 * 16), CHR ''='', CHR ''='']"
| "b64 [a, b] =
     [b64_char (unat a div 4), b64_char (unat a mod 4 * 16 + unat b div 16),
      b64_char (unat b mod 16 * 4), CHR ''='']"
| "b64 (a # b # c # rest) =
     b64_char (unat a div 4) # b64_char (unat a mod 4 * 16 + unat b div 16)
     # b64_char (unat b mod 16 * 4 + unat c div 64) # b64_char (unat c mod 64) # b64 rest"

section \<open>Strict decoding\<close>

fun a2b :: "nat \<Rightarrow> nat \<Rightarrow> nat \<Rightarrow> bool \<Rightarrow> string \<Rightarrow> bytes option" where
  "a2b quad left pads started [] = (if quad = 0 then Some [] else None)"
| "a2b quad left pads started (c # cs) =
     (if c = CHR ''=''
      then (if 2 \<le> quad \<and> 4 \<le> quad + (pads + 1)
            then (if cs = [] then Some [] else None)
            else a2b quad left (if 2 \<le> quad then pads + 1 else pads) True cs)
      else (case b64_val c of
          None \<Rightarrow> None
        | Some v \<Rightarrow>
            if started then None
            else if quad = 0 then a2b 1 v 0 False cs
            else if quad = 1 then map_option (Cons (word_of_nat (left * 4 + v div 16))) (a2b 2 (v mod 16) 0 False cs)
            else if quad = 2 then map_option (Cons (word_of_nat (left * 16 + v div 4))) (a2b 3 (v mod 4) 0 False cs)
            else map_option (Cons (word_of_nat (left * 64 + v))) (a2b 0 0 0 False cs)))"

definition unb64 :: "string \<Rightarrow> bytes option" where
  "unb64 text = (if text \<noteq> [] \<and> hd text = CHR ''='' then None else a2b 0 0 0 False text)"

section \<open>Codecs\<close>

text \<open>
  What every encoding in the program promises its readers: decoding an encoding gives the
  value back. Injectivity and the uniqueness of what a decoder accepts follow once here.
\<close>

locale codec =
  fixes enc :: "'a \<Rightarrow> 'b" and dec :: "'b \<Rightarrow> 'c option" and view :: "'a \<Rightarrow> 'c" and ok :: "'a \<Rightarrow> bool"
  assumes round_trip: "ok x \<Longrightarrow> dec (enc x) = Some (view x)"
begin

lemma enc_same_view: "ok x \<Longrightarrow> ok y \<Longrightarrow> enc x = enc y \<Longrightarrow> view x = view y"
  by (metis option.inject round_trip)

lemma dec_enc_eq: "ok x \<Longrightarrow> dec (enc x) = Some v \<longleftrightarrow> v = view x"
  by (auto simp: round_trip)

end

lemma b64_val_char: "v < 64 \<Longrightarrow> b64_val (b64_char v) = Some v"
  by (auto simp: b64_val_def b64_char_def Let_def take_bit_eq_mod)

lemma b64_char_not_pad: "v < 64 \<Longrightarrow> b64_char v \<noteq> CHR ''=''"
  using b64_val_char [of v] by (auto simp: b64_val_def Let_def)

lemma byte_lt: "unat (a :: 8 word) < 256"
  using unsigned_less [of a] by simp

lemma split_at:
  fixes x t m :: nat
  assumes "t < m"
  shows "(x * m + t) div m = x" and "(x * m + t) mod m = t"
  using assms by simp_all

lemma nibbles:
  fixes b :: "8 word"
  shows "unat b div 4 < 64" "unat b div 16 < 16" "unat b div 64 < 4"
  using byte_lt [of b] by (simp_all add: less_mult_imp_div_less)

lemma byte_parts:
  fixes a b c :: "8 word"
  shows "unat a div 4 * 4 + (unat a mod 4 * 16 + unat b div 16) div 16 = unat a"
    and "(unat a mod 4 * 16 + unat b div 16) mod 16 * 16 + (unat b mod 16 * 4 + unat c div 64) div 4 = unat b"
    and "(unat b mod 16 * 4 + unat c div 64) mod 4 * 64 + unat c mod 64 = unat c"
    and "unat a div 4 * 4 + unat a mod 4 * 16 div 16 = unat a"
    and "(unat a mod 4 * 16 + unat b div 16) mod 16 * 16 + unat b mod 16 * 4 div 4 = unat b"
  by (simp_all only: split_at nibbles div_mult_mod_eq nonzero_mult_div_cancel_right
      zero_neq_numeral not_False_eq_True simp_thms)

lemma sextets:
  fixes a b c :: "8 word"
  shows "unat a div 4 < 64" "unat a mod 4 * 16 < 64" "unat a mod 4 * 16 + unat b div 16 < 64"
    "unat b mod 16 * 4 < 64" "unat b mod 16 * 4 + unat c div 64 < 64" "unat c mod 64 < 64"
proof -
  have "unat a mod 4 < 4" "unat b mod 16 < 16" by simp_all
  with nibbles [of a] nibbles [of b] nibbles [of c]
  show "unat a div 4 < 64" "unat a mod 4 * 16 < 64" "unat a mod 4 * 16 + unat b div 16 < 64"
    "unat b mod 16 * 4 < 64" "unat b mod 16 * 4 + unat c div 64 < 64" by linarith+
  show "unat c mod 64 < 64" by simp
qed

lemma word_unat_back: "word_of_nat (unat (a :: 8 word)) = a"
  by simp

text \<open>The machine on one whole quad, and on the two padded ends.\<close>

lemma a2b_quad:
  assumes "p < 64" "q < 64" "r < 64" "s < 64"
  shows "a2b 0 0 0 False (b64_char p # b64_char q # b64_char r # b64_char s # rest)
      = map_option (\<lambda>out. word_of_nat (p * 4 + q div 16) # word_of_nat (q mod 16 * 16 + r div 4)
          # word_of_nat (r mod 4 * 64 + s) # out) (a2b 0 0 0 False rest)"
  using assms by (simp add: b64_val_char b64_char_not_pad option.map_comp o_def)

lemma a2b_one_pad:
  assumes "p < 64" "q < 64" "r < 64"
  shows "a2b 0 0 0 False [b64_char p, b64_char q, b64_char r, CHR ''='']
      = Some [word_of_nat (p * 4 + q div 16), word_of_nat (q mod 16 * 16 + r div 4)]"
  using assms by (simp add: b64_val_char b64_char_not_pad)

lemma a2b_two_pads:
  assumes "p < 64" "q < 64"
  shows "a2b 0 0 0 False [b64_char p, b64_char q, CHR ''='', CHR ''='']
      = Some [word_of_nat (p * 4 + q div 16)]"
  using assms by (simp add: b64_val_char b64_char_not_pad)

lemma a2b_b64: "a2b 0 0 0 False (b64 raw) = Some raw"
proof (induction raw rule: b64.induct)
  case 1
  show ?case by simp
next
  case (2 a)
  show ?case by (simp only: b64.simps a2b_quad a2b_one_pad a2b_two_pads sextets byte_parts word_unat_back)
next
  case (3 a b)
  show ?case by (simp only: b64.simps a2b_quad a2b_one_pad a2b_two_pads sextets byte_parts word_unat_back)
next
  case (4 a b c rest)
  then show ?case
    by (simp only: b64.simps a2b_quad a2b_one_pad a2b_two_pads sextets byte_parts word_unat_back option.map)
qed

lemma b64_hd: "b64 raw \<noteq> [] \<Longrightarrow> hd (b64 raw) \<noteq> CHR ''=''"
  by (cases raw rule: b64.cases) (simp_all add: b64_char_not_pad sextets)

interpretation wire: codec b64 unb64 "\<lambda>raw. raw" "\<lambda>_. True"
  by unfold_locales (use a2b_b64 b64_hd in \<open>auto simp: unb64_def\<close>)

lemma b64_eq_Nil [simp]: "b64 raw = [] \<longleftrightarrow> raw = []"
  by (cases raw rule: b64.cases) simp_all

lemma b64_chars: "c \<in> set (b64 raw) \<Longrightarrow> c = CHR ''='' \<or> (\<exists>n. b64_val c = Some n)"
  by (induction raw rule: b64.induct) (auto simp: b64_val_char sextets)

lemma b64_no_space: "c \<in> set (b64 raw) \<Longrightarrow> \<not> py_space c"
  by (drule b64_chars) (auto simp: b64_val_def py_space_def Let_def split: if_splits)

lemma py_strip_b64 [simp]: "py_strip (b64 raw) = b64 raw"
  using b64_no_space py_strip_no_space by blast

text \<open>
  the wire codec loses nothing: the strict decoder accepts every encoding and gives
  back the bytes, so two byte strings with one encoding are equal.
\<close>

theorem b64_round_trip: "unb64 (b64 raw) = Some raw \<and> (b64 raw = b64 raw' \<longleftrightarrow> raw = raw')"
  using wire.round_trip wire.enc_same_view by auto

end
