(* ===== verification/Crypto.thy ===== *)
theory Crypto
  imports Protocol
begin

text \<open>
  The third-party primitives both boxes use, as parameters: an AEAD (\<open>AESGCM\<close> of the
  \<open>cryptography\<close> package; a tag failure is None) and a key derivation (HKDF-SHA256). The
  two hypotheses the theorems name are what the package documents: decryption inverts
  encryption under the same key, nonce and associated data, and anything else fails.
\<close>

record crypto =
  aead_enc :: "bytes \<Rightarrow> bytes \<Rightarrow> string \<Rightarrow> bytes \<Rightarrow> bytes"
  aead_dec :: "bytes \<Rightarrow> bytes \<Rightarrow> string \<Rightarrow> bytes \<Rightarrow> bytes option"
  kdf :: "string \<Rightarrow> string \<Rightarrow> bytes \<Rightarrow> bytes"

definition aead_inverts :: "crypto \<Rightarrow> bool" where
  "aead_inverts C \<longleftrightarrow>
     (\<forall>k n a p. aead_dec C k n a (aead_enc C k n a p) = Some p \<and> length p + 16 \<le> length (aead_enc C k n a p))"

definition aead_binds :: "crypto \<Rightarrow> bool" where
  "aead_binds C \<longleftrightarrow>
     (\<forall>k n a k' n' a' p. (k, n, a) \<noteq> (k', n', a') \<longrightarrow> aead_dec C k n a (aead_enc C k' n' a' p) = None)"

section \<open>A concrete instance, for the witnesses\<close>

text \<open>
  A length-prefixed frame of everything the ciphertext is bound to, followed by the
  plaintext: decryption checks the frame. It hides nothing; it has the two laws.
\<close>

definition frame :: "bytes \<Rightarrow> bytes" where
  "frame x = replicate (length x) 1 @ 0 # x"

definition bytes_of :: "string \<Rightarrow> bytes" where
  "bytes_of s = map (\<lambda>c. word_of_nat (of_char c)) s"

definition demo_header :: "bytes \<Rightarrow> bytes \<Rightarrow> string \<Rightarrow> bytes" where
  "demo_header k n a = frame k @ frame n @ frame (bytes_of a) @ replicate 16 0"

definition demo_crypto :: crypto where
  "demo_crypto =
     \<lparr>aead_enc = (\<lambda>k n a p. demo_header k n a @ p),
      aead_dec = (\<lambda>k n a c. if take (length (demo_header k n a)) c = demo_header k n a
                            then Some (drop (length (demo_header k n a)) c) else None),
      kdf = (\<lambda>salt info ikm. bytes_of salt @ ikm)\<rparr>"

lemma replicate_stop:
  "replicate m x @ y # xs = replicate n x @ y # ys \<Longrightarrow> x \<noteq> y \<Longrightarrow> m = n \<and> xs = ys"
proof (induction m arbitrary: n)
  case 0
  then show ?case by (cases n) auto
next
  case (Suc m)
  then show ?case by (cases n) auto
qed

lemma frame_prefix: "frame x @ xs = frame y @ ys \<Longrightarrow> x = y \<and> xs = ys"
proof -
  assume "frame x @ xs = frame y @ ys"
  then have "replicate (length x) 1 @ (0 :: 8 word) # (x @ xs) = replicate (length y) 1 @ 0 # (y @ ys)"
    by (simp add: frame_def)
  from replicate_stop [OF this] show ?thesis by auto
qed

lemma bytes_of_inject: "bytes_of a = bytes_of b \<longleftrightarrow> a = b"
proof -
  have "inj (\<lambda>c. word_of_nat (of_char c) :: 8 word)"
  proof (rule injI)
    fix c d :: char
    assume "(word_of_nat (of_char c) :: 8 word) = word_of_nat (of_char d)"
    then have "take_bit 8 (of_char c :: nat) = take_bit 8 (of_char d)"
      by (simp add: word_of_nat_eq_iff)
    then show "c = d" by (simp add: take_bit_eq_mod)
  qed
  then show ?thesis unfolding bytes_of_def by (simp add: inj_map_eq_map)
qed

lemma demo_header_prefix:
  "demo_header k n a @ p = demo_header k' n' a' @ q \<Longrightarrow> k = k' \<and> n = n' \<and> a = a'"
  unfolding demo_header_def append_assoc
  by (auto dest!: frame_prefix simp: bytes_of_inject)

lemma demo_crypto_laws: "aead_inverts demo_crypto" "aead_binds demo_crypto"
proof -
  show "aead_inverts demo_crypto"
    by (simp add: aead_inverts_def demo_crypto_def demo_header_def)
  show "aead_binds demo_crypto"
    unfolding aead_binds_def
  proof (intro allI impI)
    fix k n k' n' p :: bytes and a a' :: string
    assume ne: "(k, n, a) \<noteq> (k', n', a')"
    have "take (length (demo_header k n a)) (demo_header k' n' a' @ p) \<noteq> demo_header k n a"
    proof
      assume "take (length (demo_header k n a)) (demo_header k' n' a' @ p) = demo_header k n a"
      then have "demo_header k n a @ drop (length (demo_header k n a)) (demo_header k' n' a' @ p)
          = demo_header k' n' a' @ p"
        by (metis append_take_drop_id)
      from demo_header_prefix [OF this] ne show False by simp
    qed
    then show "aead_dec demo_crypto k n a (aead_enc demo_crypto k' n' a' p) = None"
      by (simp add: demo_crypto_def)
  qed
qed

end
