(* ===== verification/Keys.thy ===== *)
theory Keys
  imports Crypto Attest
begin

text \<open>
  \<open>cosigner/keys.py\<close>: the outer wrapping keys and the DPoP key. Credentials are files of
  the directory the environment names; a process reads each once, and they do not change
  while it runs, so the cache is not part of the state. \<open>KEY_VERSION\<close> is a field of the
  key store, because a rotation bumps it. Random nonces are arguments.
\<close>

datatype key_error = NotConfigured string | RecordInvalid string | InvalidTag | KeyAssertion string

record keystore =
  ks_env :: env
  ks_files :: "string \<Rightarrow> string \<Rightarrow> string option"
  ks_version :: nat

definition MASTER_NAME :: string where "MASTER_NAME = ''cosigner-master''"
definition DPOP_NAME :: string where "DPOP_NAME = ''cosigner-dpop''"
definition MASTER_BYTES :: nat where "MASTER_BYTES = 32"
definition NONCE_BYTES :: nat where "NONCE_BYTES = 12"
definition FIRST_VERSION :: nat where "FIRST_VERSION = 1"
definition MAX_VERSION :: nat where "MAX_VERSION = 255"

section \<open>Reading a credential\<close>

definition credentials_dir :: "keystore \<Rightarrow> key_error + string" where
  "credentials_dir ks =
     (let raw = str_or (ks_env ks ''COSIGNER_CREDENTIALS_DIR'') (env_get (ks_env ks) ''CREDENTIALS_DIRECTORY'')
      in if raw = [] then Inl (NotConfigured ''no CREDENTIALS_DIRECTORY'') else Inr raw)"

definition read_credential :: "keystore \<Rightarrow> string \<Rightarrow> key_error + string" where
  "read_credential ks name =
     (case credentials_dir ks of
        Inl e \<Rightarrow> Inl e
      | Inr dir \<Rightarrow>
     (case ks_files ks dir name of
        None \<Rightarrow> Inl (NotConfigured (''credential '' @ name @ '' not found at '' @ dir @ ''/'' @ name))
      | Some raw \<Rightarrow>
          if py_strip raw = []
          then Inl (NotConfigured (''credential '' @ name @ '' at '' @ dir @ ''/'' @ name @ '' is empty''))
          else Inr raw))"

section \<open>Key versions\<close>

definition current_version :: "keystore \<Rightarrow> nat option \<Rightarrow> key_error + nat" where
  "current_version ks version =
     (let v = (case version of None \<Rightarrow> ks_version ks | Some v \<Rightarrow> v)
      in if FIRST_VERSION \<le> v \<and> v \<le> MAX_VERSION then Inr v
         else Inl (RecordInvalid (''key version '' @ str_nat v @ '' is outside 1..255'')))"

definition master_name :: "keystore \<Rightarrow> nat option \<Rightarrow> key_error + string" where
  "master_name ks version =
     (case current_version ks version of
        Inl e \<Rightarrow> Inl e
      | Inr v \<Rightarrow> Inr (if v = FIRST_VERSION then MASTER_NAME else MASTER_NAME @ ''-v'' @ str_nat v))"

definition master_key :: "keystore \<Rightarrow> nat option \<Rightarrow> key_error + bytes" where
  "master_key ks version =
     (case master_name ks version of
        Inl e \<Rightarrow> Inl e
      | Inr name \<Rightarrow>
     (case read_credential ks name of
        Inl e \<Rightarrow> Inl e
      | Inr raw \<Rightarrow>
     (case unb64 (py_strip raw) of
        None \<Rightarrow> Inl (NotConfigured (name @ '' is not valid base64''))
      | Some key \<Rightarrow>
          if length key = MASTER_BYTES then Inr key
          else Inl (NotConfigured (name @ '' decodes to '' @ str_nat (length key) @ '' bytes, expected 32'')))))"

fun load_versions :: "keystore \<Rightarrow> nat list \<Rightarrow> key_error + nat list" where
  "load_versions ks [] = Inr []"
| "load_versions ks (v # vs) =
     (case master_key ks (Some v) of
        Inl (NotConfigured _) \<Rightarrow> load_versions ks vs
      | Inl e \<Rightarrow> Inl e
      | Inr _ \<Rightarrow> (case load_versions ks vs of Inl e \<Rightarrow> Inl e | Inr found \<Rightarrow> Inr (v # found)))"

definition known_versions :: "keystore \<Rightarrow> key_error + nat list" where
  "known_versions ks = load_versions ks (rev [FIRST_VERSION ..< Suc (ks_version ks)])"

definition outer_key :: "crypto \<Rightarrow> keystore \<Rightarrow> string \<Rightarrow> nat option \<Rightarrow> key_error + bytes" where
  "outer_key C ks handle version =
     (if handle = [] then Inl (KeyAssertion ''outer_key requires a non-empty handle'')
      else case current_version ks version of
          Inl e \<Rightarrow> Inl e
        | Inr v \<Rightarrow> (case master_key ks (Some v) of
              Inl e \<Rightarrow> Inl e | Inr master \<Rightarrow> Inr (kdf C handle ''outer'' master)))"

section \<open>The outer layer\<close>

definition wrap :: "crypto \<Rightarrow> keystore \<Rightarrow> bytes \<Rightarrow> string \<Rightarrow> bytes \<Rightarrow> key_error + bytes" where
  "wrap C ks nonce handle inner =
     (if handle = [] then Inl (KeyAssertion ''wrap requires a handle'')
      else if inner = [] then Inl (KeyAssertion ''wrap requires non-empty inner bytes'')
      else case current_version ks None of
          Inl e \<Rightarrow> Inl e
        | Inr version \<Rightarrow>
       (case outer_key C ks handle (Some version) of
          Inl e \<Rightarrow> Inl e
        | Inr key \<Rightarrow> Inr (word_of_nat version # nonce @ aead_enc C key nonce handle inner)))"

definition unwrap :: "crypto \<Rightarrow> keystore \<Rightarrow> string \<Rightarrow> bytes \<Rightarrow> key_error + bytes" where
  "unwrap C ks handle outer =
     (let header = 1 + NONCE_BYTES
      in if handle = [] then Inl (KeyAssertion ''unwrap requires a handle'')
         else if length outer \<le> header + 16
         then Inl (RecordInvalid (''outer too short to be a sealed record ('' @ str_nat (length outer) @ '' bytes)''))
         else
        (let version = unat (hd outer)
         in case known_versions ks of
              Inl e \<Rightarrow> Inl e
            | Inr versions \<Rightarrow>
                if version \<notin> set versions
                then Inl (RecordInvalid (''record was wrapped under outer key version '' @ str_nat version))
                else case outer_key C ks handle (Some version) of
                    Inl e \<Rightarrow> Inl e
                  | Inr key \<Rightarrow>
                     (case aead_dec C key (take NONCE_BYTES (drop 1 outer)) handle (drop header outer) of
                        None \<Rightarrow> Inl InvalidTag | Some inner \<Rightarrow> Inr inner)))"

definition rewrap :: "crypto \<Rightarrow> keystore \<Rightarrow> bytes \<Rightarrow> string \<Rightarrow> bytes \<Rightarrow> key_error + bytes" where
  "rewrap C ks nonce handle outer =
     (if handle = [] then Inl (KeyAssertion ''rewrap requires a handle'')
      else case unwrap C ks handle outer of
          Inl e \<Rightarrow> Inl e | Inr inner \<Rightarrow> wrap C ks nonce handle inner)"

section \<open>The DPoP key\<close>

text \<open>What the PEM loader and the DPoP library answer for the credential's text.\<close>

datatype pem = NotPem string | NotEc string | EcKey string

record dpop_lib =
  dl_load :: "string \<Rightarrow> pem"
  dl_proof :: "string \<Rightarrow> string \<Rightarrow> string \<Rightarrow> string option \<Rightarrow> string"
  dl_jwk :: "string \<Rightarrow> (string \<times> string) list"
  dl_jkt :: "string \<Rightarrow> string"

definition dpop_key :: "dpop_lib \<Rightarrow> keystore \<Rightarrow> key_error + string" where
  "dpop_key D ks =
     (case read_credential ks DPOP_NAME of
        Inl e \<Rightarrow> Inl e
      | Inr raw \<Rightarrow>
         (case dl_load D raw of
            NotPem err \<Rightarrow> Inl (NotConfigured (DPOP_NAME @ '' is not a PEM private key: '' @ err))
          | NotEc type \<Rightarrow> Inl (NotConfigured (DPOP_NAME @ '' is not an EC key ('' @ type @ '')''))
          | EcKey curve \<Rightarrow>
              if curve \<noteq> ''secp256r1''
              then Inl (NotConfigured (DPOP_NAME @ '' is on curve '' @ curve @ '', ES256 needs secp256r1''))
              else Inr raw))"

definition dpop_proof ::
  "dpop_lib \<Rightarrow> keystore \<Rightarrow> string \<Rightarrow> string \<Rightarrow> string option \<Rightarrow> key_error + string" where
  "dpop_proof D ks htm htu nonce =
     (if htm = [] \<or> htu = [] then Inl (KeyAssertion ''a proof needs a method and a target URI'')
      else case dpop_key D ks of Inl e \<Rightarrow> Inl e | Inr key \<Rightarrow> Inr (dl_proof D key htm htu nonce))"

definition dpop_public_jwk :: "dpop_lib \<Rightarrow> keystore \<Rightarrow> key_error + (string \<times> string) list" where
  "dpop_public_jwk D ks =
     (case dpop_key D ks of
        Inl e \<Rightarrow> Inl e
      | Inr key \<Rightarrow>
          if ''d'' \<in> fst ` set (dl_jwk D key)
          then Inl (NotConfigured ''refusing to publish a JWK carrying the private key'')
          else Inr (dl_jwk D key))"

definition dpop_jkt :: "dpop_lib \<Rightarrow> keystore \<Rightarrow> key_error + string" where
  "dpop_jkt D ks = (case dpop_key D ks of Inl e \<Rightarrow> Inl e | Inr key \<Rightarrow> Inr (dl_jkt D key))"

text \<open>None when both keys load; only \<open>NotConfigured\<close> is caught, anything else escapes.\<close>

definition keys_configured :: "dpop_lib \<Rightarrow> keystore \<Rightarrow> key_error + string option" where
  "keys_configured D ks =
     (case (case master_key ks None of Inl e \<Rightarrow> Inl e | Inr _ \<Rightarrow> dpop_key D ks) of
        Inl (NotConfigured m) \<Rightarrow> Inr (Some m)
      | Inl e \<Rightarrow> Inl e
      | Inr _ \<Rightarrow> Inr None)"

section \<open>Writing dev credentials\<close>

datatype dev_error = FileExistsError string | DevKeyError key_error

text \<open>\<open>dir\<close> is the directory before; \<open>pem\<close> and \<open>secret\<close> are freshly generated.\<close>

definition write_dev_credentials ::
  "keystore \<Rightarrow> nat option \<Rightarrow> bytes \<Rightarrow> string \<Rightarrow> (string \<Rightarrow> string option)
   \<Rightarrow> dev_error + (string \<Rightarrow> string option)" where
  "write_dev_credentials ks version secret pem dir =
     (case master_name ks version of
        Inl e \<Rightarrow> Inl (DevKeyError e)
      | Inr master \<Rightarrow>
          if dir master \<noteq> None then Inl (FileExistsError master)
          else
           (let dir1 = dir(master \<mapsto> b64 secret @ [CHR 0x0A])
            in Inr (if dir1 DPOP_NAME = None then dir1(DPOP_NAME \<mapsto> pem) else dir1)))"

section \<open>Lemmas\<close>

lemma current_version_Some [simp]:
  "current_version ks (Some v) = Inr w \<longleftrightarrow> w = v \<and> 1 \<le> v \<and> v \<le> 255"
  by (auto simp: current_version_def FIRST_VERSION_def MAX_VERSION_def)

lemma master_key_error_kind:
  "1 \<le> v \<Longrightarrow> v \<le> 255 \<Longrightarrow> master_key ks (Some v) = Inl e \<Longrightarrow> \<exists>m. e = NotConfigured m"
  by (auto simp: master_key_def master_name_def read_credential_def credentials_dir_def
      current_version_def FIRST_VERSION_def MAX_VERSION_def Let_def
      split: sum.splits option.splits if_splits)

lemma load_versions_set:
  "\<forall>v \<in> set vs. 1 \<le> v \<and> v \<le> 255 \<Longrightarrow>
   load_versions ks vs = Inr (filter (\<lambda>v. \<exists>k. master_key ks (Some v) = Inr k) vs)"
proof (induction vs)
  case Nil
  then show ?case by simp
next
  case (Cons v vs)
  then show ?case
    using master_key_error_kind [of v ks] by (cases "master_key ks (Some v)") auto
qed

lemma known_versions_eq:
  "ks_version ks \<le> 255 \<Longrightarrow>
   known_versions ks = Inr (filter (\<lambda>v. \<exists>k. master_key ks (Some v) = Inr k) (rev [1 ..< Suc (ks_version ks)]))"
  unfolding known_versions_def by (subst load_versions_set) (auto simp: FIRST_VERSION_def)

lemma wrap_Inr:
  assumes "wrap C ks nonce handle inner = Inr outer"
  obtains master where "master_key ks (Some (ks_version ks)) = Inr master"
    and "1 \<le> ks_version ks" "ks_version ks \<le> 255" "handle \<noteq> []" "inner \<noteq> []"
    and "outer = word_of_nat (ks_version ks)
           # nonce @ aead_enc C (kdf C handle ''outer'' master) nonce handle inner"
  using assms
  by (auto simp: wrap_def outer_key_def current_version_def FIRST_VERSION_def MAX_VERSION_def Let_def
      split: if_splits sum.splits)

lemma version_byte: "v \<le> 255 \<Longrightarrow> unat (word_of_nat v :: 8 word) = v"
  by (simp add: unat_of_nat take_bit_eq_mod)

lemma unwrap_of_record:
  assumes "aead_inverts C" and "length nonce = 12" and "handle \<noteq> []"
    and "1 \<le> ks_version ks" "ks_version ks \<le> 255"
    and "master_key ks (Some (ks_version ks)) = Inr master" and "inner \<noteq> []"
  shows "unwrap C ks h (word_of_nat (ks_version ks) # nonce @ aead_enc C key nonce a inner) =
    (if h = [] then Inl (KeyAssertion ''unwrap requires a handle'')
     else case aead_dec C (kdf C h ''outer'' master) nonce h (aead_enc C key nonce a inner) of
            None \<Rightarrow> Inl InvalidTag | Some p \<Rightarrow> Inr p)"
proof -
  have "length inner + 16 \<le> length (aead_enc C key nonce a inner)"
    using assms(1) by (simp add: aead_inverts_def)
  moreover have "0 < length inner" using assms(7) by simp
  ultimately have long: "\<not> length (aead_enc C key nonce a inner) + 13 \<le> 29" by linarith
  have "outer_key C ks h (Some (ks_version ks)) = Inr (kdf C h ''outer'' master)" if "h \<noteq> []"
    using that assms by (simp add: outer_key_def current_version_def FIRST_VERSION_def MAX_VERSION_def)
  then show ?thesis
    using assms long
    by (auto simp: unwrap_def NONCE_BYTES_def version_byte known_versions_eq Let_def)
qed

lemma wrap_unwrap:
  assumes "aead_inverts C" and "length nonce = 12" and "wrap C ks nonce handle inner = Inr outer"
  shows "unwrap C ks handle outer = Inr inner"
proof -
  from wrap_Inr [OF assms(3)] obtain master where
    m: "master_key ks (Some (ks_version ks)) = Inr master" "1 \<le> ks_version ks" "ks_version ks \<le> 255"
      "handle \<noteq> []" "inner \<noteq> []"
      "outer = word_of_nat (ks_version ks) # nonce @ aead_enc C (kdf C handle ''outer'' master) nonce handle inner"
    by blast
  have "aead_dec C (kdf C handle ''outer'' master) nonce handle
      (aead_enc C (kdf C handle ''outer'' master) nonce handle inner) = Some inner"
    using assms(1) by (simp add: aead_inverts_def)
  then show ?thesis
    using unwrap_of_record [OF assms(1,2) m(4,2,3,1,5)] m(4,6) by simp
qed

lemma wrap_other_handle:
  assumes "aead_inverts C" and "aead_binds C" and "length nonce = 12"
    and "wrap C ks nonce handle inner = Inr outer" and "other \<noteq> handle"
  shows "\<exists>e. unwrap C ks other outer = Inl e"
proof -
  from wrap_Inr [OF assms(4)] obtain master where
    m: "master_key ks (Some (ks_version ks)) = Inr master" "1 \<le> ks_version ks" "ks_version ks \<le> 255"
      "handle \<noteq> []" "inner \<noteq> []"
      "outer = word_of_nat (ks_version ks) # nonce @ aead_enc C (kdf C handle ''outer'' master) nonce handle inner"
    by blast
  have "aead_dec C (kdf C other ''outer'' master) nonce other
      (aead_enc C (kdf C handle ''outer'' master) nonce handle inner) = None"
    using assms(2,5) by (simp add: aead_binds_def)
  then show ?thesis
    using unwrap_of_record [OF assms(1,3) m(4,2,3,1,5), of other] m(6) by auto
qed

lemma wrap_version_byte:
  assumes "wrap C ks nonce handle inner = Inr outer"
  shows "unat (hd outer) = ks_version ks"
  using wrap_Inr [OF assms] by (metis list.sel(1) version_byte)

text \<open>
  the outer layer is invertible by this box and by the right account only: what
  \<open>wrap\<close> produced opens to the same bytes under the handle it was made for, is stamped
  with the version its key was derived from, and does not open under any other handle.
\<close>

theorem wrap_opens_for_its_handle:
  assumes "aead_inverts C" and "aead_binds C" and "length nonce = 12"
    and "wrap C ks nonce handle inner = Inr outer"
  shows "unwrap C ks handle outer = Inr inner \<and> unat (hd outer) = ks_version ks
    \<and> (other \<noteq> handle \<longrightarrow> (\<exists>e. unwrap C ks other outer = Inl e))"
  using wrap_unwrap [OF assms(1,3,4)] wrap_version_byte [OF assms(4)] wrap_other_handle [OF assms] by blast

text \<open>
  a rotation step is blind and loses nothing: a record that opens is moved to the
  current version, and the moved record opens to the same inner ciphertext.
\<close>

theorem rewrap_moves_to_current:
  assumes "aead_inverts C" and "length nonce = 12" and "unwrap C ks handle outer = Inr inner"
    and "inner \<noteq> []" and "master_key ks (Some (ks_version ks)) = Inr master"
  shows "\<exists>outer'. rewrap C ks nonce handle outer = Inr outer' \<and> unat (hd outer') = ks_version ks
    \<and> unwrap C ks handle outer' = Inr inner"
proof -
  have range: "1 \<le> ks_version ks" "ks_version ks \<le> 255"
    using assms(5) by (auto simp: master_key_def master_name_def split: sum.splits)
  have handle: "handle \<noteq> []" using assms(3) by (auto simp: unwrap_def)
  obtain outer' where w: "wrap C ks nonce handle inner = Inr outer'"
    using range handle assms(4,5)
    by (auto simp: wrap_def outer_key_def current_version_def FIRST_VERSION_def MAX_VERSION_def)
  moreover have "unat (hd outer') = ks_version ks"
    using wrap_Inr [OF w] by (metis list.sel(1) version_byte)
  ultimately show ?thesis
    using wrap_unwrap [OF assms(1,2) w] assms(3) handle by (simp add: rewrap_def)
qed

text \<open>
  retiring a key fails closed: once the credential of a version cannot be loaded, or
  the version is newer than the box's own, no record that names it opens or is re-wrapped,
  for any handle, whatever the ciphertext.
\<close>

theorem retired_version_fails_closed:
  assumes "ks_version ks \<le> 255"
    and "(\<exists>e. master_key ks (Some (unat (hd outer))) = Inl e) \<or> ks_version ks < unat (hd outer)"
  shows "(\<exists>e. unwrap C ks handle outer = Inl e) \<and> (\<exists>e. rewrap C ks nonce handle outer = Inl e)"
proof -
  have "unat (hd outer) \<notin> set (filter (\<lambda>v. \<exists>k. master_key ks (Some v) = Inr k) (rev [1 ..< Suc (ks_version ks)]))"
    using assms(2) by auto
  then have "\<exists>e. unwrap C ks handle outer = Inl e"
    unfolding unwrap_def Let_def known_versions_eq [OF assms(1)] by auto
  then show ?thesis by (auto simp: rewrap_def)
qed

section \<open>Witnesses\<close>

definition demo_keystore :: keystore where
  "demo_keystore =
     \<lparr>ks_env = [''COSIGNER_CREDENTIALS_DIR'' \<mapsto> ''/c''],
      ks_files = (\<lambda>dir name. if name = ''cosigner-master'' then Some (b64 (replicate 32 5)) else
        if name = ''cosigner-dpop'' then Some ''pem'' else None),
      ks_version = 1\<rparr>"

lemma demo_master: "master_key demo_keystore (Some 1) = Inr (replicate 32 5)"
proof -
  have "read_credential demo_keystore ''cosigner-master'' = Inr (b64 (replicate 32 5))"
    by (simp add: read_credential_def credentials_dir_def demo_keystore_def str_or_def Let_def)
  moreover have "master_name demo_keystore (Some 1) = Inr ''cosigner-master''"
    by (simp add: master_name_def current_version_def FIRST_VERSION_def MAX_VERSION_def MASTER_NAME_def)
  ultimately show ?thesis
    by (simp add: master_key_def wire.round_trip MASTER_BYTES_def)
qed

lemma demo_wrap_key:
  "wrap demo_crypto demo_keystore (replicate 12 0) ''h1'' [42] =
     Inr (1 # replicate 12 0 @ aead_enc demo_crypto (kdf demo_crypto ''h1'' ''outer'' (replicate 32 5))
            (replicate 12 0) ''h1'' [42])"
  using demo_master
  by (simp add: wrap_def outer_key_def current_version_def FIRST_VERSION_def MAX_VERSION_def
      demo_keystore_def [THEN arg_cong [where f = ks_version]])

theorem wrap_opens_for_its_handle_witness:
  "\<exists>outer e. unwrap demo_crypto demo_keystore ''h1'' outer = Inr [42]
     \<and> unwrap demo_crypto demo_keystore ''h2'' outer = Inl e"
  using wrap_opens_for_its_handle [OF demo_crypto_laws _ demo_wrap_key, of "''h2''"] by auto

theorem rewrap_moves_to_current_witness:
  "\<exists>outer outer'. rewrap demo_crypto demo_keystore (replicate 12 1) ''h1'' outer = Inr outer'
     \<and> unwrap demo_crypto demo_keystore ''h1'' outer' = Inr [42]"
proof -
  obtain outer where "unwrap demo_crypto demo_keystore ''h1'' outer = Inr [42]"
    using wrap_unwrap [OF demo_crypto_laws(1) _ demo_wrap_key] by auto
  from rewrap_moves_to_current [OF demo_crypto_laws(1) _ this, of "replicate 12 1" "replicate 32 5"]
  show ?thesis using demo_master by (auto simp: demo_keystore_def)
qed

theorem retired_version_fails_closed_witness:
  "\<exists>e. unwrap demo_crypto demo_keystore ''h1'' (2 # replicate 40 0) = Inl e"
  using retired_version_fails_closed [of demo_keystore "2 # replicate 40 0" demo_crypto "''h1''" "[]"]
  by (simp add: demo_keystore_def)

end
