(* ===== verification/Json.thy ===== *)
theory Json
  imports Prelude
begin

text \<open>
  Parsed JSON as the program sees it after \<open>json.loads\<close>: a dict is an association list
  with distinct keys, and \<open>.get\<close> on anything that is not a dict raises, which is None of
  \<open>jobj\<close>. The textual syntax belongs to the standard library and is not modelled.
\<close>

datatype json =
    JNull | JBool bool | JNum rat | JStr string | JList "json list" | JObj "(string \<times> json) list"

fun jobj :: "json \<Rightarrow> (string \<times> json) list option" where
  "jobj (JObj kvs) = Some kvs"
| "jobj _ = None"

definition jget :: "(string \<times> json) list \<Rightarrow> string \<Rightarrow> json" where
  "jget kvs name = (case map_of kvs name of None \<Rightarrow> JNull | Some v \<Rightarrow> v)"

text \<open>Python's truth value.\<close>

fun jtrue :: "json \<Rightarrow> bool" where
  "jtrue JNull = False"
| "jtrue (JBool b) = b"
| "jtrue (JNum n) = (n \<noteq> 0)"
| "jtrue (JStr s) = (s \<noteq> [])"
| "jtrue (JList xs) = (xs \<noteq> [])"
| "jtrue (JObj kvs) = (kvs \<noteq> [])"

fun jstr :: "json \<Rightarrow> string option" where
  "jstr (JStr s) = Some s"
| "jstr _ = None"

lemma jget_simps [simp]:
  "jget [] name = JNull"
  "jget ((k, v) # kvs) name = (if k = name then v else jget kvs name)"
  by (simp_all add: jget_def)

lemma jstr_Some [simp]: "jstr j = Some s \<longleftrightarrow> j = JStr s"
  by (cases j) auto

end
