(* ===== verification/Server.thy ===== *)
theory Server
  imports CosignerRun Keys Json
begin

text \<open>
  \<open>cosigner/server.py\<close>: the HTTP surface of the co-signer. A request is its path, its
  headers, and what \<open>json.loads\<close> gives for the first \<open>n\<close> bytes of its body; a response is
  a status and the members of the JSON object sent. A handler returns an error or a pair of
  refusal and payload, always with the state after it, because a row that \<open>authorize\<close> wrote
  stays written when the keys fail afterwards. The threads of the server meet only in the
  lock of \<open>authorize\<close> and in the verdict cache, so a request is one step.
\<close>

datatype server_error = RequestError int string | Unserviceable string | Failed

type_synonym payload = "(string \<times> json) list"
type_synonym answer = "(server_error + refusal option \<times> payload) \<times> cosigner"

text \<open>What a request handler has at hand: its keys, its box, the clock, a fresh nonce.\<close>

record host =
  h_crypto :: crypto
  h_dpop :: dpop_lib
  h_keys :: keystore
  h_box :: box
  h_clk :: clk
  h_nonce :: bytes

section \<open>Fields of a body\<close>

definition STATUS_FOR_KIND :: "kind \<Rightarrow> int" where
  "STATUS_FOR_KIND k =
     (case k of KIND_DISABLED \<Rightarrow> 503 | KIND_ATTESTATION \<Rightarrow> 403 | KIND_REQUEST \<Rightarrow> 403 | KIND_RATE \<Rightarrow> 429)"

definition MAX_BODY :: int where "MAX_BODY = 64 * 1024"

definition client_cert :: "(string \<Rightarrow> string option) \<Rightarrow> server_error + bytes" where
  "client_cert headers =
     (let raw = py_strip (str_or (headers ''X-Client-Cert-Der'') '''')
      in if raw = [] then Inr []
         else case unb64 raw of
             None \<Rightarrow> Inl (RequestError 400 ''client certificate header is not base64 DER'')
           | Some der \<Rightarrow> Inr der)"

text \<open>A body that is not an object has no \<open>get\<close>: the attribute error is the 500 branch.\<close>

definition field :: "json \<Rightarrow> string \<Rightarrow> bool \<Rightarrow> server_error + string option" where
  "field body name required =
     (case jobj body of
        None \<Rightarrow> Inl Failed
      | Some kvs \<Rightarrow>
         (let value = jget kvs name
          in if value = JNull \<and> \<not> required then Inr None
             else case value of
                 JStr s \<Rightarrow> if s = [] then Inl (RequestError 400 (''missing or non-string field '' @ py_repr name))
                           else Inr (Some s)
               | _ \<Rightarrow> Inl (RequestError 400 (''missing or non-string field '' @ py_repr name))))"

definition required_field :: "json \<Rightarrow> string \<Rightarrow> server_error + string" where
  "required_field body name =
     (case field body name True of
        Inl e \<Rightarrow> Inl e | Inr None \<Rightarrow> Inl Failed | Inr (Some s) \<Rightarrow> Inr s)"

text \<open>Anything but a \<open>RequestError\<close> inside is reported as bad base64, a body that is no object too.\<close>

definition binary_field :: "json \<Rightarrow> string \<Rightarrow> server_error + bytes" where
  "binary_field body name =
     (let bad = Inl (RequestError 400 (''field '' @ py_repr name @ '' is not base64''))
      in case required_field body name of
           Inl (RequestError code msg) \<Rightarrow> Inl (RequestError code msg)
         | Inl _ \<Rightarrow> bad
         | Inr text \<Rightarrow> (case unb64 text of None \<Rightarrow> bad | Some raw \<Rightarrow> Inr raw))"

definition proof_request :: "json \<Rightarrow> server_error + string \<times> string \<times> string option" where
  "proof_request body =
     (case required_field body ''htm'' of Inl e \<Rightarrow> Inl e | Inr htm \<Rightarrow>
     (case required_field body ''htu'' of Inl e \<Rightarrow> Inl e | Inr htu \<Rightarrow>
     (case field body ''nonce'' False of Inl e \<Rightarrow> Inl e | Inr nonce \<Rightarrow> Inr (htm, htu, nonce))))"

section \<open>Errors of the keys\<close>

definition key_failure :: "key_error \<Rightarrow> server_error" where
  "key_failure e = (case e of NotConfigured m \<Rightarrow> Unserviceable m | _ \<Rightarrow> Failed)"

definition lift_keys :: "key_error + 'a \<Rightarrow> server_error + 'a" where
  "lift_keys r = (case r of Inl e \<Rightarrow> Inl (key_failure e) | Inr x \<Rightarrow> Inr x)"

definition did_not_open :: server_error where
  "did_not_open = RequestError 400 ''outer record did not open''"

definition open_record :: "host \<Rightarrow> string \<Rightarrow> bytes \<Rightarrow> server_error + bytes" where
  "open_record h uid outer =
     (case unwrap (h_crypto h) (h_keys h) uid outer of Inl _ \<Rightarrow> Inl did_not_open | Inr inner \<Rightarrow> Inr inner)"

section \<open>The five endpoints\<close>

text \<open>
  The shape all five share: \<open>authorize\<close> decides, a refusal goes back as it is, and only an
  allowed request runs the part that touches the keys.
\<close>

definition guarded ::
  "host \<Rightarrow> string \<Rightarrow> action \<Rightarrow> verdict \<Rightarrow> string option \<Rightarrow> (server_error + payload) \<Rightarrow> cosigner \<Rightarrow> answer" where
  "guarded h uid a v precheck work s =
     (case authorize (h_box h) (h_clk h) uid a v precheck s of
        Inl _ \<Rightarrow> (Inl Failed, s)
      | Inr (Some f, s') \<Rightarrow> (Inr (Some f, []), s')
      | Inr (None, s') \<Rightarrow> (case work of Inl e \<Rightarrow> (Inl e, s') | Inr p \<Rightarrow> (Inr (None, p), s')))"

definition unless_empty :: "bytes \<Rightarrow> string \<Rightarrow> string option" where
  "unless_empty raw what = (if raw = [] then Some what else None)"

definition wrap_request :: "host \<Rightarrow> json \<Rightarrow> verdict \<Rightarrow> cosigner \<Rightarrow> answer" where
  "wrap_request h body v s =
     (case required_field body ''uid'' of Inl e \<Rightarrow> (Inl e, s) | Inr uid \<Rightarrow>
     (case binary_field body ''inner'' of Inl e \<Rightarrow> (Inl e, s) | Inr inner \<Rightarrow>
      guarded h uid ACTION_WRAP v (unless_empty inner ''empty inner'')
        (case lift_keys (wrap (h_crypto h) (h_keys h) (h_nonce h) uid inner) of
           Inl e \<Rightarrow> Inl e | Inr outer \<Rightarrow> Inr [(''outer'', JStr (b64 outer))]) s))"

definition sign_request :: "host \<Rightarrow> json \<Rightarrow> verdict \<Rightarrow> cosigner \<Rightarrow> answer" where
  "sign_request h body v s =
     (case proof_request body of Inl e \<Rightarrow> (Inl e, s) | Inr (htm, htu, nonce) \<Rightarrow>
     (case field body ''uid'' False of Inl e \<Rightarrow> (Inl e, s) | Inr u \<Rightarrow>
      guarded h (str_or u '''') ACTION_SIGN v (allowed_target htm htu)
        (case lift_keys (dpop_proof (h_dpop h) (h_keys h) htm htu nonce) of
           Inl e \<Rightarrow> Inl e | Inr p \<Rightarrow> Inr [(''proof'', JStr p)]) s))"

definition unwrap_request :: "host \<Rightarrow> json \<Rightarrow> verdict \<Rightarrow> cosigner \<Rightarrow> answer" where
  "unwrap_request h body v s =
     (case required_field body ''uid'' of Inl e \<Rightarrow> (Inl e, s) | Inr uid \<Rightarrow>
     (case binary_field body ''outer'' of Inl e \<Rightarrow> (Inl e, s) | Inr outer \<Rightarrow>
     (case proof_request body of Inl e \<Rightarrow> (Inl e, s) | Inr (htm, htu, nonce) \<Rightarrow>
      guarded h uid ACTION_UNWRAP v
        (case allowed_target htm htu of Some r \<Rightarrow> Some r | None \<Rightarrow> unless_empty outer ''empty outer'')
        (case open_record h uid outer of
           Inl e \<Rightarrow> Inl e
         | Inr inner \<Rightarrow>
            (case lift_keys (dpop_proof (h_dpop h) (h_keys h) htm htu nonce) of
               Inl e \<Rightarrow> Inl e | Inr p \<Rightarrow> Inr [(''inner'', JStr (b64 inner)), (''proof'', JStr p)])) s)))"

definition unwrap_data_request :: "host \<Rightarrow> json \<Rightarrow> verdict \<Rightarrow> cosigner \<Rightarrow> answer" where
  "unwrap_data_request h body v s =
     (case required_field body ''uid'' of Inl e \<Rightarrow> (Inl e, s) | Inr uid \<Rightarrow>
     (case binary_field body ''outer'' of Inl e \<Rightarrow> (Inl e, s) | Inr outer \<Rightarrow>
      guarded h uid ACTION_UNWRAP_DATA v (unless_empty outer ''empty outer'')
        (case open_record h uid outer of
           Inl e \<Rightarrow> Inl e | Inr inner \<Rightarrow> Inr [(''inner'', JStr (b64 inner))]) s))"

definition rewrap_request :: "host \<Rightarrow> json \<Rightarrow> verdict \<Rightarrow> cosigner \<Rightarrow> answer" where
  "rewrap_request h body v s =
     (case required_field body ''uid'' of Inl e \<Rightarrow> (Inl e, s) | Inr uid \<Rightarrow>
     (case binary_field body ''outer'' of Inl e \<Rightarrow> (Inl e, s) | Inr outer \<Rightarrow>
      guarded h uid ACTION_REWRAP v (unless_empty outer ''empty outer'')
        (case rewrap (h_crypto h) (h_keys h) (h_nonce h) uid outer of
           Inl _ \<Rightarrow> Inl did_not_open | Inr outer' \<Rightarrow> Inr [(''outer'', JStr (b64 outer'))]) s))"

section \<open>POST\<close>

record request =
  rq_path :: string
  rq_headers :: "string \<Rightarrow> string option"
  rq_json :: "nat \<Rightarrow> json option"

definition read_body :: "request \<Rightarrow> server_error + json" where
  "read_body rq =
     (case py_int (str_or (rq_headers rq ''Content-Length'') ''0'') of
        None \<Rightarrow> Inl (RequestError 400 ''bad Content-Length'')
      | Some n \<Rightarrow>
          if n \<le> 0 \<or> MAX_BODY < n
          then Inl (RequestError 413 (''body length '' @ str_int n @ '' out of range''))
          else case rq_json rq (nat n) of
              None \<Rightarrow> Inl (RequestError 400 ''body is not JSON'') | Some j \<Rightarrow> Inr j)"

definition endpoint :: "string \<Rightarrow> (host \<Rightarrow> json \<Rightarrow> verdict \<Rightarrow> cosigner \<Rightarrow> answer) option" where
  "endpoint path =
     (if path = ''/wrap'' then Some wrap_request
      else if path = ''/unwrap-and-sign'' then Some unwrap_request
      else if path = ''/unwrap'' then Some unwrap_data_request
      else if path = ''/rewrap'' then Some rewrap_request
      else if path = ''/sign-dpop'' then Some sign_request
      else None)"

record server =
  sv_cosigner :: cosigner
  sv_verdicts :: verdict_cache

record attestor =
  at_lib :: attest_lib
  at_env :: env
  at_today :: date
  at_file :: file_content
  at_now :: secs

definition verify_request :: "attestor \<Rightarrow> bytes \<Rightarrow> verdict_cache \<Rightarrow> allowlist_error + verdict \<times> verdict_cache" where
  "verify_request ao der cache =
     (case load_policy (at_file ao) of
        Inl e \<Rightarrow> Inl e
      | Inr al \<Rightarrow> verify_client (at_lib ao) (at_env ao) (at_today ao) al (at_now ao) der cache)"

definition run_post ::
  "host \<Rightarrow> attestor \<Rightarrow> request \<Rightarrow> server \<Rightarrow> (server_error + refusal option \<times> payload) \<times> server" where
  "run_post h ao rq sv =
     (case endpoint (rq_path rq) of
        None \<Rightarrow> (Inl (RequestError 404 ''no such endpoint''), sv)
      | Some handler \<Rightarrow>
     (case client_cert (rq_headers rq) of
        Inl e \<Rightarrow> (Inl e, sv)
      | Inr der \<Rightarrow>
     (case verify_request ao der (sv_verdicts sv) of
        Inl _ \<Rightarrow> (Inl Failed, sv)
      | Inr (v, cache) \<Rightarrow>
         (let sv1 = sv\<lparr>sv_verdicts := cache\<rparr>
          in case read_body rq of
               Inl e \<Rightarrow> (Inl e, sv1)
             | Inr body \<Rightarrow>
                (case handler h body v (sv_cosigner sv1) of
                   (r, s') \<Rightarrow> (r, sv1\<lparr>sv_cosigner := s'\<rparr>))))))"

definition respond :: "server_error + refusal option \<times> payload \<Rightarrow> int \<times> payload" where
  "respond r =
     (case r of
        Inl (RequestError code msg) \<Rightarrow> (code, [(''error'', JStr msg)])
      | Inl (Unserviceable msg) \<Rightarrow> (503, [(''error'', JStr msg)])
      | Inl Failed \<Rightarrow> (500, [(''error'', JStr ''internal error'')])
      | Inr (Some f, _) \<Rightarrow> (STATUS_FOR_KIND (rf_kind f), [(''error'', JStr (rf_reason f))])
      | Inr (None, p) \<Rightarrow> (200, p))"

definition do_POST :: "host \<Rightarrow> attestor \<Rightarrow> request \<Rightarrow> server \<Rightarrow> (int \<times> payload) \<times> server" where
  "do_POST h ao rq sv = (case run_post h ao rq sv of (r, sv') \<Rightarrow> (respond r, sv'))"

section \<open>GET\<close>

text \<open>None: an exception left the handler and no response was sent.\<close>

definition do_GET :: "host \<Rightarrow> attestor \<Rightarrow> string \<Rightarrow> (int \<times> payload) option" where
  "do_GET h ao path =
     (if path = ''/health''
      then (case load_policy (at_file ao) of
              Inl _ \<Rightarrow> None
            | Inr al \<Rightarrow>
           (case attest_mode (at_env ao) (at_today ao) al of
              Inl _ \<Rightarrow> None
            | Inr mode \<Rightarrow>
           (case keys_configured (h_dpop h) (h_keys h) of
              Inl _ \<Rightarrow> None
            | Inr ks \<Rightarrow>
                Some (200, [(''status'', JStr ''ok''), (''attestation'', JStr mode), (''keys'', JStr (str_or ks ''ok'')),
                            (''disabled'', case disabled_reason (h_box h) of None \<Rightarrow> JNull | Some d \<Rightarrow> JStr d)]))))
      else if path = ''/dpop-jwk''
      then (case (case dpop_public_jwk (h_dpop h) (h_keys h) of
                    Inl e \<Rightarrow> Inl e
                  | Inr jwk \<Rightarrow> (case dpop_jkt (h_dpop h) (h_keys h) of
                        Inl e \<Rightarrow> Inl e | Inr jkt \<Rightarrow> Inr (jwk, jkt))) of
              Inr (jwk, jkt) \<Rightarrow>
                Some (200, [(''jwk'', JObj (map (\<lambda>(k, v). (k, JStr v)) jwk)), (''jkt'', JStr jkt)])
            | Inl (NotConfigured m) \<Rightarrow> Some (503, [(''error'', JStr m)])
            | Inl _ \<Rightarrow> None)
      else Some (404, [(''error'', JStr ''no such endpoint'')]))"

section \<open>Lemmas\<close>

definition client_error :: "server_error \<Rightarrow> bool" where
  "client_error e \<longleftrightarrow> (\<forall>c m. e = RequestError c m \<longrightarrow> c \<in> {400, 404, 413})"

lemma client_error_simps [simp]:
  "client_error Failed" "client_error (Unserviceable m)" "client_error did_not_open"
  "client_error (RequestError c m) \<longleftrightarrow> c \<in> {400, 404, 413}"
  by (auto simp: client_error_def did_not_open_def)

lemma field_error: "field b n r = Inl e \<Longrightarrow> client_error e"
  by (auto simp: field_def Let_def split: option.splits if_splits json.splits)

lemma required_field_error: "required_field b n = Inl e \<Longrightarrow> client_error e"
  by (auto simp: required_field_def split: sum.splits option.splits dest: field_error)

lemma binary_field_error: "binary_field b n = Inl e \<Longrightarrow> client_error e"
  by (auto simp: binary_field_def Let_def split: sum.splits option.splits server_error.splits
      dest: required_field_error)

lemma proof_request_error: "proof_request b = Inl e \<Longrightarrow> client_error e"
  by (auto simp: proof_request_def split: sum.splits dest: field_error required_field_error)

text \<open>What an allowed request can still fail with: never a status that says it was not decided.\<close>

definition key_fault :: "server_error \<Rightarrow> bool" where
  "key_fault e \<longleftrightarrow> e = did_not_open \<or> e = Failed \<or> (\<exists>m. e = Unserviceable m)"

lemma key_fault_client: "key_fault e \<Longrightarrow> client_error e"
  by (auto simp: key_fault_def)

lemma keys_error: "lift_keys r = Inl e \<Longrightarrow> key_fault e"
  by (auto simp: lift_keys_def key_failure_def key_fault_def split: sum.splits key_error.splits)

lemma did_not_open_fault [simp]: "key_fault did_not_open"
  by (simp add: key_fault_def)

lemmas body_errors = field_error required_field_error binary_field_error proof_request_error

lemma required_field_Inr [simp]:
  "required_field body name = Inr x \<longleftrightarrow> (\<exists>kvs. body = JObj kvs \<and> jget kvs name = JStr x \<and> x \<noteq> [])"
  by (cases body) (auto simp: required_field_def field_def Let_def split: json.splits if_splits)

lemma binary_field_Inr [simp]:
  "binary_field body name = Inr raw \<longleftrightarrow>
     (\<exists>kvs x. body = JObj kvs \<and> jget kvs name = JStr x \<and> x \<noteq> [] \<and> unb64 x = Some raw)"
proof (cases "required_field body name")
  case (Inl e)
  then have no: "\<nexists>x. required_field body name = Inr x" by simp
  with Inl show ?thesis
    unfolding required_field_Inr by (cases e) (auto simp: binary_field_def Let_def)
next
  case (Inr x)
  then have "binary_field body name = Inr raw \<longleftrightarrow> unb64 x = Some raw"
    by (auto simp: binary_field_def Let_def simp del: required_field_Inr split: option.splits)
  with Inr show ?thesis by auto
qed

text \<open>One decided request: nothing happened to the log, or \<open>authorize\<close> did.\<close>

lemma guarded_cases:
  assumes "guarded h uid a v p work s = (r, s')"
  obtains (undecided) "r = Inl Failed" "s' = s"
  | (refusal) f where "authorize (h_box h) (h_clk h) uid a v p s = Inr (Some f, s')" "r = Inr (Some f, [])"
  | (failed) e where "authorize (h_box h) (h_clk h) uid a v p s = Inr (None, s')" "work = Inl e" "r = Inl e"
  | (success) q where "authorize (h_box h) (h_clk h) uid a v p s = Inr (None, s')" "work = Inr q" "r = Inr (None, q)"
  using assms by (auto simp: guarded_def split: sum.splits option.splits)

definition served :: "host \<Rightarrow> json \<Rightarrow> verdict \<Rightarrow> cosigner \<Rightarrow> answer \<Rightarrow> bool" where
  "served h body v s ans \<longleftrightarrow>
     (\<exists>e. ans = (Inl e, s) \<and> client_error e) \<or>
     (\<exists>uid a p work. ans = guarded h uid a v p work s \<and> (\<forall>e. work = Inl e \<longrightarrow> key_fault e))"

lemma served_guarded:
  "(\<And>e. work = Inl e \<Longrightarrow> key_fault e) \<Longrightarrow> served h body v s (guarded h uid a v p work s)"
  unfolding served_def by blast

lemma served_error: "client_error e \<Longrightarrow> served h body v s (Inl e, s)"
  unfolding served_def by blast

lemma endpoint_served: "endpoint path = Some handler \<Longrightarrow> served h body v s (handler h body v s)"
  by (auto simp: endpoint_def wrap_request_def unwrap_request_def unwrap_data_request_def rewrap_request_def
      sign_request_def open_record_def split: if_splits sum.splits prod.splits
      intro!: served_guarded served_error dest: body_errors keys_error simp del: required_field_Inr binary_field_Inr)

definition post_errors_ok :: "server_error + refusal option \<times> payload \<Rightarrow> bool" where
  "post_errors_ok r \<longleftrightarrow> (\<forall>e. r = Inl e \<longrightarrow> client_error e)"

lemma read_body_error: "read_body rq = Inl e \<Longrightarrow> client_error e"
  by (auto simp: read_body_def split: option.splits if_splits)

lemma client_cert_error: "client_cert hs = Inl e \<Longrightarrow> client_error e"
  by (auto simp: client_cert_def Let_def split: option.splits if_splits)

text \<open>What a POST did: it was answered with an error and no decision, or it was one decision.\<close>

lemma run_post_cases:
  assumes "run_post h ao rq sv = (r, sv')"
  obtains (unread) e where "r = Inl e" "client_error e" "sv_cosigner sv' = sv_cosigner sv"
  | (decided) handler der v cache body uid a p work where
      "endpoint (rq_path rq) = Some handler" "client_cert (rq_headers rq) = Inr der"
      "verify_request ao der (sv_verdicts sv) = Inr (v, cache)" "sv_verdicts sv' = cache"
      "read_body rq = Inr body" "handler h body v (sv_cosigner sv) = (r, sv_cosigner sv')"
      "guarded h uid a v p work (sv_cosigner sv) = (r, sv_cosigner sv')"
      "\<forall>e. work = Inl e \<longrightarrow> key_fault e"
proof (cases "\<exists>handler der v cache body. endpoint (rq_path rq) = Some handler
    \<and> client_cert (rq_headers rq) = Inr der
    \<and> verify_request ao der (sv_verdicts sv) = Inr (v, cache) \<and> read_body rq = Inr body")
  case True
  then obtain handler der v cache body where got: "endpoint (rq_path rq) = Some handler"
      "client_cert (rq_headers rq) = Inr der"
      "verify_request ao der (sv_verdicts sv) = Inr (v, cache)" "read_body rq = Inr body"
    by blast
  then have res: "handler h body v (sv_cosigner sv) = (r, sv_cosigner sv')" "sv_verdicts sv' = cache"
    using assms by (auto simp: run_post_def Let_def split: prod.splits)
  from endpoint_served [OF got(1), of h body v "sv_cosigner sv"] res
  show ?thesis unfolding served_def
    by (metis decided got prod.inject unread)
next
  case False
  then have "(\<exists>e. r = Inl e \<and> client_error e) \<and> sv_cosigner sv' = sv_cosigner sv"
    using assms
    by (auto simp: run_post_def Let_def split: option.splits sum.splits prod.splits
        dest: read_body_error client_cert_error)
  then show ?thesis using unread by blast
qed

lemma respond_200:
  "respond r = (200, p) \<Longrightarrow> post_errors_ok r \<Longrightarrow> r = Inr (None, p)"
  by (auto simp: respond_def post_errors_ok_def STATUS_FOR_KIND_def
      split: sum.splits server_error.splits option.splits prod.splits kind.splits)

lemma run_post_errors: "run_post h ao rq sv = (r, sv') \<Longrightarrow> post_errors_ok r"
proof (erule run_post_cases)
  fix uid a v p work
  assume "guarded h uid a v p work (sv_cosigner sv) = (r, sv_cosigner sv')" "\<forall>e. work = Inl e \<longrightarrow> key_fault e"
  then show ?thesis
    by (elim guarded_cases) (auto simp: post_errors_ok_def dest: key_fault_client)
qed (auto simp: post_errors_ok_def)

lemma do_POST_200:
  assumes "do_POST h ao rq sv = ((200, p), sv')"
  shows "run_post h ao rq sv = (Inr (None, p), sv')"
  using assms respond_200 run_post_errors
  by (auto simp: do_POST_def split: prod.splits)

text \<open>
  C1: the co-signer acts only for an attested client and never off the record. A POST that
  is answered with 200 was decided under the verdict for the certificate it came with, which
  is positive; the box was not disabled; and the last row of the log, the only new one, is an
  ALLOW for that request's action with the client's fingerprint in it.
\<close>

theorem post_ok_is_authorized:
  assumes "do_POST h ao rq sv = ((200, p), sv')"
  shows "\<exists>der v uid a row. client_cert (rq_headers rq) = Inr der
    \<and> verify_request ao der (sv_verdicts sv) = Inr (v, sv_verdicts sv') \<and> v_ok v
    \<and> disabled_reason (h_box h) = None
    \<and> db_requests (cs_audit (sv_cosigner sv')) = db_requests (cs_audit (sv_cosigner sv)) @ [row]
    \<and> row_decision row = ALLOW \<and> row_uid row = uid \<and> row_action row = a
    \<and> row_fingerprint row = v_subject v \<and> row_attested row = v_attested v"
proof -
  from run_post_cases [OF do_POST_200 [OF assms]]
  obtain der v uid a q work where *: "client_cert (rq_headers rq) = Inr der"
    "verify_request ao der (sv_verdicts sv) = Inr (v, sv_verdicts sv')"
    "guarded h uid a v q work (sv_cosigner sv) = (Inr (None, p), sv_cosigner sv')"
    by (metis Inl_Inr_False)
  then have auth: "authorize (h_box h) (h_clk h) uid a v q (sv_cosigner sv) = Inr (None, sv_cosigner sv')"
    by (elim guarded_cases) auto
  note decide_allow [OF authorize_allow(2) [OF auth]]
  with * authorize_allow(1) [OF auth] show ?thesis
    by (auto simp: write_decision_def audit_record_def)
qed

lemma authorize_rows:
  "authorize b c uid a v q s = Inr (f, s') \<Longrightarrow>
   length (db_requests (cs_audit s')) = length (db_requests (cs_audit s)) + 1"
  by (cases f) (auto dest: authorize_allow(1) authorize_deny(1) simp: write_decision_def audit_record_def)

definition rows_of :: "server \<Rightarrow> nat" where
  "rows_of sv = length (db_requests (cs_audit (sv_cosigner sv)))"

lemma run_post_rows:
  assumes "run_post h ao rq sv = (r, sv')"
  shows "rows_of sv' = rows_of sv \<and> (\<exists>e. r = Inl e \<and> client_error e)
       \<or> rows_of sv' = rows_of sv + 1 \<and> (\<forall>e. r = Inl e \<longrightarrow> key_fault e)"
  using assms
proof (cases rule: run_post_cases)
  case (unread e)
  then show ?thesis by (simp add: rows_of_def)
next
  case (decided handler der v cache body uid a p work)
  from decided(7) show ?thesis
    by (cases rule: guarded_cases) (use decided(8) in \<open>auto simp: rows_of_def dest: authorize_rows\<close>)
qed

text \<open>
  what a status says about the log. 404 and 413 leave no row; 200 and the refusal statuses
  403 and 429 leave exactly one; nothing leaves more than one, and no other status exists.
\<close>

theorem post_status_and_rows:
  "case do_POST h ao rq sv of ((code, p), sv') \<Rightarrow>
     code \<in> {200, 400, 403, 404, 413, 429, 500, 503}
     \<and> rows_of sv' = rows_of sv
         + (if code \<in> {404, 413} then 0 else if code \<in> {200, 403, 429} then 1 else rows_of sv' - rows_of sv)
     \<and> rows_of sv' \<le> rows_of sv + 1"
proof -
  obtain r sv' where r: "run_post h ao rq sv = (r, sv')" by fastforce
  from run_post_rows [OF r] run_post_errors [OF r] show ?thesis
    by (auto simp: do_POST_def r respond_def post_errors_ok_def client_error_def key_fault_def
        did_not_open_def STATUS_FOR_KIND_def
        split: sum.splits prod.splits option.splits server_error.splits kind.splits)
qed

text \<open>
  the rate rules reach the wire: a POST takes a reachable state of the co-signer to a
  reachable one, so every ceiling that holds of reachable logs holds whatever is posted.
\<close>

theorem post_keeps_reach:
  assumes "reach (box_env (h_box h)) now (sv_cosigner sv)"
    and "now \<le> c_rate (h_clk h)" "c_rate (h_clk h) \<le> c_sweep (h_clk h)" "c_sweep (h_clk h) \<le> c_row (h_clk h)"
    and "do_POST h ao rq sv = (reply, sv')"
  shows "\<exists>t. now \<le> t \<and> t \<le> c_row (h_clk h) \<and> reach (box_env (h_box h)) t (sv_cosigner sv')"
proof -
  obtain r where r: "run_post h ao rq sv = (r, sv')"
    using assms(5) by (auto simp: do_POST_def split: prod.splits)
  have same: ?thesis if "sv_cosigner sv' = sv_cosigner sv"
    using that assms(1-4) by (intro exI [of _ now]) simp
  have step: ?thesis
    if "authorize (h_box h) (h_clk h) uid a v p (sv_cosigner sv) = Inr (f, sv_cosigner sv')" for uid a v p f
    using reach_request [OF assms(1) refl assms(2-4) that] assms(2-4)
    by (intro exI [of _ "c_row (h_clk h)"]) simp
  from r show ?thesis
  proof (cases rule: run_post_cases)
    case (decided handler der v cache body uid a p work)
    from decided(7) show ?thesis
      by (cases rule: guarded_cases) (use same step in blast)+
  qed (use same in blast)
qed

lemma allowed_target_None: "allowed_target htm htu = None \<longleftrightarrow> htm = ''POST'' \<and> htu = TOKEN_ENDPOINT"
  by (simp add: allowed_target_def)

lemma proof_request_Inr:
  "proof_request body = Inr (htm, htu, nonce) \<Longrightarrow>
   \<exists>kvs. body = JObj kvs \<and> jget kvs ''htm'' = JStr htm \<and> jget kvs ''htu'' = JStr htu"
  by (auto simp: proof_request_def split: sum.splits)

lemma guarded_ok:
  "guarded h uid a v p work s = (Inr (None, q), s') \<Longrightarrow> p = None \<and> work = Inr q"
  by (erule guarded_cases) (auto dest: authorize_allow(2) decide_allow(3))

text \<open>The handler a 200 came from, at the level of the body it read.\<close>

lemma post_200_handler:
  assumes "do_POST h ao rq sv = ((200, p), sv')"
  obtains handler body v where "endpoint (rq_path rq) = Some handler" "read_body rq = Inr body"
    "handler h body v (sv_cosigner sv) = (Inr (None, p), sv_cosigner sv')"
  using do_POST_200 [OF assms] by (cases rule: run_post_cases) auto

lemmas handler_defs =
  wrap_request_def unwrap_request_def unwrap_data_request_def rewrap_request_def sign_request_def

lemma dpop_proof_Inr:
  "dpop_proof D ks htm htu nonce = Inr x \<Longrightarrow> \<exists>key. dpop_key D ks = Inr key \<and> x = dl_proof D key htm htu nonce"
  by (auto simp: dpop_proof_def split: if_splits sum.splits)

lemma lift_keys_Inr [simp]: "lift_keys r = Inr x \<longleftrightarrow> r = Inr x"
  by (auto simp: lift_keys_def split: sum.splits)

lemma open_record_Inr [simp]:
  "open_record h uid outer = Inr x \<longleftrightarrow> unwrap (h_crypto h) (h_keys h) uid outer = Inr x"
  by (auto simp: open_record_def split: sum.splits)

definition asks_for :: "json \<Rightarrow> string \<Rightarrow> string \<Rightarrow> bool" where
  "asks_for body name x \<longleftrightarrow> (\<exists>kvs. body = JObj kvs \<and> jget kvs name = JStr x)"

lemma handler_proof:
  assumes "endpoint path = Some handler" and "handler h body v s = (Inr (None, p), s')"
    and "(''proof'', JStr x) \<in> set p"
  shows "asks_for body ''htm'' ''POST'' \<and> asks_for body ''htu'' TOKEN_ENDPOINT
    \<and> (\<exists>key nonce. dpop_key (h_dpop h) (h_keys h) = Inr key
        \<and> x = dl_proof (h_dpop h) key ''POST'' TOKEN_ENDPOINT nonce)"
  using assms
  by (auto simp: endpoint_def handler_defs asks_for_def allowed_target_None
      split: if_splits sum.splits prod.splits option.splits
      dest!: guarded_ok proof_request_Inr dpop_proof_Inr)

lemma handler_inner:
  assumes "endpoint path = Some handler" and "handler h body v s = (Inr (None, p), s')"
    and "(''inner'', JStr x) \<in> set p"
  shows "\<exists>uid ot outer inner. asks_for body ''uid'' uid \<and> asks_for body ''outer'' ot \<and> unb64 ot = Some outer
    \<and> unwrap (h_crypto h) (h_keys h) uid outer = Inr inner \<and> x = b64 inner
    \<and> path \<in> {''/unwrap'', ''/unwrap-and-sign''}"
  using assms
  by (auto simp: endpoint_def handler_defs asks_for_def
      split: if_splits sum.splits prod.splits option.splits dest!: guarded_ok)

text \<open>
  no signing oracle: a response that carries a proof answers a body that asked for POST at
  the one token endpoint, and the proof is the library's for exactly that request.
\<close>

theorem proof_only_for_token_endpoint:
  assumes "do_POST h ao rq sv = ((200, p), sv')" and "(''proof'', JStr x) \<in> set p"
  shows "\<exists>body key nonce. read_body rq = Inr body
    \<and> asks_for body ''htm'' ''POST'' \<and> asks_for body ''htu'' ''https://oauth2.googleapis.com/token''
    \<and> dpop_key (h_dpop h) (h_keys h) = Inr key \<and> x = dl_proof (h_dpop h) key ''POST'' TOKEN_ENDPOINT nonce"
proof -
  from post_200_handler [OF assms(1)] obtain handler body v where
    "endpoint (rq_path rq) = Some handler" "read_body rq = Inr body"
    "handler h body v (sv_cosigner sv) = (Inr (None, p), sv_cosigner sv')" by blast
  with handler_proof [OF this(1,3) assms(2)] show ?thesis by (auto simp: TOKEN_ENDPOINT_def)
qed

text \<open>
  what a response can release: an inner ciphertext leaves only through the two unwrap
  endpoints, and is what the posted record opens to under the posted uid.
\<close>

theorem inner_only_from_own_record:
  assumes "do_POST h ao rq sv = ((200, p), sv')" and "(''inner'', JStr x) \<in> set p"
  shows "\<exists>body uid ot outer inner. read_body rq = Inr body \<and> asks_for body ''uid'' uid
    \<and> asks_for body ''outer'' ot \<and> unb64 ot = Some outer
    \<and> unwrap (h_crypto h) (h_keys h) uid outer = Inr inner \<and> x = b64 inner
    \<and> rq_path rq \<in> {''/unwrap'', ''/unwrap-and-sign''}"
proof -
  from post_200_handler [OF assms(1)] obtain handler body v where
    "endpoint (rq_path rq) = Some handler" "read_body rq = Inr body"
    "handler h body v (sv_cosigner sv) = (Inr (None, p), sv_cosigner sv')" by blast
  with handler_inner [OF this(1,3) assms(2)] show ?thesis by blast
qed

lemma wrap_200:
  assumes "wrap_request h body v s = (Inr (None, [(''outer'', JStr ot)]), s')"
    and "asks_for body ''uid'' uid" and "asks_for body ''inner'' it" and "unb64 it = Some inner"
  shows "\<exists>outer. wrap (h_crypto h) (h_keys h) (h_nonce h) uid inner = Inr outer \<and> ot = b64 outer"
  using assms
  by (auto simp: wrap_request_def asks_for_def split: sum.splits dest!: guarded_ok)

lemma unwrap_data_200:
  assumes "unwrap_data_request h body v s = (Inr (None, p), s')"
    and "asks_for body ''uid'' uid" and "asks_for body ''outer'' (b64 outer)"
  shows "\<exists>inner. unwrap (h_crypto h) (h_keys h) uid outer = Inr inner \<and> p = [(''inner'', JStr (b64 inner))]"
  using assms
  by (auto simp: unwrap_data_request_def asks_for_def wire.round_trip split: sum.splits dest!: guarded_ok)

lemma field_open [simp]:
  "field body name r \<noteq> Inl did_not_open" "required_field body name \<noteq> Inl did_not_open"
  "binary_field body name \<noteq> Inl did_not_open" "read_body rq \<noteq> Inl did_not_open"
  "client_cert hs \<noteq> Inl did_not_open"
proof -
  show f: "field body name r \<noteq> Inl did_not_open" for r
    by (auto simp: field_def did_not_open_def Let_def split: option.splits json.splits if_splits)
  have r: "required_field body name \<noteq> Inl did_not_open"
    using f [of True]
    by (auto simp: required_field_def simp del: required_field_Inr split: sum.splits option.splits)
      (simp add: did_not_open_def)
  then show "required_field body name \<noteq> Inl did_not_open" .
  show "binary_field body name \<noteq> Inl did_not_open"
    using r by (auto simp: binary_field_def did_not_open_def Let_def simp del: required_field_Inr
        split: sum.splits option.splits server_error.splits)
  show "read_body rq \<noteq> Inl did_not_open"
    by (auto simp: read_body_def did_not_open_def split: option.splits if_splits)
  show "client_cert hs \<noteq> Inl did_not_open"
    by (auto simp: client_cert_def did_not_open_def Let_def split: option.splits if_splits)
qed

lemma unwrap_data_not_opened:
  assumes "unwrap_data_request h body v s = (Inl did_not_open, s')"
    and "asks_for body ''uid'' uid" and "asks_for body ''outer'' (b64 outer)"
  shows "\<exists>e. unwrap (h_crypto h) (h_keys h) uid outer = Inl e"
  using assms
  by (auto simp: unwrap_data_request_def asks_for_def wire.round_trip open_record_def
      split: sum.splits elim!: guarded_cases) (auto simp: did_not_open_def)

lemma respond_not_open:
  "respond r = (400, [(''error'', JStr ''outer record did not open'')]) \<Longrightarrow> r = Inl did_not_open"
  by (auto simp: respond_def did_not_open_def STATUS_FOR_KIND_def
      split: sum.splits server_error.splits option.splits prod.splits kind.splits)

lemma run_post_not_open:
  assumes "run_post h ao rq sv = (Inl did_not_open, sv')"
  obtains handler body v where "endpoint (rq_path rq) = Some handler" "read_body rq = Inr body"
    "handler h body v (sv_cosigner sv) = (Inl did_not_open, sv_cosigner sv')"
  using assms
  by (auto simp: run_post_def Let_def split: option.splits sum.splits prod.splits)
    (auto simp: did_not_open_def)

text \<open>
  C7: wrapping and unwrapping are inverse over the wire: what \<open>/wrap\<close> returned for a uid opens
  at \<open>/unwrap\<close> to the bytes that were posted, is never answered with "did not open" for that
  uid, and for any other uid is never answered with 200.
\<close>

theorem wrap_unwrap_over_http:
  assumes "aead_inverts (h_crypto h)" and "aead_binds (h_crypto h)" and "length (h_nonce h) = 12"
    and "do_POST h ao rq sv = ((200, [(''outer'', JStr ot)]), sv1)" and "rq_path rq = ''/wrap''"
    and "read_body rq = Inr body" and "asks_for body ''uid'' uid" and "asks_for body ''inner'' it"
    and "unb64 it = Some inner"
    and "do_POST h' ao' rq' sv' = ((code, p), sv2)" and "rq_path rq' = ''/unwrap''"
    and "h_keys h' = h_keys h" and "h_crypto h' = h_crypto h"
    and "read_body rq' = Inr body'" and "asks_for body' ''uid'' uid'" and "asks_for body' ''outer'' ot"
  shows "if uid' = uid
    then (code = 200 \<longrightarrow> p = [(''inner'', JStr (b64 inner))])
       \<and> (code, p) \<noteq> (400, [(''error'', JStr ''outer record did not open'')])
    else code \<noteq> 200"
proof -
  from post_200_handler [OF assms(4)] assms(5,6) obtain v where
    "wrap_request h body v (sv_cosigner sv) = (Inr (None, [(''outer'', JStr ot)]), sv_cosigner sv1)"
    by (auto simp: endpoint_def)
  from wrap_200 [OF this assms(7-9)] obtain outer where
    w: "wrap (h_crypto h) (h_keys h) (h_nonce h) uid inner = Inr outer" "ot = b64 outer" by blast
  note opens = wrap_unwrap [OF assms(1,3) w(1)]
  have others: "\<exists>e. unwrap (h_crypto h) (h_keys h) uid' outer = Inl e" if "uid' \<noteq> uid"
    using wrap_other_handle [OF assms(1-3) w(1) that] .
  have ok: "\<exists>x. unwrap (h_crypto h) (h_keys h) uid' outer = Inr x \<and> p = [(''inner'', JStr (b64 x))]" if "code = 200"
  proof -
    from post_200_handler [of h' ao' rq' sv' p sv2] assms(10,11,14) that obtain v' where
      "unwrap_data_request h' body' v' (sv_cosigner sv') = (Inr (None, p), sv_cosigner sv2)"
      by (auto simp: endpoint_def)
    from unwrap_data_200 [OF this assms(15)] assms(12,13,16) w(2) show ?thesis by simp
  qed
  have shut: "\<exists>e. unwrap (h_crypto h) (h_keys h) uid' outer = Inl e"
    if "(code, p) = (400, [(''error'', JStr ''outer record did not open'')])"
  proof -
    have "run_post h' ao' rq' sv' = (Inl did_not_open, sv2)"
      using assms(10) that respond_not_open by (auto simp: do_POST_def split: prod.splits)
    from run_post_not_open [OF this] assms(11,14) obtain v' where
      "unwrap_data_request h' body' v' (sv_cosigner sv') = (Inl did_not_open, sv_cosigner sv2)"
      by (auto simp: endpoint_def)
    from unwrap_data_not_opened [OF this assms(15)] assms(12,13,16) w(2) show ?thesis by simp
  qed
  show ?thesis
    using opens others ok shut by (cases "uid' = uid") auto
qed

section \<open>Witnesses\<close>

definition demo_dpop :: dpop_lib where
  "demo_dpop = \<lparr>dl_load = (\<lambda>_. EcKey ''secp256r1''), dl_proof = (\<lambda>_ _ _ _. ''jws''), dl_jwk = (\<lambda>_. []),
     dl_jkt = (\<lambda>_. ''jkt'')\<rparr>"

definition demo_host :: host where
  "demo_host = \<lparr>h_crypto = demo_crypto, h_dpop = demo_dpop, h_keys = demo_keystore, h_box = demo_box,
     h_clk = demo_clk 1, h_nonce = replicate 12 0\<rparr>"

definition demo_attestor :: attestor where
  "demo_attestor = \<lparr>at_lib = demo_attest_lib, at_env = (\<lambda>_. None), at_today = (2026, 1, 1),
     at_file = Object demo_allowlist, at_now = 0\<rparr>"

definition demo_request :: "string \<Rightarrow> (string \<times> json) list \<Rightarrow> request" where
  "demo_request path kvs =
     \<lparr>rq_path = path, rq_headers = [''X-Client-Cert-Der'' \<mapsto> b64 [1], ''Content-Length'' \<mapsto> ''9''],
      rq_json = (\<lambda>_. Some (JObj kvs))\<rparr>"

definition demo_server :: server where
  "demo_server = \<lparr>sv_cosigner = cosigner_start, sv_verdicts = cache_clear\<rparr>"

definition demo_outer :: bytes where
  "demo_outer = 1 # replicate 12 0 @ aead_enc demo_crypto (kdf demo_crypto ''u'' ''outer'' (replicate 32 5))
     (replicate 12 0) ''u'' [42]"

lemma demo_wrap_u: "wrap demo_crypto demo_keystore (replicate 12 0) ''u'' [42] = Inr demo_outer"
  using demo_master
  by (simp add: wrap_def outer_key_def current_version_def FIRST_VERSION_def MAX_VERSION_def demo_outer_def
      demo_keystore_def [THEN arg_cong [where f = ks_version]])

lemma demo_opens: "unwrap demo_crypto demo_keystore ''u'' demo_outer = Inr [42]"
  using wrap_unwrap [OF demo_crypto_laws(1) _ demo_wrap_u] by simp

lemma demo_cert: "client_cert (rq_headers (demo_request path kvs)) = Inr [1]"
  by (simp add: client_cert_def demo_request_def str_or_def wire.round_trip Let_def del: b64.simps)

lemma demo_body: "read_body (demo_request path kvs) = Inr (JObj kvs)"
proof -
  have "py_int ''9'' = Some 9"
    by (simp add: py_int_def py_strip_def py_space_def is_digit_def digit_val_def Let_def)
  then show ?thesis by (simp add: read_body_def demo_request_def str_or_def MAX_BODY_def)
qed

lemma demo_path: "rq_path (demo_request path kvs) = path"
  by (simp add: demo_request_def)

lemma demo_verify_request:
  "verify_request demo_attestor [1] cache_clear
     = Inr (demo_verdict ''fp'', cache_put 0 ''fp'' (demo_verdict ''fp'') cache_clear)"
  using demo_verify_client by (simp add: verify_request_def demo_attestor_def load_policy_def)

lemma demo_host_fields:
  "h_crypto demo_host = demo_crypto" "h_dpop demo_host = demo_dpop" "h_keys demo_host = demo_keystore"
  "h_box demo_host = demo_box" "h_clk demo_host = demo_clk 1" "h_nonce demo_host = replicate 12 0"
  by (simp_all add: demo_host_def)

lemma demo_dpop_proof:
  "dpop_proof demo_dpop demo_keystore ''POST'' TOKEN_ENDPOINT None = Inr ''jws''"
  by (simp add: dpop_proof_def dpop_key_def demo_dpop_def read_credential_def credentials_dir_def
      demo_keystore_def str_or_def DPOP_NAME_def TOKEN_ENDPOINT_def py_strip_def py_space_def Let_def)

definition demo_post :: request where
  "demo_post = demo_request ''/unwrap-and-sign''
     [(''uid'', JStr ''u''), (''outer'', JStr (b64 demo_outer)), (''htm'', JStr ''POST''),
      (''htu'', JStr TOKEN_ENDPOINT)]"

definition demo_after :: server where
  "demo_after = \<lparr>sv_cosigner = cosigner_start\<lparr>cs_audit := write_decision ALLOW ''u''
         (ACTION_UNWRAP, None, Some ''fp'', Some ''v1'', True) 1 empty_db\<rparr>,
       sv_verdicts = cache_put 0 ''fp'' (demo_verdict ''fp'') cache_clear\<rparr>"

lemma demo_POST:
  "do_POST demo_host demo_attestor demo_post demo_server
     = ((200, [(''inner'', JStr (b64 [42])), (''proof'', JStr ''jws'')]), demo_after)"
proof -
  have "b64 demo_outer \<noteq> []" "demo_outer \<noteq> []" by (simp_all add: demo_outer_def)
  moreover have "TOKEN_ENDPOINT \<noteq> []" by (simp add: TOKEN_ENDPOINT_def)
  moreover have "allowed_target ''POST'' TOKEN_ENDPOINT = None" by (simp add: allowed_target_def)
  ultimately show ?thesis
    by (simp add: do_POST_def run_post_def demo_post_def demo_path demo_cert demo_body demo_server_def
        demo_verify_request endpoint_def unwrap_request_def required_field_def binary_field_def field_def
        proof_request_def wire.round_trip guarded_def demo_host_fields demo_authorize unless_empty_def
        open_record_def demo_opens lift_keys_def demo_dpop_proof respond_def demo_after_def Let_def
        del: b64.simps)
qed

theorem post_ok_is_authorized_witness:
  "\<exists>row. db_requests (cs_audit (sv_cosigner demo_after)) = db_requests (cs_audit (sv_cosigner demo_server)) @ [row]
    \<and> row_decision row = ALLOW"
  using post_ok_is_authorized [OF demo_POST] by blast

theorem post_keeps_reach_witness:
  "\<exists>t \<le> 1. reach (\<lambda>_. None) t (sv_cosigner demo_after)"
  using post_keeps_reach [OF _ _ _ _ demo_POST, of 0] reach_start [of "\<lambda>_. None" 0]
  by (auto simp: demo_host_fields demo_server_def demo_clk_def demo_box_def)

theorem proof_only_for_token_endpoint_witness:
  "\<exists>body. read_body demo_post = Inr body \<and> asks_for body ''htm'' ''POST''"
  using proof_only_for_token_endpoint [OF demo_POST, of "''jws''"] by auto

theorem inner_only_from_own_record_witness:
  "\<exists>uid outer. unwrap demo_crypto demo_keystore uid outer = Inr [42]"
proof -
  obtain uid outer inner where "unwrap demo_crypto demo_keystore uid outer = Inr inner" "b64 [42] = b64 inner"
    using inner_only_from_own_record [OF demo_POST, of "b64 [42]"] by (auto simp: demo_host_fields simp del: b64.simps)
  with wire.enc_same_view [of "[42]" inner] show ?thesis by metis
qed

definition demo_wrap_post :: request where
  "demo_wrap_post = demo_request ''/wrap'' [(''uid'', JStr ''u''), (''inner'', JStr (b64 [42]))]"

definition demo_unwrap_post :: request where
  "demo_unwrap_post = demo_request ''/unwrap'' [(''uid'', JStr ''u''), (''outer'', JStr (b64 demo_outer))]"

lemma demo_POST_wrap:
  "\<exists>sv'. do_POST demo_host demo_attestor demo_wrap_post demo_server
     = ((200, [(''outer'', JStr (b64 demo_outer))]), sv')"
proof -
  have "b64 [42] \<noteq> []" "[42] \<noteq> ([] :: bytes)" by simp_all
  then show ?thesis
    by (simp add: do_POST_def run_post_def demo_wrap_post_def demo_path demo_cert demo_body demo_server_def
        demo_verify_request endpoint_def wrap_request_def required_field_def binary_field_def field_def
        wire.round_trip guarded_def demo_host_fields demo_wrap unless_empty_def
        demo_wrap_u lift_keys_def respond_def Let_def del: b64.simps)
qed

theorem wrap_unwrap_over_http_witness:
  "fst (do_POST demo_host demo_attestor demo_unwrap_post demo_server)
     \<noteq> (400, [(''error'', JStr ''outer record did not open'')])"
proof -
  obtain sv1 where w: "do_POST demo_host demo_attestor demo_wrap_post demo_server
     = ((200, [(''outer'', JStr (b64 demo_outer))]), sv1)" using demo_POST_wrap by blast
  obtain code p sv2 where u: "do_POST demo_host demo_attestor demo_unwrap_post demo_server = ((code, p), sv2)"
    by (metis prod.exhaust)
  have "aead_inverts (h_crypto demo_host)" "aead_binds (h_crypto demo_host)" "length (h_nonce demo_host) = 12"
    using demo_crypto_laws by (simp_all add: demo_host_fields)
  from wrap_unwrap_over_http [OF this w _ _ _ _ wire.round_trip u,
      where body = "JObj [(''uid'', JStr ''u''), (''inner'', JStr (b64 [42]))]" and uid = "''u''" and uid' = "''u''"
      and body' = "JObj [(''uid'', JStr ''u''), (''outer'', JStr (b64 demo_outer))]"]
  have "(code, p) \<noteq> (400, [(''error'', JStr ''outer record did not open'')])"
    by (simp add: demo_wrap_post_def demo_unwrap_post_def demo_body demo_path asks_for_def wire.round_trip
        del: b64.simps)
  then show ?thesis by (simp add: u)
qed

end
