(* ===== verification/Spool.thy ===== *)
theory Spool
  imports Json
begin

text \<open>
  \<open>backend/spool.py\<close> and the two spools on it, \<open>backend/billing/billing_queue.py\<close> and
  \<open>backend/daemons/wake_queue.py\<close>. A spool is the list of entries in its file; the lock makes an
  append and a drain atomic, so a history of a spool is a sequence of the two. The file holds
  objects only, because \<open>append\<close> asserts it; the readers' branch for anything else is never taken.
\<close>

section \<open>The contract of a queue\<close>

text \<open>
  What both ends rely on: an append adds one entry at the tail, a drain hands out everything
  and leaves nothing. A history is a list of steps: an entry to append, or None to drain.
\<close>

locale fifo =
  fixes items :: "'q \<Rightarrow> 'e list" and put :: "'e \<Rightarrow> 'q \<Rightarrow> 'q" and drain :: "'q \<Rightarrow> 'e list \<times> 'q"
    and valid :: "'e \<Rightarrow> bool"
  assumes items_put: "valid e \<Longrightarrow> items (put e q) = items q @ [e]"
    and drain_all: "fst (drain q) = items q"
    and drain_empties: "items (snd (drain q)) = []"
begin

fun play :: "'e option list \<Rightarrow> 'q \<Rightarrow> 'e list \<times> 'q" where
  "play [] q = ([], q)"
| "play (Some e # steps) q = play steps (put e q)"
| "play (None # steps) q =
     (fst (drain q) @ fst (play steps (snd (drain q))), snd (play steps (snd (drain q))))"

lemma play_conserves:
  "list_all valid (List.map_filter (\<lambda>x. x) steps) \<Longrightarrow>
   fst (play steps q) @ items (snd (play steps q)) = items q @ List.map_filter (\<lambda>x. x) steps"
  by (induction steps q rule: play.induct)
    (auto simp: items_put drain_all drain_empties map_filter_simps)

lemma drained_once: "fst (drain (snd (drain q))) = []"
  by (simp add: drain_all drain_empties)

end

section \<open>A spool\<close>

type_synonym spool = "json list"

definition is_object :: "json \<Rightarrow> bool" where
  "is_object j \<longleftrightarrow> jobj j \<noteq> None"

definition spool_append :: "json \<Rightarrow> spool \<Rightarrow> spool option" where
  "spool_append entry sp = (if is_object entry then Some (sp @ [entry]) else None)"

definition spool_pending :: "spool \<Rightarrow> bool" where
  "spool_pending sp \<longleftrightarrow> sp \<noteq> []"

definition spool_drain :: "spool \<Rightarrow> json list \<times> spool" where
  "spool_drain sp = (sp, [])"

section \<open>Billing events\<close>

definition MAX_ATTEMPTS :: int where "MAX_ATTEMPTS = 5"

definition queued :: "json \<Rightarrow> int \<Rightarrow> json" where
  "queued event attempts = JObj [(''event'', event), (''attempts'', JNum (of_int attempts))]"

definition enqueue :: "json \<Rightarrow> spool \<Rightarrow> spool option" where
  "enqueue event sp = (if is_object event then spool_append (queued event 0) sp else None)"

text \<open>\<open>isinstance(attempts, int) and attempts >= 0\<close>: JSON's true and false are Python ints 1 and 0.\<close>

definition attempts_of :: "json \<Rightarrow> int" where
  "attempts_of j =
     (case j of
        JNum n \<Rightarrow> if n \<in> \<int> \<and> 0 \<le> n then \<lfloor>n\<rfloor> else 0
      | JBool b \<Rightarrow> if b then 1 else 0
      | _ \<Rightarrow> 0)"

definition read_entry :: "json \<Rightarrow> (json \<times> int) list" where
  "read_entry entry =
     (case jobj entry of
        None \<Rightarrow> []
      | Some kvs \<Rightarrow>
          if is_object (jget kvs ''event'') then [(jget kvs ''event'', attempts_of (jget kvs ''attempts''))] else [])"

definition billing_drain :: "spool \<Rightarrow> (json \<times> int) list \<times> spool" where
  "billing_drain sp = (case spool_drain sp of (entries, sp') \<Rightarrow> (concat (map read_entry entries), sp'))"

text \<open>Whether it was put back, and the spool after.\<close>

definition retry :: "json \<Rightarrow> int \<Rightarrow> spool \<Rightarrow> bool \<times> spool" where
  "retry event attempts sp =
     (if MAX_ATTEMPTS \<le> attempts + 1 then (False, sp) else (True, sp @ [queued event (attempts + 1)]))"

section \<open>Wakes\<close>

definition wake_enqueue :: "string \<Rightarrow> spool \<Rightarrow> spool option" where
  "wake_enqueue email sp = (if email = [] then None else spool_append (JObj [(''email'', JStr email)]) sp)"

definition wake_value :: "json \<Rightarrow> json" where
  "wake_value entry =
     (case jobj entry of
        None \<Rightarrow> JNull
      | Some kvs \<Rightarrow> if jtrue (jget kvs ''email'') then jget kvs ''email'' else jget kvs ''account_id'')"

definition wake_drain :: "spool \<Rightarrow> json list \<times> spool" where
  "wake_drain sp = (case spool_drain sp of (entries, sp') \<Rightarrow> (nub (filter jtrue (map wake_value entries)), sp'))"

section \<open>Lemmas\<close>

interpretation spooled: fifo "\<lambda>sp. sp" "\<lambda>e sp. sp @ [e]" spool_drain is_object
  by unfold_locales (simp_all add: spool_drain_def)

lemma attempts_of_int [simp]: "0 \<le> n \<Longrightarrow> attempts_of (JNum (of_int n)) = n"
  by (simp add: attempts_of_def)

lemma read_queued [simp]: "is_object event \<Longrightarrow> 0 \<le> n \<Longrightarrow> read_entry (queued event n) = [(event, n)]"
  by (simp add: read_entry_def queued_def)

lemma is_object_queued [simp]: "is_object (queued event n)"
  by (simp add: is_object_def queued_def)

text \<open>Billing events as a queue of events with their counts, on top of the spool.\<close>

definition billing_items :: "spool \<Rightarrow> (json \<times> int) list" where
  "billing_items sp = concat (map read_entry sp)"

definition billing_put :: "json \<times> int \<Rightarrow> spool \<Rightarrow> spool" where
  "billing_put e sp = sp @ [queued (fst e) (snd e)]"

definition billing_valid :: "json \<times> int \<Rightarrow> bool" where
  "billing_valid e \<longleftrightarrow> is_object (fst e) \<and> 0 \<le> snd e"

interpretation events: fifo billing_items billing_put billing_drain billing_valid
  by unfold_locales
    (auto simp: billing_items_def billing_put_def billing_valid_def billing_drain_def spool_drain_def)

lemma enqueue_put: "is_object event \<Longrightarrow> enqueue event sp = Some (billing_put (event, 0) sp)"
  by (simp add: enqueue_def spool_append_def billing_put_def)

lemma retry_put:
  "retry event n sp = (if n + 1 < 5 then (True, billing_put (event, n + 1) sp) else (False, sp))"
  by (simp add: retry_def billing_put_def MAX_ATTEMPTS_def)

text \<open>
  A history of the billing spool, in the operations its two ends call: the receiver's enqueue of
  an event, the daemon's retry of one with the count it was drained with, and the daemon's drain.
  An enqueue that raises leaves the file as it is.
\<close>

datatype billing_step = Enqueue json | Retry json int | Drain

fun billing_history :: "billing_step list \<Rightarrow> spool \<Rightarrow> (json \<times> int) list \<times> spool" where
  "billing_history [] sp = ([], sp)"
| "billing_history (Enqueue event # steps) sp =
     billing_history steps (case enqueue event sp of None \<Rightarrow> sp | Some sp' \<Rightarrow> sp')"
| "billing_history (Retry event n # steps) sp = billing_history steps (snd (retry event n sp))"
| "billing_history (Drain # steps) sp =
     (case billing_drain sp of (evs, sp') \<Rightarrow>
      case billing_history steps sp' of (rest, sp'') \<Rightarrow> (evs @ rest, sp''))"

text \<open>What a step is to leave in the spool for a later drain.\<close>

fun owed :: "billing_step \<Rightarrow> (json \<times> int) list" where
  "owed (Enqueue event) = (if is_object event then [(event, 0)] else [])"
| "owed (Retry event n) = (if n < 4 then [(event, n + 1)] else [])"
| "owed Drain = []"

definition fifo_steps :: "billing_step \<Rightarrow> (json \<times> int) option list" where
  "fifo_steps st = (if st = Drain then [None] else map Some (owed st))"

lemma billing_history_plays:
  "billing_history steps sp = events.play (concat (map fifo_steps steps)) sp"
proof (induction steps sp rule: billing_history.induct)
  case (2 event steps sp)
  then show ?case
    using enqueue_put [of event sp] enqueue_def [of event sp]
    by (cases "is_object event") (simp_all add: fifo_steps_def)
next
  case (3 event n steps sp)
  then show ?case by (simp add: fifo_steps_def retry_put)
next
  case (4 steps sp)
  then show ?case by (simp add: fifo_steps_def split: prod.split)
qed simp

lemma fifo_steps_owed:
  "List.map_filter (\<lambda>x. x) (concat (map fifo_steps steps)) = concat (map owed steps)"
proof -
  have app: "List.map_filter (\<lambda>x. x) (xs @ ys) = List.map_filter (\<lambda>x. x) xs @ List.map_filter (\<lambda>x. x) ys"
    for xs ys :: "(json \<times> int) option list" by (simp add: map_filter_def)
  have some: "List.map_filter (\<lambda>x. x) (map Some es) = es" for es :: "(json \<times> int) list"
    by (induction es) (simp_all add: map_filter_simps)
  show ?thesis
    by (induction steps) (auto simp: app some fifo_steps_def map_filter_simps)
qed

text \<open>
  C36: a spool neither loses nor repeats a billing event. Over any interleaving of the receiver's
  enqueues with the daemon's drains and retries, what the drains handed out followed by what is
  still spooled is what was spooled at first followed, in the order of the calls, by each enqueued
  event with the count 0 and each retried one with one more than the count it was retried with;
  left out are only an enqueue of what is no object, which raises, and a retry at count 4 or more,
  the fifth attempt, which is not put back. The retries are of objects and counts that are not
  negative, as \<open>retry\<close> asserts.
\<close>

theorem billing_events_conserved:
  assumes "\<forall>event n. Retry event n \<in> set steps \<longrightarrow> is_object event \<and> 0 \<le> n"
  shows "fst (billing_history steps sp) @ billing_items (snd (billing_history steps sp))
       = billing_items sp @ concat (map (\<lambda>st. case st of
           Enqueue event \<Rightarrow> if is_object event then [(event, 0)] else []
         | Retry event n \<Rightarrow> if n < 4 then [(event, n + 1)] else []
         | Drain \<Rightarrow> []) steps)"
proof -
  have "billing_valid e" if "st \<in> set steps" "e \<in> set (owed st)" for st e
  proof (cases st)
    case (Retry event n)
    then have "is_object event \<and> 0 \<le> n" using that(1) assms by blast
    with Retry that(2) show ?thesis by (auto simp: billing_valid_def split: if_splits)
  qed (use that(2) in \<open>auto simp: billing_valid_def split: if_splits\<close>)
  then have "list_all billing_valid (concat (map owed steps))" by (auto simp: list_all_iff)
  moreover have "owed = (\<lambda>st. case st of Enqueue event \<Rightarrow> if is_object event then [(event, 0)] else []
      | Retry event n \<Rightarrow> if n < 4 then [(event, n + 1)] else [] | Drain \<Rightarrow> [])"
    by (rule ext) (simp split: billing_step.split)
  ultimately show ?thesis
    using events.play_conserves [of "concat (map fifo_steps steps)" sp]
    by (simp add: fifo_steps_owed billing_history_plays)
qed

theorem billing_events_conserved_witness:
  "fst (billing_history [Enqueue (JObj []), Drain, Retry (JObj []) 0, Enqueue JNull, Drain, Retry (JObj []) 4] [])
     @ billing_items (snd (billing_history
         [Enqueue (JObj []), Drain, Retry (JObj []) 0, Enqueue JNull, Drain, Retry (JObj []) 4] []))
   = [(JObj [], 0), (JObj [], 1)]"
  using billing_events_conserved
    [of "[Enqueue (JObj []), Drain, Retry (JObj []) 0, Enqueue JNull, Drain, Retry (JObj []) 4]" "[]"]
  by (auto simp: is_object_def billing_items_def)

text \<open>
  wakes coalesce: a drain names every mailbox that was pushed since the last one exactly
  once, in the order the first push for it arrived, under the key of this release or of the
  one before, and leaves nothing behind.
\<close>

theorem wake_drain_coalesces:
  "fst (wake_drain sp) = nub (filter jtrue (map wake_value sp)) \<and> distinct (fst (wake_drain sp))
   \<and> set (fst (wake_drain sp)) = {v. jtrue v \<and> v \<in> wake_value ` set sp} \<and> snd (wake_drain sp) = []
   \<and> (case wake_enqueue email sp of
        None \<Rightarrow> email = []
      | Some sp' \<Rightarrow> fst (wake_drain sp') =
          fst (wake_drain sp) @ (if JStr email \<in> set (fst (wake_drain sp)) then [] else [JStr email]))"
proof -
  have snoc: "nub (xs @ [y]) = nub xs @ (if y \<in> set xs then [] else [y])" for xs and y :: json
    by (induction xs rule: nub.induct) auto
  show ?thesis
    by (auto simp: wake_drain_def spool_drain_def wake_enqueue_def spool_append_def is_object_def wake_value_def snoc)
qed

end
