(* ===== verification/Names.thy ===== *)
theory Names
  imports Prelude
begin

text \<open>
  The names of \<open>backend/accounts/account.py\<close>: account ids that become directory names,
  opaque handles, calendar ids, and the checks that refuse the others. Every
  \<open>raise InvalidAccountData\<close> of the module is a constructor of \<open>bad_data\<close>; assertions
  and the other exceptions its callers see are constructors of \<open>acct_error\<close>.
\<close>

datatype bad_data =
    NotAHandle string | BadPath string | NotInStore string | NotAnEmail string | PathSeparators string
  | BadPlanStatus string | CustomerTaken nat | BadCalendar string
  | NoManifest | DuplicateIds | DuplicateHandles | DuplicateCustomers

datatype acct_error =
    InvalidAccountData bad_data | AccountLimitReached | KeyError string | AssertionFailed string | MaskingFailed string

section \<open>Substrings and character classes\<close>

fun contains :: "string \<Rightarrow> string \<Rightarrow> bool" where
  "contains p [] = (p = [])"
| "contains p (c # cs) = (take (length p) (c # cs) = p \<or> contains p cs)"

definition is_lower :: "char \<Rightarrow> bool" where
  "is_lower c = (let n = (of_char c :: nat) in 97 \<le> n \<and> n \<le> 122)"

definition is_hex :: "char \<Rightarrow> bool" where
  "is_hex c \<longleftrightarrow> is_digit c \<or> (let n = (of_char c :: nat) in 97 \<le> n \<and> n \<le> 102)"

section \<open>Handles\<close>

definition HANDLE_BYTES :: nat where "HANDLE_BYTES = 16"

definition is_handle :: "string \<Rightarrow> bool" where
  "is_handle h \<longleftrightarrow> length h = HANDLE_BYTES * 2 \<and> (\<forall>c \<in> set h. is_hex c)"

definition check_handle :: "string option \<Rightarrow> acct_error + string" where
  "check_handle h =
     (case h of
        None \<Rightarrow> Inl (InvalidAccountData (NotAHandle ''None''))
      | Some s \<Rightarrow> if is_handle s then Inr s else Inl (InvalidAccountData (NotAHandle s)))"

text \<open>\<open>os.urandom(16).hex()\<close>; the random bytes are the argument.\<close>

definition new_handle :: "nat list \<Rightarrow> string" where
  "new_handle raw = concat (map (\<lambda>b. [hex_digit (b div 16), hex_digit (b mod 16)]) raw)"

section \<open>Account ids\<close>

definition check_id :: "string \<Rightarrow> acct_error + string" where
  "check_id aid =
     (if aid = [] \<or> CHR ''/'' \<in> set aid \<or> CHR 0x5C \<in> set aid \<or> contains ''..'' aid
      then Inl (InvalidAccountData (BadPath aid)) else Inr aid)"

text \<open>
  The directory of an account is named by the one component of the path below the store;
  \<open>.\<close> is the only checked id whose parent is not the store.
\<close>

definition account_dir :: "string \<Rightarrow> acct_error + string" where
  "account_dir aid =
     (case check_id aid of
        Inl e \<Rightarrow> Inl e
      | Inr name \<Rightarrow> if name = ''.'' then Inl (InvalidAccountData (NotInStore aid)) else Inr name)"

section \<open>Calendar ids\<close>

text \<open>
  \<open>CALENDAR_ID_RE.fullmatch\<close>: a local part, one \<open>@\<close>, a domain, a last dot, letters. None of
  the classes holds an \<open>@\<close> and the last holds no dot, so the split is at the only \<open>@\<close> and at
  the last dot.
\<close>

definition local_char :: "char \<Rightarrow> bool" where
  "local_char c \<longleftrightarrow> is_lower c \<or> is_digit c \<or> c \<in> set ''._%+-''"

definition domain_char :: "char \<Rightarrow> bool" where
  "domain_char c \<longleftrightarrow> is_lower c \<or> is_digit c \<or> c \<in> set ''.-''"

definition calendar_id :: "string \<Rightarrow> bool" where
  "calendar_id s =
     (case split_on CHR ''@'' s of
        [user, host] \<Rightarrow>
         (let parts = split_on CHR ''.'' host; tld = last parts; dom = join_with ''.'' (butlast parts)
          in user \<noteq> [] \<and> (is_lower (hd user) \<or> is_digit (hd user)) \<and> length user \<le> 128
             \<and> (\<forall>c \<in> set user. local_char c)
             \<and> 2 \<le> length parts \<and> 1 \<le> length dom \<and> length dom \<le> 128 \<and> (\<forall>c \<in> set dom. domain_char c)
             \<and> 2 \<le> length tld \<and> length tld \<le> 24 \<and> (\<forall>c \<in> set tld. is_lower c))
      | _ \<Rightarrow> False)"

section \<open>Lemmas\<close>

lemma check_handle_Inr [simp]: "check_handle h = Inr s \<longleftrightarrow> h = Some s \<and> is_handle s"
  by (auto simp: check_handle_def split: option.splits)

lemma check_id_Inr [simp]:
  "check_id aid = Inr name \<longleftrightarrow>
     name = aid \<and> aid \<noteq> [] \<and> CHR ''/'' \<notin> set aid \<and> CHR 0x5C \<notin> set aid \<and> \<not> contains ''..'' aid"
  by (auto simp: check_id_def)

lemma account_dir_Inr: "account_dir aid = Inr d \<Longrightarrow> d = aid \<and> check_id aid = Inr aid \<and> aid \<noteq> ''.''"
  by (auto simp: account_dir_def split: sum.splits if_splits)

lemma hex_digit_is_hex: "d < 16 \<Longrightarrow> is_hex (hex_digit d)"
  by (auto simp: is_hex_def is_digit_def hex_digit_def Let_def take_bit_eq_mod)

lemma new_handle_is_handle:
  assumes "length raw = HANDLE_BYTES" and "\<forall>b \<in> set raw. b < 256"
  shows "is_handle (new_handle raw)"
proof -
  have "length (new_handle raw) = 2 * length raw"
    unfolding new_handle_def by (induction raw) auto
  moreover have "is_hex (hex_digit (b div 16))" "is_hex (hex_digit (b mod 16))" if "b \<in> set raw" for b
    using assms(2) that by (auto intro!: hex_digit_is_hex simp: less_mult_imp_div_less)
  ultimately show ?thesis
    using assms(1) by (auto simp: is_handle_def new_handle_def)
qed

end
