(* ===== verification/EventLog.thy ===== *)
theory EventLog
  imports Names
begin

text \<open>
  \<open>backend/audit.py\<close>: the application's own log, one row per change a person made to their
  account. The state is the table, oldest row first, and the time of the last prune; the
  origin of a row is the request being served on the writing thread.
\<close>

datatype event_action =
    SIGN_IN | SIGN_OUT | CONSENT | ACCOUNT | SETTINGS | TELEGRAM | VOICE | PERSONAL | PLAN | BILLING_CUSTOMER

type_synonym origin = "string option \<times> string option"

record event_row =
  ev_ts :: secs
  ev_account :: string
  ev_action :: event_action
  ev_outcome :: string
  ev_detail :: "string option"
  ev_origin :: origin

record event_log =
  el_rows :: "event_row list"
  el_last_prune :: secs

definition empty_log :: event_log where
  "empty_log = \<lparr>el_rows = [], el_last_prune = 0\<rparr>"

definition MAX_DETAIL_TOKENS :: nat where "MAX_DETAIL_TOKENS = 12"
definition MAX_USER_AGENT :: nat where "MAX_USER_AGENT = 200"
definition RETENTION_DAYS :: secs where "RETENTION_DAYS = 180"
definition PRUNE_INTERVAL :: secs where "PRUNE_INTERVAL = 3600"

definition token_char :: "char \<Rightarrow> bool" where
  "token_char c \<longleftrightarrow> is_lower c \<or> is_digit c \<or> c \<in> set ''_.:-''"

definition is_token :: "string \<Rightarrow> bool" where
  "is_token t \<longleftrightarrow> t \<noteq> [] \<and> length t \<le> 32 \<and> (is_lower (hd t) \<or> is_digit (hd t)) \<and> (\<forall>c \<in> set t. token_char c)"

text \<open>\<open>request_context\<close>: an empty address or agent is no address or agent.\<close>

definition request_origin :: "string option \<Rightarrow> string option \<Rightarrow> origin" where
  "request_origin ip ua =
     (let keep = (\<lambda>s. if s = [] then None else Some s)
      in (keep (str_or ip ''''), keep (take MAX_USER_AGENT (str_or ua ''''))))"

definition detail_string :: "string list \<Rightarrow> acct_error + string option" where
  "detail_string detail =
     (if MAX_DETAIL_TOKENS < length detail then Inl (AssertionFailed ''detail takes at most 12 tokens'')
      else if \<exists>t \<in> set detail. \<not> is_token t then Inl (AssertionFailed ''detail takes short name tokens'')
      else if join_with '','' detail = [] then Inr None else Inr (Some (join_with '','' detail)))"

definition event_prune :: "secs \<Rightarrow> event_log \<Rightarrow> nat \<times> event_log" where
  "event_prune cutoff lg =
     (length (filter (\<lambda>r. ev_ts r < cutoff) (el_rows lg)),
      lg\<lparr>el_rows := filter (\<lambda>r. \<not> ev_ts r < cutoff) (el_rows lg)\<rparr>)"

definition maybe_prune :: "secs \<Rightarrow> event_log \<Rightarrow> nat \<times> event_log" where
  "maybe_prune now lg =
     (if now - el_last_prune lg < PRUNE_INTERVAL then (0, lg)
      else event_prune (now - RETENTION_DAYS * 86400) (lg\<lparr>el_last_prune := now\<rparr>))"

text \<open>The assertions come first, so a row is written whole or not at all.\<close>

definition event_record ::
  "secs \<Rightarrow> origin \<Rightarrow> string \<Rightarrow> event_action \<Rightarrow> string \<Rightarrow> string list \<Rightarrow> event_log \<Rightarrow> acct_error + event_log" where
  "event_record now org aid action outcome detail lg =
     (if aid = [] then Inl (AssertionFailed ''audit.record requires an account id'')
      else if \<not> is_token outcome then Inl (AssertionFailed ''audit outcome must be a short token'')
      else case detail_string detail of
          Inl e \<Rightarrow> Inl e
        | Inr d \<Rightarrow>
            Inr (snd (maybe_prune now (lg\<lparr>el_rows := el_rows lg @
              [\<lparr>ev_ts = now, ev_account = aid, ev_action = action, ev_outcome = outcome, ev_detail = d,
                ev_origin = org\<rparr>]\<rparr>))))"

definition event_recent :: "nat \<Rightarrow> string option \<Rightarrow> event_log \<Rightarrow> event_row list" where
  "event_recent limit aid lg =
     take limit (rev (filter (\<lambda>r. case aid of None \<Rightarrow> True | Some a \<Rightarrow> ev_account r = a) (el_rows lg)))"

section \<open>Lemmas\<close>

lemma event_prune_rows: "el_rows (snd (event_prune cutoff lg)) = filter (\<lambda>r. cutoff \<le> ev_ts r) (el_rows lg)"
  by (simp add: event_prune_def not_less)

lemma maybe_prune_rows:
  "r \<in> set (el_rows (snd (maybe_prune now lg))) \<longleftrightarrow>
     r \<in> set (el_rows lg) \<and> (now - el_last_prune lg < PRUNE_INTERVAL \<or> now - RETENTION_DAYS * 86400 \<le> ev_ts r)"
  by (auto simp: maybe_prune_def event_prune_def)

lemma join_with_nonempty: "ts \<noteq> [] \<Longrightarrow> \<forall>t \<in> set ts. t \<noteq> [] \<Longrightarrow> join_with sep ts \<noteq> []"
  by (induction sep ts rule: join_with.induct) auto

text \<open>A fresh row survives the prune that follows it: it is never older than the window.\<close>

lemma event_record_recent:
  assumes "event_record now org aid action outcome detail lg = Inr lg'"
  shows "event_recent 1 None lg' =
    [\<lparr>ev_ts = now, ev_account = aid, ev_action = action, ev_outcome = outcome,
      ev_detail = (if detail = [] then None else Some (join_with '','' detail)), ev_origin = org\<rparr>]"
proof -
  have "join_with '','' detail \<noteq> []" if "detail \<noteq> []" "\<forall>t \<in> set detail. is_token t"
    using that by (intro join_with_nonempty) (auto simp: is_token_def)
  then have "detail_string detail = Inr d \<Longrightarrow> d = (if detail = [] then None else Some (join_with '','' detail))" for d
    by (auto simp: detail_string_def split: if_splits)
  moreover have "event_recent 1 None (snd (maybe_prune now (lg\<lparr>el_rows := el_rows lg @ [r]\<rparr>))) = [r]"
    if "ev_ts r = now" for r
    using that by (simp add: event_recent_def maybe_prune_def event_prune_def RETENTION_DAYS_def)
  ultimately show ?thesis
    using assms by (auto simp: event_record_def split: if_splits sum.splits)
qed

lemma event_record_ok: "event_record now org aid action outcome detail lg = Inr lg' \<longleftrightarrow>
   aid \<noteq> [] \<and> is_token outcome \<and> (\<exists>d. detail_string detail = Inr d \<and>
     lg' = snd (maybe_prune now (lg\<lparr>el_rows := el_rows lg @
       [\<lparr>ev_ts = now, ev_account = aid, ev_action = action, ev_outcome = outcome, ev_detail = d, ev_origin = org\<rparr>]\<rparr>)))"
  by (auto simp: event_record_def split: sum.splits)

text \<open>
  the application's log carries names and never contents: whatever a caller passes, a row
  that is written has an outcome and details that are short tokens of a fixed alphabet, at
  most twelve of them; anything else raises and writes nothing.
\<close>

theorem event_rows_are_tokens:
  "case event_record now org aid action outcome detail lg of
     Inr lg' \<Rightarrow> is_token outcome \<and> length detail \<le> 12 \<and> list_all is_token detail
       \<and> map ev_detail (event_recent 1 None lg') = [if detail = [] then None else Some (join_with '','' detail)]
       \<and> length (join_with '','' detail) \<le> 12 * 33
   | Inl e \<Rightarrow> \<not> (aid \<noteq> [] \<and> is_token outcome \<and> length detail \<le> 12 \<and> list_all is_token detail)"
proof (cases "event_record now org aid action outcome detail lg")
  case (Inl e)
  then show ?thesis
    by (auto simp: event_record_def detail_string_def MAX_DETAIL_TOKENS_def list_all_iff
        split: if_splits sum.splits)
next
  case (Inr lg')
  have len: "length (join_with '','' ts) \<le> length ts * 33" if "list_all is_token ts" for ts
    using that by (induction "'',''" ts rule: join_with.induct) (auto simp: is_token_def)
  have shape: "is_token outcome" "length detail \<le> 12" "list_all is_token detail"
    using Inr by (auto simp: event_record_def detail_string_def MAX_DETAIL_TOKENS_def list_all_iff split: if_splits)
  with len [of detail] have "length (join_with '','' detail) \<le> 12 * 33" by linarith
  with Inr shape event_record_recent [OF Inr] show ?thesis by simp
qed

text \<open>
  retention is a clock: the log
  after any write holds no row that had aged out when the last prune ran, and that prune is
  less than an hour old.
\<close>

theorem event_retention:
  assumes "\<forall>r \<in> set (el_rows lg). el_last_prune lg - 180 * 86400 \<le> ev_ts r"
    and "event_record now org aid action outcome detail lg = Inr lg'" and "el_last_prune lg \<le> now"
  shows "(\<forall>r \<in> set (el_rows lg'). el_last_prune lg' - 180 * 86400 \<le> ev_ts r)
    \<and> now - el_last_prune lg' < 3600"
proof -
  obtain d where lg': "lg' = snd (maybe_prune now (lg\<lparr>el_rows := el_rows lg @
      [\<lparr>ev_ts = now, ev_account = aid, ev_action = action, ev_outcome = outcome, ev_detail = d, ev_origin = org\<rparr>]\<rparr>))"
    using assms(2) by (auto simp: event_record_ok)
  show ?thesis
    using assms(1,3) unfolding lg'
    by (cases "now - el_last_prune lg < 3600")
      (auto simp: maybe_prune_def event_prune_def RETENTION_DAYS_def PRUNE_INTERVAL_def)
qed

theorem event_retention_witness:
  "\<exists>lg'. event_record 20000000 (None, None) ''a'' PLAN ''active'' [] empty_log = Inr lg'
     \<and> 20000000 - el_last_prune lg' < 3600"
proof -
  obtain lg' where r: "event_record 20000000 (None, None) ''a'' PLAN ''active'' [] empty_log = Inr lg'"
    by (simp add: event_record_ok detail_string_def MAX_DETAIL_TOKENS_def is_token_def token_char_def
        is_lower_def Let_def)
  from event_retention [OF _ this] r show ?thesis by (simp add: empty_log_def)
qed

end
