(* ===== verification/Store.thy ===== *)
theory Store
  imports EventLog "HOL-Library.Word"
begin

text \<open>
  What the enclave keeps: the manifest of \<open>backend/accounts/account.py\<close> (one \<open>acct_entry\<close> per
  user, None for a key the JSON object does not have), the application's log, the files of each
  account's directory, and the data keys a process holds in memory. The first operations are
  those of \<open>backend/custody/keyring.py\<close> that deletion needs.
\<close>

type_synonym bytes = "8 word list"

section \<open>The manifest\<close>

record telegram_block =
  tg_chat_id :: "string option"
  tg_token :: "string option"

definition no_telegram :: telegram_block where
  "no_telegram = \<lparr>tg_chat_id = None, tg_token = None\<rparr>"

record ident_block =
  ib_first :: string
  ib_last :: string
  ib_first_aliases :: "string list"
  ib_emails :: "string list"
  ib_phones :: "string list"
  ib_contacts :: "string list"

record acct_entry =
  ae_id :: string
  ae_handle :: "string option"
  ae_identity :: ident_block
  ae_telegram :: "telegram_block option"
  ae_timezone :: "string option"
  ae_auto_schedule :: "bool option"
  ae_plan_status :: "string option"
  ae_token_file :: "string option"
  ae_voice_file :: "string option"
  ae_state_file :: "string option"
  ae_polar_customer_id :: "string option"
  ae_inference_provider :: "string option"
  ae_pii_analyzer :: "bool option"
  ae_ban_dashes :: "bool option"
  ae_community_calendar :: "string option"

text \<open>A data key in memory: the key and when it stops being served.\<close>

type_synonym dek_cache = "string \<Rightarrow> (bytes \<times> secs) option"

record store =
  st_manifest :: "acct_entry list option"
  st_log :: event_log
  st_files :: "string \<Rightarrow> string \<Rightarrow> bytes option"
  st_deks :: dek_cache

section \<open>The data key record as a file\<close>

definition DEK_FILE :: string where "DEK_FILE = ''dek.bin''"

definition file_at :: "string \<Rightarrow> string \<Rightarrow> store \<Rightarrow> acct_error + bytes option" where
  "file_at uid name s =
     (case account_dir uid of Inl e \<Rightarrow> Inl e | Inr dir \<Rightarrow> Inr (st_files s dir name))"

definition has_key :: "string \<Rightarrow> store \<Rightarrow> acct_error + bool" where
  "has_key uid s = (case file_at uid DEK_FILE s of Inl e \<Rightarrow> Inl e | Inr f \<Rightarrow> Inr (f \<noteq> None))"

definition put_file :: "string \<Rightarrow> string \<Rightarrow> bytes \<Rightarrow> store \<Rightarrow> store" where
  "put_file dir name blob s = s\<lparr>st_files := (st_files s)(dir := (st_files s dir)(name \<mapsto> blob))\<rparr>"

definition drop_file :: "string \<Rightarrow> string \<Rightarrow> store \<Rightarrow> store" where
  "drop_file dir name s = s\<lparr>st_files := (st_files s)(dir := (st_files s dir)(name := None))\<rparr>"

text \<open>None forgets every account.\<close>

definition forget_keys :: "string option \<Rightarrow> store \<Rightarrow> store" where
  "forget_keys uid s =
     s\<lparr>st_deks := (case uid of None \<Rightarrow> (\<lambda>_. None) | Some u \<Rightarrow> (st_deks s)(u := None))\<rparr>"

definition destroy :: "string \<Rightarrow> store \<Rightarrow> (acct_error + bool) \<times> store" where
  "destroy uid s =
     (let s1 = forget_keys (Some uid) s
      in case account_dir uid of
           Inl e \<Rightarrow> (Inl e, s1)
         | Inr dir \<Rightarrow>
             (if st_files s1 dir DEK_FILE = None then (Inr False, s1)
              else (Inr True, drop_file dir DEK_FILE s1)))"

section \<open>Lemmas\<close>

lemma file_at_Inr [simp]:
  "file_at uid name s = Inr f \<longleftrightarrow> (\<exists>dir. account_dir uid = Inr dir \<and> f = st_files s dir name)"
  by (auto simp: file_at_def split: sum.splits)

lemma st_files_writes [simp, store_simps]:
  "st_files (put_file dir name blob s) = (st_files s)(dir := (st_files s dir)(name \<mapsto> blob))"
  "st_files (drop_file dir name s) = (st_files s)(dir := (st_files s dir)(name := None))"
  "st_files (forget_keys u s) = st_files s"
  "st_deks (put_file dir name blob s) = st_deks s"
  "st_deks (drop_file dir name s) = st_deks s"
  "st_manifest (put_file dir name blob s) = st_manifest s"
  "st_manifest (drop_file dir name s) = st_manifest s"
  "st_manifest (forget_keys u s) = st_manifest s"
  "st_log (put_file dir name blob s) = st_log s"
  "st_log (drop_file dir name s) = st_log s"
  "st_log (forget_keys u s) = st_log s"
  by (simp_all add: put_file_def drop_file_def forget_keys_def)

lemma st_deks_forget [simp, store_simps]:
  "st_deks (forget_keys (Some u) s) = (st_deks s)(u := None)"
  "st_deks (forget_keys None s) = (\<lambda>_. None)"
  by (simp_all add: forget_keys_def)

text \<open>After a shred the record is gone from the disk and the key from memory; nothing else is.\<close>

lemma destroy_shreds:
  assumes "destroy uid s = (Inr b, s')"
  shows "st_files s' uid DEK_FILE = None" and "st_deks s' uid = None"
    and "\<And>u n. (u, n) \<noteq> (uid, DEK_FILE) \<Longrightarrow> st_files s' u n = st_files s u n"
    and "\<And>u. u \<noteq> uid \<Longrightarrow> st_deks s' u = st_deks s u"
    and "st_manifest s' = st_manifest s" and "st_log s' = st_log s"
  using assms
  by (auto simp: destroy_def Let_def split: sum.splits if_splits dest!: account_dir_Inr)

lemma destroy_fails: "destroy uid s = (Inl e, s') \<Longrightarrow> account_dir uid = Inl e \<and> s' = forget_keys (Some uid) s"
  by (auto simp: destroy_def Let_def split: sum.splits if_splits)

end
