(* ===== verification/Manifest.thy ===== *)
theory Manifest
  imports Store
begin

text \<open>
  \<open>backend/accounts/account.py\<close>: the manifest and its sole writers. A writer is one
  transaction over the entry list (the two locks make it atomic; an exception out of the body
  leaves the list alone) followed by one row of the log, so its result is a value or an error
  together with the store after it. The fields of \<open>site_env\<close> are what the module reads from
  the process: directories, the shared bot's token, the account ceiling, the environment.
\<close>

record site_env =
  se_root :: string
  se_accounts :: string
  se_bot :: "string option"
  se_max :: nat
  se_env :: "string \<Rightarrow> string option"

text \<open>What a writer reads of its surroundings; \<open>cx_stuck\<close> are the files (by directory and name) that the
  file system will not remove.\<close>

record ctx =
  cx_now :: secs
  cx_origin :: origin
  cx_stuck :: "string \<Rightarrow> string \<Rightarrow> bool"

definition DEFAULT_TIMEZONE :: string where "DEFAULT_TIMEZONE = ''UTC''"

section \<open>Accounts built from entries\<close>

record identity =
  id_first :: string
  id_last :: string
  id_first_aliases :: "string list"
  id_emails :: "string list"
  id_phones :: "string list"
  id_phone_digits :: "string list"
  id_contacts :: "string list"
  id_account :: string
  id_analyzer :: bool

record account =
  ac_id :: string
  ac_handle :: "string option"
  ac_identity :: identity
  ac_state_file :: string
  ac_telegram :: "(string \<times> string) option"
  ac_token_file :: "string option"
  ac_plan_status :: string
  ac_polar_customer_id :: "string option"
  ac_timezone :: string
  ac_auto_schedule :: bool
  ac_community_calendar :: "string option"
  ac_voice_file :: "string option"
  ac_inference_provider :: "string option"
  ac_pii_analyzer :: bool
  ac_ban_dashes :: bool

fun py_words :: "string \<Rightarrow> string \<Rightarrow> string list" where
  "py_words acc [] = (if acc = [] then [] else [rev acc])"
| "py_words acc (c # cs) =
     (if py_space c then (if acc = [] then py_words [] cs else rev acc # py_words [] cs)
      else py_words (c # acc) cs)"

definition MIN_PHONE_DIGITS :: nat where "MIN_PHONE_DIGITS = 7"

definition user_identity ::
  "ident_block \<Rightarrow> string \<Rightarrow> bool \<Rightarrow> acct_error + identity" where
  "user_identity ib aid analyzer =
     (if ib_first ib = [] \<or> ib_last ib = [] then Inl (AssertionFailed ''identity requires first and last name'')
      else if aid = [] then Inl (AssertionFailed ''identity requires an account_id'')
      else case filter (\<lambda>p. length (filter is_digit p) < MIN_PHONE_DIGITS) (ib_phones ib) of
          p # _ \<Rightarrow> Inl (MaskingFailed p)
        | [] \<Rightarrow>
            Inr \<lparr>id_first = ib_first ib, id_last = ib_last ib, id_first_aliases = ib_first_aliases ib,
              id_emails = ib_emails ib, id_phones = ib_phones ib,
              id_phone_digits = map (filter is_digit) (ib_phones ib),
              id_contacts = map (\<lambda>c. join_with '' '' (py_words [] c))
                (filter (\<lambda>c. py_strip c \<noteq> []) (ib_contacts ib)),
              id_account = aid, id_analyzer = analyzer\<rparr>)"

definition resolve_path :: "site_env \<Rightarrow> string \<Rightarrow> string" where
  "resolve_path E p = (if p \<noteq> [] \<and> hd p = CHR ''/'' then p else se_root E @ ''/'' @ p)"

definition the_default :: "'a \<Rightarrow> 'a option \<Rightarrow> 'a" where
  "the_default d x = (case x of None \<Rightarrow> d | Some v \<Rightarrow> v)"

definition keep_truthy :: "string option \<Rightarrow> string option" where
  "keep_truthy x = (if truthy x then x else None)"

definition telegram_from_entry :: "site_env \<Rightarrow> acct_entry \<Rightarrow> (string \<times> string) option" where
  "telegram_from_entry E e =
     (case ae_telegram e of
        None \<Rightarrow> None
      | Some tg \<Rightarrow>
         (let chat = str_or (tg_chat_id tg) ''''; token = str_or (tg_token tg) (str_or (se_bot E) '''')
          in if chat = [] then None else if token = [] then None else Some (token, chat)))"

definition account_from_entry :: "site_env \<Rightarrow> acct_entry \<Rightarrow> acct_error + account" where
  "account_from_entry E e =
     (let analyzer = the_default True (ae_pii_analyzer e)
      in case user_identity (ae_identity e) (ae_id e) analyzer of
           Inl err \<Rightarrow> Inl err
         | Inr idn \<Rightarrow>
             Inr \<lparr>ac_id = ae_id e, ac_handle = ae_handle e, ac_identity = idn,
               ac_state_file = resolve_path E (str_or (ae_state_file e) (se_accounts E @ ''/'' @ ae_id e @ ''/state.json'')),
               ac_telegram = telegram_from_entry E e,
               ac_token_file = map_option (resolve_path E) (keep_truthy (ae_token_file e)),
               ac_plan_status = the_default ''active'' (ae_plan_status e),
               ac_polar_customer_id = ae_polar_customer_id e,
               ac_timezone = str_or (ae_timezone e) DEFAULT_TIMEZONE,
               ac_auto_schedule = the_default False (ae_auto_schedule e),
               ac_community_calendar = keep_truthy (ae_community_calendar e),
               ac_voice_file = map_option (resolve_path E) (keep_truthy (ae_voice_file e)),
               ac_inference_provider = ae_inference_provider e, ac_pii_analyzer = analyzer,
               ac_ban_dashes = the_default True (ae_ban_dashes e)\<rparr>)"

section \<open>Reading\<close>

definition norm_arg :: "string option \<Rightarrow> string" where
  "norm_arg x = norm_id (str_or x '''')"

definition handle_for_email :: "string option \<Rightarrow> store \<Rightarrow> string option" where
  "handle_for_email email s =
     (case st_manifest s of
        None \<Rightarrow> None
      | Some es \<Rightarrow>
         (case find (\<lambda>e. norm_id (ae_id e) = norm_arg email) es of
            None \<Rightarrow> None | Some e \<Rightarrow> ae_handle e))"

definition email_for_handle :: "string \<Rightarrow> store \<Rightarrow> string option" where
  "email_for_handle h s =
     (case st_manifest s of
        None \<Rightarrow> None
      | Some es \<Rightarrow> map_option ae_id (find (\<lambda>e. ae_handle e = Some h) es))"

fun build_all :: "site_env \<Rightarrow> acct_entry list \<Rightarrow> acct_error + account list" where
  "build_all E [] = Inr []"
| "build_all E (e # es) =
     (case account_from_entry E e of
        Inl err \<Rightarrow> Inl err
      | Inr a \<Rightarrow> (case build_all E es of Inl err \<Rightarrow> Inl err | Inr as \<Rightarrow> Inr (a # as)))"

definition present :: "('a \<Rightarrow> string option) \<Rightarrow> 'a list \<Rightarrow> string list" where
  "present f xs = filter (\<lambda>s. s \<noteq> []) (map (\<lambda>x. str_or (f x) '''') xs)"

definition all_accounts :: "site_env \<Rightarrow> store \<Rightarrow> acct_error + account list" where
  "all_accounts E s =
     (case st_manifest s of
        None \<Rightarrow> Inl (InvalidAccountData NoManifest)
      | Some es \<Rightarrow>
     (case build_all E es of
        Inl err \<Rightarrow> Inl err
      | Inr as \<Rightarrow>
          if \<not> distinct (map ac_id as) then Inl (InvalidAccountData DuplicateIds)
          else if \<not> distinct (present ac_handle as) then Inl (InvalidAccountData DuplicateHandles)
          else if \<not> distinct (present ac_polar_customer_id as) then Inl (InvalidAccountData DuplicateCustomers)
          else Inr as))"

definition load_accounts :: "site_env \<Rightarrow> store \<Rightarrow> acct_error + account list" where
  "load_accounts E s =
     (case all_accounts E s of
        Inl err \<Rightarrow> Inl err | Inr as \<Rightarrow> Inr (filter (\<lambda>a. ac_plan_status a \<noteq> ''inactive'') as))"

definition match_account :: "account list \<Rightarrow> string option \<Rightarrow> account option" where
  "match_account pool email =
     (let wanted = norm_arg email
      in if wanted = [] then None
         else find (\<lambda>a. py_lower (ac_id a) = wanted \<or> (\<exists>m \<in> set (id_emails (ac_identity a)). py_lower m = wanted)) pool)"

definition get_account :: "site_env \<Rightarrow> string option \<Rightarrow> store \<Rightarrow> acct_error + account option" where
  "get_account E email s =
     (case load_accounts E s of Inl err \<Rightarrow> Inl err | Inr as \<Rightarrow> Inr (match_account as email))"

definition account_for_email ::
  "site_env \<Rightarrow> string option \<Rightarrow> bool \<Rightarrow> store \<Rightarrow> acct_error + account option" where
  "account_for_email E email include_inactive s =
     (case (if include_inactive then all_accounts E s else load_accounts E s) of
        Inl err \<Rightarrow> Inl err | Inr as \<Rightarrow> Inr (match_account as email))"

definition account_for_customer_id :: "site_env \<Rightarrow> string option \<Rightarrow> store \<Rightarrow> acct_error + account option" where
  "account_for_customer_id E cid s =
     (let wanted = py_strip (str_or cid '''')
      in if wanted = [] then Inr None
         else case all_accounts E s of
             Inl err \<Rightarrow> Inl err
           | Inr as \<Rightarrow> Inr (find (\<lambda>a. ac_polar_customer_id a = Some wanted) as))"

section \<open>Transactions\<close>

text \<open>
  \<open>_manifest_transaction\<close>: the body sees the list and returns a value and the list to write,
  or raises. Nothing is written when the body raises or changed nothing.
\<close>

definition transaction ::
  "bool \<Rightarrow> (acct_entry list \<Rightarrow> acct_error + 'a \<times> acct_entry list) \<Rightarrow> store \<Rightarrow> (acct_error + 'a) \<times> store" where
  "transaction missing_ok body s =
     (if st_manifest s = None \<and> \<not> missing_ok
      then (Inl (AssertionFailed ''no accounts manifest''), s)
      else
     (let before = the_default [] (st_manifest s)
      in case body before of
           Inl e \<Rightarrow> (Inl e, s)
         | Inr (x, after) \<Rightarrow> (Inr x, if after = before then s else s\<lparr>st_manifest := Some after\<rparr>)))"

definition logged ::
  "ctx \<Rightarrow> string \<Rightarrow> event_action \<Rightarrow> string \<Rightarrow> string list \<Rightarrow> 'a \<Rightarrow> store \<Rightarrow> (acct_error + 'a) \<times> store" where
  "logged cx aid action outcome detail x s =
     (case event_record (cx_now cx) (cx_origin cx) aid action outcome detail (st_log s) of
        Inl e \<Rightarrow> (Inl e, s) | Inr lg \<Rightarrow> (Inr x, s\<lparr>st_log := lg\<rparr>))"

text \<open>\<open>_entry_for\<close>: the first entry with this id; writers replace it in place.\<close>

definition has_id :: "string \<Rightarrow> acct_entry \<Rightarrow> bool" where
  "has_id wanted e \<longleftrightarrow> norm_id (ae_id e) = wanted"

definition same_id :: "string option \<Rightarrow> acct_entry \<Rightarrow> bool" where
  "same_id aid = has_id (norm_arg aid)"

fun update_first :: "('a \<Rightarrow> bool) \<Rightarrow> ('a \<Rightarrow> 'a) \<Rightarrow> 'a list \<Rightarrow> 'a list" where
  "update_first p f [] = []"
| "update_first p f (x # xs) = (if p x then f x # xs else x # update_first p f xs)"

definition edit_entry ::
  "string option \<Rightarrow> (acct_entry \<Rightarrow> acct_error + 'a \<times> acct_entry) \<Rightarrow> acct_entry list \<Rightarrow> acct_error + ('a \<times> acct_entry \<times> acct_entry) \<times> acct_entry list" where
  "edit_entry aid f es =
     (case find (same_id aid) es of
        None \<Rightarrow> Inl (KeyError (str_or aid ''''))
      | Some e \<Rightarrow>
         (case f e of
            Inl err \<Rightarrow> Inl err
          | Inr (x, e') \<Rightarrow> Inr ((x, e, e'), update_first (same_id aid) (\<lambda>_. e') es)))"

section \<open>The writers\<close>

definition set_plan_status :: "ctx \<Rightarrow> string option \<Rightarrow> string \<Rightarrow> store \<Rightarrow> (acct_error + string) \<times> store" where
  "set_plan_status cx aid status s =
     (if status \<notin> {''active'', ''inactive''} then (Inl (InvalidAccountData (BadPlanStatus status)), s)
      else case transaction False (edit_entry aid (\<lambda>e.
               Inr (the_default ''active'' (ae_plan_status e), e\<lparr>ae_plan_status := Some status\<rparr>))) s of
          (Inl e, s') \<Rightarrow> (Inl e, s')
        | (Inr (prior, e, _), s') \<Rightarrow> logged cx (ae_id e) PLAN status [''from:'' @ prior] prior s')"

text \<open>What the other writers end with: one row, then the entry as an account.\<close>

definition finished ::
  "site_env \<Rightarrow> ctx \<Rightarrow> event_action \<Rightarrow> string \<Rightarrow> string list \<Rightarrow> acct_entry \<Rightarrow> store \<Rightarrow> (acct_error + account) \<times> store" where
  "finished E cx action outcome detail e s =
     (case logged cx (ae_id e) action outcome detail () s of
        (Inl err, s') \<Rightarrow> (Inl err, s')
      | (Inr _, s') \<Rightarrow> (account_from_entry E e, s'))"

definition link_telegram ::
  "string option \<Rightarrow> string option \<Rightarrow> bool \<Rightarrow> acct_entry \<Rightarrow> acct_error + string list \<times> acct_entry" where
  "link_telegram chat_id token clear e =
     (if clear then Inr ([], e\<lparr>ae_telegram := Some no_telegram\<rparr>)
      else
     (let tg = the_default no_telegram (ae_telegram e);
          tg1 = (if truthy chat_id then tg\<lparr>tg_chat_id := chat_id\<rparr> else tg);
          tg2 = (if truthy token then tg1\<lparr>tg_token := token\<rparr> else tg1)
      in Inr ((if truthy chat_id then [''chat_id''] else []) @ (if truthy token then [''token''] else []),
              e\<lparr>ae_telegram := Some tg2\<rparr>)))"

definition set_telegram ::
  "site_env \<Rightarrow> ctx \<Rightarrow> string option \<Rightarrow> string option \<Rightarrow> string option \<Rightarrow> bool \<Rightarrow> store \<Rightarrow> (acct_error + account) \<times> store" where
  "set_telegram E cx aid chat_id token clear s =
     (if \<not> (clear \<or> truthy chat_id \<or> truthy token)
      then (Inl (AssertionFailed ''set_telegram needs a chat_id, a token, or clear''), s)
      else case transaction False (edit_entry aid (link_telegram chat_id token clear)) s of
          (Inl e, s') \<Rightarrow> (Inl e, s')
        | (Inr (changed, _, e), s') \<Rightarrow>
            finished E cx TELEGRAM (if clear then ''unlinked'' else ''linked'') changed e s')"

definition link_customer :: "string \<Rightarrow> acct_entry list \<Rightarrow> acct_entry \<Rightarrow> acct_error + unit \<times> acct_entry" where
  "link_customer cid es e =
     (let held = filter (\<lambda>x. ae_polar_customer_id x = Some cid \<and> ae_id x \<noteq> ae_id e) es
      in if held \<noteq> [] then Inl (InvalidAccountData (CustomerTaken (length held)))
         else Inr ((), e\<lparr>ae_polar_customer_id := Some cid\<rparr>))"

definition set_polar_customer_id ::
  "site_env \<Rightarrow> ctx \<Rightarrow> string option \<Rightarrow> string \<Rightarrow> store \<Rightarrow> (acct_error + account) \<times> store" where
  "set_polar_customer_id E cx aid cid s =
     (if cid = [] then (Inl (AssertionFailed ''set_polar_customer_id needs a customer id''), s)
      else case transaction False (\<lambda>es. edit_entry aid (link_customer cid es) es) s of
          (Inl e, s') \<Rightarrow> (Inl e, s')
        | (Inr (_, _, e), s') \<Rightarrow> finished E cx BILLING_CUSTOMER ''linked'' [] e s')"

definition set_voice ::
  "site_env \<Rightarrow> ctx \<Rightarrow> string option \<Rightarrow> string option \<Rightarrow> bool \<Rightarrow> store \<Rightarrow> (acct_error + account) \<times> store" where
  "set_voice E cx aid voice_file clear s =
     (if \<not> (clear \<or> truthy voice_file) then (Inl (AssertionFailed ''set_voice needs a voice_file or clear''), s)
      else case transaction False (edit_entry aid (\<lambda>e.
               Inr ((), e\<lparr>ae_voice_file := (if clear then None else voice_file)\<rparr>))) s of
          (Inl e, s') \<Rightarrow> (Inl e, s')
        | (Inr (_, _, e), s') \<Rightarrow> finished E cx VOICE (if clear then ''cleared'' else ''saved'') [] e s')"

text \<open>The catalog of \<open>backend/integrations/llm_client.py\<close>: a provider's name and its key's variable.\<close>

definition PROVIDERS :: "(string \<times> string) list" where
  "PROVIDERS = [(''deepseek'', ''DEEPSEEK_API_KEY''), (''nearai-glm'', ''NEARAI_API_KEY''),
     (''nearai-gpt-oss'', ''NEARAI_API_KEY'')]"

definition provider_configured :: "site_env \<Rightarrow> string \<Rightarrow> bool" where
  "provider_configured E key_env \<longleftrightarrow> py_strip (str_or (se_env E key_env) '''') \<noteq> []"

record settings =
  set_timezone :: "string option"
  set_auto :: "bool option"
  set_provider :: "string option"
  set_analyzer :: "bool option"
  set_dashes :: "bool option"
  set_calendar :: "string option"

definition asks_nothing :: "settings \<Rightarrow> bool" where
  "asks_nothing a \<longleftrightarrow> set_timezone a = None \<and> set_auto a = None \<and> set_provider a = None
     \<and> set_analyzer a = None \<and> set_dashes a = None \<and> set_calendar a = None"

definition provider_error :: "site_env \<Rightarrow> settings \<Rightarrow> acct_error option" where
  "provider_error E a =
     (case set_provider a of
        None \<Rightarrow> None
      | Some name \<Rightarrow>
         (case map_of PROVIDERS name of
            None \<Rightarrow> Some (AssertionFailed ''unknown inference provider'')
          | Some key \<Rightarrow>
              if provider_configured E key then None
              else Some (AssertionFailed ''provider cannot be selected'')))"

definition differs :: "'a option \<Rightarrow> 'a option \<Rightarrow> 'a option \<Rightarrow> bool" where
  "differs asked stored dflt \<longleftrightarrow> asked \<noteq> None \<and> asked \<noteq> (if stored = None then dflt else stored)"

definition merged :: "'a option \<Rightarrow> 'a option \<Rightarrow> 'a option" where
  "merged asked stored = (if asked = None then stored else asked)"

definition changed_fields :: "settings \<Rightarrow> acct_entry \<Rightarrow> string list" where
  "changed_fields a e =
     (if differs (set_timezone a) (ae_timezone e) (Some DEFAULT_TIMEZONE) then [''timezone''] else []) @
     (if differs (set_auto a) (ae_auto_schedule e) (Some False) then [''auto_schedule''] else []) @
     (if differs (set_provider a) (ae_inference_provider e) None then [''inference_provider''] else []) @
     (if differs (set_analyzer a) (ae_pii_analyzer e) (Some True) then [''pii_analyzer''] else []) @
     (if differs (set_dashes a) (ae_ban_dashes e) (Some True) then [''ban_dashes''] else [])"

definition apply_settings :: "settings \<Rightarrow> acct_entry \<Rightarrow> acct_error + string list \<times> acct_entry" where
  "apply_settings a e =
     (let e1 = e\<lparr>ae_timezone := merged (set_timezone a) (ae_timezone e),
                 ae_auto_schedule := merged (set_auto a) (ae_auto_schedule e),
                 ae_inference_provider := merged (set_provider a) (ae_inference_provider e),
                 ae_pii_analyzer := merged (set_analyzer a) (ae_pii_analyzer e),
                 ae_ban_dashes := merged (set_dashes a) (ae_ban_dashes e)\<rparr>
      in case set_calendar a of
           None \<Rightarrow> Inr (changed_fields a e, e1)
         | Some raw \<Rightarrow>
            (let calendar = norm_id raw
             in if calendar \<noteq> [] \<and> \<not> calendar_id calendar then Inl (InvalidAccountData (BadCalendar calendar))
                else Inr (changed_fields a e @
                       (if the_default '''' (ae_community_calendar e) \<noteq> calendar then [''community_calendar''] else []),
                     e1\<lparr>ae_community_calendar := (if calendar = [] then None else Some calendar)\<rparr>)))"

definition set_settings ::
  "site_env \<Rightarrow> ctx \<Rightarrow> string option \<Rightarrow> settings \<Rightarrow> store \<Rightarrow> (acct_error + account) \<times> store" where
  "set_settings E cx aid a s =
     (if asks_nothing a then (Inl (AssertionFailed ''set_settings needs something to set''), s)
      else case provider_error E a of
          Some err \<Rightarrow> (Inl err, s)
        | None \<Rightarrow>
         (case transaction False (edit_entry aid (apply_settings a)) s of
            (Inl e, s') \<Rightarrow> (Inl e, s')
          | (Inr (changed, _, e), s') \<Rightarrow>
              finished E cx SETTINGS (if changed = [] then ''unchanged'' else ''saved'') changed e s'))"

section \<open>Introducing and removing an account\<close>

record signup =
  su_email :: "string option"
  su_first :: string
  su_last :: string
  su_token_file :: "string option"
  su_first_aliases :: "string list"
  su_chat_id :: "string option"
  su_bot :: "string option"
  su_plan_status :: string
  su_state_file :: "string option"
  su_timezone :: "string option"
  su_auto :: bool
  su_voice_file :: "string option"
  su_handle :: "string option"

text \<open>The entry a signup asks for; \<open>fresh\<close> is the handle minted when none is given.\<close>

definition new_entry :: "string \<Rightarrow> signup \<Rightarrow> string \<Rightarrow> acct_entry" where
  "new_entry email su h =
     \<lparr>ae_id = email, ae_handle = Some h,
      ae_identity = \<lparr>ib_first = su_first su, ib_last = su_last su, ib_first_aliases = su_first_aliases su,
        ib_emails = [email], ib_phones = [], ib_contacts = []\<rparr>,
      ae_telegram = Some \<lparr>tg_chat_id = keep_truthy (su_chat_id su), tg_token = keep_truthy (su_bot su)\<rparr>,
      ae_timezone = Some (str_or (su_timezone su) DEFAULT_TIMEZONE),
      ae_auto_schedule = Some (su_auto su), ae_plan_status = Some (su_plan_status su),
      ae_token_file = keep_truthy (su_token_file su), ae_voice_file = keep_truthy (su_voice_file su),
      ae_state_file = keep_truthy (su_state_file su), ae_polar_customer_id = None,
      ae_inference_provider = None, ae_pii_analyzer = None, ae_ban_dashes = None,
      ae_community_calendar = None\<rparr>"

definition first_some :: "'a option \<Rightarrow> 'a option \<Rightarrow> 'a option" where
  "first_some a b = (case a of None \<Rightarrow> b | Some x \<Rightarrow> Some x)"

text \<open>What a re-consent carries over from the entry it replaces.\<close>

definition carry_over :: "acct_entry \<Rightarrow> acct_entry \<Rightarrow> acct_error + acct_entry" where
  "carry_over old new =
     (case (if truthy (ae_handle old) then check_handle (ae_handle old) else Inr (the_default '''' (ae_handle new))) of
        Inl e \<Rightarrow> Inl e
      | Inr h \<Rightarrow>
         (let old_tg = the_default no_telegram (ae_telegram old); new_tg = the_default no_telegram (ae_telegram new)
          in Inr (new\<lparr>ae_handle := Some h,
                ae_plan_status := first_some (ae_plan_status old) (ae_plan_status new),
                ae_telegram := Some \<lparr>tg_chat_id = first_some (tg_chat_id new_tg) (tg_chat_id old_tg),
                                     tg_token = first_some (tg_token new_tg) (tg_token old_tg)\<rparr>,
                ae_timezone := first_some (ae_timezone old) (ae_timezone new),
                ae_auto_schedule := first_some (ae_auto_schedule old) (ae_auto_schedule new),
                ae_inference_provider := ae_inference_provider old,
                ae_pii_analyzer := ae_pii_analyzer old,
                ae_ban_dashes := ae_ban_dashes old,
                ae_community_calendar := ae_community_calendar old,
                ae_polar_customer_id := first_some (ae_polar_customer_id new) (keep_truthy (ae_polar_customer_id old)),
                ae_voice_file := first_some (ae_voice_file new) (keep_truthy (ae_voice_file old)),
                ae_token_file := first_some (ae_token_file new) (keep_truthy (ae_token_file old)),
                ae_state_file := first_some (ae_state_file new) (keep_truthy (ae_state_file old))\<rparr>)))"

definition put_entry :: "nat \<Rightarrow> acct_entry \<Rightarrow> acct_entry list \<Rightarrow> acct_error + (string \<times> acct_entry) \<times> acct_entry list" where
  "put_entry ceiling_n entry es =
     (case find (has_id (ae_id entry)) es of
        Some old \<Rightarrow>
         (case carry_over old entry of
            Inl e \<Rightarrow> Inl e
          | Inr e' \<Rightarrow> Inr ((''updated'', e'), update_first (has_id (ae_id entry)) (\<lambda>_. e') es))
      | None \<Rightarrow>
          if ceiling_n \<le> length es then Inl AccountLimitReached
          else Inr ((''created'', entry), es @ [entry]))"

definition register_account ::
  "site_env \<Rightarrow> ctx \<Rightarrow> string \<Rightarrow> signup \<Rightarrow> store \<Rightarrow> (acct_error + account) \<times> store" where
  "register_account E cx fresh su s =
     (let email = norm_arg (su_email su)
      in if email = [] \<or> CHR ''@'' \<notin> set email then (Inl (InvalidAccountData (NotAnEmail email)), s)
         else if CHR ''/'' \<in> set email \<or> CHR 0x5C \<in> set email \<or> contains ''..'' email
           then (Inl (InvalidAccountData (PathSeparators email)), s)
         else case check_handle (Some (str_or (su_handle su) fresh)) of
             Inl e \<Rightarrow> (Inl e, s)
           | Inr h \<Rightarrow>
            (case transaction True (put_entry (se_max E) (new_entry email su h)) s of
               (Inl e, s') \<Rightarrow> (Inl e, s')
             | (Inr (outcome, entry), s') \<Rightarrow>
                (case logged cx email ACCOUNT outcome [] () s' of
                   (Inl e, s2) \<Rightarrow> (Inl e, s2) | (Inr _, s2) \<Rightarrow> (account_from_entry E entry, s2))))"

text \<open>
  \<open>delete_account\<close>: the entry, a row, the data key, then the directory. The caller has
  revoked the grant before. \<open>rmtree\<close> ignores its errors: a file it cannot remove stays, and the
  answer is True all the same.
\<close>

definition remove_dir :: "ctx \<Rightarrow> string \<Rightarrow> store \<Rightarrow> acct_error + store" where
  "remove_dir cx uid s =
     (case account_dir uid of
        Inl e \<Rightarrow> Inl e
      | Inr dir \<Rightarrow>
          Inr (s\<lparr>st_files := (st_files s)(dir := (\<lambda>n. if cx_stuck cx dir n then st_files s dir n else None))\<rparr>))"

definition delete_account :: "ctx \<Rightarrow> string option \<Rightarrow> store \<Rightarrow> (acct_error + bool) \<times> store" where
  "delete_account cx aid s =
     (case transaction False (\<lambda>es. Inr (filter (same_id aid) es, filter (\<lambda>e. \<not> same_id aid e) es)) s of
        (Inl e, s') \<Rightarrow> (Inl e, s')
      | (Inr [], s') \<Rightarrow> (Inr False, s')
      | (Inr (gone # _), s') \<Rightarrow>
         (case logged cx (ae_id gone) ACCOUNT ''deleted'' [] () s' of
            (Inl e, s2) \<Rightarrow> (Inl e, s2)
          | (Inr _, s2) \<Rightarrow>
             (case destroy (ae_id gone) s2 of
                (Inl e, s3) \<Rightarrow> (Inl e, s3)
              | (Inr _, s3) \<Rightarrow>
                 (case remove_dir cx (ae_id gone) s3 of Inl e \<Rightarrow> (Inl e, s3) | Inr s4 \<Rightarrow> (Inr True, s4)))))"

end

