(* ===== verification/ManifestRun.thy ===== *)
theory ManifestRun
  imports Manifest
begin

text \<open>
  What the writers of \<open>backend/accounts/account.py\<close> keep: the invariant of the manifest over
  every history of writers, the frame of each writer (whose entry it may touch), and what
  routing sees of an account after a plan change or a deletion.
\<close>

section \<open>One entry of a list\<close>

lemma find_split:
  assumes "find p xs = Some x"
  obtains us vs where "xs = us @ x # vs" "\<forall>u \<in> set us. \<not> p u" "p x"
    "\<And>y. update_first p (\<lambda>_. y) xs = us @ y # vs"
proof -
  have "\<exists>us vs. xs = us @ x # vs \<and> (\<forall>u \<in> set us. \<not> p u) \<and> p x \<and> (\<forall>y. update_first p (\<lambda>_. y) xs = us @ y # vs)"
    using assms
  proof (induction xs)
    case (Cons a xs)
    show ?case
    proof (cases "p a")
      case True
      with Cons.prems show ?thesis by (intro exI [of _ "[]"] exI [of _ xs]) auto
    next
      case False
      with Cons obtain us vs where "xs = us @ x # vs" "\<forall>u \<in> set us. \<not> p u" "p x"
        "\<forall>y. update_first p (\<lambda>_. y) xs = us @ y # vs" by auto
      with False show ?thesis by (intro exI [of _ "a # us"] exI [of _ vs]) auto
    qed
  qed simp
  then show thesis using that by blast
qed

lemma find_first: "\<forall>u \<in> set us. \<not> p u \<Longrightarrow> p x \<Longrightarrow> find p (us @ x # vs) = Some x"
  by (induction us) auto

lemma present_append [simp]:
  "present f [] = []" "present f (xs @ ys) = present f xs @ present f ys"
  "present f (x # xs) = (if str_or (f x) '''' = [] then [] else [str_or (f x) '''']) @ present f xs"
  by (simp_all add: present_def)

lemma set_present: "h \<in> set (present f xs) \<longleftrightarrow> h \<noteq> [] \<and> (\<exists>x \<in> set xs. f x = Some h)"
  by (induction xs) (auto simp: str_or_def split: option.splits)

section \<open>The invariant\<close>

definition entries_of :: "store \<Rightarrow> acct_entry list" where
  "entries_of s = the_default [] (st_manifest s)"

definition entry_key :: "acct_entry \<Rightarrow> string" where
  "entry_key e = norm_id (ae_id e)"

definition unique_entries :: "acct_entry list \<Rightarrow> bool" where
  "unique_entries es \<longleftrightarrow> distinct (map entry_key es) \<and> distinct (present ae_handle es)
     \<and> distinct (present ae_polar_customer_id es)"

lemma has_id_key: "has_id k e \<longleftrightarrow> entry_key e = k"
  by (simp add: has_id_def entry_key_def)

lemma unique_replace:
  assumes "unique_entries (us @ x # vs)" and "entry_key y = entry_key x"
    and "ae_handle y = ae_handle x \<or> (\<forall>h. ae_handle y = Some h \<longrightarrow> (\<forall>e \<in> set (us @ vs). ae_handle e \<noteq> Some h))"
    and "ae_polar_customer_id y = ae_polar_customer_id x
      \<or> (\<forall>c. ae_polar_customer_id y = Some c \<longrightarrow> (\<forall>e \<in> set (us @ vs). ae_polar_customer_id e \<noteq> Some c))"
  shows "unique_entries (us @ y # vs)"
proof -
  have fresh: "distinct (present f (us @ y # vs))"
    if "distinct (present f (us @ x # vs))"
      and "f y = f x \<or> (\<forall>h. f y = Some h \<longrightarrow> (\<forall>e \<in> set (us @ vs). f e \<noteq> Some h))" for f :: "acct_entry \<Rightarrow> string option"
    using that by (auto simp: set_present str_or_def split: option.splits if_splits)
  have "distinct (present ae_handle (us @ y # vs))" "distinct (present ae_polar_customer_id (us @ y # vs))"
    by (rule fresh; use assms in \<open>simp only: unique_entries_def\<close>)+
  then show ?thesis using assms(1,2) by (simp add: unique_entries_def del: present_append)
qed

lemma unique_others:
  "unique_entries (us @ x # vs) \<Longrightarrow> e \<in> set (us @ vs) \<Longrightarrow> entry_key e \<noteq> entry_key x"
  by (auto simp: unique_entries_def image_iff simp del: present_append)

text \<open>What an edit of one entry may do to it without breaking the invariant.\<close>

definition keeps :: "acct_entry list \<Rightarrow> acct_entry \<Rightarrow> acct_entry \<Rightarrow> bool" where
  "keeps es e e' \<longleftrightarrow> entry_key e' = entry_key e \<and> ae_handle e' = ae_handle e
     \<and> (ae_polar_customer_id e' = ae_polar_customer_id e
        \<or> (\<forall>x \<in> set es. entry_key x \<noteq> entry_key e \<longrightarrow> ae_polar_customer_id x \<noteq> ae_polar_customer_id e'))"

lemma edit_entry_unique:
  assumes "edit_entry aid f es = Inr ((x, e, e'), es')" and "unique_entries es" and "keeps es e e'"
  shows "unique_entries es'" and "length es' = length es"
proof -
  obtain us vs where sp: "es = us @ e # vs" "es' = us @ e' # vs"
    using assms(1) by (auto simp: edit_entry_def split: option.splits sum.splits elim!: find_split)
  show "length es' = length es" using sp by simp
  show "unique_entries es'"
    unfolding sp(2)
  proof (rule unique_replace)
    show "unique_entries (us @ e # vs)" using assms(2) sp(1) by simp
    show "entry_key e' = entry_key e" using assms(3) by (simp add: keeps_def)
    show "ae_handle e' = ae_handle e \<or> (\<forall>h. ae_handle e' = Some h \<longrightarrow> (\<forall>e \<in> set (us @ vs). ae_handle e \<noteq> Some h))"
      using assms(3) by (simp add: keeps_def)
    show "ae_polar_customer_id e' = ae_polar_customer_id e
      \<or> (\<forall>c. ae_polar_customer_id e' = Some c \<longrightarrow> (\<forall>e \<in> set (us @ vs). ae_polar_customer_id e \<noteq> Some c))"
      using assms(3) unique_others [of us e vs] assms(2) sp(1) by (auto simp: keeps_def)
  qed
qed

lemma logged_manifest [simp]: "st_manifest (snd (logged cx aid a out d x s)) = st_manifest s"
  by (auto simp: logged_def split: sum.splits)

lemma logged_store:
  "logged cx aid a out d x s = (r, s') \<Longrightarrow>
   st_manifest s' = st_manifest s \<and> st_files s' = st_files s \<and> st_deks s' = st_deks s"
  by (auto simp: logged_def split: sum.splits)

lemma finished_store:
  "finished E cx a out d e s = (r, s') \<Longrightarrow>
   st_manifest s' = st_manifest s \<and> st_files s' = st_files s \<and> st_deks s' = st_deks s"
  by (auto simp: finished_def split: sum.splits prod.splits dest: logged_store)

lemma transaction_entries:
  assumes "transaction ok body s = (r, s')"
  shows "entries_of s' = entries_of s \<or> (\<exists>x. body (entries_of s) = Inr (x, entries_of s') \<and> r = Inr x)"
    and "st_files s' = st_files s" "st_deks s' = st_deks s" "st_log s' = st_log s"
    and "r = Inr x \<Longrightarrow> body (entries_of s) = Inr (x, entries_of s')"
    and "r = Inl e \<Longrightarrow> s' = s"
  using assms by (auto simp: transaction_def entries_of_def the_default_def Let_def
      split: if_splits sum.splits option.splits prod.splits)

section \<open>Editing one entry\<close>

definition edited :: "string option \<Rightarrow> acct_entry list \<Rightarrow> acct_entry list \<Rightarrow> bool" where
  "edited aid es es' \<longleftrightarrow> es' = es \<or>
     (\<exists>us e vs e'. es = us @ e # vs \<and> es' = us @ e' # vs \<and> same_id aid e \<and> keeps es e e')"

lemma edited_refl [simp]: "edited aid es es"
  by (simp add: edited_def)

lemma edited_unique:
  assumes "edited aid es es'" and "unique_entries es"
  shows "unique_entries es' \<and> length es' = length es \<and> map entry_key es' = map entry_key es
    \<and> filter (\<lambda>e. \<not> same_id aid e) es' = filter (\<lambda>e. \<not> same_id aid e) es"
proof (cases "es' = es")
  case False
  then obtain us e vs e' where sp: "es = us @ e # vs" "es' = us @ e' # vs" "same_id aid e" "keeps es e e'"
    using assms(1) by (auto simp: edited_def)
  have "unique_entries (us @ e' # vs)"
  proof (rule unique_replace)
    show "unique_entries (us @ e # vs)" using assms(2) sp(1) by simp
    show "entry_key e' = entry_key e" using sp(4) by (simp add: keeps_def)
    show "ae_handle e' = ae_handle e \<or> (\<forall>h. ae_handle e' = Some h \<longrightarrow> (\<forall>e \<in> set (us @ vs). ae_handle e \<noteq> Some h))"
      using sp(4) by (simp add: keeps_def)
    show "ae_polar_customer_id e' = ae_polar_customer_id e
      \<or> (\<forall>c. ae_polar_customer_id e' = Some c \<longrightarrow> (\<forall>e \<in> set (us @ vs). ae_polar_customer_id e \<noteq> Some c))"
      using sp(4) unique_others [of us e vs] assms(2) sp(1) by (auto simp: keeps_def)
  qed
  with sp show ?thesis by (auto simp: keeps_def same_id_def has_id_key)
qed (use assms in simp)

lemma edit_entry_split:
  assumes "edit_entry aid f es = Inr ((x, e, e'), es')"
  obtains us vs where "es = us @ e # vs" "es' = us @ e' # vs" "same_id aid e" "f e = Inr (x, e')"
  using assms by (auto simp: edit_entry_def split: option.splits sum.splits elim!: find_split dest: sym)

lemma edited_edit:
  assumes "edit_entry aid f es = Inr ((x, e, e'), es')" and "keeps es e e'"
  shows "edited aid es es'"
  using assms unfolding edited_def
  by (auto simp: edit_entry_def split: option.splits sum.splits elim!: find_split)

text \<open>
  A writer that edits: its body keeps the entry's names, and what follows the transaction does
  not write the manifest.
\<close>

lemma edited_transaction:
  assumes "transaction False (\<lambda>es. edit_entry aid (f es) es) s = (r, s')"
    and "\<And>es e x e'. f es e = Inr (x, e') \<Longrightarrow> same_id aid e \<Longrightarrow> e \<in> set es \<Longrightarrow> unique_entries es \<Longrightarrow> keeps es e e'"
    and "unique_entries (entries_of s)"
  shows "edited aid (entries_of s) (entries_of s')"
  using transaction_entries(1) [OF assms(1)]
proof
  assume "\<exists>y. edit_entry aid (f (entries_of s)) (entries_of s) = Inr (y, entries_of s') \<and> r = Inr y"
  then obtain x e e' where ed: "edit_entry aid (f (entries_of s)) (entries_of s) = Inr ((x, e, e'), entries_of s')"
    by auto
  then have "f (entries_of s) e = Inr (x, e')" "same_id aid e" "e \<in> set (entries_of s)"
    by (auto simp: edit_entry_def find_Some_iff split: option.splits sum.splits)
  with assms(2,3) have "keeps (entries_of s) e e'" by blast
  with ed show ?thesis by (rule edited_edit)
qed simp

lemma keeps_same:
  "ae_id e' = ae_id e \<Longrightarrow> ae_handle e' = ae_handle e \<Longrightarrow> ae_polar_customer_id e' = ae_polar_customer_id e \<Longrightarrow> keeps es e e'"
  by (simp add: keeps_def entry_key_def)

lemma row_keeps_entries:
  "logged cx aid a out d x s = (r, s') \<Longrightarrow> entries_of s' = entries_of s"
  "finished E cx a out d e s = (q, s') \<Longrightarrow> entries_of s' = entries_of s"
  by (auto simp: entries_of_def dest: logged_store finished_store)

lemma set_plan_status_edits:
  assumes "set_plan_status cx aid status s = (r, s')" and "unique_entries (entries_of s)"
  shows "edited aid (entries_of s) (entries_of s')"
proof -
  obtain t u where t: "transaction False (edit_entry aid (\<lambda>e.
      Inr (the_default ''active'' (ae_plan_status e), e\<lparr>ae_plan_status := Some status\<rparr>))) s = (t, u)" by fastforce
  have "edited aid (entries_of s) (entries_of u)"
    by (rule edited_transaction [OF t _ assms(2)]) (auto intro: keeps_same)
  then show ?thesis
    using assms(1) t by (auto simp: set_plan_status_def split: if_splits sum.splits dest!: row_keeps_entries)
qed

lemma set_telegram_edits:
  assumes "set_telegram E cx aid chat token clear s = (r, s')" and "unique_entries (entries_of s)"
  shows "edited aid (entries_of s) (entries_of s')"
proof -
  obtain t u where t: "transaction False (edit_entry aid (link_telegram chat token clear)) s = (t, u)" by fastforce
  have "edited aid (entries_of s) (entries_of u)"
    by (rule edited_transaction [OF t _ assms(2)])
      (auto simp: link_telegram_def Let_def split: if_splits intro!: keeps_same)
  then show ?thesis
    using assms(1) t by (auto simp: set_telegram_def split: if_splits sum.splits prod.splits dest!: row_keeps_entries)
qed

lemma set_voice_edits:
  assumes "set_voice E cx aid voice clear s = (r, s')" and "unique_entries (entries_of s)"
  shows "edited aid (entries_of s) (entries_of s')"
proof -
  obtain t u where t: "transaction False (edit_entry aid (\<lambda>e.
      Inr ((), e\<lparr>ae_voice_file := (if clear then None else voice)\<rparr>))) s = (t, u)" by fastforce
  have "edited aid (entries_of s) (entries_of u)"
    by (rule edited_transaction [OF t _ assms(2)]) (auto intro!: keeps_same)
  then show ?thesis
    using assms(1) t by (auto simp: set_voice_def split: if_splits sum.splits prod.splits dest!: row_keeps_entries)
qed

lemma set_settings_edits:
  assumes "set_settings E cx aid a s = (r, s')" and "unique_entries (entries_of s)"
  shows "edited aid (entries_of s) (entries_of s')"
proof -
  obtain t u where t: "transaction False (edit_entry aid (apply_settings a)) s = (t, u)" by fastforce
  have "edited aid (entries_of s) (entries_of u)"
    by (rule edited_transaction [OF t _ assms(2)])
      (auto simp: apply_settings_def Let_def split: if_splits option.splits intro!: keeps_same)
  then show ?thesis
    using assms(1) t
    by (auto simp: set_settings_def split: if_splits sum.splits prod.splits option.splits dest!: row_keeps_entries)
qed

lemma unique_ids_keys:
  "unique_entries es \<Longrightarrow> e \<in> set es \<Longrightarrow> x \<in> set es \<Longrightarrow> ae_id x = ae_id e \<Longrightarrow> x = e"
  by (auto simp: unique_entries_def entry_key_def distinct_map inj_on_def)

lemma set_polar_customer_id_edits:
  assumes "set_polar_customer_id E cx aid cid s = (r, s')" and "unique_entries (entries_of s)"
  shows "edited aid (entries_of s) (entries_of s')"
proof -
  obtain t u where t: "transaction False (\<lambda>es. edit_entry aid (link_customer cid es) es) s = (t, u)" by fastforce
  have "edited aid (entries_of s) (entries_of u)"
  proof (rule edited_transaction [OF t _ assms(2)])
    fix es e x e'
    assume "link_customer cid es e = Inr (x, e')"
    then have "e' = e\<lparr>ae_polar_customer_id := Some cid\<rparr>"
      and none: "filter (\<lambda>x. ae_polar_customer_id x = Some cid \<and> ae_id x \<noteq> ae_id e) es = []"
      by (auto simp: link_customer_def Let_def split: if_splits)
    then show "keeps es e e'" by (auto simp: keeps_def entry_key_def filter_empty_conv)
  qed
  then show ?thesis
    using assms(1) t by (auto simp: set_polar_customer_id_def split: if_splits sum.splits prod.splits dest!: row_keeps_entries)
qed

section \<open>Introducing and removing\<close>

definition handle_is_free :: "string \<Rightarrow> string \<Rightarrow> store \<Rightarrow> bool" where
  "handle_is_free h email s \<longleftrightarrow> (\<forall>e \<in> set (entries_of s). ae_handle e = Some h \<longrightarrow> entry_key e = email)"

lemma entry_key_new [simp]: "entry_key (new_entry (norm_id x) su h) = norm_id x"
  by (simp add: entry_key_def new_entry_def)

lemma new_entry_fields [simp]:
  "ae_id (new_entry email su h) = email" "ae_handle (new_entry email su h) = Some h"
  "ae_polar_customer_id (new_entry email su h) = None"
  by (simp_all add: new_entry_def)

lemma carry_over_fields:
  assumes "carry_over old new = Inr e" and "ae_polar_customer_id new = None"
  shows "ae_id e = ae_id new"
    and "ae_handle e = (if truthy (ae_handle old) then ae_handle old else Some (the_default '''' (ae_handle new)))"
    and "ae_polar_customer_id e = keep_truthy (ae_polar_customer_id old)"
    and "ae_identity e = ae_identity new"
  using assms by (auto simp: carry_over_def Let_def first_some_def split: if_splits sum.splits)

text \<open>The invariant does not see a customer id that is the empty string.\<close>

lemma unique_keep_truthy:
  "unique_entries (us @ x # vs) \<Longrightarrow> unique_entries (us @ x\<lparr>ae_polar_customer_id := keep_truthy (ae_polar_customer_id x)\<rparr> # vs)"
  by (cases "ae_polar_customer_id x")
    (auto simp: unique_entries_def entry_key_def keep_truthy_def truthy_def str_or_def split: if_splits)

lemma put_entry_unique:
  assumes "put_entry n (new_entry email su h) es = Inr (x, es')" and "email = norm_id y"
    and "unique_entries es" and "\<forall>e \<in> set es. ae_handle e = Some h \<longrightarrow> entry_key e = email"
  shows "unique_entries es'" and "length es' \<le> max n (length es)"
    and "filter (\<lambda>e. entry_key e \<noteq> email) es' = filter (\<lambda>e. entry_key e \<noteq> email) es"
proof -
  have key: "entry_key (new_entry email su h) = email" using assms(2) by simp
  have "unique_entries es' \<and> length es' \<le> max n (length es)
    \<and> filter (\<lambda>e. entry_key e \<noteq> email) es' = filter (\<lambda>e. entry_key e \<noteq> email) es"
  proof (cases "find (has_id email) es")
    case None
    then have none: "\<forall>e \<in> set es. entry_key e \<noteq> email" by (auto simp: find_None_iff has_id_key)
    have es': "es' = es @ [new_entry email su h]" "length es < n"
      using assms(1) None by (auto simp: put_entry_def split: if_splits)
    have "unique_entries es'"
      using assms(3,4) none key es'(1)
      by (auto simp: unique_entries_def set_present str_or_def split: option.splits)
    with es' key show ?thesis by simp
  next
    case (Some old)
    then obtain us vs where sp: "es = us @ old # vs" "has_id email old"
      "\<And>y. update_first (has_id email) (\<lambda>_. y) es = us @ y # vs" by (elim find_split) (rule that)
    obtain e where e: "carry_over old (new_entry email su h) = Inr e" "es' = us @ e # vs"
      using assms(1) Some sp(3) by (auto simp: put_entry_def split: sum.splits)
    note f = carry_over_fields [OF e(1) new_entry_fields(3)]
    have ek: "entry_key e = email" "entry_key old = email"
      using f(1) key sp(2) by (simp_all add: entry_key_def has_id_def)
    let ?old = "old\<lparr>ae_polar_customer_id := keep_truthy (ae_polar_customer_id old)\<rparr>"
    have "unique_entries (us @ ?old # vs)" using unique_keep_truthy assms(3) sp(1) by simp
    then have "unique_entries (us @ e # vs)"
    proof (rule unique_replace)
      show "entry_key e = entry_key ?old" using ek by (simp add: entry_key_def)
      show "ae_handle e = ae_handle ?old
        \<or> (\<forall>h. ae_handle e = Some h \<longrightarrow> (\<forall>x \<in> set (us @ vs). ae_handle x \<noteq> Some h))"
        using f(2) assms(4) unique_others [of us old vs] assms(3) sp(1) ek(2)
        by (auto simp: the_default_def)
      show "ae_polar_customer_id e = ae_polar_customer_id ?old
        \<or> (\<forall>c. ae_polar_customer_id e = Some c \<longrightarrow> (\<forall>x \<in> set (us @ vs). ae_polar_customer_id x \<noteq> Some c))"
        using f(3) by simp
    qed
    with e sp(1) ek show ?thesis by simp
  qed
  then show "unique_entries es'" and "length es' \<le> max n (length es)"
    and "filter (\<lambda>e. entry_key e \<noteq> email) es' = filter (\<lambda>e. entry_key e \<noteq> email) es" by auto
qed

lemma register_account_keeps:
  assumes "register_account E cx fresh su s = (r, s')" and "unique_entries (entries_of s)"
    and "handle_is_free (str_or (su_handle su) fresh) (norm_arg (su_email su)) s"
  shows "unique_entries (entries_of s')" and "length (entries_of s') \<le> max (se_max E) (length (entries_of s))"
    and "filter (\<lambda>e. \<not> same_id (su_email su) e) (entries_of s') = filter (\<lambda>e. \<not> same_id (su_email su) e) (entries_of s)"
proof -
  define email where "email = norm_arg (su_email su)"
  define h where "h = str_or (su_handle su) fresh"
  obtain t u where t: "transaction True (put_entry (se_max E) (new_entry email su h)) s = (t, u)" by fastforce
  have end_u: "entries_of s' = entries_of s \<or> entries_of s' = entries_of u"
    using assms(1) t
    by (auto simp: register_account_def Let_def email_def h_def split: if_splits sum.splits prod.splits
        dest!: row_keeps_entries)
  have "unique_entries (entries_of u) \<and> length (entries_of u) \<le> max (se_max E) (length (entries_of s))
    \<and> filter (\<lambda>e. entry_key e \<noteq> email) (entries_of u) = filter (\<lambda>e. entry_key e \<noteq> email) (entries_of s)"
    using transaction_entries(1) [OF t]
  proof
    assume "\<exists>x. put_entry (se_max E) (new_entry email su h) (entries_of s) = Inr (x, entries_of u) \<and> t = Inr x"
    then obtain x where "put_entry (se_max E) (new_entry email su h) (entries_of s) = Inr (x, entries_of u)" by blast
    from put_entry_unique [OF this _ assms(2), of "str_or (su_email su) ''''"] assms(3) show ?thesis
      by (simp add: email_def h_def handle_is_free_def norm_arg_def)
  qed (use assms(2) in simp)
  with end_u assms(2)
  show "unique_entries (entries_of s')" and "length (entries_of s') \<le> max (se_max E) (length (entries_of s))"
    and "filter (\<lambda>e. \<not> same_id (su_email su) e) (entries_of s') = filter (\<lambda>e. \<not> same_id (su_email su) e) (entries_of s)"
    by (auto simp: same_id_def has_id_key email_def)
qed

lemma unique_filter: "unique_entries es \<Longrightarrow> unique_entries (filter p es)"
proof -
  have "distinct (present f es) \<Longrightarrow> distinct (present f (filter p es))" for f :: "acct_entry \<Rightarrow> string option"
    by (induction es) (auto simp: set_present)
  then show "unique_entries es \<Longrightarrow> unique_entries (filter p es)"
    by (simp add: unique_entries_def distinct_map_filter)
qed

lemma delete_account_entries:
  assumes "delete_account cx aid s = (r, s')"
  shows "entries_of s' = filter (\<lambda>e. \<not> same_id aid e) (entries_of s) \<or> (\<exists>e. r = Inl e) \<and> entries_of s' = entries_of s"
proof -
  obtain t u where t: "transaction False (\<lambda>es. Inr (filter (same_id aid) es, filter (\<lambda>e. \<not> same_id aid e) es)) s = (t, u)"
    by fastforce
  have rest: "entries_of s3 = entries_of s2" if "destroy x s2 = (q, s3)" for x s2 q s3
    using that destroy_shreds(5) destroy_fails by (cases q) (fastforce simp: entries_of_def)+
  have dir: "entries_of s3 = entries_of s2" if "remove_dir cx x s2 = Inr s3" for x s2 s3
    using that by (auto simp: remove_dir_def entries_of_def split: sum.splits)
  have "entries_of s' = entries_of u" and "(\<exists>e. t = Inl e) \<longrightarrow> (\<exists>e. r = Inl e)"
    using assms t
    by (auto simp: delete_account_def split: sum.splits list.splits prod.splits
        dest!: row_keeps_entries rest dir)
  moreover have "t = Inl e \<longrightarrow> entries_of u = entries_of s" for e
    using transaction_entries(6) [OF t] by auto
  moreover have "t = Inr x \<longrightarrow> entries_of u = filter (\<lambda>e. \<not> same_id aid e) (entries_of s)" for x
    using transaction_entries(5) [OF t] by auto
  ultimately show ?thesis by (cases t) auto
qed

section \<open>Histories\<close>

text \<open>
  One call of a writer about one account. A fresh handle is one no other account has: it is
  128 random bits, or the one onboarding looked up for this address.
\<close>

inductive manifest_step :: "site_env \<Rightarrow> string option \<Rightarrow> store \<Rightarrow> store \<Rightarrow> bool" for E aid s where
  step_plan: "set_plan_status cx aid status s = (r, s') \<Longrightarrow> manifest_step E aid s s'"
| step_telegram: "set_telegram E cx aid chat token clear s = (q, s') \<Longrightarrow> manifest_step E aid s s'"
| step_customer: "set_polar_customer_id E cx aid cid s = (q, s') \<Longrightarrow> manifest_step E aid s s'"
| step_voice: "set_voice E cx aid voice clear s = (q, s') \<Longrightarrow> manifest_step E aid s s'"
| step_settings: "set_settings E cx aid a s = (q, s') \<Longrightarrow> manifest_step E aid s s'"
| step_register: "register_account E cx fresh su s = (q, s') \<Longrightarrow> su_email su = aid \<Longrightarrow>
    handle_is_free (str_or (su_handle su) fresh) (norm_arg aid) s \<Longrightarrow> manifest_step E aid s s'"
| step_delete: "delete_account cx aid s = (d, s') \<Longrightarrow> manifest_step E aid s s'"

inductive manifest_run :: "site_env \<Rightarrow> store \<Rightarrow> bool" for E where
  run_fresh: "st_manifest s = None \<Longrightarrow> manifest_run E s"
| run_step: "manifest_run E s \<Longrightarrow> manifest_step E aid s s' \<Longrightarrow> manifest_run E s'"

lemmas writer_edits =
  set_plan_status_edits set_telegram_edits set_voice_edits set_settings_edits set_polar_customer_id_edits

lemma step_keeps:
  assumes "manifest_step E aid s s'" and "unique_entries (entries_of s)"
  shows "unique_entries (entries_of s') \<and> length (entries_of s') \<le> max (se_max E) (length (entries_of s))
    \<and> filter (\<lambda>e. \<not> same_id aid e) (entries_of s') = filter (\<lambda>e. \<not> same_id aid e) (entries_of s)"
  using assms(1)
proof cases
  case (step_register cx fresh su q)
  with register_account_keeps [OF step_register(1) assms(2)] show ?thesis by simp
next
  case (step_delete cx d)
  from delete_account_entries [OF this] assms(2) show ?thesis
    by (auto simp: unique_filter le_max_iff_disj length_filter_le)
qed (use assms(2) in \<open>auto dest!: writer_edits dest!: edited_unique\<close>)

text \<open>A handle is checked where it enters the manifest, and no writer changes one.\<close>

definition handled :: "acct_entry \<Rightarrow> bool" where
  "handled e \<longleftrightarrow> (\<exists>h. ae_handle e = Some h \<and> is_handle h)"

lemma edited_handled: "edited aid es es' \<Longrightarrow> list_all handled es \<Longrightarrow> list_all handled es'"
  by (auto simp: edited_def keeps_def handled_def)

lemma put_entry_handled:
  assumes "put_entry n (new_entry email su h) es = Inr (x, es')" and "is_handle h" and "list_all handled es"
  shows "list_all handled es'"
proof (cases "find (has_id email) es")
  case None
  with assms show ?thesis by (auto simp: put_entry_def handled_def split: if_splits)
next
  case (Some old)
  then obtain us vs where sp: "es = us @ old # vs"
    "\<And>y. update_first (has_id email) (\<lambda>_. y) es = us @ y # vs" by (elim find_split) (rule that)
  then obtain e where e: "carry_over old (new_entry email su h) = Inr e" "es' = us @ e # vs"
    using assms(1) Some by (auto simp: put_entry_def split: sum.splits)
  from e(1) assms(2) have "handled e"
    by (auto simp: carry_over_def handled_def the_default_def Let_def split: if_splits sum.splits)
  with assms(3) sp(1) e(2) show ?thesis by simp
qed

lemma register_account_handled:
  assumes "register_account E cx fresh su s = (r, s')" and "list_all handled (entries_of s)"
  shows "list_all handled (entries_of s')"
proof -
  define email where "email = norm_arg (su_email su)"
  define h where "h = str_or (su_handle su) fresh"
  obtain t u where t: "transaction True (put_entry (se_max E) (new_entry email su h)) s = (t, u)" by fastforce
  have "entries_of s' = entries_of s \<or> is_handle h \<and> entries_of s' = entries_of u"
    using assms(1) t
    by (auto simp: register_account_def Let_def email_def h_def split: if_splits sum.splits prod.splits
        dest!: row_keeps_entries)
  with transaction_entries(1) [OF t] put_entry_handled assms(2) show ?thesis by metis
qed

lemma step_handled:
  assumes "manifest_step E aid s s'" and "unique_entries (entries_of s)" and "list_all handled (entries_of s)"
  shows "list_all handled (entries_of s')"
  using assms(1)
proof cases
  case (step_register cx fresh su q)
  with register_account_handled assms(3) show ?thesis by blast
next
  case (step_delete cx d)
  from delete_account_entries [OF this] assms(3) show ?thesis by (auto simp: list_all_iff)
qed (use assms(2,3) in \<open>auto dest!: writer_edits dest: edited_handled\<close>)

lemma run_keeps: "manifest_run E s \<Longrightarrow> unique_entries (entries_of s) \<and> length (entries_of s) \<le> se_max E"
proof (induction rule: manifest_run.induct)
  case (run_fresh s)
  then show ?case by (simp add: entries_of_def the_default_def unique_entries_def)
next
  case (run_step s aid s')
  from step_keeps [OF run_step(2)] run_step(3) show ?case by auto
qed

lemma run_handled: "manifest_run E s \<Longrightarrow> list_all handled (entries_of s)"
proof (induction rule: manifest_run.induct)
  case (run_fresh s)
  then show ?case by (simp add: entries_of_def the_default_def)
next
  case (run_step s aid s')
  from step_handled [OF run_step(2)] run_keeps [OF run_step(1)] run_step(3) show ?case by blast
qed

lemma build_all_maps:
  "build_all E es = Inr as \<Longrightarrow> map ac_id as = map ae_id es \<and> map ac_handle as = map ae_handle es
     \<and> map ac_polar_customer_id as = map ae_polar_customer_id es
     \<and> map ac_plan_status as = map (\<lambda>e. the_default ''active'' (ae_plan_status e)) es"
proof (induction es arbitrary: as)
  case (Cons e es)
  then show ?case
    by (auto simp: account_from_entry_def Let_def split: sum.splits)
qed simp

lemma present_map: "present f xs = filter (\<lambda>s. s \<noteq> []) (map (\<lambda>x. str_or x '''') (map f xs))"
  by (simp add: present_def o_def)

lemma unique_accounts:
  assumes "build_all E es = Inr as" and "unique_entries es"
  shows "distinct (map ac_id as)" "distinct (present ac_handle as)" "distinct (present ac_polar_customer_id as)"
proof -
  note maps = build_all_maps [OF assms(1)]
  have "distinct (map ae_id es)"
    using assms(2) by (auto simp: unique_entries_def distinct_map inj_on_def entry_key_def)
  with maps show "distinct (map ac_id as)" by simp
  show "distinct (present ac_handle as)" "distinct (present ac_polar_customer_id as)"
    using assms(2) unfolding unique_entries_def present_map by (simp_all only: maps)
qed

text \<open>
  C33: the identities of the store. From an empty store, after any history of writers on any arguments
  in which a handle minted for a new account is one no other account has, no two
  entries have one id (however it is spelled), one handle or one Polar customer, every entry has
  a handle of the form \<open>check_handle\<close> accepts, the store is
  within its ceiling, and enumerating the accounts never refuses for a duplicate.
\<close>

theorem manifest_invariant:
  assumes "manifest_run E s"
  shows "distinct (map (\<lambda>e. norm_id (ae_id e)) (entries_of s))
    \<and> distinct (present ae_handle (entries_of s)) \<and> distinct (present ae_polar_customer_id (entries_of s))
    \<and> (\<forall>e \<in> set (entries_of s). \<exists>h. ae_handle e = Some h \<and> check_handle (ae_handle e) = Inr h)
    \<and> length (entries_of s) \<le> se_max E
    \<and> all_accounts E s \<notin> Inl ` InvalidAccountData ` {DuplicateIds, DuplicateHandles, DuplicateCustomers}"
proof -
  note u = run_keeps [OF assms]
  have h: "\<forall>e \<in> set (entries_of s). \<exists>h. ae_handle e = Some h \<and> check_handle (ae_handle e) = Inr h"
    using run_handled [OF assms] by (auto simp: list_all_iff handled_def)
  have "all_accounts E s \<notin> Inl ` InvalidAccountData ` {DuplicateIds, DuplicateHandles, DuplicateCustomers}"
  proof (cases "st_manifest s")
    case (Some es)
    then have es: "entries_of s = es" by (simp add: entries_of_def the_default_def)
    show ?thesis
    proof (cases "build_all E es")
      case (Inl err)
      have "build_all E es = Inl err \<Longrightarrow> \<forall>b. err \<noteq> InvalidAccountData b"
      proof (induction es)
        case (Cons e es)
        then show ?case
          by (auto simp: account_from_entry_def user_identity_def Let_def split: sum.splits if_splits list.splits)
      qed simp
      with Inl Some show ?thesis by (auto simp: all_accounts_def)
    next
      case (Inr as)
      with unique_accounts [OF Inr] u es Some show ?thesis by (simp add: all_accounts_def image_iff)
    qed
  qed (simp add: all_accounts_def image_iff)
  with u h show ?thesis by (simp add: unique_entries_def entry_key_def [abs_def])
qed

text \<open>
  a writer touches one account: every entry under another id is, after the call, where
  and as it was, whether the call succeeded or raised.
\<close>

theorem writers_touch_one_account:
  assumes "manifest_run E s" and "manifest_step E aid s s'"
  shows "filter (\<lambda>e. norm_id (ae_id e) \<noteq> norm_arg aid) (entries_of s')
       = filter (\<lambda>e. norm_id (ae_id e) \<noteq> norm_arg aid) (entries_of s)"
  using step_keeps [OF assms(2)] run_keeps [OF assms(1)] by (simp add: same_id_def has_id_def)

section \<open>What routing sees\<close>

lemma all_accounts_entry:
  assumes "all_accounts E s = Inr as" and "a \<in> set as"
  shows "\<exists>e \<in> set (entries_of s). ac_id a = ae_id e \<and> ac_plan_status a = the_default ''active'' (ae_plan_status e)"
proof -
  obtain es where es: "st_manifest s = Some es" "build_all E es = Inr as"
    using assms(1) by (auto simp: all_accounts_def split: option.splits sum.splits if_splits)
  have "build_all E es = Inr as \<Longrightarrow> a \<in> set as \<Longrightarrow>
    \<exists>e \<in> set es. ac_id a = ae_id e \<and> ac_plan_status a = the_default ''active'' (ae_plan_status e)"
    by (induction es arbitrary: as) (auto simp: account_from_entry_def Let_def split: sum.splits)
  with es assms(2) show ?thesis by (simp add: entries_of_def the_default_def)
qed

lemma match_account_in: "match_account pool email = Some a \<Longrightarrow> a \<in> set pool"
  by (auto simp: match_account_def Let_def find_Some_iff split: if_splits)

lemma set_plan_status_ok:
  assumes "set_plan_status cx aid status s = (Inr prior, s')"
  shows "\<exists>e. edit_entry aid (\<lambda>e. Inr (the_default ''active'' (ae_plan_status e), e\<lparr>ae_plan_status := Some status\<rparr>))
      (entries_of s) = Inr ((prior, e, e\<lparr>ae_plan_status := Some status\<rparr>), entries_of s')"
proof -
  let ?f = "\<lambda>e. Inr (the_default ''active'' (ae_plan_status e), e\<lparr>ae_plan_status := Some status\<rparr>)
      :: acct_error + string \<times> acct_entry"
  obtain t u where t: "transaction False (edit_entry aid ?f) s = (t, u)" by fastforce
  obtain x e e' where x: "t = Inr (x, e, e')" "logged cx (ae_id e) PLAN status [''from:'' @ x] x u = (Inr prior, s')"
    using assms t by (auto simp: set_plan_status_def split: if_splits sum.splits)
  have "x = prior" "entries_of s' = entries_of u"
    using x(2) row_keeps_entries(1) [OF x(2)] by (auto simp: logged_def split: sum.splits)
  moreover have "edit_entry aid ?f (entries_of s) = Inr ((x, e, e'), entries_of u)"
    using transaction_entries(5) [OF t x(1)] .
  ultimately show ?thesis by (auto simp: edit_entry_def split: option.splits)
qed

lemma edited_entry_status:
  assumes "edit_entry aid f es = Inr ((x, e, e'), es')" and "unique_entries es" and "keeps es e e'"
    and "y \<in> set es'" and "same_id aid y"
  shows "y = e'"
proof -
  obtain us vs where sp: "es = us @ e # vs" "es' = us @ e' # vs" "same_id aid e"
    using assms(1) by (auto simp: edit_entry_def split: option.splits sum.splits elim!: find_split)
  then have "y \<in> set (us @ vs) \<Longrightarrow> entry_key y \<noteq> entry_key e"
    using unique_others assms(2) by blast
  with sp assms(4,5) show ?thesis by (auto simp: same_id_def has_id_key)
qed

text \<open>
  the payment gate. Once an account is set inactive, no lookup that routing makes returns
  it, by its id or by any other address; the writer answers with the status before, and the
  newest row of the log names the account and both statuses.
\<close>

theorem inactive_is_unroutable:
  assumes "unique_entries (entries_of s)" and "set_plan_status cx aid ''inactive'' s = (Inr prior, s')"
  shows "(case get_account E email s' of Inr (Some a) \<Rightarrow> norm_id (ac_id a) \<noteq> norm_arg aid | _ \<Rightarrow> True)
    \<and> (\<exists>e \<in> set (entries_of s). norm_id (ae_id e) = norm_arg aid \<and> prior = the_default ''active'' (ae_plan_status e)
        \<and> map ev_account (event_recent 1 None (st_log s')) = [ae_id e]
        \<and> map ev_detail (event_recent 1 None (st_log s')) = [Some (''from:'' @ prior)])"
proof -
  from set_plan_status_ok [OF assms(2)] obtain e where
    e: "edit_entry aid (\<lambda>e. Inr (the_default ''active'' (ae_plan_status e), e\<lparr>ae_plan_status := Some ''inactive''\<rparr>))
      (entries_of s) = Inr ((prior, e, e\<lparr>ae_plan_status := Some ''inactive''\<rparr>), entries_of s')" by blast
  have gone: "norm_id (ac_id a) \<noteq> norm_arg aid" if hit: "get_account E email s' = Inr (Some a)" for a
  proof
    assume same: "norm_id (ac_id a) = norm_arg aid"
    obtain as where as: "all_accounts E s' = Inr as" "a \<in> set as" "ac_plan_status a \<noteq> ''inactive''"
      using hit by (auto simp: get_account_def load_accounts_def split: sum.splits dest!: match_account_in)
    from all_accounts_entry [OF as(1,2)] obtain y where
      y: "y \<in> set (entries_of s')" "ac_id a = ae_id y" "ac_plan_status a = the_default ''active'' (ae_plan_status y)" by blast
    have "y = e\<lparr>ae_plan_status := Some ''inactive''\<rparr>"
      by (rule edited_entry_status [OF e assms(1) keeps_same]) (use y same in \<open>auto simp: same_id_def has_id_def\<close>)
    with y(3) as(3) show False by (simp add: the_default_def)
  qed
  have found: "find (same_id aid) (entries_of s) = Some e" and prior: "prior = the_default ''active'' (ae_plan_status e)"
    using e by (auto simp: edit_entry_def split: option.splits)
  have row: "event_recent 1 None (st_log s') =
      [\<lparr>ev_ts = cx_now cx, ev_account = ae_id e, ev_action = PLAN, ev_outcome = ''inactive'',
        ev_detail = Some (''from:'' @ prior), ev_origin = cx_origin cx\<rparr>]"
  proof -
    obtain u where "transaction False (edit_entry aid (\<lambda>e.
        Inr (the_default ''active'' (ae_plan_status e), e\<lparr>ae_plan_status := Some ''inactive''\<rparr>))) s
        = (Inr (prior, e, e\<lparr>ae_plan_status := Some ''inactive''\<rparr>), u)"
      and lg: "logged cx (ae_id e) PLAN ''inactive'' [''from:'' @ prior] prior u = (Inr prior, s')"
      using assms(2) found prior
      by (auto simp: set_plan_status_def transaction_def edit_entry_def entries_of_def Let_def
          split: if_splits sum.splits prod.splits)
    then obtain lg' where "event_record (cx_now cx) (cx_origin cx) (ae_id e) PLAN ''inactive''
        [''from:'' @ prior] (st_log u) = Inr lg'" "st_log s' = lg'"
      by (auto simp: logged_def split: sum.splits)
    with event_record_recent show ?thesis by fastforce
  qed
  show ?thesis
    using gone found prior row
    by (auto simp: find_Some_iff same_id_def has_id_def split: sum.splits option.splits intro!: bexI [of _ e])
qed

section \<open>A second consent\<close>

lemma account_fields:
  assumes "account_from_entry E e = Inr a"
  shows "ac_handle a = ae_handle e" and "id_emails (ac_identity a) = ib_emails (ae_identity e)"
    and "id_phone_digits (ac_identity a) = map (filter is_digit) (ib_phones (ae_identity e))"
    and "ac_id a = ae_id e" "id_first (ac_identity a) = ib_first (ae_identity e)" "id_last (ac_identity a) = ib_last (ae_identity e)"
    and "id_first_aliases (ac_identity a) = ib_first_aliases (ae_identity e)" "id_phones (ac_identity a) = ib_phones (ae_identity e)"
    and "ib_contacts (ae_identity e) = [] \<Longrightarrow> id_contacts (ac_identity a) = []"
  using assms
  by (auto simp: account_from_entry_def user_identity_def Let_def split: sum.splits if_splits list.splits)

lemma register_existing:
  assumes "register_account E cx fresh su s = (Inr a, s')"
    and "find (has_id (norm_arg (su_email su))) (entries_of s) = Some old"
  shows "\<exists>e. carry_over old (new_entry (norm_arg (su_email su)) su (str_or (su_handle su) fresh)) = Inr e
    \<and> entries_of s' = update_first (has_id (norm_arg (su_email su))) (\<lambda>_. e) (entries_of s)
    \<and> account_from_entry E e = Inr a"
proof -
  define email where "email = norm_arg (su_email su)"
  define h where "h = str_or (su_handle su) fresh"
  obtain t u where t: "transaction True (put_entry (se_max E) (new_entry email su h)) s = (t, u)" by fastforce
  obtain outcome e where e: "t = Inr (outcome, e)" "entries_of s' = entries_of u" "account_from_entry E e = Inr a"
    using assms(1) t
    by (auto simp: register_account_def Let_def email_def h_def split: if_splits sum.splits prod.splits
        dest!: row_keeps_entries)
  have "put_entry (se_max E) (new_entry email su h) (entries_of s) = Inr ((outcome, e), entries_of u)"
    using transaction_entries(5) [OF t e(1)] .
  with assms(2) e show ?thesis
    by (auto simp: put_entry_def email_def h_def split: sum.splits)
qed

lemma carry_over_kept:
  assumes "carry_over old new = Inr e"
  shows "ae_plan_status e = first_some (ae_plan_status old) (ae_plan_status new)"
    and "ae_timezone e = first_some (ae_timezone old) (ae_timezone new)"
    and "ae_auto_schedule e = first_some (ae_auto_schedule old) (ae_auto_schedule new)"
    and "ae_inference_provider e = ae_inference_provider old" "ae_pii_analyzer e = ae_pii_analyzer old"
    and "ae_ban_dashes e = ae_ban_dashes old" "ae_community_calendar e = ae_community_calendar old"
  using assms by (auto simp: carry_over_def Let_def split: sum.splits)

lemma first_some_or: "a = None \<or> first_some a b = a"
  by (cases a) (auto simp: first_some_def)

text \<open>
  a second consent is not a reset: the account keeps its handle, its plan, its customer,
  its notification target unless a new one is given, and every preference it had stored,
  among them the ones stored as false; and the store does not grow.
\<close>

theorem reconsent_keeps_choices:
  assumes "register_account E cx fresh su s = (Inr a, s')"
    and "find (has_id (norm_arg (su_email su))) (entries_of s) = Some old"
    and "ae_handle old = Some h" and "h \<noteq> []"
  shows "\<exists>e \<in> set (entries_of s'). ae_handle e = Some h \<and> ac_handle a = Some h
    \<and> (ae_plan_status old = None \<or> ae_plan_status e = ae_plan_status old)
    \<and> (ae_timezone old = None \<or> ae_timezone e = ae_timezone old)
    \<and> (ae_auto_schedule old = None \<or> ae_auto_schedule e = ae_auto_schedule old)
    \<and> ae_inference_provider e = ae_inference_provider old \<and> ae_pii_analyzer e = ae_pii_analyzer old
    \<and> ae_ban_dashes e = ae_ban_dashes old \<and> ae_community_calendar e = ae_community_calendar old
    \<and> keep_truthy (ae_polar_customer_id e) = keep_truthy (ae_polar_customer_id old)
    \<and> length (entries_of s') = length (entries_of s)"
proof -
  obtain e where e: "carry_over old (new_entry (norm_arg (su_email su)) su (str_or (su_handle su) fresh)) = Inr e"
    "entries_of s' = update_first (has_id (norm_arg (su_email su))) (\<lambda>_. e) (entries_of s)"
    "account_from_entry E e = Inr a"
    using register_existing [OF assms(1,2)] by blast
  obtain us vs where sp: "entries_of s = us @ old # vs" "entries_of s' = us @ e # vs"
    using assms(2) e(2) by (auto elim!: find_split)
  note fields = carry_over_fields(2,3) [OF e(1) new_entry_fields(3)]
  have "ae_handle e = Some h" using fields(1) assms(3,4) by (simp add: truthy_def)
  moreover have "keep_truthy (ae_polar_customer_id e) = keep_truthy (ae_polar_customer_id old)"
    using fields(2) by (simp add: keep_truthy_def)
  ultimately show ?thesis
    using sp account_fields(1) [OF e(3)]
    by (intro bexI [of _ e]) (simp_all add: carry_over_kept [OF e(1)] first_some_or)
qed

text \<open>
  C34: what a second consent does reset: the masking identity of the entry is the one the consent
  states and nothing else, in the manifest and in the account that is returned: its names and
  aliases are the consent's, and the extra addresses, the phones and the contacts the entry carried
  are gone.
\<close>

theorem reconsent_resets_identity:
  assumes "register_account E cx fresh su s = (Inr a, s')"
    and "find (has_id (norm_arg (su_email su))) (entries_of s) = Some old"
  shows "(\<exists>e. find (has_id (norm_arg (su_email su))) (entries_of s') = Some e \<and> ae_id e = norm_arg (su_email su)
      \<and> ae_identity e = \<lparr>ib_first = su_first su, ib_last = su_last su, ib_first_aliases = su_first_aliases su,
          ib_emails = [norm_arg (su_email su)], ib_phones = [], ib_contacts = []\<rparr>)
    \<and> ac_id a = norm_arg (su_email su)
    \<and> id_first (ac_identity a) = su_first su \<and> id_last (ac_identity a) = su_last su
    \<and> id_first_aliases (ac_identity a) = su_first_aliases su
    \<and> id_emails (ac_identity a) = [norm_arg (su_email su)] \<and> id_phones (ac_identity a) = []
    \<and> id_phone_digits (ac_identity a) = [] \<and> id_contacts (ac_identity a) = []"
proof -
  obtain e where e: "carry_over old (new_entry (norm_arg (su_email su)) su (str_or (su_handle su) fresh)) = Inr e"
    "entries_of s' = update_first (has_id (norm_arg (su_email su))) (\<lambda>_. e) (entries_of s)"
    "account_from_entry E e = Inr a"
    using register_existing [OF assms] by blast
  obtain us vs where sp: "entries_of s' = us @ e # vs" "\<forall>u \<in> set us. \<not> has_id (norm_arg (su_email su)) u"
    using assms(2) e(2) by (auto elim!: find_split)
  have id: "ae_id e = norm_arg (su_email su)" using carry_over_fields(1) [OF e(1)] by simp
  then have "has_id (norm_arg (su_email su)) e" by (simp add: has_id_def norm_arg_def)
  with sp have "find (has_id (norm_arg (su_email su))) (entries_of s') = Some e"
    by (simp add: find_first)
  moreover have idn: "ae_identity e = ae_identity (new_entry (norm_arg (su_email su)) su (str_or (su_handle su) fresh))"
    using carry_over_fields(4) [OF e(1)] by simp
  ultimately show ?thesis using account_fields [OF e(3)] id
    by (simp add: new_entry_def)
qed

section \<open>Deletion\<close>

text \<open>What a deletion that returned True did, step by step.\<close>

lemma erased_facts:
  assumes "delete_account cx aid s = (Inr True, s')"
  shows "\<exists>gone \<in> set (entries_of s). norm_id (ae_id gone) = norm_arg aid \<and> account_dir (ae_id gone) = Inr (ae_id gone)
    \<and> entries_of s' = filter (\<lambda>e. \<not> same_id aid e) (entries_of s) \<and> st_manifest s' \<noteq> None
    \<and> st_files s' (ae_id gone) DEK_FILE = None \<and> st_deks s' (ae_id gone) = None
    \<and> (\<forall>n. st_files s' (ae_id gone) n = None
        \<or> cx_stuck cx (ae_id gone) n \<and> st_files s' (ae_id gone) n = st_files s (ae_id gone) n)
    \<and> (\<forall>u. u = ae_id gone \<or> (st_files s' u = st_files s u \<and> st_deks s' u = st_deks s u))
    \<and> event_recent 1 None (st_log s') = [\<lparr>ev_ts = cx_now cx, ev_account = ae_id gone, ev_action = ACCOUNT,
        ev_outcome = ''deleted'', ev_detail = None, ev_origin = cx_origin cx\<rparr>]"
proof -
  obtain u where t: "transaction False (\<lambda>es. Inr (filter (same_id aid) es, filter (\<lambda>e. \<not> same_id aid e) es)) s
      = (Inr (filter (same_id aid) (entries_of s)), u)"
    using assms
    by (auto simp: delete_account_def transaction_def entries_of_def Let_def split: if_splits)
  then obtain gone others s2 b s3 where
    gone: "filter (same_id aid) (entries_of s) = gone # others"
    and lg: "logged cx (ae_id gone) ACCOUNT ''deleted'' [] () u = (Inr (), s2)"
    and de: "destroy (ae_id gone) s2 = (Inr b, s3)" and rm: "remove_dir cx (ae_id gone) s3 = Inr s'"
    using assms by (auto simp: delete_account_def split: list.splits sum.splits prod.splits)
  have mem: "gone \<in> set (entries_of s)" "same_id aid gone"
    using arg_cong [OF gone, where f = set] by auto
  have u: "entries_of u = filter (\<lambda>e. \<not> same_id aid e) (entries_of s)" "st_files u = st_files s" "st_deks u = st_deks s"
    using transaction_entries(5) [OF t] transaction_entries(2,3) [OF t] by auto
  have man: "st_manifest u \<noteq> None" using t by (auto simp: transaction_def Let_def split: if_splits)
  note s2 = logged_store [OF lg] row_keeps_entries(1) [OF lg]
  note s3 = destroy_shreds [OF de]
  have dir: "account_dir (ae_id gone) = Inr (ae_id gone)"
    using rm by (auto simp: remove_dir_def split: sum.splits dest: account_dir_Inr)
  then have s': "st_files s' = (st_files s3)(ae_id gone := (\<lambda>n. if cx_stuck cx (ae_id gone) n then st_files s3 (ae_id gone) n else None))"
    "st_deks s' = st_deks s3" "st_manifest s' = st_manifest s3" "st_log s' = st_log s3"
    using rm by (auto simp: remove_dir_def)
  obtain lg' where "event_record (cx_now cx) (cx_origin cx) (ae_id gone) ACCOUNT ''deleted'' [] (st_log u) = Inr lg'"
    "st_log s2 = lg'"
    using lg by (auto simp: logged_def split: sum.splits)
  then have row: "event_recent 1 None (st_log s') = [\<lparr>ev_ts = cx_now cx, ev_account = ae_id gone, ev_action = ACCOUNT,
      ev_outcome = ''deleted'', ev_detail = None, ev_origin = cx_origin cx\<rparr>]"
    using event_record_recent s'(4) s3(6) by fastforce
  have ents: "entries_of s' = filter (\<lambda>e. \<not> same_id aid e) (entries_of s)" "st_manifest s' \<noteq> None"
    using u(1) s2 s3(5) s'(3) man by (simp_all add: entries_of_def)
  have rest: "st_files s' v = st_files s v \<and> st_deks s' v = st_deks s v" if "v \<noteq> ae_id gone" for v
  proof -
    have "st_files s3 v = st_files s2 v" by (rule ext) (use s3(3) [of v] that in simp)
    then show ?thesis using that s'(1,2) s3(4) s2 u by simp
  qed
  have own: "st_files s' (ae_id gone) n = None
      \<or> cx_stuck cx (ae_id gone) n \<and> st_files s' (ae_id gone) n = st_files s (ae_id gone) n" for n
    using s'(1) s3(1) s3(3) [of "ae_id gone" n] s2 u(2) by (cases "n = DEK_FILE") auto
  have dek: "st_files s' (ae_id gone) DEK_FILE = None" "st_deks s' (ae_id gone) = None" using s'(1,2) s3(1,2) by simp_all
  show ?thesis
    using mem dir ents row rest own dek by (intro bexI [of _ gone]) (auto simp: same_id_def has_id_def)
qed

text \<open>
  C35: a deletion that returns True erased the account: no entry has its id, the record of its data
  key is off the disk and the key out of the memory of the process that deleted it, and of its
  files only such are left as the file system would not remove, unchanged; entries, files and keys of
  other accounts are as they were, and the newest row of the log says it was deleted.
\<close>

theorem delete_account_erases:
  assumes "delete_account cx aid s = (Inr True, s')"
  shows "\<exists>gone \<in> set (entries_of s). norm_id (ae_id gone) = norm_arg aid
    \<and> entries_of s' = filter (\<lambda>e. norm_id (ae_id e) \<noteq> norm_arg aid) (entries_of s)
    \<and> st_files s' (ae_id gone) DEK_FILE = None \<and> st_deks s' (ae_id gone) = None
    \<and> (\<forall>n. st_files s' (ae_id gone) n = None
        \<or> cx_stuck cx (ae_id gone) n \<and> st_files s' (ae_id gone) n = st_files s (ae_id gone) n)
    \<and> (\<forall>u. u = ae_id gone \<or> (st_files s' u = st_files s u \<and> st_deks s' u = st_deks s u))
    \<and> map ev_account (event_recent 1 None (st_log s')) = [ae_id gone]
    \<and> map ev_outcome (event_recent 1 None (st_log s')) = [''deleted'']"
proof -
  have "same_id aid = (\<lambda>e. norm_id (ae_id e) = norm_arg aid)" by (simp add: fun_eq_iff same_id_def has_id_def)
  note erased_facts [OF assms, unfolded this]
  then obtain gone where "gone \<in> set (entries_of s)" and facts: "norm_id (ae_id gone) = norm_arg aid"
    "entries_of s' = filter (\<lambda>e. norm_id (ae_id e) \<noteq> norm_arg aid) (entries_of s)"
    "st_files s' (ae_id gone) DEK_FILE = None" "st_deks s' (ae_id gone) = None"
    "\<forall>n. st_files s' (ae_id gone) n = None
        \<or> cx_stuck cx (ae_id gone) n \<and> st_files s' (ae_id gone) n = st_files s (ae_id gone) n"
    "\<forall>u. u = ae_id gone \<or> (st_files s' u = st_files s u \<and> st_deks s' u = st_deks s u)"
    "event_recent 1 None (st_log s') = [\<lparr>ev_ts = cx_now cx, ev_account = ae_id gone, ev_action = ACCOUNT,
        ev_outcome = ''deleted'', ev_detail = None, ev_origin = cx_origin cx\<rparr>]" by (elim bexE conjE)
  then show ?thesis by (intro bexI [of _ gone] conjI) simp_all
qed

section \<open>Preferences and billing links\<close>

definition effective :: "acct_entry \<Rightarrow> string \<times> bool \<times> string option \<times> bool \<times> bool \<times> string" where
  "effective e = (the_default DEFAULT_TIMEZONE (ae_timezone e), the_default False (ae_auto_schedule e),
     ae_inference_provider e, the_default True (ae_pii_analyzer e), the_default True (ae_ban_dashes e),
     the_default '''' (ae_community_calendar e))"

lemma differs_merged:
  "differs x stored (Some d) \<longleftrightarrow> the_default d (merged x stored) \<noteq> the_default d stored"
  "differs x stored None \<longleftrightarrow> merged x stored \<noteq> stored"
  by (auto simp: differs_def merged_def the_default_def split: option.splits)

text \<open>
  the row a settings save writes names exactly the fields whose value in force changed,
  not the fields the form submitted; and it says \<open>unchanged\<close> precisely when none did.
\<close>

theorem settings_row_names_changes:
  assumes "apply_settings a e = Inr (changed, e')"
  shows "(''timezone'' \<in> set changed \<longleftrightarrow> the_default DEFAULT_TIMEZONE (ae_timezone e') \<noteq> the_default DEFAULT_TIMEZONE (ae_timezone e))
    \<and> (''auto_schedule'' \<in> set changed \<longleftrightarrow> the_default False (ae_auto_schedule e') \<noteq> the_default False (ae_auto_schedule e))
    \<and> (''inference_provider'' \<in> set changed \<longleftrightarrow> ae_inference_provider e' \<noteq> ae_inference_provider e)
    \<and> (''pii_analyzer'' \<in> set changed \<longleftrightarrow> the_default True (ae_pii_analyzer e') \<noteq> the_default True (ae_pii_analyzer e))
    \<and> (''ban_dashes'' \<in> set changed \<longleftrightarrow> the_default True (ae_ban_dashes e') \<noteq> the_default True (ae_ban_dashes e))
    \<and> (''community_calendar'' \<in> set changed \<longleftrightarrow> the_default '''' (ae_community_calendar e') \<noteq> the_default '''' (ae_community_calendar e))
    \<and> (changed = [] \<longleftrightarrow> effective e' = effective e) \<and> distinct changed \<and> list_all is_token changed"
proof -
  let ?cal = "norm_id (the (set_calendar a))"
  have e': "ae_timezone e' = merged (set_timezone a) (ae_timezone e)"
    "ae_auto_schedule e' = merged (set_auto a) (ae_auto_schedule e)"
    "ae_inference_provider e' = merged (set_provider a) (ae_inference_provider e)"
    "ae_pii_analyzer e' = merged (set_analyzer a) (ae_pii_analyzer e)"
    "ae_ban_dashes e' = merged (set_dashes a) (ae_ban_dashes e)"
    using assms by (auto simp: apply_settings_def Let_def split: option.splits if_splits)
  have cal: "the_default '''' (ae_community_calendar e') =
      (if set_calendar a = None then the_default '''' (ae_community_calendar e) else ?cal)"
    and changed: "changed = changed_fields a e @
      (if the_default '''' (ae_community_calendar e') \<noteq> the_default '''' (ae_community_calendar e)
       then [''community_calendar''] else [])"
    using assms by (auto simp: apply_settings_def the_default_def Let_def split: option.splits if_splits)
  show ?thesis
    unfolding changed changed_fields_def differs_merged e' [symmetric]
    by (simp add: effective_def is_token_def token_char_def is_lower_def Let_def)
qed

text \<open>
  one customer, one account: linking a customer that another account holds is refused,
  naming how many hold it, and leaves the store exactly as it was.
\<close>

theorem customer_link_is_exclusive:
  assumes "e \<in> set (entries_of s)" and "ae_polar_customer_id e = Some cid" and "cid \<noteq> []"
    and "norm_id (ae_id e) \<noteq> norm_arg aid"
  shows "case set_polar_customer_id E cx aid cid s of
      (Inl err, s') \<Rightarrow> s' = s \<and> err \<in> {AssertionFailed ''no accounts manifest'', KeyError (str_or aid '''')}
                    \<union> {InvalidAccountData (CustomerTaken n) | n. 0 < n}
    | (Inr _, _) \<Rightarrow> False"
proof -
  have manifest: "st_manifest s \<noteq> None"
    using assms(1) by (cases "st_manifest s") (auto simp: entries_of_def the_default_def)
  show ?thesis
  proof (cases "find (same_id aid) (entries_of s)")
    case None
    then show ?thesis
      using assms(3) manifest
      by (auto simp: set_polar_customer_id_def transaction_def edit_entry_def entries_of_def Let_def)
  next
    case (Some x)
    then have "norm_id (ae_id x) = norm_arg aid" by (auto simp: find_Some_iff same_id_def has_id_def)
    with assms(4) have "ae_id e \<noteq> ae_id x" by auto
    with assms(1,2) have "filter (\<lambda>y. ae_polar_customer_id y = Some cid \<and> ae_id y \<noteq> ae_id x) (entries_of s) \<noteq> []"
      by (auto simp: filter_empty_conv)
    then show ?thesis
      using assms(3) manifest Some
      by (auto simp: set_polar_customer_id_def transaction_def edit_entry_def entries_of_def link_customer_def Let_def)
  qed
qed

section \<open>Witnesses\<close>

definition demo_site :: site_env where
  "demo_site = \<lparr>se_root = ''/r'', se_accounts = ''/r/db'', se_bot = None, se_max = 100, se_env = (\<lambda>_. None)\<rparr>"

definition demo_ctx :: ctx where
  "demo_ctx = \<lparr>cx_now = 20000000, cx_origin = (None, None), cx_stuck = (\<lambda>d n. n = ''busy.bin'')\<rparr>"

definition demo_handle :: string where
  "demo_handle = replicate 32 (CHR ''a'')"

definition demo_signup :: signup where
  "demo_signup = \<lparr>su_email = Some '' A@b'', su_first = ''F'', su_last = ''L'', su_token_file = None,
     su_first_aliases = [], su_chat_id = None, su_bot = None, su_plan_status = ''inactive'',
     su_state_file = None, su_timezone = None, su_auto = False, su_voice_file = None, su_handle = None\<rparr>"

definition demo_empty :: store where
  "demo_empty = \<lparr>st_manifest = None, st_log = empty_log, st_files = (\<lambda>_ _. None), st_deks = (\<lambda>_. None)\<rparr>"

definition demo_entry :: acct_entry where
  "demo_entry = new_entry ''a@b'' demo_signup demo_handle"

definition demo_store :: store where
  "demo_store = demo_empty\<lparr>st_manifest := Some [demo_entry]\<rparr>"

lemma demo_handle_ok: "is_handle demo_handle" "demo_handle \<noteq> []"
  by (simp_all add: is_handle_def demo_handle_def HANDLE_BYTES_def is_hex_def Let_def)

lemma demo_email: "norm_arg (Some '' A@b'') = ''a@b''" "norm_id ''a@b'' = ''a@b''"
  by code_simp+

lemma demo_row_ok: "is_token ''created''" "is_token ''updated''" "is_token ''deleted''" "is_token ''inactive''"
  "is_token ''from:inactive''"
  by (simp_all add: is_token_def token_char_def is_lower_def is_digit_def Let_def)

lemma demo_logged:
  "is_token outcome \<Longrightarrow> \<exists>lg. logged demo_ctx ''a@b'' act outcome [] x s = (Inr x, s\<lparr>st_log := lg\<rparr>)"
  "is_token outcome \<Longrightarrow> is_token d \<Longrightarrow> \<exists>lg. logged demo_ctx ''a@b'' act outcome [d] x s = (Inr x, s\<lparr>st_log := lg\<rparr>)"
  by (auto simp: logged_def event_record_def detail_string_def MAX_DETAIL_TOKENS_def)

lemma demo_account_like:
  "ae_identity e = ae_identity (new_entry ''a@b'' demo_signup h) \<Longrightarrow> ae_id e = ''a@b'' \<Longrightarrow>
   account_from_entry E e \<noteq> Inl err"
  by (simp add: account_from_entry_def user_identity_def new_entry_def demo_signup_def Let_def)

lemma demo_account: "account_from_entry E (new_entry ''a@b'' demo_signup h) \<noteq> Inl err"
  by (rule demo_account_like) simp_all

lemma demo_register:
  "\<exists>a s'. register_account demo_site demo_ctx demo_handle demo_signup demo_empty = (Inr a, s') \<and> entries_of s' = [demo_entry]"
proof -
  obtain a where a: "account_from_entry demo_site demo_entry = Inr a"
    using demo_account [of demo_site demo_handle] by (cases "account_from_entry demo_site demo_entry") (auto simp: demo_entry_def)
  have t: "transaction True (put_entry (se_max demo_site) demo_entry) demo_empty = (Inr (''created'', demo_entry), demo_store)"
    by (simp add: transaction_def demo_empty_def the_default_def put_entry_def demo_site_def demo_store_def Let_def)
  obtain lg where lg: "logged demo_ctx ''a@b'' ACCOUNT ''created'' [] () demo_store = (Inr (), demo_store\<lparr>st_log := lg\<rparr>)"
    using demo_logged(1) [OF demo_row_ok(1), of ACCOUNT "()" demo_store] by blast
  have "\<not> contains ''..'' ''a@b''" by simp
  then have "register_account demo_site demo_ctx demo_handle demo_signup demo_empty = (Inr a, demo_store\<lparr>st_log := lg\<rparr>)"
    using t lg a demo_handle_ok
    by (simp add: register_account_def demo_signup_def [THEN arg_cong [where f = su_email]]
        demo_signup_def [THEN arg_cong [where f = su_handle]] demo_email str_or_def check_handle_def demo_entry_def Let_def)
  then show ?thesis by (simp add: entries_of_def demo_store_def the_default_def)
qed

lemma demo_run: "\<exists>s. manifest_run demo_site s \<and> entries_of s = [demo_entry]"
proof -
  obtain a s' where "register_account demo_site demo_ctx demo_handle demo_signup demo_empty = (Inr a, s')"
    "entries_of s' = [demo_entry]" using demo_register by blast
  moreover have "manifest_run demo_site demo_empty" by (rule run_fresh) (simp add: demo_empty_def)
  moreover have "handle_is_free (str_or (su_handle demo_signup) demo_handle) (norm_arg (su_email demo_signup)) demo_empty"
    by (simp add: handle_is_free_def entries_of_def demo_empty_def the_default_def)
  ultimately show ?thesis using run_step step_register by blast
qed

theorem manifest_invariant_witness:
  "\<exists>s. entries_of s = [demo_entry] \<and> length (entries_of s) \<le> se_max demo_site
     \<and> all_accounts demo_site s \<noteq> Inl (InvalidAccountData DuplicateHandles)"
  using demo_run manifest_invariant by blast

theorem writers_touch_one_account_witness:
  "\<exists>s s'. entries_of s = [demo_entry] \<and> set_plan_status demo_ctx (Some ''x'') ''active'' s = (Inl (KeyError ''x''), s')
     \<and> filter (\<lambda>e. norm_id (ae_id e) \<noteq> norm_arg (Some ''x'')) (entries_of s')
     = filter (\<lambda>e. norm_id (ae_id e) \<noteq> norm_arg (Some ''x'')) (entries_of s)"
proof -
  obtain s where s: "manifest_run demo_site s" "entries_of s = [demo_entry]" using demo_run by blast
  then have "st_manifest s = Some [demo_entry]" by (cases "st_manifest s") (auto simp: entries_of_def the_default_def)
  then have p: "set_plan_status demo_ctx (Some ''x'') ''active'' s = (Inl (KeyError ''x''), s)"
    by (simp add: set_plan_status_def transaction_def the_default_def edit_entry_def same_id_def has_id_def demo_entry_def
        demo_email(2) norm_arg_def str_or_def py_strip_def py_space_def py_lower_def lower_char_def Let_def)
  from writers_touch_one_account [OF s(1) step_plan [OF p]] s(2) p show ?thesis by blast
qed

definition demo_grown :: acct_entry where
  "demo_grown = demo_entry\<lparr>ae_identity := \<lparr>ib_first = ''Old'', ib_last = ''Name'', ib_first_aliases = [''O''],
     ib_emails = [''a@b'', ''c@d''], ib_phones = [''555 0100''], ib_contacts = [''Ann Lee'']\<rparr>\<rparr>"

definition demo_listed :: "acct_entry \<Rightarrow> store" where
  "demo_listed x = demo_empty\<lparr>st_manifest := Some [x]\<rparr>"

lemma demo_found:
  "ae_id x = ''a@b'' \<Longrightarrow> find (has_id (norm_arg (su_email demo_signup))) (entries_of (demo_listed x)) = Some x"
  by (simp add: demo_signup_def [THEN arg_cong [where f = su_email]] demo_email demo_listed_def entries_of_def
      the_default_def has_id_def)

lemma demo_entry_names: "ae_id demo_entry = ''a@b''" "ae_handle demo_entry = Some demo_handle"
  "ae_id demo_grown = ''a@b''" "ae_handle demo_grown = Some demo_handle"
  by (simp_all add: demo_entry_def demo_grown_def)

lemma demo_reconsent:
  assumes "ae_id x = ''a@b''" and "ae_handle x = Some demo_handle"
  shows "\<exists>a s'. register_account demo_site demo_ctx (replicate 32 (CHR ''b'')) demo_signup (demo_listed x) = (Inr a, s')"
proof -
  obtain e where e: "carry_over x (new_entry ''a@b'' demo_signup (replicate 32 (CHR ''b''))) = Inr e"
    using demo_handle_ok assms by (simp add: carry_over_def truthy_def check_handle_def Let_def)
  obtain a where a: "account_from_entry demo_site e = Inr a"
    using demo_account_like carry_over_fields(1,4) [OF e new_entry_fields(3)]
    by (cases "account_from_entry demo_site e") auto
  have "find (has_id ''a@b'') [x] = Some x"
    using assms by (simp add: has_id_def demo_email)
  then have t: "fst (transaction True (put_entry (se_max demo_site) (new_entry ''a@b'' demo_signup (replicate 32 (CHR ''b'')))) (demo_listed x))
      = Inr (''updated'', e)"
    by (simp add: transaction_def demo_listed_def the_default_def put_entry_def e Let_def)
  have h: "is_handle (replicate 32 (CHR ''b''))"
    by (simp add: is_handle_def HANDLE_BYTES_def is_hex_def Let_def)
  obtain s1 where t1: "transaction True (put_entry (se_max demo_site) (new_entry ''a@b'' demo_signup (replicate 32 (CHR ''b'')))) (demo_listed x)
      = (Inr (''updated'', e), s1)" using t by (metis prod.collapse)
  obtain lg where "logged demo_ctx ''a@b'' ACCOUNT ''updated'' [] () s1 = (Inr (), s1\<lparr>st_log := lg\<rparr>)"
    using demo_logged(1) [OF demo_row_ok(2), of ACCOUNT "()" s1] by blast
  moreover have "\<not> contains ''..'' ''a@b''" by simp
  ultimately show ?thesis
    using t1 a h
    by (simp add: register_account_def demo_signup_def [THEN arg_cong [where f = su_email]]
        demo_signup_def [THEN arg_cong [where f = su_handle]] demo_email str_or_def check_handle_def Let_def)
qed

theorem reconsent_keeps_choices_witness:
  "\<exists>a s'. register_account demo_site demo_ctx (replicate 32 (CHR ''b'')) demo_signup (demo_listed demo_entry) = (Inr a, s')
     \<and> ac_handle a = Some demo_handle"
proof -
  obtain a s' where r: "register_account demo_site demo_ctx (replicate 32 (CHR ''b'')) demo_signup (demo_listed demo_entry) = (Inr a, s')"
    using demo_reconsent demo_entry_names by blast
  from reconsent_keeps_choices [OF this demo_found] demo_entry_names demo_handle_ok r show ?thesis by blast
qed

text \<open>An account whose owner had added a second address, a phone and a contact signs in again.\<close>

theorem reconsent_resets_identity_witness:
  "ib_phones (ae_identity demo_grown) = [''555 0100''] \<and> ib_contacts (ae_identity demo_grown) = [''Ann Lee'']
   \<and> (\<exists>a s'. register_account demo_site demo_ctx (replicate 32 (CHR ''b'')) demo_signup (demo_listed demo_grown) = (Inr a, s')
     \<and> id_first (ac_identity a) = ''F'' \<and> id_emails (ac_identity a) = [''a@b''] \<and> id_phones (ac_identity a) = []
     \<and> id_contacts (ac_identity a) = [])"
proof -
  obtain a s' where r: "register_account demo_site demo_ctx (replicate 32 (CHR ''b'')) demo_signup (demo_listed demo_grown) = (Inr a, s')"
    using demo_reconsent demo_entry_names by blast
  from reconsent_resets_identity [OF this demo_found] demo_entry_names r show ?thesis
    by (auto simp: demo_signup_def [THEN arg_cong [where f = su_email]] demo_email
        demo_signup_def [THEN arg_cong [where f = su_first]] demo_grown_def)
qed

lemma demo_one: "unique_entries (entries_of demo_store)" "entries_of demo_store = [demo_entry]"
  "same_id (Some ''a@b'') demo_entry" "norm_arg (Some ''a@b'') = ''a@b''" "ae_id demo_entry = ''a@b''"
  by (simp_all add: entries_of_def demo_store_def the_default_def unique_entries_def entry_key_def demo_entry_def
      same_id_def has_id_def norm_arg_def str_or_def demo_email)

lemma demo_set_inactive:
  "\<exists>s'. set_plan_status demo_ctx (Some ''a@b'') ''inactive'' demo_store = (Inr ''inactive'', s')"
proof -
  have p: "the_default ''active'' (ae_plan_status demo_entry) = ''inactive''"
    by (simp add: demo_entry_def new_entry_def demo_signup_def the_default_def)
  obtain s1 where t: "transaction False (edit_entry (Some ''a@b'') (\<lambda>e.
      Inr (the_default ''active'' (ae_plan_status e), e\<lparr>ae_plan_status := Some ''inactive''\<rparr>))) demo_store
    = (Inr (''inactive'', demo_entry, demo_entry\<lparr>ae_plan_status := Some ''inactive''\<rparr>), s1)"
    by (simp add: transaction_def demo_store_def the_default_def [where x = "Some z" for z] edit_entry_def demo_one p Let_def)
  obtain lg where "logged demo_ctx ''a@b'' PLAN ''inactive'' [''from:'' @ ''inactive''] ''inactive'' s1
      = (Inr ''inactive'', s1\<lparr>st_log := lg\<rparr>)"
    using demo_logged(2) [OF demo_row_ok(4), of "''from:'' @ ''inactive''" PLAN "''inactive''" s1] demo_row_ok(5) by auto
  with t show ?thesis by (simp add: set_plan_status_def demo_one)
qed

theorem inactive_is_unroutable_witness:
  "\<exists>s'. set_plan_status demo_ctx (Some ''a@b'') ''inactive'' demo_store = (Inr ''inactive'', s')
     \<and> map ev_detail (event_recent 1 None (st_log s')) = [Some ''from:inactive'']"
proof -
  obtain s' where s': "set_plan_status demo_ctx (Some ''a@b'') ''inactive'' demo_store = (Inr ''inactive'', s')"
    using demo_set_inactive by blast
  from inactive_is_unroutable [OF demo_one(1) this] s' show ?thesis by auto
qed

lemma demo_delete:
  assumes "st_manifest s = Some [demo_entry]"
  shows "\<exists>s'. delete_account demo_ctx (Some ''a@b'') s = (Inr True, s')"
proof -
  obtain s1 where t: "transaction False (\<lambda>es. Inr (filter (same_id (Some ''a@b'')) es, filter (\<lambda>e. \<not> same_id (Some ''a@b'') e) es)) s
     = (Inr [demo_entry], s1)"
    by (simp add: transaction_def assms the_default_def demo_one Let_def)
  obtain lg where lg: "logged demo_ctx ''a@b'' ACCOUNT ''deleted'' [] () s1 = (Inr (), s1\<lparr>st_log := lg\<rparr>)"
    using demo_logged(1) [OF demo_row_ok(3), of ACCOUNT "()" s1] by blast
  have d: "account_dir ''a@b'' = Inr ''a@b''" by (simp add: account_dir_def check_id_def)
  then have "\<exists>b s3. destroy ''a@b'' (s1\<lparr>st_log := lg\<rparr>) = (Inr b, s3)"
    by (auto simp: destroy_def Let_def)
  then obtain b s3 where "destroy ''a@b'' (s1\<lparr>st_log := lg\<rparr>) = (Inr b, s3)" by blast
  with t lg d show ?thesis
    by (simp add: delete_account_def demo_one remove_dir_def)
qed

theorem delete_account_erases_witness:
  "\<exists>s'. delete_account demo_ctx (Some ''a@b'') demo_store = (Inr True, s')
     \<and> map ev_outcome (event_recent 1 None (st_log s')) = [''deleted'']"
proof -
  obtain s' where s': "delete_account demo_ctx (Some ''a@b'') demo_store = (Inr True, s')"
    using demo_delete [of demo_store] by (auto simp: demo_store_def)
  from delete_account_erases [OF this] have "map ev_outcome (event_recent 1 None (st_log s')) = [''deleted'']"
    by (elim bexE conjE)
  with s' show ?thesis by (intro exI conjI)
qed

definition demo_settings :: settings where
  "demo_settings = \<lparr>set_timezone = Some ''UTC'', set_auto = Some True, set_provider = None, set_analyzer = Some True,
     set_dashes = None, set_calendar = None\<rparr>"

theorem settings_row_names_changes_witness:
  "\<exists>e'. apply_settings demo_settings demo_entry = Inr ([''auto_schedule''], e') \<and> effective e' \<noteq> effective demo_entry"
proof -
  obtain e' where e': "apply_settings demo_settings demo_entry = Inr ([''auto_schedule''], e')"
    by (simp add: apply_settings_def demo_settings_def changed_fields_def differs_def demo_entry_def new_entry_def
        demo_signup_def str_or_def DEFAULT_TIMEZONE_def Let_def)
  from settings_row_names_changes [OF this] e' show ?thesis by auto
qed

theorem customer_link_is_exclusive_witness:
  "\<exists>s. ae_polar_customer_id (hd (entries_of s)) = Some ''c''
     \<and> set_polar_customer_id demo_site demo_ctx (Some ''x'') ''c'' s = (Inl (KeyError ''x''), s)"
proof -
  define e where "e = demo_entry\<lparr>ae_polar_customer_id := Some ''c''\<rparr>"
  define s where "s = demo_store\<lparr>st_manifest := Some [e]\<rparr>"
  have ne: "norm_id (ae_id e) \<noteq> norm_arg (Some ''x'')"
    by (simp add: e_def demo_one demo_email) code_simp
  have s: "entries_of s = [e]" by (simp add: s_def entries_of_def the_default_def)
  have "case set_polar_customer_id demo_site demo_ctx (Some ''x'') ''c'' s of
      (Inl err, s') \<Rightarrow> s' = s \<and> err \<in> {AssertionFailed ''no accounts manifest'', KeyError (str_or (Some ''x'') '''')}
                    \<union> {InvalidAccountData (CustomerTaken n) | n. 0 < n}
    | (Inr _, _) \<Rightarrow> False"
    by (rule customer_link_is_exclusive [of e]) (use ne s in \<open>simp_all add: e_def\<close>)
  moreover have "fst (set_polar_customer_id demo_site demo_ctx (Some ''x'') ''c'' s) = Inl (KeyError ''x'')"
    using ne by (simp add: set_polar_customer_id_def transaction_def s_def the_default_def edit_entry_def same_id_def
        has_id_def str_or_def)
  ultimately have "set_polar_customer_id demo_site demo_ctx (Some ''x'') ''c'' s = (Inl (KeyError ''x''), s)"
    by (auto split: prod.splits sum.splits)
  then show ?thesis using s by (intro exI [of _ s]) (simp add: e_def)
qed

end
