(* ===== verification/Billing.thy ===== *)
theory Billing
  imports Spool ManifestRun
begin

text \<open>
  \<open>backend/billing/billing.py\<close>: what Polar says and what it does to an account's plan. Polar
  itself is a parameter: for each call the status (None when the request never happened) and
  the body. Python's duck typing is kept where it decides: \<open>get\<close> on a value that is no dict,
  \<open>strip\<close> on one that is no string and hashing a list are exceptions. Log texts are not modelled;
  a result string is the constructor that names its case.
\<close>

datatype billing_error = PyError | PolarAssertion | StoreError acct_error

type_synonym obj = "(string \<times> json) list"

record polar =
  pl_customer :: "string \<Rightarrow> int option \<times> json"
  pl_checkout :: "string \<Rightarrow> int option \<times> json"
  pl_session :: "string \<Rightarrow> int option \<times> json"
  pl_subscriptions :: "nat \<Rightarrow> int option \<times> json"
  pl_str :: "json \<Rightarrow> string"

definition lift_store :: "acct_error + 'a \<Rightarrow> billing_error + 'a" where
  "lift_store r = (case r of Inl e \<Rightarrow> Inl (StoreError e) | Inr x \<Rightarrow> Inr x)"

section \<open>Ids and statuses\<close>

definition id_char :: "char \<Rightarrow> bool" where
  "id_char c \<longleftrightarrow> is_lower c \<or> is_digit c \<or> (let n = (of_char c :: nat) in 65 \<le> n \<and> n \<le> 90) \<or> c \<in> set ''_-''"

definition valid_id :: "string \<Rightarrow> bool" where
  "valid_id s \<longleftrightarrow> 1 \<le> length s \<and> length s \<le> 128 \<and> (\<forall>c \<in> set s. id_char c)"

definition hashable :: "json \<Rightarrow> bool" where
  "hashable j = (case j of JList _ \<Rightarrow> False | JObj _ \<Rightarrow> False | _ \<Rightarrow> True)"

definition in_set :: "json \<Rightarrow> string list \<Rightarrow> billing_error + bool" where
  "in_set j names = (if hashable j then Inr (j \<in> JStr ` set names) else Inl PyError)"

definition subscription_entitled :: "json \<Rightarrow> billing_error + bool" where
  "subscription_entitled status = in_set status [''active'', ''trialing'']"

section \<open>Reading a Polar object\<close>

text \<open>\<open>data.get(name) or {}\<close>, about to be read with \<open>get\<close>.\<close>

definition sub_object :: "obj \<Rightarrow> string \<Rightarrow> billing_error + obj" where
  "sub_object data name =
     (let v = jget data name
      in if \<not> jtrue v then Inr [] else case jobj v of None \<Rightarrow> Inl PyError | Some kvs \<Rightarrow> Inr kvs)"

definition customer_id :: "obj \<Rightarrow> billing_error + json" where
  "customer_id data =
     (if jtrue (jget data ''customer_id'') then Inr (jget data ''customer_id'')
      else case sub_object data ''customer'' of Inl e \<Rightarrow> Inl e | Inr c \<Rightarrow> Inr (jget c ''id''))"

definition event_email :: "obj \<Rightarrow> billing_error + json" where
  "event_email data =
     (case sub_object data ''customer'' of
        Inl e \<Rightarrow> Inl e
      | Inr c \<Rightarrow>
          if jtrue (jget c ''email'') then Inr (jget c ''email'')
          else if jtrue (jget data ''customer_email'') then Inr (jget data ''customer_email'')
          else case sub_object data ''user'' of Inl e \<Rightarrow> Inl e | Inr u \<Rightarrow> Inr (jget u ''email''))"

definition order_subscription :: "obj \<Rightarrow> billing_error + json" where
  "order_subscription data =
     (if jtrue (jget data ''subscription_id'') then Inr (jget data ''subscription_id'')
      else case sub_object data ''subscription'' of Inl e \<Rightarrow> Inl e | Inr c \<Rightarrow> Inr (jget c ''id''))"

definition py_text :: "polar \<Rightarrow> json \<Rightarrow> string" where
  "py_text P j = (case j of JStr s \<Rightarrow> s | _ \<Rightarrow> pl_str P j)"

text \<open>A lookup reads the manifest before it strips its argument, so the store's error comes first.\<close>

definition find_by_email :: "site_env \<Rightarrow> json \<Rightarrow> store \<Rightarrow> billing_error + account option" where
  "find_by_email E email s =
     (case email of
        JStr m \<Rightarrow> lift_store (account_for_email E (Some m) True s)
      | _ \<Rightarrow> (case all_accounts E s of Inl e \<Rightarrow> Inl (StoreError e) | Inr _ \<Rightarrow> Inl PyError))"

definition customer_email :: "polar \<Rightarrow> json \<Rightarrow> billing_error + json" where
  "customer_email P cid =
     (case cid of
        JStr c \<Rightarrow>
         (if \<not> valid_id c then Inl PolarAssertion
          else case pl_customer P c of (status, body) \<Rightarrow>
            (case jobj body of
               Some kvs \<Rightarrow> if status = Some 200 then Inr (jget kvs ''email'') else Inr JNull
             | None \<Rightarrow> Inr JNull))
      | _ \<Rightarrow> Inl PolarAssertion)"

definition stamped_account :: "site_env \<Rightarrow> polar \<Rightarrow> obj \<Rightarrow> store \<Rightarrow> billing_error + account option" where
  "stamped_account E P data s =
     (case sub_object data ''metadata'' of
        Inl e \<Rightarrow> Inl e
      | Inr m \<Rightarrow>
         (let stamped = jget m ''account_id''
          in if \<not> jtrue stamped then Inr None
             else lift_store (account_for_email E (Some (py_text P stamped)) True s)))"

section \<open>Which account a Polar object means\<close>

definition linked_account :: "site_env \<Rightarrow> json \<Rightarrow> store \<Rightarrow> billing_error + account option" where
  "linked_account E cid s =
     (if \<not> jtrue cid then Inr None
      else case cid of JStr c \<Rightarrow> lift_store (account_for_customer_id E (Some c) s) | _ \<Rightarrow> Inl PyError)"

definition account_by_email :: "site_env \<Rightarrow> polar \<Rightarrow> obj \<Rightarrow> json \<Rightarrow> store \<Rightarrow> billing_error + account option" where
  "account_by_email E P data cid s =
     (case event_email data of
        Inl e \<Rightarrow> Inl e
      | Inr email \<Rightarrow>
     (case (if \<not> jtrue email \<and> jtrue cid then customer_email P cid else Inr email) of
        Inl e \<Rightarrow> Inl e
      | Inr email2 \<Rightarrow>
          if \<not> jtrue email2 then Inr None
          else case find_by_email E email2 s of
              Inl e \<Rightarrow> Inl e
            | Inr None \<Rightarrow> Inr None
            | Inr (Some a) \<Rightarrow>
                if jtrue cid \<and> truthy (ac_polar_customer_id a) \<and> cid \<noteq> JStr (the (ac_polar_customer_id a))
                then Inr None else Inr (Some a)))"

definition resolve_account :: "site_env \<Rightarrow> polar \<Rightarrow> obj \<Rightarrow> store \<Rightarrow> billing_error + account option" where
  "resolve_account E P data s =
     (case stamped_account E P data s of
        Inl e \<Rightarrow> Inl e
      | Inr (Some a) \<Rightarrow> Inr (Some a)
      | Inr None \<Rightarrow>
     (case customer_id data of
        Inl e \<Rightarrow> Inl e
      | Inr cid \<Rightarrow>
     (case linked_account E cid s of
        Inl e \<Rightarrow> Inl e
      | Inr (Some a) \<Rightarrow> Inr (Some a)
      | Inr None \<Rightarrow> account_by_email E P data cid s)))"

section \<open>Applying an entitlement\<close>

datatype applied = Ignored | NoLocalAccount | Already string string | Flipped string string string

definition apply_target :: "ctx \<Rightarrow> account \<Rightarrow> string \<Rightarrow> store \<Rightarrow> (billing_error + applied) \<times> store" where
  "apply_target cx a target s =
     (if target \<notin> {''active'', ''inactive''} then (Inl PyError, s)
      else if ac_plan_status a = target then (Inr (Already (ac_id a) target), s)
      else case set_plan_status cx (Some (ac_id a)) target s of
          (Inl e, s') \<Rightarrow> (Inl (StoreError e), s')
        | (Inr prior, s') \<Rightarrow> (Inr (Flipped (ac_id a) prior target), s'))"

text \<open>The target an event decides, None when the event is not one of ours.\<close>

definition event_target :: "obj \<Rightarrow> obj \<Rightarrow> billing_error + string option" where
  "event_target event data =
     (let etype = jget event ''type''
      in if etype = JStr ''order.paid''
         then (case order_subscription data of
                 Inl e \<Rightarrow> Inl e
               | Inr sub \<Rightarrow>
                  (if jtrue sub then Inr (Some ''active'')
                   else case customer_id data of Inl e \<Rightarrow> Inl e | Inr _ \<Rightarrow> Inr (Some ''active'')))
         else if \<not> jtrue etype then Inr None
         else case etype of
             JStr t \<Rightarrow>
              (if take 13 t = ''subscription.''
               then (case subscription_entitled (jget data ''status'') of
                       Inl e \<Rightarrow> Inl e
                     | Inr ok \<Rightarrow> Inr (Some (if ok then ''active'' else ''inactive'')))
               else Inr None)
           | _ \<Rightarrow> Inl PyError)"

text \<open>\<open>event.get("data") or {}\<close> is read with \<open>get\<close> only by the branches that use it.\<close>

definition event_data :: "obj \<Rightarrow> billing_error + obj" where
  "event_data event = sub_object event ''data''"

definition apply_event :: "site_env \<Rightarrow> polar \<Rightarrow> ctx \<Rightarrow> json \<Rightarrow> store \<Rightarrow> (billing_error + applied) \<times> store" where
  "apply_event E P cx event s =
     (case jobj event of
        None \<Rightarrow> (Inl PyError, s)
      | Some ev \<Rightarrow>
         (let data = (case event_data ev of Inl _ \<Rightarrow> [] | Inr d \<Rightarrow> d)
          in case event_target ev data of
               Inl e \<Rightarrow> (Inl e, s)
             | Inr None \<Rightarrow> (Inr Ignored, s)
             | Inr (Some target) \<Rightarrow>
                (case event_data ev of
                   Inl e \<Rightarrow> (Inl e, s)
                 | Inr d \<Rightarrow>
                (case resolve_account E P d s of
                   Inl e \<Rightarrow> (Inl e, s)
                 | Inr None \<Rightarrow> (Inr NoLocalAccount, s)
                 | Inr (Some a) \<Rightarrow> apply_target cx a target s))))"

section \<open>The buyer on the return page\<close>

datatype checkout_detail =
    NoCheckoutId | NotACheckoutId | CouldNotRead | NotYours | NotPaid json | CustomerElsewhere | Settled applied

definition link_checkout_customer ::
  "site_env \<Rightarrow> polar \<Rightarrow> ctx \<Rightarrow> obj \<Rightarrow> account \<Rightarrow> store \<Rightarrow> (billing_error + account option) \<times> store" where
  "link_checkout_customer E P cx body a s =
     (case customer_id body of
        Inl e \<Rightarrow> (Inl e, s)
      | Inr cid \<Rightarrow>
          if \<not> jtrue cid \<or> Some cid = map_option JStr (ac_polar_customer_id a) then (Inr (Some a), s)
          else case set_polar_customer_id E cx (Some (ac_id a)) (py_text P cid) s of
              (Inl (InvalidAccountData _), s') \<Rightarrow> (Inr None, s')
            | (Inl e, s') \<Rightarrow> (Inl (StoreError e), s')
            | (Inr a', s') \<Rightarrow> (Inr (Some a'), s'))"

definition confirm_checkout ::
  "site_env \<Rightarrow> polar \<Rightarrow> ctx \<Rightarrow> string \<Rightarrow> account \<Rightarrow> store \<Rightarrow> (billing_error + bool \<times> checkout_detail) \<times> store" where
  "confirm_checkout E P cx checkout_id a s =
     (if checkout_id = [] then (Inr (False, NoCheckoutId), s)
      else if \<not> valid_id checkout_id then (Inr (False, NotACheckoutId), s)
      else case pl_checkout P checkout_id of (status, answer) \<Rightarrow>
       (case jobj answer of
          None \<Rightarrow> (Inr (False, CouldNotRead), s)
        | Some body \<Rightarrow>
            if status \<noteq> Some 200 then (Inr (False, CouldNotRead), s)
            else case resolve_account E P body s of
                Inl e \<Rightarrow> (Inl e, s)
              | Inr None \<Rightarrow> (Inr (False, NotYours), s)
              | Inr (Some owner) \<Rightarrow>
                 (if ac_id owner \<noteq> ac_id a then (Inr (False, NotYours), s)
                  else case in_set (jget body ''status'') [''confirmed'', ''succeeded''] of
                      Inl e \<Rightarrow> (Inl e, s)
                    | Inr False \<Rightarrow> (Inr (False, NotPaid (jget body ''status'')), s)
                    | Inr True \<Rightarrow>
                       (case link_checkout_customer E P cx body a s of
                          (Inl e, s') \<Rightarrow> (Inl e, s')
                        | (Inr None, s') \<Rightarrow> (Inr (False, CustomerElsewhere), s')
                        | (Inr (Some a'), s') \<Rightarrow>
                           (case apply_target cx a' ''active'' s' of
                              (Inl e, s2) \<Rightarrow> (Inl e, s2)
                            | (Inr done, s2) \<Rightarrow> (Inr (True, Settled done), s2))))))"

definition portal_url :: "polar \<Rightarrow> account \<Rightarrow> json" where
  "portal_url P a =
     (if \<not> truthy (ac_polar_customer_id a) then JNull
      else case pl_session P (the (ac_polar_customer_id a)) of (status, body) \<Rightarrow>
        (case jobj body of
           Some kvs \<Rightarrow> if status \<in> {Some 200, Some 201} then jget kvs ''customer_portal_url'' else JNull
         | None \<Rightarrow> JNull))"

section \<open>The sweep\<close>

type_synonym entitlements = "(json \<times> bool) list"

definition put_entitled :: "json \<Rightarrow> bool \<Rightarrow> entitlements \<Rightarrow> entitlements" where
  "put_entitled cid ok ents =
     (case map_of ents cid of
        None \<Rightarrow> ents @ [(cid, ok)]
      | Some old \<Rightarrow> map (\<lambda>(c, b). if c = cid then (c, old \<or> ok) else (c, b)) ents)"

fun read_items :: "json list \<Rightarrow> entitlements \<Rightarrow> billing_error + entitlements" where
  "read_items [] ents = Inr ents"
| "read_items (sub # subs) ents =
     (case jobj sub of
        None \<Rightarrow> Inl PyError
      | Some kvs \<Rightarrow>
         (let cid = jget kvs ''customer_id''
          in if \<not> jtrue cid then read_items subs ents
             else case subscription_entitled (jget kvs ''status'') of
                 Inl e \<Rightarrow> Inl e
               | Inr ok \<Rightarrow> if hashable cid then read_items subs (put_entitled cid ok ents) else Inl PyError))"

definition page_items :: "obj \<Rightarrow> billing_error + json list" where
  "page_items body =
     (case map_of body ''items'' of
        None \<Rightarrow> Inr [] | Some (JList xs) \<Rightarrow> Inr xs | Some (JObj kvs) \<Rightarrow> Inr (map (JStr \<circ> fst) kvs)
      | Some (JStr s) \<Rightarrow> Inr (map (\<lambda>c. JStr [c]) s) | Some _ \<Rightarrow> Inl PyError)"

text \<open>\<open>page >= (pag.get("max_page") or 1)\<close>.\<close>

definition last_page :: "nat \<Rightarrow> obj \<Rightarrow> billing_error + bool" where
  "last_page page body =
     (case sub_object body ''pagination'' of
        Inl e \<Rightarrow> Inl e
      | Inr pag \<Rightarrow>
          (if \<not> jtrue (jget pag ''max_page'') then Inr (1 \<le> page)
           else case jget pag ''max_page'' of
               JNum n \<Rightarrow> Inr (n \<le> of_nat page) | JBool _ \<Rightarrow> Inr (1 \<le> page) | _ \<Rightarrow> Inl PyError))"

text \<open>
  The \<open>while True\<close> over pages. None is out of fuel: the loop asks for another page as long as
  Polar says there is one.
\<close>

fun entitlement_pages :: "polar \<Rightarrow> nat \<Rightarrow> nat \<Rightarrow> entitlements \<Rightarrow> (billing_error + entitlements) option" where
  "entitlement_pages P 0 page ents = None"
| "entitlement_pages P (Suc fuel) page ents =
     (case pl_subscriptions P page of (status, answer) \<Rightarrow>
        if status \<noteq> Some 200 then Some (Inl PolarAssertion)
        else case jobj answer of
            None \<Rightarrow> Some (Inl PyError)
          | Some body \<Rightarrow>
             (case page_items body of
                Inl e \<Rightarrow> Some (Inl e)
              | Inr subs \<Rightarrow>
                 (case read_items subs ents of
                    Inl e \<Rightarrow> Some (Inl e)
                  | Inr ents' \<Rightarrow>
                     (case last_page page body of
                        Inl e \<Rightarrow> Some (Inl e)
                      | Inr True \<Rightarrow> Some (Inr ents')
                      | Inr False \<Rightarrow> entitlement_pages P fuel (page + 1) ents'))))"

definition entitlement_by_customer :: "polar \<Rightarrow> nat \<Rightarrow> (billing_error + entitlements) option" where
  "entitlement_by_customer P fuel = entitlement_pages P fuel 1 []"

record tally =
  tl_activated :: nat
  tl_deactivated :: nat
  tl_skipped :: nat
  tl_unmatched :: nat

definition no_tally :: tally where
  "no_tally = \<lparr>tl_activated = 0, tl_deactivated = 0, tl_skipped = 0, tl_unmatched = 0\<rparr>"

fun settle_all ::
  "site_env \<Rightarrow> polar \<Rightarrow> ctx \<Rightarrow> entitlements \<Rightarrow> tally \<Rightarrow> store \<Rightarrow> (billing_error + tally) \<times> store" where
  "settle_all E P cx [] t s = (Inr t, s)"
| "settle_all E P cx ((cid, ok) # ents) t s =
     (case resolve_account E P [(''customer_id'', cid)] s of
        Inl e \<Rightarrow> (Inl e, s)
      | Inr None \<Rightarrow> settle_all E P cx ents (t\<lparr>tl_unmatched := tl_unmatched t + 1\<rparr>) s
      | Inr (Some a) \<Rightarrow>
         (let target = (if ok then ''active'' else ''inactive'')
          in if ac_plan_status a = target then settle_all E P cx ents (t\<lparr>tl_skipped := tl_skipped t + 1\<rparr>) s
             else case set_plan_status cx (Some (ac_id a)) target s of
                 (Inl e, s') \<Rightarrow> (Inl (StoreError e), s')
               | (Inr _, s') \<Rightarrow>
                   settle_all E P cx ents
                     (if ok then t\<lparr>tl_activated := tl_activated t + 1\<rparr>
                      else t\<lparr>tl_deactivated := tl_deactivated t + 1\<rparr>) s'))"

definition reconcile :: "site_env \<Rightarrow> polar \<Rightarrow> ctx \<Rightarrow> nat \<Rightarrow> store \<Rightarrow> ((billing_error + tally) \<times> store) option" where
  "reconcile E P cx fuel s =
     (case entitlement_by_customer P fuel of
        None \<Rightarrow> None
      | Some (Inl e) \<Rightarrow> Some (Inl e, s)
      | Some (Inr ents) \<Rightarrow> Some (settle_all E P cx ents no_tally s))"

section \<open>The receiver and the daemon\<close>

text \<open>
  \<open>process_webhook\<close> of \<open>billing_webhook.py\<close>: \<open>verified\<close> is what the signature library answers
  (None when it raised), \<open>parsed\<close> what \<open>json.loads\<close> gives for the raw body. None: an exception
  left the function, because the except block reads \<open>event.get\<close> of a body that is no object.
\<close>

definition process_webhook :: "json option \<Rightarrow> json option \<Rightarrow> spool \<Rightarrow> (int \<times> spool) option" where
  "process_webhook verified parsed sp =
     (case verified of
        None \<Rightarrow> Some (400, sp)
      | Some v \<Rightarrow>
         (let event = (if is_object v then v else case parsed of None \<Rightarrow> JObj [] | Some j \<Rightarrow> j)
          in case enqueue event sp of
               Some sp' \<Rightarrow> Some (200, sp')
             | None \<Rightarrow> if is_object event then Some (500, sp) else None))"

text \<open>
  \<open>process_billing\<close> of \<open>daemon_loop.py\<close>. \<open>configured\<close>: the client could be built. The state is
  the store, the spool and the events dropped with an alert, oldest first.
\<close>

fun apply_drained ::
  "site_env \<Rightarrow> polar \<Rightarrow> ctx \<Rightarrow> (json \<times> int) list \<Rightarrow> store \<Rightarrow> spool \<Rightarrow> json list \<Rightarrow> store \<times> spool \<times> json list" where
  "apply_drained E P cx [] s sp dropped = (s, sp, dropped)"
| "apply_drained E P cx ((event, n) # evs) s sp dropped =
     (case apply_event E P cx event s of
        (Inr _, s') \<Rightarrow> apply_drained E P cx evs s' sp dropped
      | (Inl _, s') \<Rightarrow>
         (case retry event n sp of
            (True, sp') \<Rightarrow> apply_drained E P cx evs s' sp' dropped
          | (False, sp') \<Rightarrow> apply_drained E P cx evs s' sp' (dropped @ [event])))"

definition process_billing ::
  "site_env \<Rightarrow> polar \<Rightarrow> ctx \<Rightarrow> bool \<Rightarrow> store \<Rightarrow> spool \<Rightarrow> store \<times> spool \<times> json list" where
  "process_billing E P cx configured s sp =
     (if \<not> spool_pending sp then (s, sp, [])
      else if \<not> configured then (s, sp, [])
      else case billing_drain sp of (evs, sp') \<Rightarrow> apply_drained E P cx evs s sp' [])"

text \<open>
  \<open>process_accounts\<close>: the accounts a drained list of addresses is routed to, and the exception
  that ended the pass early, if one did.
\<close>

fun routed_accounts :: "site_env \<Rightarrow> json list \<Rightarrow> store \<Rightarrow> account list \<times> billing_error option" where
  "routed_accounts E [] s = ([], None)"
| "routed_accounts E (v # vs) s =
     (case v of
        JStr email \<Rightarrow>
         (case get_account E (Some email) s of
            Inl e \<Rightarrow> ([], Some (StoreError e))
          | Inr found \<Rightarrow>
             (case routed_accounts E vs s of
                (as, e) \<Rightarrow> ((case found of None \<Rightarrow> as | Some a \<Rightarrow> a # as), e)))
      | _ \<Rightarrow> ([], Some PyError))"

section \<open>Lemmas\<close>

lemma lift_store_Inr [simp]: "lift_store r = Inr x \<longleftrightarrow> r = Inr x"
  by (auto simp: lift_store_def split: sum.splits)

lemma account_for_email_in:
  "account_for_email E email True s = Inr (Some a) \<Longrightarrow> \<exists>as. all_accounts E s = Inr as \<and> a \<in> set as"
  by (auto simp: account_for_email_def split: sum.splits dest: match_account_in)

lemma account_for_customer_id_in:
  "account_for_customer_id E cid s = Inr (Some a) \<Longrightarrow>
   \<exists>as. all_accounts E s = Inr as \<and> a \<in> set as \<and> ac_polar_customer_id a = Some (py_strip (str_or cid ''''))"
  by (auto simp: account_for_customer_id_def Let_def find_Some_iff split: sum.splits if_splits)

lemma stamped_in:
  "stamped_account E P data s = Inr (Some a) \<Longrightarrow> \<exists>as. all_accounts E s = Inr as \<and> a \<in> set as"
  by (auto simp: stamped_account_def Let_def split: sum.splits if_splits dest: account_for_email_in)

lemma linked_in:
  "linked_account E cid s = Inr (Some a) \<Longrightarrow>
   \<exists>as c. all_accounts E s = Inr as \<and> a \<in> set as \<and> cid = JStr c \<and> ac_polar_customer_id a = Some (py_strip c)"
  by (auto simp: linked_account_def str_or_def split: if_splits json.splits dest!: account_for_customer_id_in)

lemma find_by_email_in:
  "find_by_email E email s = Inr (Some a) \<Longrightarrow> \<exists>as. all_accounts E s = Inr as \<and> a \<in> set as"
  by (auto simp: find_by_email_def split: json.splits sum.splits dest: account_for_email_in)

lemma by_email_facts:
  assumes "account_by_email E P data cid s = Inr (Some a)"
  shows "\<exists>as. all_accounts E s = Inr as \<and> a \<in> set as"
    and "\<not> jtrue cid \<or> \<not> truthy (ac_polar_customer_id a) \<or> ac_polar_customer_id a = (case cid of JStr c \<Rightarrow> Some c | _ \<Rightarrow> None)"
  using assms
  by (auto simp: account_by_email_def truthy_def split: sum.splits option.splits if_splits json.splits
      dest: find_by_email_in)

lemma resolve_account_in:
  "resolve_account E P data s = Inr (Some a) \<Longrightarrow> \<exists>as. all_accounts E s = Inr as \<and> a \<in> set as"
  by (auto simp: resolve_account_def split: sum.splits option.splits
      dest: stamped_in linked_in by_email_facts(1))

text \<open>
  C37: a buyer-typed address introduces a link and never moves one: an object that names a
  customer resolves to an account linked to that customer, to one with no link, or to the
  account stamped into the checkout when it was minted.
\<close>

theorem email_never_moves_a_link:
  assumes "resolve_account E P data s = Inr (Some a)" and "customer_id data = Inr (JStr cid)" and "cid \<noteq> []"
    and "stamped_account E P data s = Inr None"
  shows "ac_polar_customer_id a \<in> {None, Some [], Some cid, Some (py_strip cid)}"
proof (cases "linked_account E (JStr cid) s")
  case (Inr found)
  show ?thesis
  proof (cases found)
    case None
    with assms Inr have "account_by_email E P data (JStr cid) s = Inr (Some a)"
      by (simp add: resolve_account_def)
    from by_email_facts(2) [OF this] assms(3) show ?thesis
      by (cases "ac_polar_customer_id a") (auto simp: truthy_def)
  next
    case (Some b)
    with assms Inr have "b = a" by (simp add: resolve_account_def)
    with linked_in [of E "JStr cid" s b] Some Inr show ?thesis by auto
  qed
qed (use assms in \<open>simp add: resolve_account_def\<close>)

section \<open>What an event does\<close>

lemma apply_target_settles:
  assumes "apply_target cx a target s = (Inr r, s')" and "all_accounts E s = Inr as" and "a \<in> set as"
  shows "(r = Already (ac_id a) target \<or> (\<exists>prior. r = Flipped (ac_id a) prior target))
    \<and> (\<exists>e \<in> set (entries_of s'). norm_id (ae_id e) = norm_id (ac_id a) \<and> the_default ''active'' (ae_plan_status e) = target)"
proof (cases "ac_plan_status a = target")
  case True
  then have "r = Already (ac_id a) target" "s' = s"
    using assms(1) by (auto simp: apply_target_def split: if_splits)
  with all_accounts_entry [OF assms(2,3)] True show ?thesis by fastforce
next
  case False
  then obtain prior where p: "set_plan_status cx (Some (ac_id a)) target s = (Inr prior, s')"
    "r = Flipped (ac_id a) prior target"
    using assms(1) by (auto simp: apply_target_def split: if_splits sum.splits prod.splits)
  from set_plan_status_ok [OF p(1)] obtain e where
    ed: "edit_entry (Some (ac_id a)) (\<lambda>e. Inr (the_default ''active'' (ae_plan_status e), e\<lparr>ae_plan_status := Some target\<rparr>))
      (entries_of s) = Inr ((prior, e, e\<lparr>ae_plan_status := Some target\<rparr>), entries_of s')" by blast
  then obtain us vs where "entries_of s' = us @ e\<lparr>ae_plan_status := Some target\<rparr> # vs" "same_id (Some (ac_id a)) e"
    by (rule edit_entry_split)
  then have "e\<lparr>ae_plan_status := Some target\<rparr> \<in> set (entries_of s')"
    "norm_id (ae_id e) = norm_id (ac_id a)"
    by (auto simp: same_id_def has_id_def norm_arg_def str_or_def split: if_splits)
  with p(2) show ?thesis by (intro conjI bexI [of _ "e\<lparr>ae_plan_status := Some target\<rparr>"]) (auto simp: the_default_def)
qed

text \<open>
  One rule for what paid means. A subscription event that reached an account leaves its
  plan active exactly when the status in the event is active or trialing, whatever the event
  is called and whatever the plan was.
\<close>

theorem subscription_event_decides_plan:
  assumes "apply_event E P cx (JObj ev) s = (Inr r, s')" and "jget ev ''type'' = JStr (''subscription.'' @ kind)"
    and "event_data ev = Inr data" and "r \<noteq> NoLocalAccount"
  shows "\<exists>a. resolve_account E P data s = Inr (Some a)
    \<and> (\<exists>e \<in> set (entries_of s'). norm_id (ae_id e) = norm_id (ac_id a)
         \<and> (the_default ''active'' (ae_plan_status e) = ''active'')
             = (jget data ''status'' \<in> {JStr ''active'', JStr ''trialing''})
         \<and> the_default ''active'' (ae_plan_status e) \<in> {''active'', ''inactive''})"
proof -
  obtain ok where ok: "subscription_entitled (jget data ''status'') = Inr ok"
    using assms by (cases "subscription_entitled (jget data ''status'')") (auto simp: apply_event_def event_target_def Let_def)
  define target where "target = (if ok then ''active'' else ''inactive'')"
  have tgt: "event_target ev data = Inr (Some target)"
    using assms(2) ok by (simp add: event_target_def target_def)
  obtain a where a: "resolve_account E P data s = Inr (Some a)" "apply_target cx a target s = (Inr r, s')"
    using assms(1,3,4) tgt by (auto simp: apply_event_def Let_def split: sum.splits option.splits)
  obtain as where "all_accounts E s = Inr as" "a \<in> set as" using resolve_account_in [OF a(1)] by blast
  from apply_target_settles [OF a(2) this] obtain e where
    "e \<in> set (entries_of s')" "norm_id (ae_id e) = norm_id (ac_id a)" "the_default ''active'' (ae_plan_status e) = target"
    by blast
  moreover have "ok \<longleftrightarrow> jget data ''status'' \<in> {JStr ''active'', JStr ''trialing''}"
    using ok by (auto simp: subscription_entitled_def in_set_def split: if_splits)
  ultimately show ?thesis using a(1) by (auto simp: target_def intro!: bexI [of _ e])
qed

section \<open>Checkout\<close>

lemma finished_error:
  "finished E cx act out d e s = (Inl err, s') \<Longrightarrow> \<forall>b. err \<noteq> InvalidAccountData b"
  by (auto simp: finished_def logged_def event_record_def detail_string_def account_from_entry_def user_identity_def Let_def
      split: sum.splits if_splits list.splits)

lemma set_polar_refused:
  assumes "set_polar_customer_id E cx aid cid s = (Inl (InvalidAccountData b), s')"
  shows "s' = s"
proof -
  obtain t u where t: "transaction False (\<lambda>es. edit_entry aid (link_customer cid es) es) s = (t, u)" by fastforce
  show ?thesis
  proof (cases t)
    case (Inl e)
    then have "s' = u" using assms t by (auto simp: set_polar_customer_id_def split: if_splits)
    with transaction_entries(6) [OF t Inl] show ?thesis by simp
  next
    case (Inr x)
    then show ?thesis
      using assms t finished_error
      by (auto simp: set_polar_customer_id_def split: if_splits prod.splits dest!: finished_error)
  qed
qed

lemma link_checkout_refused:
  "link_checkout_customer E P cx body a s = (Inr None, s') \<Longrightarrow> s' = s"
  by (auto simp: link_checkout_customer_def split: sum.splits if_splits prod.splits acct_error.splits
      dest: set_polar_refused)

lemma paid_status: "in_set j names = Inr True \<Longrightarrow> j \<in> JStr ` set names"
  by (auto simp: in_set_def split: if_splits)

lemma confirm_checkout_facts:
  assumes "confirm_checkout E P cx cid a s = (Inr (paid, detail), s')"
  shows "if paid
    then valid_id cid \<and> (\<exists>body owner r. pl_checkout P cid = (Some 200, JObj body)
      \<and> resolve_account E P body s = Inr (Some owner) \<and> ac_id owner = ac_id a
      \<and> jget body ''status'' \<in> {JStr ''confirmed'', JStr ''succeeded''} \<and> detail = Settled r)
    else s' = s"
proof (cases "cid = [] \<or> \<not> valid_id cid")
  case True
  with assms show ?thesis by (auto simp: confirm_checkout_def split: if_splits)
next
  case False
  obtain status answer where pc: "pl_checkout P cid = (status, answer)" by fastforce
  show ?thesis
  proof (cases "jobj answer")
    case None
    with assms False pc show ?thesis by (auto simp: confirm_checkout_def)
  next
    case (Some body)
    then have ans: "answer = JObj body" by (cases answer) auto
    show ?thesis
      using assms False pc Some ans
      by (auto simp: confirm_checkout_def split: if_splits sum.splits option.splits prod.splits bool.splits
          dest: link_checkout_refused paid_status)
  qed
qed

text \<open>
  C38: paid means paid, by this account. The return page is told yes only for an id of Polar's
  shape whose checkout Polar returned, which resolves to the signed-in account and which Polar
  says is confirmed or succeeded; every no leaves the store as it was, so an unpaid checkout
  cannot claim a customer.
\<close>

theorem checkout_needs_own_paid_checkout:
  assumes "confirm_checkout E P cx cid a s = (Inr (paid, detail), s')"
  shows "if paid
    then valid_id cid \<and> (\<exists>body owner. pl_checkout P cid = (Some 200, JObj body)
      \<and> resolve_account E P body s = Inr (Some owner) \<and> ac_id owner = ac_id a
      \<and> jget body ''status'' \<in> {JStr ''confirmed'', JStr ''succeeded''})
    else s' = s"
  using confirm_checkout_facts [OF assms] by (auto split: if_splits)

section \<open>The sweep\<close>

text \<open>Every page says there is no page beyond the n-th, or ends the loop itself.\<close>

definition pages_end :: "polar \<Rightarrow> nat \<Rightarrow> bool" where
  "pages_end P n \<longleftrightarrow> (\<forall>page \<ge> n. \<forall>body. pl_subscriptions P page = (Some 200, JObj body) \<longrightarrow> last_page page body \<noteq> Inr False)"

lemma entitlement_pages_return:
  "pages_end P n \<Longrightarrow> n < page + fuel \<Longrightarrow> 0 < fuel \<Longrightarrow> entitlement_pages P fuel page ents \<noteq> None"
proof (induction P fuel page ents rule: entitlement_pages.induct)
  case (2 P fuel page ents)
  obtain status answer where pc: "pl_subscriptions P page = (status, answer)" by fastforce
  show ?case
  proof (cases "status = Some 200 \<and> (\<exists>body. answer = JObj body)")
    case True
    then obtain body where body: "answer = JObj body" "status = Some 200" by blast
    show ?thesis
    proof (cases "n \<le> page")
      case True
      then have "last_page page body \<noteq> Inr False" using "2.prems"(1) pc body by (auto simp: pages_end_def)
      with pc body show ?thesis by (auto split: sum.splits bool.splits)
    next
      case False
      then have "n < page + 1 + fuel" "0 < fuel" using "2.prems"(2) by linarith+
      with pc body "2.IH" [OF pc [symmetric]] "2.prems"(1) show ?thesis by (auto split: sum.splits bool.splits)
    qed
  next
    case False
    then show ?thesis using pc by (cases answer) auto
  qed
qed simp

text \<open>
  C39: the sweep returns: when Polar's pages are numbered to some n, n turns of the loop are
  enough, and more change nothing; so the reconcile gives an answer.
\<close>

theorem sweep_terminates:
  assumes "pages_end P n" and "0 < n"
  shows "\<exists>r. reconcile E P cx n s = Some r"
  using entitlement_pages_return [OF assms(1), of 1 n "[]"] assms(2)
  by (auto simp: reconcile_def entitlement_by_customer_def split: sum.splits)

lemma settle_all_run:
  assumes "settle_all E P cx ents t s = (r, s')" and "manifest_run E s"
  shows "manifest_run E s'"
  using assms
proof (induction E P cx ents t s rule: settle_all.induct)
  case (2 E P cx cid ok ents t s)
  show ?case
  proof (cases "resolve_account E P [(''customer_id'', cid)] s")
    case (Inr found)
    show ?thesis
    proof (cases found)
      case (Some a)
      show ?thesis
      proof (cases "ac_plan_status a = (if ok then ''active'' else ''inactive'')")
        case False
        obtain q u where q: "set_plan_status cx (Some (ac_id a)) (if ok then ''active'' else ''inactive'') s = (q, u)" by fastforce
        have "manifest_run E u" using "2.prems"(2) q run_step step_plan by blast
        with q False Some Inr "2.prems" "2.IH"(3) show ?thesis by (cases q) (auto simp: Let_def)
      qed (use Some Inr "2.prems" "2.IH"(2) in \<open>auto simp: Let_def\<close>)
    qed (use Inr "2.prems" "2.IH"(1) in auto)
  qed (use "2.prems" in auto)
qed simp

definition but_plan :: "acct_entry \<Rightarrow> acct_entry" where
  "but_plan e = e\<lparr>ae_plan_status := None\<rparr>"

lemma set_plan_status_frame:
  assumes "set_plan_status cx aid status s = (r, s')"
  shows "map but_plan (entries_of s') = map but_plan (entries_of s)"
    and "st_files s' = st_files s" and "st_deks s' = st_deks s"
proof -
  let ?f = "\<lambda>e. Inr (the_default ''active'' (ae_plan_status e), e\<lparr>ae_plan_status := Some status\<rparr>)
      :: acct_error + string \<times> acct_entry"
  obtain t u where t: "transaction False (edit_entry aid ?f) s = (t, u)" by fastforce
  have "map but_plan (entries_of u) = map but_plan (entries_of s)"
    using transaction_entries(1) [OF t]
    by (auto simp: but_plan_def elim!: edit_entry_split)
  moreover have "entries_of s' = entries_of u \<or> s' = s" "st_files s' = st_files u \<or> s' = s" "st_deks s' = st_deks u \<or> s' = s"
    using assms t by (auto simp: set_plan_status_def split: if_splits sum.splits dest: row_keeps_entries logged_store)
  ultimately show "map but_plan (entries_of s') = map but_plan (entries_of s)"
    "st_files s' = st_files s" "st_deks s' = st_deks s"
    using transaction_entries(2,3) [OF t] by auto
qed

definition counted :: "tally \<Rightarrow> nat" where
  "counted t = tl_activated t + tl_deactivated t + tl_skipped t + tl_unmatched t"

lemma settle_all_frame:
  "settle_all E P cx ents t s = (r, s') \<Longrightarrow>
   map but_plan (entries_of s') = map but_plan (entries_of s) \<and> st_files s' = st_files s \<and> st_deks s' = st_deks s
   \<and> (case r of Inl _ \<Rightarrow> True | Inr t' \<Rightarrow> counted t' = counted t + length ents)"
proof (induction ents arbitrary: t s)
  case (Cons x ents)
  obtain cid ok where x: "x = (cid, ok)" by (cases x)
  define target where "target = (if ok then ''active'' else ''inactive'')"
  show ?case
  proof (cases "\<exists>a. resolve_account E P [(''customer_id'', cid)] s = Inr (Some a) \<and> ac_plan_status a \<noteq> target")
    case False
    then show ?thesis
      using Cons.prems Cons.IH [of "t\<lparr>tl_unmatched := tl_unmatched t + 1\<rparr>" s]
        Cons.IH [of "t\<lparr>tl_skipped := tl_skipped t + 1\<rparr>" s]
      by (auto simp: x counted_def target_def Let_def split: sum.splits option.splits if_splits)
  next
    case True
    then obtain a where a: "resolve_account E P [(''customer_id'', cid)] s = Inr (Some a)" "ac_plan_status a \<noteq> target" by blast
    obtain q u where q: "set_plan_status cx (Some (ac_id a)) target s = (q, u)" by fastforce
    define t' where "t' = (if ok then t\<lparr>tl_activated := tl_activated t + 1\<rparr>
                           else t\<lparr>tl_deactivated := tl_deactivated t + 1\<rparr>)"
    have step: "settle_all E P cx (x # ents) t s =
        (case q of Inl e \<Rightarrow> (Inl (StoreError e), u) | Inr _ \<Rightarrow> settle_all E P cx ents t' u)"
      using a q unfolding x target_def t'_def by (cases ok) (simp_all add: Let_def split: sum.split)
    have "counted t' = counted t + 1" by (simp add: t'_def counted_def)
    with step Cons.prems Cons.IH [of t' u] set_plan_status_frame [OF q] show ?thesis
      by (cases q) (simp_all split: sum.splits)
  qed
qed (auto split: sum.splits)

text \<open>
  the sweep writes plan statuses and nothing else: identities, links, preferences,
  files and keys of every account are as they were, whether it finished or raised halfway,
  and when it finished every customer Polar named is in exactly one of its counts.
\<close>

theorem sweep_writes_plans_only:
  assumes "reconcile E P cx fuel s = Some (r, s')"
  shows "map (\<lambda>e. e\<lparr>ae_plan_status := None\<rparr>) (entries_of s') = map (\<lambda>e. e\<lparr>ae_plan_status := None\<rparr>) (entries_of s)
    \<and> st_files s' = st_files s \<and> st_deks s' = st_deks s
    \<and> (case r of Inl _ \<Rightarrow> True
       | Inr t \<Rightarrow> \<exists>ents. entitlement_by_customer P fuel = Some (Inr ents)
           \<and> tl_activated t + tl_deactivated t + tl_skipped t + tl_unmatched t = length ents)"
proof (cases "entitlement_by_customer P fuel")
  case (Some res)
  show ?thesis
  proof (cases res)
    case (Inr ents)
    with Some assms have "settle_all E P cx ents no_tally s = (r, s')" by (simp add: reconcile_def)
    from settle_all_frame [OF this] Some Inr show ?thesis
      by (auto simp: but_plan_def [abs_def] counted_def no_tally_def split: sum.splits)
  qed (use Some assms in \<open>auto simp: reconcile_def\<close>)
qed (use assms in \<open>simp add: reconcile_def\<close>)

section \<open>Events survive failures\<close>

text \<open>
  What a pass is to do with a batch: apply each event once, in order, each to the store the one
  before it left; the answers say which applications returned. The failed ones go back with one
  more attempt counted, or, on their fifth, are given up.
\<close>

fun apply_each :: "site_env \<Rightarrow> polar \<Rightarrow> ctx \<Rightarrow> json list \<Rightarrow> store \<Rightarrow> bool list \<times> store" where
  "apply_each E P cx [] s = ([], s)"
| "apply_each E P cx (event # events) s =
     (case apply_event E P cx event s of (r, s') \<Rightarrow>
      case apply_each E P cx events s' of (oks, s'') \<Rightarrow> ((case r of Inl _ \<Rightarrow> False | Inr _ \<Rightarrow> True) # oks, s''))"

definition failed_of :: "(json \<times> int) list \<Rightarrow> bool list \<Rightarrow> (json \<times> int) list" where
  "failed_of evs oks = map fst (filter (\<lambda>p. \<not> snd p) (zip evs oks))"

definition again :: "(json \<times> int) list \<Rightarrow> (json \<times> int) list" where
  "again evs = map (\<lambda>(e, n). (e, n + 1)) (filter (\<lambda>(e, n). n + 1 < 5) evs)"

definition given_up :: "(json \<times> int) list \<Rightarrow> json list" where
  "given_up evs = map fst (filter (\<lambda>(e, n). \<not> n + 1 < 5) evs)"

lemma apply_drained_settles:
  "list_all billing_valid evs \<Longrightarrow> apply_drained E P cx evs s sp dropped = (s', sp', dropped') \<Longrightarrow>
   \<exists>oks. apply_each E P cx (map fst evs) s = (oks, s') \<and> billing_items sp' = billing_items sp @ again (failed_of evs oks)
     \<and> dropped' = dropped @ given_up (failed_of evs oks)"
proof (induction evs arbitrary: s sp dropped)
  case Nil
  then show ?case by (simp add: failed_of_def again_def given_up_def)
next
  case (Cons x evs)
  obtain event n where x: "x = (event, n)" by fastforce
  obtain q u where q: "apply_event E P cx event s = (q, u)" by fastforce
  have valid: "billing_valid (event, n)" "list_all billing_valid evs" using Cons.prems(1) x by auto
  show ?case
  proof (cases "\<exists>e. q = Inl e")
    case False
    then obtain r where r: "q = Inr r" by (cases q) auto
    with q x Cons.prems(2) have "apply_drained E P cx evs u sp dropped = (s', sp', dropped')" by simp
    from Cons.IH [OF valid(2) this] obtain oks where "apply_each E P cx (map fst evs) u = (oks, s')"
      "billing_items sp' = billing_items sp @ again (failed_of evs oks)"
      "dropped' = dropped @ given_up (failed_of evs oks)" by blast
    with q r x show ?thesis by (intro exI [of _ "True # oks"]) (simp add: failed_of_def)
  next
    case True
    define sp1 where "sp1 = (if n + 1 < 5 then billing_put (event, n + 1) sp else sp)"
    define d1 where "d1 = (if n + 1 < 5 then dropped else dropped @ [event])"
    have "apply_drained E P cx evs u sp1 d1 = (s', sp', dropped')"
      using q True x Cons.prems(2) by (auto simp: retry_put sp1_def d1_def split: if_splits)
    from Cons.IH [OF valid(2) this] obtain oks where "apply_each E P cx (map fst evs) u = (oks, s')"
      "billing_items sp' = billing_items sp1 @ again (failed_of evs oks)"
      "dropped' = d1 @ given_up (failed_of evs oks)" by blast
    moreover have "billing_items sp1 = billing_items sp @ (if n + 1 < 5 then [(event, n + 1)] else [])"
      unfolding sp1_def using valid(1) events.items_put [of "(event, n + 1)" sp] by (simp add: billing_valid_def)
    ultimately show ?thesis
      using q True x
      by (intro exI [of _ "False # oks"]) (auto simp: failed_of_def again_def given_up_def d1_def)
  qed
qed

lemma billing_items_valid: "list_all billing_valid (billing_items sp)"
proof -
  have "0 \<le> attempts_of j" for j by (cases j) (auto simp: attempts_of_def)
  then have "list_all billing_valid (read_entry x)" for x
    by (simp add: billing_valid_def read_entry_def split: option.split)
  then show ?thesis by (simp add: billing_items_def list_all_iff)
qed

text \<open>
  C40: no event is lost in silence. A pass with a client applies every spooled event once, oldest
  first, each to the store the one before it left; the events whose application raised are exactly
  the ones back in the spool, in order and with one more attempt counted, except those on their
  fifth, which are the ones alerted. A pass without a client leaves the accounts and every event
  as they are.
\<close>

theorem billing_pass_accounts_for_every_event:
  "process_billing E P cx configured s sp = (s', sp', dropped) \<Longrightarrow>
   if configured then
     \<exists>oks. apply_each E P cx (map fst (billing_items sp)) s = (oks, s')
       \<and> billing_items sp' = again (failed_of (billing_items sp) oks)
       \<and> dropped = given_up (failed_of (billing_items sp) oks)
   else s' = s \<and> sp' = sp \<and> dropped = []"
proof (cases "configured \<and> sp \<noteq> []")
  case True
  assume "process_billing E P cx configured s sp = (s', sp', dropped)"
  then have "apply_drained E P cx (billing_items sp) s [] [] = (s', sp', dropped)"
    using True by (simp add: process_billing_def spool_pending_def billing_drain_def spool_drain_def billing_items_def)
  from apply_drained_settles [OF billing_items_valid this] True show ?thesis by (simp add: billing_items_def)
next
  case False
  assume "process_billing E P cx configured s sp = (s', sp', dropped)"
  with False show ?thesis
    by (auto simp: process_billing_def spool_pending_def billing_items_def failed_of_def again_def given_up_def
        split: if_splits)
qed

section \<open>Witnesses\<close>

definition demo_polar :: polar where
  "demo_polar = \<lparr>pl_customer = (\<lambda>_. (Some 200, JObj [])), pl_checkout = (\<lambda>_. (Some 404, JNull)),
     pl_session = (\<lambda>_. (None, JNull)), pl_subscriptions = (\<lambda>_. (Some 200, JObj [])), pl_str = (\<lambda>_. '''')\<rparr>"

lemma demo_all_accounts:
  "\<exists>a. all_accounts demo_site demo_store = Inr [a] \<and> ac_id a = ''a@b'' \<and> ac_polar_customer_id a = None
     \<and> ac_plan_status a = ''inactive'' \<and> id_emails (ac_identity a) = [''a@b'']"
proof -
  obtain a where a: "account_from_entry demo_site demo_entry = Inr a"
    using demo_account [of demo_site demo_handle]
    by (cases "account_from_entry demo_site demo_entry") (auto simp: demo_entry_def)
  then have "ac_id a = ''a@b'' \<and> ac_polar_customer_id a = None \<and> ac_plan_status a = ''inactive''
      \<and> id_emails (ac_identity a) = [''a@b'']"
    by (auto simp: account_from_entry_def user_identity_def demo_entry_def new_entry_def demo_signup_def the_default_def
        Let_def split: sum.splits)
  moreover from this have "all_accounts demo_site demo_store = Inr [a]"
    using a by (simp add: all_accounts_def demo_store_def)
  ultimately show ?thesis by blast
qed

lemma demo_lookup:
  "norm_arg (Some ''a@b'') = ''a@b''" "py_lower ''a@b'' = ''a@b''" "py_strip ''c'' = ''c''"
  by code_simp+

definition demo_data :: obj where
  "demo_data = [(''customer_id'', JStr ''c''), (''customer_email'', JStr ''a@b''), (''status'', JStr ''active'')]"

lemma demo_resolve:
  "\<exists>a. resolve_account demo_site demo_polar demo_data demo_store = Inr (Some a) \<and> ac_id a = ''a@b''
     \<and> ac_plan_status a = ''inactive'' \<and> stamped_account demo_site demo_polar demo_data demo_store = Inr None
     \<and> customer_id demo_data = Inr (JStr ''c'')"
proof -
  obtain a where a: "all_accounts demo_site demo_store = Inr [a]" "ac_id a = ''a@b''" "ac_polar_customer_id a = None"
    "ac_plan_status a = ''inactive''" using demo_all_accounts by blast
  have st: "stamped_account demo_site demo_polar demo_data demo_store = Inr None"
    by (simp add: stamped_account_def sub_object_def demo_data_def)
  have c: "customer_id demo_data = Inr (JStr ''c'')" by (simp add: customer_id_def demo_data_def)
  have l: "linked_account demo_site (JStr ''c'') demo_store = Inr None"
    using a by (simp add: linked_account_def account_for_customer_id_def str_or_def demo_lookup lift_store_def)
  have e: "event_email demo_data = Inr (JStr ''a@b'')"
    by (simp add: event_email_def sub_object_def demo_data_def)
  have f: "find_by_email demo_site (JStr ''a@b'') demo_store = Inr (Some a)"
    using a by (simp add: find_by_email_def account_for_email_def match_account_def demo_lookup lift_store_def)
  have "account_by_email demo_site demo_polar demo_data (JStr ''c'') demo_store = Inr (Some a)"
    using a by (simp add: account_by_email_def e f truthy_def)
  with st c l a show ?thesis by (simp add: resolve_account_def)
qed

theorem email_never_moves_a_link_witness:
  "\<exists>a. resolve_account demo_site demo_polar demo_data demo_store = Inr (Some a)
     \<and> ac_polar_customer_id a \<in> {None, Some [], Some ''c'', Some (py_strip ''c'')}"
  using demo_resolve email_never_moves_a_link [of demo_site demo_polar demo_data demo_store _ "''c''"] by blast

definition demo_event :: obj where
  "demo_event = [(''type'', JStr (''subscription.'' @ ''updated'')), (''data'', JObj demo_data)]"

lemma demo_apply_event:
  "\<exists>s'. apply_event demo_site demo_polar demo_ctx (JObj demo_event) demo_store
     = (Inr (Flipped ''a@b'' ''inactive'' ''active''), s')"
proof -
  obtain a where a: "resolve_account demo_site demo_polar demo_data demo_store = Inr (Some a)" "ac_id a = ''a@b''"
    "ac_plan_status a = ''inactive''" using demo_resolve by blast
  have data: "event_data demo_event = Inr demo_data"
    by (simp add: event_data_def sub_object_def demo_event_def)
  have target: "event_target demo_event demo_data = Inr (Some ''active'')"
    by (simp add: event_target_def demo_event_def demo_data_def subscription_entitled_def in_set_def hashable_def)
  have p: "the_default ''active'' (ae_plan_status demo_entry) = ''inactive''"
    by (simp add: demo_entry_def new_entry_def demo_signup_def the_default_def)
  obtain s1 where t: "transaction False (edit_entry (Some ''a@b'') (\<lambda>e.
      Inr (the_default ''active'' (ae_plan_status e), e\<lparr>ae_plan_status := Some ''active''\<rparr>))) demo_store
    = (Inr (''inactive'', demo_entry, demo_entry\<lparr>ae_plan_status := Some ''active''\<rparr>), s1)"
    by (simp add: transaction_def demo_store_def the_default_def [where x = "Some z" for z] edit_entry_def demo_one p Let_def)
  have "is_token ''active''" by (simp add: is_token_def token_char_def is_lower_def Let_def)
  then obtain lg where "logged demo_ctx ''a@b'' PLAN ''active'' [''from:'' @ ''inactive''] ''inactive'' s1
      = (Inr ''inactive'', s1\<lparr>st_log := lg\<rparr>)"
    using demo_logged(2) [of "''active''" "''from:'' @ ''inactive''" PLAN "''inactive''" s1] demo_row_ok(5) by auto
  with t have "set_plan_status demo_ctx (Some ''a@b'') ''active'' demo_store = (Inr ''inactive'', s1\<lparr>st_log := lg\<rparr>)"
    by (simp add: set_plan_status_def demo_one)
  then show ?thesis using a data target by (simp add: apply_event_def apply_target_def)
qed

theorem subscription_event_decides_plan_witness:
  "\<exists>s'. \<exists>e \<in> set (entries_of s'). the_default ''active'' (ae_plan_status e) = ''active''"
proof -
  obtain s' where ap: "apply_event demo_site demo_polar demo_ctx (JObj demo_event) demo_store
     = (Inr (Flipped ''a@b'' ''inactive'' ''active''), s')" using demo_apply_event by blast
  have "event_data demo_event = Inr demo_data" "jget demo_event ''type'' = JStr (''subscription.'' @ ''updated'')"
    by (simp_all add: event_data_def sub_object_def demo_event_def)
  from subscription_event_decides_plan [OF ap this(2,1)] show ?thesis
    by (auto simp: demo_data_def)
qed

theorem checkout_needs_own_paid_checkout_witness:
  "\<exists>a s'. confirm_checkout demo_site demo_polar demo_ctx ''x'' a demo_store = (Inr (False, CouldNotRead), s')
     \<and> s' = demo_store"
proof -
  obtain a where "all_accounts demo_site demo_store = Inr [a]" using demo_all_accounts by blast
  have "valid_id ''x''" by (simp add: valid_id_def id_char_def is_lower_def Let_def)
  then have c: "confirm_checkout demo_site demo_polar demo_ctx ''x'' a demo_store = (Inr (False, CouldNotRead), demo_store)"
    by (simp add: confirm_checkout_def demo_polar_def)
  from checkout_needs_own_paid_checkout [OF c] c show ?thesis by auto
qed

lemma demo_pages: "pages_end demo_polar 1"
  by (simp add: pages_end_def demo_polar_def last_page_def sub_object_def)

theorem sweep_terminates_witness: "\<exists>r. reconcile demo_site demo_polar demo_ctx 1 demo_store = Some r"
  using sweep_terminates [OF demo_pages] by simp

theorem sweep_writes_plans_only_witness:
  "\<exists>r s'. reconcile demo_site demo_polar demo_ctx 1 demo_store = Some (r, s') \<and> st_files s' = st_files demo_store"
proof -
  have r: "reconcile demo_site demo_polar demo_ctx 1 demo_store = Some (Inr no_tally, demo_store)"
    by (simp add: reconcile_def entitlement_by_customer_def demo_polar_def page_items_def last_page_def sub_object_def)
  from sweep_writes_plans_only [OF this] r show ?thesis by blast
qed

definition demo_bad :: json where
  "demo_bad = JObj [(''type'', JNum 1)]"

lemma demo_events:
  "billing_items [queued (JObj []) 0, queued demo_bad 0, queued demo_bad 4] = [(JObj [], 0), (demo_bad, 0), (demo_bad, 4)]"
  by (simp add: billing_items_def read_queued demo_bad_def is_object_def)

lemma demo_applied:
  "\<exists>r. apply_event E P cx (JObj []) s = (Inr r, s)" "apply_event E P cx demo_bad s = (Inl PyError, s)"
  by (simp_all add: apply_event_def event_target_def event_data_def sub_object_def demo_bad_def Let_def)

theorem billing_pass_accounts_for_every_event_witness:
  "case process_billing demo_site demo_polar demo_ctx True demo_store
     [queued (JObj []) 0, queued demo_bad 0, queued demo_bad 4] of (s', sp', dropped) \<Rightarrow>
       s' = demo_store \<and> billing_items sp' = [(demo_bad, 1)] \<and> dropped = [demo_bad]"
proof -
  obtain s' sp' dropped where p: "process_billing demo_site demo_polar demo_ctx True demo_store
     [queued (JObj []) 0, queued demo_bad 0, queued demo_bad 4] = (s', sp', dropped)" by (metis prod.exhaust)
  have "apply_each demo_site demo_polar demo_ctx (map fst [(JObj [], 0::int), (demo_bad, 0), (demo_bad, 4)]) demo_store
      = ([True, False, False], demo_store)"
    using demo_applied(1) [of demo_site demo_polar demo_ctx demo_store] by (auto simp: demo_applied(2))
  with billing_pass_accounts_for_every_event [OF p] p show ?thesis
    by (simp add: demo_events failed_of_def again_def given_up_def)
qed

end
