(* ===== verification/Effects.thy ===== *)
theory Effects
  imports Prelude
begin

text \<open>
  Code that threads a state through many calls and may raise at each of them: a computation
  takes the state and answers an error or a value, with the state as the exception or the
  return left it. A property every step of a computation keeps, the computation keeps; the
  locale says what such a property needs, and its users interpret it on the relation they
  carry through the custody operations.
\<close>

type_synonym ('s, 'e, 'a) comp = "'s \<Rightarrow> ('e + 'a) \<times> 's"

definition give :: "'a \<Rightarrow> ('s, 'e, 'a) comp" where
  "give x s = (Inr x, s)"

definition raise :: "'e \<Rightarrow> ('s, 'e, 'a) comp" where
  "raise e s = (Inl e, s)"

definition and_then :: "('s, 'e, 'a) comp \<Rightarrow> ('a \<Rightarrow> ('s, 'e, 'b) comp) \<Rightarrow> ('s, 'e, 'b) comp" where
  "and_then f g s = (case f s of (Inl e, s') \<Rightarrow> (Inl e, s') | (Inr x, s') \<Rightarrow> g x s')"

definition of_sum :: "('e + 'a) \<Rightarrow> ('s, 'e, 'a) comp" where
  "of_sum r s = (r, s)"

text \<open>\<open>assert\<close>: a condition, or the error.\<close>

definition demand :: "bool \<Rightarrow> 'e \<Rightarrow> ('s, 'e, unit) comp" where
  "demand c e s = (if c then Inr () else Inl e, s)"

definition lift_err :: "('d \<Rightarrow> 'e) \<Rightarrow> 'd + 'a \<Rightarrow> 'e + 'a" where
  "lift_err f r = (case r of Inl d \<Rightarrow> Inl (f d) | Inr x \<Rightarrow> Inr x)"

text \<open>The same for code that reads no state: stop at the first error.\<close>

definition sum_then :: "'e + 'a \<Rightarrow> ('a \<Rightarrow> 'e + 'b) \<Rightarrow> 'e + 'b" where
  "sum_then r f = (case r of Inl e \<Rightarrow> Inl e | Inr x \<Rightarrow> f x)"

lemma sum_then_Inr [simp]: "sum_then r f = Inr y \<longleftrightarrow> (\<exists>x. r = Inr x \<and> f x = Inr y)"
  and sum_then_Inl: "sum_then r f = Inl e \<longleftrightarrow> r = Inl e \<or> (\<exists>x. r = Inr x \<and> f x = Inl e)"
  and sum_then_eval [simp]: "sum_then (Inr x) f = f x" "sum_then (Inl e) f = Inl e"
  by (auto simp: sum_then_def split: sum.splits)

lemma and_then_Inr [simp]:
  "and_then f g s = (Inr y, t) \<longleftrightarrow> (\<exists>x s'. f s = (Inr x, s') \<and> g x s' = (Inr y, t))"
  by (auto simp: and_then_def split: prod.splits sum.splits)

lemma and_then_Inl:
  "and_then f g s = (Inl e, t) \<longleftrightarrow>
     f s = (Inl e, t) \<or> (\<exists>x s'. f s = (Inr x, s') \<and> g x s' = (Inl e, t))"
  by (auto simp: and_then_def split: prod.splits sum.splits)

lemma and_then_eval:
  "f s = (Inr x, s') \<Longrightarrow> and_then f g s = g x s'"
  "f s = (Inl e, s') \<Longrightarrow> and_then f g s = (Inl e, s')"
  by (simp_all add: and_then_def)

lemma comp_simps [simp]:
  "give x s = (Inr y, t) \<longleftrightarrow> y = x \<and> t = s" "give x s = (Inl e, t) \<longleftrightarrow> False"
  "raise e s = (Inr y, t) \<longleftrightarrow> False" "raise e s = (Inl e', t) \<longleftrightarrow> e' = e \<and> t = s"
  "of_sum r s = (q, t) \<longleftrightarrow> r = q \<and> t = s"
  "demand c e s = (Inr u, t) \<longleftrightarrow> c \<and> t = s" "demand c e s = (Inl e', t) \<longleftrightarrow> \<not> c \<and> e' = e \<and> t = s"
  by (auto simp: give_def raise_def of_sum_def demand_def)

lemma lift_err_simps [simp]:
  "lift_err f r = Inr x \<longleftrightarrow> r = Inr x" "lift_err f (Inl d) = Inl (f d)" "lift_err f (Inr x) = Inr x"
  by (auto simp: lift_err_def split: sum.splits)

text \<open>Every error a computation can raise satisfies \<open>P\<close>.\<close>

definition raises_only :: "('e \<Rightarrow> bool) \<Rightarrow> ('s, 'e, 'a) comp \<Rightarrow> bool" where
  "raises_only P f \<longleftrightarrow> (\<forall>s e t. f s = (Inl e, t) \<longrightarrow> P e)"

lemma raises_onlyI: "(\<And>s e t. f s = (Inl e, t) \<Longrightarrow> P e) \<Longrightarrow> raises_only P f"
  by (simp add: raises_only_def)

lemma raises_onlyD: "raises_only P f \<Longrightarrow> f s = (Inl e, t) \<Longrightarrow> P e"
  unfolding raises_only_def by blast

lemma raises_only_and_then:
  "raises_only P f \<Longrightarrow> (\<And>x. raises_only P (g x)) \<Longrightarrow> raises_only P (and_then f g)"
  unfolding raises_only_def and_then_Inl by blast

lemma raises_only_basic:
  "raises_only P (give x)" "P e \<Longrightarrow> raises_only P (raise e)" "P e \<Longrightarrow> raises_only P (demand c e)"
  "(\<And>e. r = Inl e \<Longrightarrow> P e) \<Longrightarrow> raises_only P (of_sum r)"
  by (auto simp: raises_only_def)

lemma raises_only_if: "raises_only P f \<Longrightarrow> raises_only P g \<Longrightarrow> raises_only P (if c then f else g)"
  by simp

lemmas raises_rules = raises_only_and_then raises_only_basic raises_only_if

locale kept_relation =
  fixes R :: "'s \<Rightarrow> 's \<Rightarrow> bool"
  assumes R_refl: "R s s" and R_trans: "R s t \<Longrightarrow> R t u \<Longrightarrow> R s u"
begin

definition keeps :: "('s, 'e, 'a) comp \<Rightarrow> bool" where
  "keeps f \<longleftrightarrow> (\<forall>s. R s (snd (f s)))"

lemma keepsI: "(\<And>s r t. f s = (r, t) \<Longrightarrow> R s t) \<Longrightarrow> keeps f"
  unfolding keeps_def by (metis prod.collapse)

lemma keepsD: "keeps f \<Longrightarrow> f s = (r, t) \<Longrightarrow> R s t"
  unfolding keeps_def by (metis snd_conv)

lemma keeps_give: "keeps (give x)" and keeps_raise: "keeps (raise e)"
  and keeps_of_sum: "keeps (of_sum q)" and keeps_demand: "keeps (demand c e)"
  by (auto intro!: keepsI R_refl simp: give_def raise_def of_sum_def demand_def)

lemma keeps_and_then: "keeps f \<Longrightarrow> (\<And>x. keeps (g x)) \<Longrightarrow> keeps (and_then f g)"
proof (rule keepsI)
  fix s r t
  assume f: "keeps f" and g: "\<And>x. keeps (g x)" and run: "and_then f g s = (r, t)"
  obtain q s' where q: "f s = (q, s')" by fastforce
  show "R s t"
  proof (cases q)
    case (Inl e)
    with q run keepsD [OF f q] show ?thesis by (simp add: and_then_def)
  next
    case (Inr x)
    with q run have "g x s' = (r, t)" by (simp add: and_then_def)
    from keepsD [OF f q] keepsD [OF g this] show ?thesis by (rule R_trans)
  qed
qed

lemma keeps_if: "keeps f \<Longrightarrow> keeps g \<Longrightarrow> keeps (\<lambda>s. if P s then f s else g s)"
  by (rule keepsI) (auto split: if_splits dest: keepsD)

lemmas keeps_rules = keeps_give keeps_raise keeps_of_sum keeps_demand keeps_and_then

end

end
