(* ===== verification/Custody.thy ===== *)
theory Custody
  imports Effects Keys Json Manifest
begin

text \<open>
  The enclave's side of split custody: the inner layer (\<open>backend/custody/wrapping.py\<close>) and the
  channel to the co-signer (\<open>backend/custody/client.py\<close>). What the process keeps between calls
  is \<open>proc\<close>: the store, the cached app secret and client certificate, whether the co-signer
  has said that it attests, its public key, and the alert clock. The network is a parameter
  that threads a state of its own; so are the guest agent's answers and the readings of the two clocks and
  the random bytes of one operation, its \<open>moment\<close>: the wall clock as the operation begins and
  again after Google's answer, the monotonic clock as it begins and again when a minted key is kept.
\<close>

datatype custody_error =
    CustodyError string | CoSignerUnavailable string | CoSignerNotAttesting json
  | NoDataKey string | BadRecord string | DataKeyExists string | AccountGone string
  | ReauthRequired string | AssertFail string | AccountError acct_error | Uncaught string

text \<open>The guest agent: its answer to a key request (the member \<open>key\<close>) and to a certificate request.\<close>

datatype kms_answer = KmsRefused string | KmsText string | KmsBytes bytes | KmsOther
datatype tls_answer = TlsRefused string | TlsKey "string list" "string option"
datatype client_cert_source = CertFiles string string | RaTls string string
datatype reply = NetError string | Reply int string "json option"

record 'w enclave =
  en_env :: env
  en_site :: site_env
  en_agent :: bool
  en_kms :: kms_answer
  en_tls :: tls_answer
  en_crypto :: crypto
  en_operator :: bool
  en_thumbprint :: "(string \<times> json) list \<Rightarrow> string"
  en_net :: "string \<Rightarrow> string \<Rightarrow> json option \<Rightarrow> client_cert_source option \<Rightarrow> string \<Rightarrow> 'w \<Rightarrow> reply \<times> 'w"

record moment =
  mo_wall :: secs
  mo_answered :: secs
  mo_created :: secs
  mo_mono :: secs
  mo_dek :: bytes
  mo_seal :: bytes
  mo_nonce :: bytes

record 'w proc =
  pr_store :: store
  pr_world :: 'w
  pr_secret :: "bytes option"
  pr_identity :: "client_cert_source option"
  pr_attested :: bool
  pr_jwk :: "(string \<times> json) list option"
  pr_last_alert :: secs
  pr_alerts :: "(secs \<times> string) list"

type_synonym ('w, 'a) custody = "('w proc, custody_error, 'a) comp"

section \<open>Texts as bytes\<close>

text \<open>UTF-8 on the characters of the model; a byte sequence outside its image does not decode.\<close>

fun utf8 :: "string \<Rightarrow> bytes" where
  "utf8 [] = []"
| "utf8 (c # cs) =
     (let n = (of_char c :: nat)
      in (if n < 128 then [word_of_nat n] else [word_of_nat (192 + n div 64), word_of_nat (128 + n mod 64)])
         @ utf8 cs)"

fun utf8_decode :: "bytes \<Rightarrow> string option" where
  "utf8_decode [] = Some []"
| "utf8_decode (b # bs) =
     (if unat b < 128 then map_option (Cons (char_of (unat b))) (utf8_decode bs)
      else case bs of
          [] \<Rightarrow> None
        | d # ds \<Rightarrow>
            if (unat b = 194 \<or> unat b = 195) \<and> 128 \<le> unat d \<and> unat d < 192
            then map_option (Cons (char_of ((unat b - 192) * 64 + (unat d - 128)))) (utf8_decode ds)
            else None)"

text \<open>\<open>bytes.fromhex\<close>: ASCII white space between pairs of digits of either case.\<close>

definition hex_val :: "char \<Rightarrow> nat option" where
  "hex_val c =
     (let n = (of_char c :: nat)
      in if 48 \<le> n \<and> n \<le> 57 then Some (n - 48) else if 97 \<le> n \<and> n \<le> 102 then Some (n - 87)
         else if 65 \<le> n \<and> n \<le> 70 then Some (n - 55) else None)"

definition ascii_space :: "char \<Rightarrow> bool" where
  "ascii_space c = (let n = (of_char c :: nat) in 9 \<le> n \<and> n \<le> 13 \<or> n = 32)"

fun from_hex :: "string \<Rightarrow> bytes option" where
  "from_hex [] = Some []"
| "from_hex (c # cs) =
     (if ascii_space c then from_hex cs
      else case cs of
          [] \<Rightarrow> None
        | d # ds \<Rightarrow>
           (case (hex_val c, hex_val d) of
              (Some hi, Some lo) \<Rightarrow> map_option (Cons (word_of_nat (hi * 16 + lo))) (from_hex ds)
            | _ \<Rightarrow> None))"

section \<open>The app secret\<close>

definition KEY_VERSION :: nat where "KEY_VERSION = 1"
definition KEY_LEN :: nat where "KEY_LEN = 32"
definition NONCE_LEN :: nat where "NONCE_LEN = 12"
definition TAG_LEN :: nat where "TAG_LEN = 16"

text \<open>\<open>secrets.tee_required\<close>.\<close>

definition tee_required :: "env \<Rightarrow> bool" where
  "tee_required e \<longleftrightarrow> norm_id (env_get e ''TEE_REQUIRED'') \<in> {''1'', ''true'', ''yes''}"

definition decode_kms_key :: "kms_answer \<Rightarrow> custody_error + bytes" where
  "decode_kms_key k =
     (case k of
        KmsBytes raw \<Rightarrow> Inr raw
      | KmsText [] \<Rightarrow> Inl (CustodyError ''KMS returned no usable key'')
      | KmsText raw \<Rightarrow> (case from_hex raw of Some bs \<Rightarrow> Inr bs | None \<Rightarrow> Inr (utf8 raw))
      | KmsRefused err \<Rightarrow> Inl (CustodyError (''KMS refused to release the app secret: '' @ err))
      | KmsOther \<Rightarrow> Inl (CustodyError ''KMS returned no usable key''))"

definition released_secret :: "'w enclave \<Rightarrow> custody_error + bytes" where
  "released_secret E =
     (case (if en_agent E then decode_kms_key (en_kms E)
            else let dev = env_get (en_env E) ''LETTERLOCK_DEV_APP_SECRET''
                 in if tee_required (en_env E) then Inl (CustodyError ''TEE_REQUIRED is set but there is no dstack guest agent'')
                    else if dev = [] then Inl (CustodyError ''no dstack guest agent and no dev secret'')
                    else Inr (utf8 dev)) of
        Inl e \<Rightarrow> Inl e
      | Inr secret \<Rightarrow>
          if length secret < 16 then Inl (CustodyError (''app secret is only '' @ str_nat (length secret) @ '' bytes''))
          else Inr secret)"

definition app_secret :: "'w enclave \<Rightarrow> ('w, bytes) custody" where
  "app_secret E s =
     (case pr_secret s of
        Some secret \<Rightarrow> (Inr secret, s)
      | None \<Rightarrow>
         (case released_secret E of
            Inl e \<Rightarrow> (Inl e, s) | Inr secret \<Rightarrow> (Inr secret, s\<lparr>pr_secret := Some secret\<rparr>)))"

section \<open>The inner layer\<close>

text \<open>\<open>derive(salt, info)\<close> with the secret it fetches as its last argument.\<close>

definition inner_key :: "crypto \<Rightarrow> string \<Rightarrow> nat \<Rightarrow> bytes \<Rightarrow> bytes" where
  "inner_key C handle v secret = kdf C (handle @ ''|'' @ str_nat v) ''account-dek'' secret"

definition seal_dek :: "'w enclave \<Rightarrow> bytes \<Rightarrow> string \<Rightarrow> bytes \<Rightarrow> nat \<Rightarrow> ('w, bytes) custody" where
  "seal_dek E nonce handle dek v =
     and_then (demand (handle \<noteq> []) (AssertFail ''seal_dek needs an account handle'')) (\<lambda>_.
     and_then (demand (length dek = KEY_LEN) (AssertFail ''a data key is 32 bytes'')) (\<lambda>_.
     and_then (app_secret E) (\<lambda>secret.
     give (nonce @ aead_enc (en_crypto E) (inner_key (en_crypto E) handle v secret) nonce handle dek))))"

definition open_inner :: "crypto \<Rightarrow> bytes \<Rightarrow> string \<Rightarrow> bytes \<Rightarrow> nat \<Rightarrow> custody_error + bytes" where
  "open_inner C secret handle inner v =
     (case aead_dec C (inner_key C handle v secret) (take NONCE_LEN inner) handle (drop NONCE_LEN inner) of
        None \<Rightarrow> Inl (CustodyError (''inner unwrap failed for '' @ handle @ '' at key_version '' @ str_nat v))
      | Some plain \<Rightarrow>
          if length plain = KEY_LEN then Inr plain
          else Inl (CustodyError (''inner layer opened to '' @ str_nat (length plain) @ '' bytes'')))"

text \<open>
  The key is derived inside the \<open>try\<close>, so a secret that cannot be had is reported as an inner
  layer that did not open.
\<close>

definition open_dek :: "'w enclave \<Rightarrow> string \<Rightarrow> bytes \<Rightarrow> nat \<Rightarrow> ('w, bytes) custody" where
  "open_dek E handle inner v =
     and_then (demand (handle \<noteq> []) (AssertFail ''open_dek needs an account handle'')) (\<lambda>_.
     and_then (demand (NONCE_LEN + TAG_LEN < length inner) (CustodyError ''inner ciphertext is too short'')) (\<lambda>_.
     \<lambda>s. case app_secret E s of
         (Inl _, s') \<Rightarrow> (Inl (CustodyError (''inner unwrap failed for '' @ handle @ '' at key_version '' @ str_nat v)), s')
       | (Inr secret, s') \<Rightarrow> (open_inner (en_crypto E) secret handle inner v, s')))"

definition zeroize :: "bytes \<Rightarrow> bytes" where
  "zeroize buf = replicate (length buf) 0"

section \<open>The channel\<close>

definition ALERT_INTERVAL :: secs where "ALERT_INTERVAL = 300"

definition cosigner_url :: "env \<Rightarrow> string \<Rightarrow> string" where
  "cosigner_url e path =
     (let override = py_strip (env_get e ''LETTERLOCK_COSIGNER_URL'')
      in if override \<noteq> [] then rev (dropWhile (\<lambda>c. c = CHR ''/'') (rev override)) @ path
         else ''https://'' @ the_default ''cosigner.morganrivers.com'' (e ''LETTERLOCK_COSIGNER_HOST'') @ path)"

definition alert_operator :: "'w enclave \<Rightarrow> moment \<Rightarrow> string \<Rightarrow> 'w proc \<Rightarrow> 'w proc" where
  "alert_operator E m msg s =
     (if mo_wall m - pr_last_alert s < ALERT_INTERVAL then s
      else s\<lparr>pr_last_alert := mo_wall m,
             pr_alerts := pr_alerts s @ (if en_operator E then [(mo_wall m, msg)] else [])\<rparr>)"

definition client_identity :: "'w enclave \<Rightarrow> ('w, client_cert_source option) custody" where
  "client_identity E s =
     (let crt = env_get (en_env E) ''COSIGNER_CLIENT_CERT''; key = env_get (en_env E) ''COSIGNER_CLIENT_KEY'';
          tee = tee_required (en_env E)
      in case pr_identity s of
           Some i \<Rightarrow> (Inr (Some i), s)
         | None \<Rightarrow>
             if crt \<noteq> [] \<and> key \<noteq> []
             then (if tee then (Inl (CustodyError ''TEE_REQUIRED is set but the client certificate is a file''), s)
                   else (Inr (Some (CertFiles crt key)), s\<lparr>pr_identity := Some (CertFiles crt key)\<rparr>))
             else if \<not> en_agent E
             then (if tee then (Inl (CustodyError ''TEE_REQUIRED is set but there is no dstack guest agent''), s)
                   else (Inr None, s))
             else case en_tls E of
                 TlsRefused err \<Rightarrow> (Inl (CoSignerUnavailable (''guest agent refused an RA-TLS client key: '' @ err)), s)
               | TlsKey chain tls_key \<Rightarrow>
                  (let i = RaTls (join_with [CHR 0x0A] chain) (str_or tls_key '''')
                   in if chain = [] \<or> \<not> truthy tls_key
                      then (Inl (CoSignerUnavailable ''guest agent returned no RA-TLS keypair''), s)
                      else (Inr (Some i), s\<lparr>pr_identity := Some i\<rparr>)))"

text \<open>One HTTP exchange, without the question whether the co-signer attests.\<close>

definition raw_request ::
  "'w enclave \<Rightarrow> moment \<Rightarrow> string \<Rightarrow> string \<Rightarrow> json option \<Rightarrow> ('w, (string \<times> json) list) custody" where
  "raw_request E m verb path body =
     and_then (client_identity E) (\<lambda>i s.
       let url = cosigner_url (en_env E) path; ca = env_get (en_env E) ''COSIGNER_CA'';
           (r, w) = en_net E verb url body i ca (pr_world s);
           s1 = s\<lparr>pr_world := w\<rparr>
       in case r of
            NetError err \<Rightarrow>
              (Inl (CoSignerUnavailable (verb @ '' '' @ url @ '' failed: '' @ err)),
               alert_operator E m (verb @ '' '' @ path @ '': '' @ err) s1)
          | Reply code text parsed \<Rightarrow>
              if code \<noteq> 200
              then (Inl (CoSignerUnavailable (verb @ '' '' @ url @ '' -> HTTP '' @ str_int code @ '': '' @ take 200 text)),
                    alert_operator E m (verb @ '' '' @ path @ '' -> HTTP '' @ str_int code @ '': '' @ take 200 text) s1)
              else case parsed of
                  None \<Rightarrow> (Inl (CoSignerUnavailable (verb @ '' '' @ url @ '' returned non-JSON'')), s1)
                | Some j \<Rightarrow> (case jobj j of
                      None \<Rightarrow> (Inl (CoSignerUnavailable (path @ '' returned non-object'')), s1)
                    | Some kvs \<Rightarrow> (Inr kvs, s1)))"

definition require_attesting :: "'w enclave \<Rightarrow> moment \<Rightarrow> ('w, unit) custody" where
  "require_attesting E m s =
     (if pr_attested s \<or> \<not> tee_required (en_env E) then (Inr (), s)
      else and_then (raw_request E m ''GET'' ''/health'' None) (\<lambda>kvs s1.
        let stated = jget kvs ''attestation''
        in if stated \<noteq> JStr ''required''
           then (Inl (CoSignerNotAttesting stated), alert_operator E m ''co-signer is not attesting'' s1)
           else (Inr (), s1\<lparr>pr_attested := True\<rparr>)) s)"

definition client_request ::
  "'w enclave \<Rightarrow> moment \<Rightarrow> string \<Rightarrow> string \<Rightarrow> json option \<Rightarrow> ('w, (string \<times> json) list) custody" where
  "client_request E m verb path body =
     (if path \<noteq> ''/health''
      then and_then (require_attesting E m) (\<lambda>_. raw_request E m verb path body)
      else raw_request E m verb path body)"

section \<open>The calls\<close>

text \<open>\<open>protocol.unb64\<close> of a member that may be anything: a non-string is an assertion.\<close>

definition wire_bytes :: "json \<Rightarrow> custody_error + bytes" where
  "wire_bytes j =
     (case j of
        JStr t \<Rightarrow> (case unb64 t of None \<Rightarrow> Inl (Uncaught ''binascii.Error'') | Some raw \<Rightarrow> Inr raw)
      | _ \<Rightarrow> Inl (AssertFail ''unb64 expects str''))"

definition proof_body :: "string \<Rightarrow> string \<Rightarrow> string option \<Rightarrow> (string \<times> json) list" where
  "proof_body htm htu nonce =
     [(''htm'', JStr htm), (''htu'', JStr htu)] @ (if truthy nonce then [(''nonce'', JStr (str_or nonce ''''))] else [])"

definition client_dpop_jwk :: "'w enclave \<Rightarrow> moment \<Rightarrow> ('w, (string \<times> json) list) custody" where
  "client_dpop_jwk E m s =
     (case pr_jwk s of
        Some jwk \<Rightarrow> (Inr jwk, s)
      | None \<Rightarrow>
          and_then (client_request E m ''GET'' ''/dpop-jwk'' None) (\<lambda>kvs s1.
            case jobj (jget kvs ''jwk'') of
              None \<Rightarrow> (Inl (CoSignerUnavailable ''co-signer returned no usable DPoP JWK''), s1)
            | Some jwk \<Rightarrow>
                if \<not> jtrue (jget jwk ''kty'') then (Inl (CoSignerUnavailable ''co-signer returned no usable DPoP JWK''), s1)
                else if ''d'' \<in> fst ` set jwk
                then (Inl (CoSignerUnavailable ''co-signer served a DPoP JWK containing a private key''), s1)
                else (Inr jwk, s1\<lparr>pr_jwk := Some jwk\<rparr>)) s)"

definition jwk_members :: "(string \<times> json) list \<Rightarrow> string list \<Rightarrow> custody_error + (string \<times> json) list" where
  "jwk_members jwk names =
     (if set names \<subseteq> fst ` set jwk then Inr (map (\<lambda>n. (n, jget jwk n)) names) else Inl (Uncaught ''KeyError''))"

definition client_dpop_jkt :: "'w enclave \<Rightarrow> moment \<Rightarrow> ('w, string) custody" where
  "client_dpop_jkt E m =
     and_then (client_dpop_jwk E m) (\<lambda>jwk.
     let kty = jget jwk ''kty''
     in and_then (of_sum (if kty = JStr ''EC'' then jwk_members jwk [''crv'', ''kty'', ''x'', ''y'']
                          else if kty = JStr ''RSA'' then jwk_members jwk [''e'', ''kty'', ''n'']
                          else Inl (CustodyError ''unsupported DPoP key type''))) (\<lambda>members.
        give (en_thumbprint E members)))"

definition sign_dpop :: "'w enclave \<Rightarrow> moment \<Rightarrow> string \<Rightarrow> string \<Rightarrow> string option \<Rightarrow> ('w, json) custody" where
  "sign_dpop E m htm htu nonce =
     and_then (demand (htm \<noteq> [] \<and> htu \<noteq> []) (AssertFail ''sign_dpop needs an HTTP method and URI'')) (\<lambda>_.
     and_then (client_request E m ''POST'' ''/sign-dpop'' (Some (JObj (proof_body htm htu nonce)))) (\<lambda>kvs.
     let p = jget kvs ''proof''
     in if jtrue p then give p else raise (CoSignerUnavailable ''co-signer returned an empty DPoP proof'')))"

definition client_wrap :: "'w enclave \<Rightarrow> moment \<Rightarrow> string \<Rightarrow> bytes \<Rightarrow> ('w, bytes) custody" where
  "client_wrap E m handle inner =
     and_then (demand (handle \<noteq> [] \<and> inner \<noteq> []) (AssertFail ''wrap needs a handle and an inner ciphertext'')) (\<lambda>_.
     and_then (client_request E m ''POST'' ''/wrap''
         (Some (JObj [(''uid'', JStr handle), (''inner'', JStr (b64 inner))]))) (\<lambda>kvs.
     let outer = jget kvs ''outer''
     in if jtrue outer then of_sum (wire_bytes outer)
        else raise (CoSignerUnavailable ''co-signer returned an empty outer ciphertext'')))"

definition unwrap_and_sign ::
  "'w enclave \<Rightarrow> moment \<Rightarrow> string \<Rightarrow> bytes \<Rightarrow> string \<Rightarrow> string \<Rightarrow> string option \<Rightarrow> ('w, bytes \<times> json) custody" where
  "unwrap_and_sign E m handle outer htm htu nonce =
     and_then (demand (handle \<noteq> [] \<and> outer \<noteq> []) (AssertFail ''unwrap_and_sign needs a handle and an outer ciphertext'')) (\<lambda>_.
     and_then (demand (htm \<noteq> [] \<and> htu \<noteq> []) (AssertFail ''unwrap_and_sign needs an HTTP method and URI'')) (\<lambda>_.
     and_then (client_request E m ''POST'' ''/unwrap-and-sign''
         (Some (JObj ([(''uid'', JStr handle), (''outer'', JStr (b64 outer))] @ proof_body htm htu nonce)))) (\<lambda>kvs.
     let inner = jget kvs ''inner''; p = jget kvs ''proof''
     in if jtrue inner \<and> jtrue p then and_then (of_sum (wire_bytes inner)) (\<lambda>raw. give (raw, p))
        else raise (CoSignerUnavailable ''co-signer answered /unwrap-and-sign without both fields''))))"

definition client_unwrap :: "'w enclave \<Rightarrow> moment \<Rightarrow> string \<Rightarrow> bytes \<Rightarrow> ('w, bytes) custody" where
  "client_unwrap E m handle outer =
     and_then (demand (handle \<noteq> [] \<and> outer \<noteq> []) (AssertFail ''unwrap needs a handle and an outer ciphertext'')) (\<lambda>_.
     and_then (client_request E m ''POST'' ''/unwrap''
         (Some (JObj [(''uid'', JStr handle), (''outer'', JStr (b64 outer))]))) (\<lambda>kvs.
     let inner = jget kvs ''inner''
     in if jtrue inner then of_sum (wire_bytes inner)
        else raise (CoSignerUnavailable ''co-signer answered /unwrap with no inner ciphertext'')))"

definition client_rewrap :: "'w enclave \<Rightarrow> moment \<Rightarrow> string \<Rightarrow> bytes \<Rightarrow> ('w, bytes) custody" where
  "client_rewrap E m handle outer =
     and_then (demand (handle \<noteq> [] \<and> outer \<noteq> []) (AssertFail ''rewrap needs a handle and an outer ciphertext'')) (\<lambda>_.
     and_then (client_request E m ''POST'' ''/rewrap''
         (Some (JObj [(''uid'', JStr handle), (''outer'', JStr (b64 outer))]))) (\<lambda>kvs.
     let rewrapped = jget kvs ''outer''
     in if jtrue rewrapped then of_sum (wire_bytes rewrapped)
        else raise (CoSignerUnavailable ''co-signer answered /rewrap with no outer ciphertext'')))"

section \<open>What every call leaves alone\<close>

definition alerts_spaced :: "'w proc \<Rightarrow> bool" where
  "alerts_spaced s \<longleftrightarrow>
     sorted_wrt (\<lambda>a b. fst a + ALERT_INTERVAL \<le> fst b) (pr_alerts s)
     \<and> (\<forall>a \<in> set (pr_alerts s). fst a \<le> pr_last_alert s)"

definition secret_ok :: "'w enclave \<Rightarrow> 'w proc \<Rightarrow> bool" where
  "secret_ok E s \<longleftrightarrow> (\<forall>x. pr_secret s = Some x \<longrightarrow> released_secret E = Inr x)"

text \<open>The channel never writes the store, never unlearns what it checked, and keeps its invariants.\<close>

definition channel_kept :: "'w enclave \<Rightarrow> 'w proc \<Rightarrow> 'w proc \<Rightarrow> bool" where
  "channel_kept E s t \<longleftrightarrow>
     pr_store t = pr_store s \<and> (secret_ok E s \<longrightarrow> secret_ok E t) \<and> (pr_attested s \<longrightarrow> pr_attested t)
     \<and> (alerts_spaced s \<longrightarrow> alerts_spaced t)"

interpretation channel: kept_relation "channel_kept E" for E
  by unfold_locales (auto simp: channel_kept_def)

lemma channel_update:
  "channel_kept E s (s\<lparr>pr_world := w\<rparr>)" "channel_kept E s (s\<lparr>pr_identity := i\<rparr>)"
  "channel_kept E s (s\<lparr>pr_attested := True\<rparr>)" "channel_kept E s (s\<lparr>pr_jwk := j\<rparr>)"
  "released_secret E = Inr x \<Longrightarrow> channel_kept E s (s\<lparr>pr_secret := Some x\<rparr>)"
  by (simp_all add: channel_kept_def secret_ok_def alerts_spaced_def)

lemma alert_spaced: "alerts_spaced s \<Longrightarrow> alerts_spaced (alert_operator E m msg s)"
  by (fastforce simp: alerts_spaced_def alert_operator_def sorted_wrt_append ALERT_INTERVAL_def)

lemma alert_fields [simp]:
  "pr_store (alert_operator E m msg s) = pr_store s" "pr_world (alert_operator E m msg s) = pr_world s"
  "pr_secret (alert_operator E m msg s) = pr_secret s" "pr_attested (alert_operator E m msg s) = pr_attested s"
  "pr_identity (alert_operator E m msg s) = pr_identity s"
  by (simp_all add: alert_operator_def)

lemma channel_alert: "channel_kept E s (alert_operator E m msg s)"
  by (simp add: channel_kept_def secret_ok_def alert_spaced)

lemma channel_world_alert:
  "channel_kept E s (alert_operator E m msg (s\<lparr>pr_world := w\<rparr>))"
  using channel.R_trans [OF channel_update(1) channel_alert] .

lemma keeps_app_secret: "channel.keeps E (app_secret E)"
  by (rule channel.keepsI)
    (auto simp: app_secret_def channel.R_refl intro: channel_update(5) split: option.splits sum.splits)

lemma keeps_client_identity: "channel.keeps E (client_identity E)"
  by (rule channel.keepsI)
    (auto simp: client_identity_def Let_def channel.R_refl intro: channel_update(2)
      split: option.splits if_splits tls_answer.splits)

lemma keeps_raw_request: "channel.keeps E (raw_request E m verb path body)"
  unfolding raw_request_def
  by (rule channel.keeps_and_then [OF keeps_client_identity], rule channel.keepsI)
    (auto simp: Let_def intro: channel_world_alert channel_update(1)
      split: prod.splits reply.splits if_splits option.splits)

lemma keeps_require_attesting: "channel.keeps E (require_attesting E m)"
proof -
  have "channel.keeps E (and_then (raw_request E m ''GET'' ''/health'' None) (\<lambda>kvs s1.
        let stated = jget kvs ''attestation''
        in if stated \<noteq> JStr ''required''
           then (Inl (CoSignerNotAttesting stated), alert_operator E m ''co-signer is not attesting'' s1)
           else (Inr (), s1\<lparr>pr_attested := True\<rparr>)))"
    by (rule channel.keeps_and_then [OF keeps_raw_request], rule channel.keepsI)
      (auto simp: Let_def intro: channel_alert channel_update(3) split: if_splits)
  then show ?thesis
    unfolding require_attesting_def
    by (auto intro!: channel.keepsI simp: channel.R_refl dest: channel.keepsD split: if_splits)
qed

lemma keeps_client_request: "channel.keeps E (client_request E m verb path body)"
  unfolding client_request_def
  by (simp add: keeps_raw_request keeps_require_attesting channel.keeps_and_then)

lemma keeps_client_dpop_jwk: "channel.keeps E (client_dpop_jwk E m)"
proof -
  have "channel.keeps E (and_then (client_request E m ''GET'' ''/dpop-jwk'' None) (\<lambda>kvs s1.
            case jobj (jget kvs ''jwk'') of
              None \<Rightarrow> (Inl (CoSignerUnavailable ''co-signer returned no usable DPoP JWK''), s1)
            | Some jwk \<Rightarrow>
                if \<not> jtrue (jget jwk ''kty'') then (Inl (CoSignerUnavailable ''co-signer returned no usable DPoP JWK''), s1)
                else if ''d'' \<in> fst ` set jwk
                then (Inl (CoSignerUnavailable ''co-signer served a DPoP JWK containing a private key''), s1)
                else (Inr jwk, s1\<lparr>pr_jwk := Some jwk\<rparr>)))"
    by (rule channel.keeps_and_then [OF keeps_client_request], rule channel.keepsI)
      (auto intro: channel_update(4) simp: channel.R_refl split: if_splits option.splits)
  then show ?thesis
    unfolding client_dpop_jwk_def
    by (auto intro!: channel.keepsI simp: channel.R_refl dest: channel.keepsD split: option.splits)
qed

lemma channel_keeps_if: "channel.keeps E f \<Longrightarrow> channel.keeps E g \<Longrightarrow> channel.keeps E (if c then f else g)"
  by simp

lemmas call_keeps = channel.keeps_rules channel_keeps_if keeps_client_request keeps_app_secret

lemma keeps_calls:
  "channel.keeps E (sign_dpop E m htm htu nonce)" "channel.keeps E (client_wrap E m handle inner)"
  "channel.keeps E (unwrap_and_sign E m handle outer htm htu nonce)"
  "channel.keeps E (client_unwrap E m handle outer)" "channel.keeps E (client_rewrap E m handle outer)"
  "channel.keeps E (seal_dek E n handle dek v)"
  unfolding sign_dpop_def client_wrap_def unwrap_and_sign_def client_unwrap_def client_rewrap_def
    seal_dek_def Let_def
  by (intro call_keeps)+

lemma keeps_open_dek: "channel.keeps E (open_dek E handle inner v)"
proof -
  have "channel.keeps E (\<lambda>s. case app_secret E s of
         (Inl _, s') \<Rightarrow> (Inl (CustodyError (''inner unwrap failed for '' @ handle @ '' at key_version '' @ str_nat v)), s')
       | (Inr secret, s') \<Rightarrow> (open_inner (en_crypto E) secret handle inner v, s'))"
    by (rule channel.keepsI) (auto split: prod.splits sum.splits dest: channel.keepsD [OF keeps_app_secret])
  then show ?thesis unfolding open_dek_def by (intro call_keeps)
qed

section \<open>Texts, and the inner layer\<close>

lemma utf8_char:
  "utf8_decode (utf8 [c] @ bs) = map_option (Cons c) (utf8_decode bs)"
proof -
  define n where "n = (of_char c :: nat)"
  have n: "n < 256" "char_of n = c" by (simp_all add: n_def)
  show ?thesis
  proof (cases "n < 128")
    case True
    then have "unat (word_of_nat n :: 8 word) = n" by (simp add: unat_of_nat)
    with True n show ?thesis by (simp add: n_def [symmetric] Let_def)
  next
    case False
    then have "128 div 64 \<le> n div 64" "n div 64 \<le> 255 div 64" using n(1) by (auto intro: div_le_mono)
    then have q: "n div 64 = 2 \<or> n div 64 = 3" by auto
    then have u: "unat (word_of_nat (192 + n div 64) :: 8 word) = 192 + n div 64"
      by (auto simp: unat_of_nat)
    have "128 + n mod 64 < 256" using mod_less_divisor [of 64 n] by simp
    then have u2: "unat (word_of_nat (128 + n mod 64) :: 8 word) = 128 + n mod 64"
      unfolding unat_of_nat by simp
    have w: "utf8 [c] = [word_of_nat (192 + n div 64), word_of_nat (128 + n mod 64)]"
      using False by (simp add: n_def Let_def)
    have inv: "(192 + n div 64 - 192) * 64 + (128 + n mod 64 - 128) = n" by simp
    have "utf8_decode (utf8 [c] @ bs) =
        map_option (Cons (char_of ((192 + n div 64 - 192) * 64 + (128 + n mod 64 - 128)))) (utf8_decode bs)"
      unfolding w append.simps utf8_decode.simps list.case u u2 using q by auto
    then show ?thesis by (simp only: inv n(2))
  qed
qed

interpretation text_codec: codec utf8 utf8_decode "\<lambda>t. t" "\<lambda>_. True"
proof
  show "utf8_decode (utf8 t) = Some t" for t
  proof (induction t)
    case (Cons c cs)
    have "utf8 (c # cs) = utf8 [c] @ utf8 cs" by (simp add: Let_def)
    with Cons utf8_char [of c "utf8 cs"] show ?case by simp
  qed simp
qed

lemma app_secret_Inr:
  "app_secret E s = (Inr x, t) \<Longrightarrow> secret_ok E s \<Longrightarrow> released_secret E = Inr x \<and> secret_ok E t \<and> pr_store t = pr_store s"
  by (auto simp: app_secret_def secret_ok_def split: option.splits sum.splits)

lemma app_secret_eval:
  "released_secret E = Inr x \<Longrightarrow> secret_ok E s \<Longrightarrow> app_secret E s = (Inr x, s\<lparr>pr_secret := Some x\<rparr>)"
  by (auto simp: app_secret_def secret_ok_def split: option.splits)

lemma seal_dek_Inr:
  assumes "seal_dek E nonce handle dek v s = (Inr inner, t)" and "secret_ok E s"
  shows "\<exists>secret. released_secret E = Inr secret \<and> secret_ok E t \<and> pr_store t = pr_store s \<and> handle \<noteq> []
    \<and> length dek = 32
    \<and> inner = nonce @ aead_enc (en_crypto E) (inner_key (en_crypto E) handle v secret) nonce handle dek"
  using assms(1) app_secret_Inr [OF _ assms(2)]
  by (auto simp: seal_dek_def KEY_LEN_def)

lemma open_inner_seal:
  assumes "aead_inverts C" and "length nonce = 12" and "length dek = 32"
  shows "open_inner C secret handle (nonce @ aead_enc C (inner_key C handle v secret) nonce handle dek) v = Inr dek"
  using assms by (simp add: open_inner_def NONCE_LEN_def KEY_LEN_def aead_inverts_def)

lemma open_inner_other:
  assumes "aead_binds C" and "length nonce = 12" and "handle' \<noteq> handle"
  shows "\<exists>m. open_inner C secret' handle' (nonce @ aead_enc C key nonce handle dek) v' = Inl (CustodyError m)"
  using assms by (simp add: open_inner_def NONCE_LEN_def aead_binds_def)

lemma sealed_length:
  "aead_inverts C \<Longrightarrow> length nonce = 12 \<Longrightarrow> length dek = 32 \<Longrightarrow>
   NONCE_LEN + TAG_LEN < length (nonce @ aead_enc C k nonce a dek)"
proof -
  assume *: "aead_inverts C" "length nonce = 12" "length dek = 32"
  then have "length dek + 16 \<le> length (aead_enc C k nonce a dek)" unfolding aead_inverts_def by blast
  with * show ?thesis by (simp add: NONCE_LEN_def TAG_LEN_def)
qed

lemma open_dek_Inr:
  assumes "open_dek E handle inner v s = (Inr dek, t)" and "secret_ok E s"
  shows "\<exists>secret. released_secret E = Inr secret \<and> open_inner (en_crypto E) secret handle inner v = Inr dek
    \<and> pr_store t = pr_store s"
  using assms(1) app_secret_Inr [OF _ assms(2)]
  by (auto simp: open_dek_def split: prod.splits sum.splits)

text \<open>
  the enclave's layer: what \<open>seal_dek\<close> made of an account's data key opens to that key for
  its handle, and under any other handle it is a custody error. The secret is the one the guest
  agent released, fetched once.
\<close>

theorem inner_layer_opens_for_its_handle:
  assumes "aead_inverts (en_crypto E)" and "aead_binds (en_crypto E)" and "length nonce = 12"
    and "secret_ok E s" and "seal_dek E nonce handle dek v s = (Inr inner, t)"
  shows "fst (open_dek E handle inner v t) = Inr dek
    \<and> (handle' \<noteq> handle \<longrightarrow> handle' \<noteq> [] \<longrightarrow> (\<exists>m. fst (open_dek E handle' inner v' t) = Inl (CustodyError m)))"
proof -
  from seal_dek_Inr [OF assms(5,4)] obtain secret where
    s: "released_secret E = Inr secret" "secret_ok E t" "handle \<noteq> []" "length dek = 32"
      "inner = nonce @ aead_enc (en_crypto E) (inner_key (en_crypto E) handle v secret) nonce handle dek"
    by blast
  note run = app_secret_eval [OF s(1,2)] sealed_length [OF assms(1,3) s(4)]
  have "fst (open_dek E handle inner v t) = Inr dek"
    using s(3) run open_inner_seal [OF assms(1,3) s(4)]
    by (simp add: open_dek_def and_then_def demand_def s(5))
  moreover have "\<exists>m. fst (open_dek E handle' inner v' t) = Inl (CustodyError m)"
    if "handle' \<noteq> handle" "handle' \<noteq> []"
    using that run open_inner_other [OF assms(2,3) that(1)]
    by (simp add: open_dek_def and_then_def demand_def s(5))
  ultimately show ?thesis by auto
qed

section \<open>The co-signer must attest\<close>

definition health_says_required :: "'w enclave \<Rightarrow> 'w \<Rightarrow> 'w \<Rightarrow> bool" where
  "health_says_required E w w' \<longleftrightarrow>
     (\<exists>i text kvs. en_net E ''GET'' (cosigner_url (en_env E) ''/health'') None i (env_get (en_env E) ''COSIGNER_CA'') w
        = (Reply 200 text (Some (JObj kvs)), w') \<and> jget kvs ''attestation'' = JStr ''required'')"

lemma raw_request_Inr:
  assumes "raw_request E m verb path body s = (Inr kvs, t)"
  obtains i detail where
    "en_net E verb (cosigner_url (en_env E) path) body i (env_get (en_env E) ''COSIGNER_CA'') (pr_world s)
       = (Reply 200 detail (Some (JObj kvs)), pr_world t)"
    and "pr_attested t = pr_attested s"
proof -
  from assms obtain i s1 where i: "client_identity E s = (Inr i, s1)"
    by (auto simp: raw_request_def)
  then have same: "pr_world s1 = pr_world s" "pr_attested s1 = pr_attested s"
    by (auto simp: client_identity_def Let_def split: option.splits if_splits tls_answer.splits)
  obtain rep w where rep: "en_net E verb (cosigner_url (en_env E) path) body i
     (env_get (en_env E) ''COSIGNER_CA'') (pr_world s) = (rep, w)" by fastforce
  with assms i same have "(\<exists>detail. rep = Reply 200 detail (Some (JObj kvs))) \<and> pr_world t = w
      \<and> pr_attested t = pr_attested s"
    by (auto simp: raw_request_def and_then_def Let_def elim: jobj.elims
        split: reply.splits if_splits option.splits)
  with rep that show thesis by blast
qed

lemma raw_request_world:
  assumes "raw_request E m verb path body s = (r, t)"
  shows "pr_attested t = pr_attested s \<and> (pr_world t = pr_world s \<or>
    (\<exists>i. pr_world t = snd (en_net E verb (cosigner_url (en_env E) path) body i
       (env_get (en_env E) ''COSIGNER_CA'') (pr_world s))))"
proof -
  obtain q s1 where i: "client_identity E s = (q, s1)" by fastforce
  then have same: "pr_world s1 = pr_world s" "pr_attested s1 = pr_attested s"
    by (auto simp: client_identity_def Let_def split: option.splits if_splits tls_answer.splits)
  show ?thesis
  proof (cases q)
    case (Inl e)
    with assms i same show ?thesis by (simp add: raw_request_def and_then_def)
  next
    case (Inr x)
    obtain rep w where rep: "en_net E verb (cosigner_url (en_env E) path) body x
       (env_get (en_env E) ''COSIGNER_CA'') (pr_world s) = (rep, w)" by fastforce
    with Inr assms i same have "pr_world t = w \<and> pr_attested t = pr_attested s"
      by (auto simp: raw_request_def and_then_def Let_def split: reply.splits if_splits option.splits)
    with rep show ?thesis by (metis snd_conv)
  qed
qed

text \<open>
  C6: an attested enclave hands nothing to a co-signer that does not attest. Under
  \<open>TEE_REQUIRED\<close>, in a process that no co-signer has told \<open>required\<close> yet (the question is put until
  it was answered so once, and not again), while \<open>/health\<close> does not say \<open>required\<close>, every
  call fails with an error, the process still does not take the co-signer for checked, and at most the
  question itself has crossed the wire: whatever a call carries in its body is never sent.
\<close>

theorem unattested_cosigner_gets_nothing:
  assumes "tee_required (en_env E)" and "path \<noteq> ''/health''" and "\<not> pr_attested s"
    and "\<not> (\<exists>w. health_says_required E (pr_world s) w)"
    and "client_request E m verb path body s = (r, t)"
  shows "(\<exists>e. r = Inl e) \<and> \<not> pr_attested t
    \<and> (pr_world t = pr_world s \<or>
       (\<exists>i. pr_world t = snd (en_net E ''GET'' (cosigner_url (en_env E) ''/health'') None i
          (env_get (en_env E) ''COSIGNER_CA'') (pr_world s))))"
proof -
  obtain q u where q: "raw_request E m ''GET'' ''/health'' None s = (q, u)" by fastforce
  note world = raw_request_world [OF q]
  have "\<nexists>kvs. q = Inr kvs \<and> jget kvs ''attestation'' = JStr ''required''"
  proof
    assume "\<exists>kvs. q = Inr kvs \<and> jget kvs ''attestation'' = JStr ''required''"
    then obtain kvs where kvs: "raw_request E m ''GET'' ''/health'' None s = (Inr kvs, u)"
      "jget kvs ''attestation'' = JStr ''required''" using q by blast
    from raw_request_Inr [OF kvs(1)] kvs(2) assms(4) show False
      unfolding health_says_required_def by metis
  qed
  with assms q have "(\<exists>e. r = Inl e) \<and> pr_attested t = pr_attested u \<and> pr_world t = pr_world u"
    by (cases q) (auto simp: client_request_def require_attesting_def and_then_def Let_def)
  with world assms(3) show ?thesis by auto
qed

section \<open>Witnesses\<close>

text \<open>An enclave with a guest agent, whose co-signer says on \<open>/health\<close> that it does not attest.\<close>

definition demo_tee :: "unit enclave" where
  "demo_tee = \<lparr>en_env = [''TEE_REQUIRED'' \<mapsto> ''1''],
     en_site = \<lparr>se_root = [], se_accounts = [], se_bot = None, se_max = 1, se_env = (\<lambda>_. None)\<rparr>,
     en_agent = True, en_kms = KmsBytes (replicate 16 7), en_tls = TlsKey [''pem''] (Some ''key''),
     en_crypto = demo_crypto, en_operator = True, en_thumbprint = (\<lambda>_. []),
     en_net = (\<lambda>_ _ _ _ _ w. (Reply 200 [] (Some (JObj [(''attestation'', JStr ''dev-insecure'')])), w))\<rparr>"

definition demo_moment :: moment where
  "demo_moment = \<lparr>mo_wall = 1000, mo_answered = 1001, mo_created = 0, mo_mono = 0, mo_dek = replicate 32 9,
     mo_seal = replicate 12 1, mo_nonce = replicate 12 2\<rparr>"

definition demo_proc :: "unit proc" where
  "demo_proc = \<lparr>pr_store = \<lparr>st_manifest = None, st_log = empty_log, st_files = (\<lambda>_ _. None), st_deks = (\<lambda>_. None)\<rparr>,
     pr_world = (), pr_secret = None, pr_identity = None, pr_attested = False, pr_jwk = None,
     pr_last_alert = 0, pr_alerts = []\<rparr>"

lemma demo_tee_fields:
  "en_crypto demo_tee = demo_crypto" "tee_required (en_env demo_tee)"
  "released_secret demo_tee = Inr (replicate 16 7)" "secret_ok demo_tee demo_proc"
proof -
  show "tee_required (en_env demo_tee)"
    by (simp add: demo_tee_def tee_required_def env_get_def) code_simp
qed (simp_all add: demo_tee_def released_secret_def decode_kms_key_def secret_ok_def demo_proc_def)

theorem inner_layer_opens_for_its_handle_witness:
  "\<exists>inner t. fst (open_dek demo_tee ''h'' inner 1 t) = Inr (replicate 32 9)
     \<and> (\<exists>m. fst (open_dek demo_tee ''g'' inner 1 t) = Inl (CustodyError m))"
proof -
  obtain inner t where run: "seal_dek demo_tee (replicate 12 1) ''h'' (replicate 32 9) 1 demo_proc = (Inr inner, t)"
    by (simp add: seal_dek_def KEY_LEN_def app_secret_eval demo_tee_fields)
  from inner_layer_opens_for_its_handle [OF _ _ _ demo_tee_fields(4) run, of "''g''" 1] demo_crypto_laws
  show ?thesis by (auto simp: demo_tee_fields)
qed

theorem unattested_cosigner_gets_nothing_witness:
  "\<exists>e t. client_request demo_tee demo_moment ''POST'' ''/wrap'' None demo_proc = (Inl e, t) \<and> \<not> pr_attested t"
proof -
  obtain r t where run: "client_request demo_tee demo_moment ''POST'' ''/wrap'' None demo_proc = (r, t)" by fastforce
  have "\<not> (\<exists>w. health_says_required demo_tee (pr_world demo_proc) w)"
    by (simp add: health_says_required_def demo_tee_def)
  from unattested_cosigner_gets_nothing [OF demo_tee_fields(2) _ _ this run] run
  show ?thesis by (auto simp: demo_proc_def)
qed

end
