(* ===== verification/Keyring.thy ===== *)
theory Keyring
  imports Server Custody TtlCache
begin

text \<open>
  \<open>backend/custody/keyring.py\<close> and \<open>backend/custody/rotate.py\<close>: one data key per account and
  the documents encrypted under it. The record on disk, the two ways a key is opened (metered
  and uncached for a token refresh, cached for a document), writing, reading and clearing a
  document, and the rotation that moves every record to the co-signer's current key.
\<close>

section \<open>Working on the store\<close>

definition read_store :: "(store \<Rightarrow> acct_error + 'a) \<Rightarrow> ('w, 'a) custody" where
  "read_store f s = (lift_err AccountError (f (pr_store s)), s)"

definition change_store :: "(store \<Rightarrow> store) \<Rightarrow> ('w, unit) custody" where
  "change_store f s = (Inr (), s\<lparr>pr_store := f (pr_store s)\<rparr>)"

section \<open>The record on disk\<close>

definition RECORD_MAGIC :: bytes where "RECORD_MAGIC = [76, 76, 68, 75]"
definition RECORD_VERSION :: nat where "RECORD_VERSION = 1"
definition HEADER_LEN :: nat where "HEADER_LEN = length RECORD_MAGIC + 2"

definition encode_record :: "nat \<Rightarrow> bytes \<Rightarrow> custody_error + bytes" where
  "encode_record v outer =
     (if 255 < v then Inl (AssertFail (''key_version '' @ str_nat v @ '' does not fit a byte''))
      else if outer = [] then Inl (AssertFail ''encode_record needs an outer ciphertext'')
      else Inr (RECORD_MAGIC @ [word_of_nat RECORD_VERSION, word_of_nat v] @ outer))"

definition decode_record :: "bytes \<Rightarrow> custody_error + nat \<times> bytes" where
  "decode_record blob =
     (if length blob \<le> HEADER_LEN
      then Inl (BadRecord (''data key record is '' @ str_nat (length blob) @ '' bytes, too short to hold a header''))
      else if take (length RECORD_MAGIC) blob \<noteq> RECORD_MAGIC then Inl (BadRecord ''not a Letterlock data key record'')
      else let version = unat (blob ! 4); v = unat (blob ! 5)
           in if version \<noteq> RECORD_VERSION
              then Inl (BadRecord (''data key record version '' @ str_nat version @ '' is not 1''))
              else Inr (v, drop HEADER_LEN blob))"

definition put_doc :: "string \<Rightarrow> string \<Rightarrow> bytes \<Rightarrow> ('w, unit) custody" where
  "put_doc dir name blob = change_store (put_file dir name blob)"

definition store_record :: "string \<Rightarrow> bytes \<Rightarrow> nat \<Rightarrow> ('w, unit) custody" where
  "store_record uid outer v =
     and_then (read_store (\<lambda>_. account_dir uid)) (\<lambda>dir.
     and_then (of_sum (encode_record v outer)) (\<lambda>blob. put_doc dir DEK_FILE blob))"

text \<open>\<open>BadRecord\<close> is what a caller sees as a missing key.\<close>

definition record_of :: "bytes \<Rightarrow> custody_error + nat \<times> bytes" where
  "record_of blob =
     (case decode_record blob of
        Inl e \<Rightarrow> Inl (case e of BadRecord err \<Rightarrow> NoDataKey err | _ \<Rightarrow> e) | Inr x \<Rightarrow> Inr x)"

lemma record_of_Inr [simp]: "record_of blob = Inr x \<longleftrightarrow> decode_record blob = Inr x"
  by (simp add: record_of_def split: sum.splits)

definition load_record :: "string \<Rightarrow> ('w, nat \<times> bytes) custody" where
  "load_record uid =
     and_then (read_store (file_at uid DEK_FILE)) (\<lambda>f.
     case f of
       None \<Rightarrow> raise (NoDataKey ''no data key record'')
     | Some blob \<Rightarrow> of_sum (record_of blob))"

section \<open>The cache of opened keys\<close>

definition DEK_TTL :: secs where "DEK_TTL = 300"

definition dek_get :: "secs \<Rightarrow> string \<Rightarrow> dek_cache \<Rightarrow> bytes option" where
  "dek_get now uid c = (case c uid of None \<Rightarrow> None | Some (dek, expiry) \<Rightarrow> if now < expiry then Some dek else None)"

definition dek_put :: "secs \<Rightarrow> string \<Rightarrow> bytes \<Rightarrow> dek_cache \<Rightarrow> dek_cache" where
  "dek_put now uid dek c = c(uid \<mapsto> (dek, now + DEK_TTL))"

definition remember :: "secs \<Rightarrow> string \<Rightarrow> bytes \<Rightarrow> ('w, unit) custody" where
  "remember now uid dek = change_store (\<lambda>st. st\<lparr>st_deks := dek_put now uid dek (st_deks st)\<rparr>)"

interpretation opened_keys: ttl_cache dek_get dek_put "\<lambda>k c. c(k := None)" "\<lambda>_. None" "\<lambda>_. DEK_TTL"
  by unfold_locales (auto simp: dek_get_def dek_put_def)

section \<open>Opening the key\<close>

definition check_handle_of :: "string \<Rightarrow> ('w, string) custody" where
  "check_handle_of handle = of_sum (lift_err AccountError (check_handle (Some handle)))"

definition create :: "'w enclave \<Rightarrow> moment \<Rightarrow> string \<Rightarrow> string \<Rightarrow> ('w, unit) custody" where
  "create E m uid handle =
     and_then (check_handle_of handle) (\<lambda>_.
     and_then (read_store (has_key uid)) (\<lambda>there.
     and_then (demand (\<not> there) (DataKeyExists uid)) (\<lambda>_.
     and_then (seal_dek E (mo_seal m) handle (mo_dek m) KEY_VERSION) (\<lambda>inner.
     and_then (client_wrap E m handle inner) (\<lambda>outer.
     and_then (store_record uid outer KEY_VERSION) (\<lambda>_.
     remember (mo_created m) uid (mo_dek m)))))))"

definition open_key :: "'w enclave \<Rightarrow> moment \<Rightarrow> string \<Rightarrow> string \<Rightarrow> ('w, bytes) custody" where
  "open_key E m uid handle =
     and_then (check_handle_of handle) (\<lambda>_.
     and_then (load_record uid) (\<lambda>(v, outer).
     and_then (client_unwrap E m handle outer) (\<lambda>inner. open_dek E handle inner v)))"

definition release_for_refresh ::
  "'w enclave \<Rightarrow> moment \<Rightarrow> string \<Rightarrow> string \<Rightarrow> string \<Rightarrow> string \<Rightarrow> string option \<Rightarrow> ('w, bytes \<times> json) custody" where
  "release_for_refresh E m uid handle htm htu nonce =
     and_then (check_handle_of handle) (\<lambda>_.
     and_then (load_record uid) (\<lambda>(v, outer).
     and_then (unwrap_and_sign E m handle outer htm htu nonce) (\<lambda>(inner, proof).
     and_then (open_dek E handle inner v) (\<lambda>dek. give (dek, proof)))))"

definition rewrap_record :: "'w enclave \<Rightarrow> moment \<Rightarrow> string \<Rightarrow> string \<Rightarrow> ('w, unit) custody" where
  "rewrap_record E m uid handle =
     and_then (check_handle_of handle) (\<lambda>_.
     and_then (load_record uid) (\<lambda>(v, outer).
     and_then (client_rewrap E m handle outer) (\<lambda>outer'. store_record uid outer' v)))"

section \<open>Accounts\<close>

text \<open>An \<open>Account\<close>, or the pair onboarding passes before the manifest has the entry.\<close>

datatype subject = Pair string string | Acct account

definition identify :: "subject \<Rightarrow> custody_error + string \<times> string" where
  "identify a =
     (let (uid, handle) = (case a of Pair u h \<Rightarrow> (u, Some h) | Acct acct \<Rightarrow> (ac_id acct, ac_handle acct))
      in if uid = [] then Inl (AssertFail ''custody needs an account object or an (id, handle) pair'')
         else if \<not> truthy handle then Inl (AssertFail (''account '' @ uid @ '' has no opaque handle''))
         else case lift_err AccountError (check_id uid) of
             Inl e \<Rightarrow> Inl e
           | Inr u \<Rightarrow> (case lift_err AccountError (check_handle handle) of Inl e \<Rightarrow> Inl e | Inr h \<Rightarrow> Inr (u, h)))"

definition refuse_if_deleted :: "'w enclave \<Rightarrow> subject \<Rightarrow> string \<Rightarrow> ('w, unit) custody" where
  "refuse_if_deleted E a uid s =
     (case a of
        Pair _ _ \<Rightarrow> (Inr (), s)
      | Acct _ \<Rightarrow>
          if st_manifest (pr_store s) = None then (Inr (), s)
          else case account_for_email (en_site E) (Some uid) True (pr_store s) of
              Inl e \<Rightarrow> (Inl (AccountError e), s)
            | Inr (Some _) \<Rightarrow> (Inr (), s)
            | Inr None \<Rightarrow> (Inl (AccountGone uid), s\<lparr>pr_store := forget_keys (Some uid) (pr_store s)\<rparr>))"

definition dek_for :: "'w enclave \<Rightarrow> moment \<Rightarrow> subject \<Rightarrow> ('w, bytes) custody" where
  "dek_for E m a =
     and_then (of_sum (identify a)) (\<lambda>(uid, handle).
     and_then (read_store (\<lambda>st. Inr (dek_get (mo_mono m) uid (st_deks st)))) (\<lambda>cached.
     case cached of
       Some dek \<Rightarrow> give dek
     | None \<Rightarrow>
         and_then (open_key E m uid handle) (\<lambda>dek.
         and_then (remember (mo_mono m) uid dek) (\<lambda>_. give dek))))"

section \<open>Documents\<close>

definition doc_aad :: "string \<Rightarrow> string \<Rightarrow> string" where
  "doc_aad handle name = handle @ ''|'' @ name"

definition encrypt :: "crypto \<Rightarrow> bytes \<Rightarrow> bytes \<Rightarrow> string \<Rightarrow> string \<Rightarrow> bytes \<Rightarrow> custody_error + bytes" where
  "encrypt C nonce dek handle name data =
     (if length dek \<noteq> KEY_LEN then Inl (AssertFail ''a data key is 32 bytes'')
      else if name = [] then Inl (AssertFail ''encrypt needs the name the ciphertext will be stored as'')
      else Inr (nonce @ aead_enc C dek nonce (doc_aad handle name) data))"

definition decrypt :: "crypto \<Rightarrow> bytes \<Rightarrow> string \<Rightarrow> string \<Rightarrow> bytes \<Rightarrow> custody_error + bytes" where
  "decrypt C dek handle name blob =
     (if length dek \<noteq> KEY_LEN then Inl (AssertFail ''a data key is 32 bytes'')
      else if name = [] then Inl (AssertFail ''decrypt needs the name the ciphertext was stored as'')
      else if length blob \<le> NONCE_LEN + TAG_LEN
        then Inl (BadRecord (name @ '' is '' @ str_nat (length blob) @ '' bytes, too short to be sealed output''))
      else case aead_dec C dek (take NONCE_LEN blob) (doc_aad handle name) (drop NONCE_LEN blob) of
          None \<Rightarrow> Inl (CustodyError (name @ '' did not open under this account's data key''))
        | Some data \<Rightarrow> Inr data)"

definition write_encrypted :: "'w enclave \<Rightarrow> moment \<Rightarrow> subject \<Rightarrow> string \<Rightarrow> string \<Rightarrow> ('w, unit) custody" where
  "write_encrypted E m a name body =
     and_then (of_sum (identify a)) (\<lambda>(uid, handle).
     and_then (read_store (has_key uid)) (\<lambda>there.
     and_then (if there then give ()
               else and_then (refuse_if_deleted E a uid) (\<lambda>_. create E m uid handle)) (\<lambda>_.
     and_then (read_store (\<lambda>_. account_dir uid)) (\<lambda>dir.
     and_then (dek_for E m a) (\<lambda>dek.
     and_then (of_sum (encrypt (en_crypto E) (mo_nonce m) dek handle name (utf8 body))) (\<lambda>blob.
     put_doc dir name blob))))))"

definition decode_text :: "bytes \<Rightarrow> custody_error + string" where
  "decode_text raw = (case utf8_decode raw of None \<Rightarrow> Inl (Uncaught ''UnicodeDecodeError'') | Some t \<Rightarrow> Inr t)"

text \<open>None is the default of a missing file.\<close>

definition read_encrypted :: "'w enclave \<Rightarrow> moment \<Rightarrow> subject \<Rightarrow> string \<Rightarrow> ('w, string option) custody" where
  "read_encrypted E m a name =
     and_then (of_sum (identify a)) (\<lambda>(uid, handle).
     and_then (read_store (file_at uid name)) (\<lambda>f.
     case f of
       None \<Rightarrow> give None
     | Some blob \<Rightarrow>
         and_then (dek_for E m a) (\<lambda>dek.
         and_then (of_sum (decrypt (en_crypto E) dek handle name blob)) (\<lambda>raw.
         and_then (of_sum (decode_text raw)) (\<lambda>t. give (Some t))))))"

definition clear_encrypted :: "subject \<Rightarrow> string \<Rightarrow> ('w, bool) custody" where
  "clear_encrypted a name =
     and_then (of_sum (identify a)) (\<lambda>(uid, _).
     and_then (read_store (file_at uid name)) (\<lambda>f.
     if f = None then give False
     else and_then (change_store (drop_file uid name)) (\<lambda>_. give True)))"

section \<open>Rotation\<close>

fun with_record :: "account list \<Rightarrow> store \<Rightarrow> acct_error + account list" where
  "with_record [] st = Inr []"
| "with_record (a # as) st =
     (if \<not> truthy (ac_handle a) then with_record as st
      else case has_key (ac_id a) st of
          Inl e \<Rightarrow> Inl e
        | Inr b \<Rightarrow>
            (case with_record as st of Inl e \<Rightarrow> Inl e | Inr found \<Rightarrow> Inr (if b then a # found else found)))"

definition candidates :: "'w enclave \<Rightarrow> store \<Rightarrow> acct_error + account list" where
  "candidates E st = (case all_accounts (en_site E) st of Inl e \<Rightarrow> Inl e | Inr as \<Rightarrow> with_record as st)"

fun rotate_each :: "'w enclave \<Rightarrow> moment \<Rightarrow> account list \<Rightarrow> ('w, nat) custody" where
  "rotate_each E m [] = give 0"
| "rotate_each E m (a # as) =
     and_then (rewrap_record E m (ac_id a) (str_or (ac_handle a) '''')) (\<lambda>_.
     and_then (change_store (forget_keys (Some (ac_id a)))) (\<lambda>_.
     and_then (rotate_each E m as) (\<lambda>n. give (Suc n))))"

definition rotate :: "'w enclave \<Rightarrow> moment \<Rightarrow> bool \<Rightarrow> ('w, nat \<times> nat) custody" where
  "rotate E m apply_it =
     and_then (read_store (candidates E)) (\<lambda>as.
     and_then (if apply_it then rotate_each E m as else give 0) (\<lambda>n. give (n, length as - n)))"

section \<open>The record format\<close>

lemma six_bytes: "6 < length blob \<Longrightarrow> \<exists>a b c d e f r. blob = a # b # c # d # e # f # r \<and> r \<noteq> []"
  by (cases blob; cases "tl blob"; cases "tl (tl blob)"; cases "tl (tl (tl blob))";
      cases "tl (tl (tl (tl blob)))"; cases "tl (tl (tl (tl (tl blob))))") auto

lemmas record_defs = encode_record_def decode_record_def RECORD_MAGIC_def RECORD_VERSION_def HEADER_LEN_def

text \<open>
  The record format is exact: the decoder accepts precisely what the encoder writes, so a
  truncated file, another magic or another schema version is refused, and a record carries its
  inner key version and its ciphertext unchanged.
\<close>

theorem record_format_exact: "decode_record blob = Inr (v, outer) \<longleftrightarrow> encode_record v outer = Inr blob"
proof
  assume d: "decode_record blob = Inr (v, outer)"
  then have "6 < length blob" by (auto simp: record_defs split: if_splits)
  from six_bytes [OF this] obtain a b c x e f r where blob: "blob = a # b # c # x # e # f # r" "r \<noteq> []"
    by blast
  from d have "a = 76" "b = 76" "c = 68" "x = 75" "unat e = 1" "v = unat f" "outer = r"
    unfolding blob(1) by (auto simp: record_defs Let_def split: if_splits)
  moreover have "e = 1" using \<open>unat e = 1\<close> by (metis unat_1 word_unat_eq_iff)
  moreover have "unat f < 2 ^ LENGTH(8)" by (rule unsigned_less)
  then have "unat f < 256" by simp
  ultimately show "encode_record v outer = Inr blob" using blob \<open>unat f < 256\<close> by (simp add: record_defs)
next
  assume e: "encode_record v outer = Inr blob"
  then have "v < 256" "outer \<noteq> []" "blob = RECORD_MAGIC @ [1, word_of_nat v] @ outer"
    by (auto simp: record_defs split: if_splits)
  moreover have "unat (word_of_nat v :: 8 word) = v" using \<open>v < 256\<close> by (simp add: unat_of_nat)
  ultimately show "decode_record blob = Inr (v, outer)"
    by (cases outer) (auto simp: record_defs Let_def)
qed

lemma decode_encode: "encode_record v outer = Inr blob \<Longrightarrow> decode_record blob = Inr (v, outer)"
proof -
  assume e: "encode_record v outer = Inr blob"
  then have "v < 256" "outer \<noteq> []" "blob = RECORD_MAGIC @ [1, word_of_nat v] @ outer"
    by (auto simp: record_defs split: if_splits)
  moreover have "unat (word_of_nat v :: 8 word) = v" using \<open>v < 256\<close> by (simp add: unat_of_nat)
  ultimately show ?thesis by (cases outer) (auto simp: record_defs Let_def)
qed

section \<open>What the two boxes hold together\<close>

text \<open>
  The co-signer as the other end of the wire: an answer of 200 to a POST is the answer of the
  modelled server to that body, on a host with these keys. Everything else the network may do,
  and every refusal of the server, is allowed.
\<close>

definition honest :: "keystore \<Rightarrow> 'w enclave \<Rightarrow> bool" where
  "honest ks E \<longleftrightarrow>
     (\<forall>path body i ca w detail kvs w'.
        en_net E ''POST'' (cosigner_url (en_env E) path) (Some body) i ca w = (Reply 200 detail (Some (JObj kvs)), w') \<longrightarrow>
        (\<exists>h ao rq sv sv'. h_crypto h = en_crypto E \<and> h_keys h = ks \<and> length (h_nonce h) = 12
           \<and> rq_path rq = path \<and> read_body rq = Inr body \<and> do_POST h ao rq sv = ((200, kvs), sv')))"

text \<open>The data key a record opens to under both keys: what neither box can compute alone.\<close>

definition record_key :: "crypto \<Rightarrow> keystore \<Rightarrow> bytes \<Rightarrow> string \<Rightarrow> bytes \<Rightarrow> bytes option" where
  "record_key C ks secret handle blob =
     (case decode_record blob of
        Inl _ \<Rightarrow> None
      | Inr (v, outer) \<Rightarrow>
         (case unwrap C ks handle outer of
            Inl _ \<Rightarrow> None
          | Inr inner \<Rightarrow>
             (case open_inner C secret handle inner v of Inl _ \<Rightarrow> None | Inr dek \<Rightarrow> Some dek)))"

definition stored_key :: "crypto \<Rightarrow> keystore \<Rightarrow> bytes \<Rightarrow> store \<Rightarrow> string \<Rightarrow> string \<Rightarrow> bytes option" where
  "stored_key C ks secret st uid handle =
     (case st_files st uid DEK_FILE of None \<Rightarrow> None | Some blob \<Rightarrow> record_key C ks secret handle blob)"

lemma client_request_POST:
  assumes "client_request E m ''POST'' path (Some body) s = (Inr kvs, t)" and "path \<noteq> ''/health''" and "honest ks E"
  shows "\<exists>h ao rq sv sv'. h_crypto h = en_crypto E \<and> h_keys h = ks \<and> length (h_nonce h) = 12
    \<and> rq_path rq = path \<and> read_body rq = Inr body \<and> do_POST h ao rq sv = ((200, kvs), sv')"
proof -
  from assms(1,2) obtain s1 where "raw_request E m ''POST'' path (Some body) s1 = (Inr kvs, t)"
    by (auto simp: client_request_def)
  from raw_request_Inr [OF this] obtain i detail where
    "en_net E ''POST'' (cosigner_url (en_env E) path) (Some body) i (env_get (en_env E) ''COSIGNER_CA'') (pr_world s1)
       = (Reply 200 detail (Some (JObj kvs)), pr_world t)" by metis
  with assms(3) show ?thesis unfolding honest_def by blast
qed

lemma wire_bytes_Inr [simp]: "wire_bytes j = Inr raw \<longleftrightarrow> (\<exists>x. j = JStr x \<and> unb64 x = Some raw)"
  by (auto simp: wire_bytes_def split: json.splits option.splits)

lemma asks_simps [simp]:
  "asks_for (JObj kvs) name x \<longleftrightarrow> jget kvs name = JStr x"
  by (auto simp: asks_for_def)

lemma wrap_200':
  assumes "wrap_request h body v s = (Inr (None, p), s')" and "asks_for body ''uid'' uid"
    and "asks_for body ''inner'' it" and "unb64 it = Some inner"
  shows "\<exists>outer. wrap (h_crypto h) (h_keys h) (h_nonce h) uid inner = Inr outer \<and> p = [(''outer'', JStr (b64 outer))]"
  using assms by (auto simp: wrap_request_def asks_for_def split: sum.splits dest!: guarded_ok)

lemma rewrap_200:
  assumes "rewrap_request h body v s = (Inr (None, p), s')" and "asks_for body ''uid'' uid"
    and "asks_for body ''outer'' (b64 outer)"
  shows "\<exists>outer'. rewrap (h_crypto h) (h_keys h) (h_nonce h) uid outer = Inr outer'
    \<and> p = [(''outer'', JStr (b64 outer'))]"
  using assms
  by (auto simp: rewrap_request_def asks_for_def wire.round_trip split: sum.splits dest!: guarded_ok)

lemma unwrap_200:
  assumes "unwrap_request h body v s = (Inr (None, p), s')" and "asks_for body ''uid'' uid"
    and "asks_for body ''outer'' (b64 outer)"
  shows "\<exists>inner pr. unwrap (h_crypto h) (h_keys h) uid outer = Inr inner
    \<and> p = [(''inner'', JStr (b64 inner)), (''proof'', JStr pr)]"
  using assms
  by (auto simp: unwrap_request_def asks_for_def wire.round_trip split: sum.splits prod.splits dest!: guarded_ok)

text \<open>The four calls, as the co-signer's own functions.\<close>

lemma client_wrap_Inr:
  assumes "client_wrap E m handle inner s = (Inr outer, t)" and "honest ks E"
  shows "\<exists>nonce. length nonce = 12 \<and> wrap (en_crypto E) ks nonce handle inner = Inr outer"
proof -
  from assms(1) obtain kvs where req: "client_request E m ''POST'' ''/wrap''
      (Some (JObj [(''uid'', JStr handle), (''inner'', JStr (b64 inner))])) s = (Inr kvs, t)"
    and o: "wire_bytes (jget kvs ''outer'') = Inr outer"
    by (auto simp: client_wrap_def Let_def split: if_splits)
  have ne: "''/wrap'' \<noteq> ''/health''" by simp
  from client_request_POST [OF req ne assms(2)] obtain h ao rq sv sv' where
    h: "h_crypto h = en_crypto E" "h_keys h = ks" "length (h_nonce h) = 12" "rq_path rq = ''/wrap''"
      "read_body rq = Inr (JObj [(''uid'', JStr handle), (''inner'', JStr (b64 inner))])"
    and post: "do_POST h ao rq sv = ((200, kvs), sv')" by blast
  from post_200_handler [OF post] h(4,5) obtain v where
    "wrap_request h (JObj [(''uid'', JStr handle), (''inner'', JStr (b64 inner))]) v (sv_cosigner sv)
       = (Inr (None, kvs), sv_cosigner sv')" by (auto simp: endpoint_def)
  from wrap_200' [OF this, of handle "b64 inner" inner] h o show ?thesis
    by (auto simp: wire.round_trip intro!: exI [of _ "h_nonce h"])
qed

lemma client_unwrap_Inr:
  assumes "client_unwrap E m handle outer s = (Inr inner, t)" and "honest ks E"
  shows "unwrap (en_crypto E) ks handle outer = Inr inner"
proof -
  from assms(1) obtain kvs where req: "client_request E m ''POST'' ''/unwrap''
      (Some (JObj [(''uid'', JStr handle), (''outer'', JStr (b64 outer))])) s = (Inr kvs, t)"
    and o: "wire_bytes (jget kvs ''inner'') = Inr inner"
    by (auto simp: client_unwrap_def Let_def split: if_splits)
  have ne: "''/unwrap'' \<noteq> ''/health''" by simp
  from client_request_POST [OF req ne assms(2)] obtain h ao rq sv sv' where
    h: "h_crypto h = en_crypto E" "h_keys h = ks" "rq_path rq = ''/unwrap''"
      "read_body rq = Inr (JObj [(''uid'', JStr handle), (''outer'', JStr (b64 outer))])"
    and post: "do_POST h ao rq sv = ((200, kvs), sv')" by blast
  from post_200_handler [OF post] h(3,4) obtain v where
    "unwrap_data_request h (JObj [(''uid'', JStr handle), (''outer'', JStr (b64 outer))]) v (sv_cosigner sv)
       = (Inr (None, kvs), sv_cosigner sv')" by (auto simp: endpoint_def)
  from unwrap_data_200 [OF this, of handle outer] h o show ?thesis
    by (auto simp: wire.round_trip)
qed

lemma client_rewrap_Inr:
  assumes "client_rewrap E m handle outer s = (Inr outer', t)" and "honest ks E"
  shows "\<exists>nonce. length nonce = 12 \<and> rewrap (en_crypto E) ks nonce handle outer = Inr outer'"
proof -
  from assms(1) obtain kvs where req: "client_request E m ''POST'' ''/rewrap''
      (Some (JObj [(''uid'', JStr handle), (''outer'', JStr (b64 outer))])) s = (Inr kvs, t)"
    and o: "wire_bytes (jget kvs ''outer'') = Inr outer'"
    by (auto simp: client_rewrap_def Let_def split: if_splits)
  have ne: "''/rewrap'' \<noteq> ''/health''" by simp
  from client_request_POST [OF req ne assms(2)] obtain h ao rq sv sv' where
    h: "h_crypto h = en_crypto E" "h_keys h = ks" "length (h_nonce h) = 12" "rq_path rq = ''/rewrap''"
      "read_body rq = Inr (JObj [(''uid'', JStr handle), (''outer'', JStr (b64 outer))])"
    and post: "do_POST h ao rq sv = ((200, kvs), sv')" by blast
  from post_200_handler [OF post] h(4,5) obtain v where
    "rewrap_request h (JObj [(''uid'', JStr handle), (''outer'', JStr (b64 outer))]) v (sv_cosigner sv)
       = (Inr (None, kvs), sv_cosigner sv')" by (auto simp: endpoint_def)
  from rewrap_200 [OF this, of handle outer] h o show ?thesis
    by (auto simp: wire.round_trip intro!: exI [of _ "h_nonce h"])
qed

lemma unwrap_and_sign_Inr:
  assumes "unwrap_and_sign E m handle outer htm htu nonce s = (Inr (inner, pr), t)" and "honest ks E"
  shows "unwrap (en_crypto E) ks handle outer = Inr inner"
proof -
  define body where "body = JObj ([(''uid'', JStr handle), (''outer'', JStr (b64 outer))] @ proof_body htm htu nonce)"
  from assms(1) obtain kvs where req: "client_request E m ''POST'' ''/unwrap-and-sign'' (Some body) s = (Inr kvs, t)"
    and o: "wire_bytes (jget kvs ''inner'') = Inr inner"
    by (auto simp: unwrap_and_sign_def Let_def body_def split: if_splits)
  have ne: "''/unwrap-and-sign'' \<noteq> ''/health''" by simp
  from client_request_POST [OF req ne assms(2)] obtain h ao rq sv sv' where
    h: "h_crypto h = en_crypto E" "h_keys h = ks" "rq_path rq = ''/unwrap-and-sign''" "read_body rq = Inr body"
    and post: "do_POST h ao rq sv = ((200, kvs), sv')" by blast
  from post_200_handler [OF post] h(3,4) obtain v where
    "unwrap_request h body v (sv_cosigner sv) = (Inr (None, kvs), sv_cosigner sv')" by (auto simp: endpoint_def)
  from unwrap_200 [OF this, of handle outer] h o show ?thesis
    by (auto simp: wire.round_trip body_def)
qed

end
