(* ===== verification/KeyringRun.thy ===== *)
theory KeyringRun
  imports Keyring
begin

text \<open>
  What the keyring promises: seen through both keys, the store is a plain map from an account
  and a file name to the bytes last written there. Every operation of the keyring is one
  operation of that map; opening, caching, refreshing and rotating are none.
\<close>

section \<open>The view through both keys\<close>

definition account_key :: "'w enclave \<Rightarrow> keystore \<Rightarrow> (string \<Rightarrow> string) \<Rightarrow> store \<Rightarrow> string \<Rightarrow> bytes option" where
  "account_key E ks hs st uid =
     (case released_secret E of
        Inl _ \<Rightarrow> None | Inr secret \<Rightarrow> stored_key (en_crypto E) ks secret st uid (hs uid))"

definition readable :: "crypto \<Rightarrow> bytes \<Rightarrow> string \<Rightarrow> string \<Rightarrow> bytes \<Rightarrow> bytes option" where
  "readable C dek handle name blob = (case decrypt C dek handle name blob of Inl _ \<Rightarrow> None | Inr p \<Rightarrow> Some p)"

definition vault :: "'w enclave \<Rightarrow> keystore \<Rightarrow> (string \<Rightarrow> string) \<Rightarrow> store \<Rightarrow> string \<times> string \<Rightarrow> bytes option" where
  "vault E ks hs st = (\<lambda>(uid, name).
     if name = DEK_FILE then None
     else case (account_key E ks hs st uid, st_files st uid name) of
         (Some dek, Some blob) \<Rightarrow> readable (en_crypto E) dek (hs uid) name blob
       | _ \<Rightarrow> None)"

datatype vault_op = Quiet | Put string string bytes | Drop string string | Shred string

fun vault_apply :: "vault_op \<Rightarrow> (string \<times> string \<Rightarrow> bytes option) \<Rightarrow> string \<times> string \<Rightarrow> bytes option" where
  "vault_apply Quiet v = v"
| "vault_apply (Put uid name body) v = v((uid, name) \<mapsto> body)"
| "vault_apply (Drop uid name) v = v((uid, name) := None)"
| "vault_apply (Shred uid) v = (\<lambda>(u, n). if u = uid then None else v (u, n))"

text \<open>Every key in memory is the key of the record on disk, and the cached secret is the released one.\<close>

definition keyring_inv :: "'w enclave \<Rightarrow> keystore \<Rightarrow> (string \<Rightarrow> string) \<Rightarrow> 'w proc \<Rightarrow> bool" where
  "keyring_inv E ks hs s \<longleftrightarrow>
     secret_ok E s
     \<and> (\<forall>uid k e. st_deks (pr_store s) uid = Some (k, e) \<longrightarrow> account_key E ks hs (pr_store s) uid = Some k)"

definition quiet :: "'w enclave \<Rightarrow> keystore \<Rightarrow> (string \<Rightarrow> string) \<Rightarrow> 'w proc \<Rightarrow> 'w proc \<Rightarrow> bool" where
  "quiet E ks hs s t \<longleftrightarrow>
     st_files (pr_store t) = st_files (pr_store s) \<and> (keyring_inv E ks hs s \<longrightarrow> keyring_inv E ks hs t)"

interpretation silent: kept_relation "quiet E ks hs" for E ks hs
  by unfold_locales (auto simp: quiet_def)

lemma account_key_files:
  "st_files st' uid DEK_FILE = st_files st uid DEK_FILE \<Longrightarrow> account_key E ks hs st' uid = account_key E ks hs st uid"
  by (simp add: account_key_def stored_key_def split: sum.splits)

lemma vault_files: "st_files st' = st_files st \<Longrightarrow> vault E ks hs st' = vault E ks hs st"
  by (auto simp: vault_def fun_eq_iff account_key_def stored_key_def split: sum.splits option.splits)

lemma quiet_vault: "quiet E ks hs s t \<Longrightarrow> vault E ks hs (pr_store t) = vault E ks hs (pr_store s)"
  unfolding quiet_def by (blast intro: vault_files)

lemma channel_quiet: "channel_kept E s t \<Longrightarrow> quiet E ks hs s t"
  by (auto simp: channel_kept_def quiet_def keyring_inv_def)

lemma keeps_channel_quiet: "channel.keeps E f \<Longrightarrow> silent.keeps E ks hs f"
  by (rule silent.keepsI) (blast intro: channel_quiet channel.keepsD)

lemma quiet_forget: "quiet E ks hs s (s\<lparr>pr_store := forget_keys u (pr_store s)\<rparr>)"
proof -
  have "account_key E ks hs (forget_keys u (pr_store s)) = account_key E ks hs (pr_store s)"
    by (rule ext, rule account_key_files) simp
  then show ?thesis
    by (cases u) (auto simp: quiet_def keyring_inv_def secret_ok_def split: if_splits)
qed

section \<open>Each operation\<close>

lemma read_store_simps [simp]:
  "read_store f s = (Inr x, t) \<longleftrightarrow> f (pr_store s) = Inr x \<and> t = s"
  "change_store g s = (r, t) \<longleftrightarrow> r = Inr () \<and> t = s\<lparr>pr_store := g (pr_store s)\<rparr>"
  "check_handle_of h s = (Inr h', t) \<longleftrightarrow> h' = h \<and> is_handle h \<and> t = s"
  by (auto simp: read_store_def change_store_def check_handle_of_def)

lemma keeps_pure: "channel.keeps E (read_store f)" "channel.keeps E (check_handle_of h)" "channel.keeps E (load_record uid)"
proof -
  show *: "channel.keeps E (read_store f)" for f
    by (rule channel.keepsI) (auto simp: read_store_def channel.R_refl)
  show "channel.keeps E (check_handle_of h)"
    unfolding check_handle_of_def by (rule channel.keeps_of_sum)
  show "channel.keeps E (load_record uid)"
    unfolding load_record_def
    by (rule channel.keeps_and_then [OF *])
      (auto intro: channel.keeps_rules split: option.splits)
qed

lemma keeps_opening:
  "channel.keeps E (open_key E m uid handle)" "channel.keeps E (release_for_refresh E m uid handle htm htu nonce)"
  unfolding open_key_def release_for_refresh_def
  by (auto intro!: channel.keeps_rules keeps_pure keeps_calls keeps_open_dek)

lemma load_record_Inr:
  "load_record uid s = (Inr (v, outer), t) \<Longrightarrow>
   t = s \<and> account_dir uid = Inr uid \<and>
   (\<exists>blob. st_files (pr_store s) uid DEK_FILE = Some blob \<and> decode_record blob = Inr (v, outer))"
proof -
  assume "load_record uid s = (Inr (v, outer), t)"
  then obtain dir blob where "account_dir uid = Inr dir" "st_files (pr_store s) dir DEK_FILE = Some blob"
    "decode_record blob = Inr (v, outer)" "t = s"
    by (auto simp: load_record_def split: option.splits) metis
  with account_dir_Inr show ?thesis by blast
qed

lemma stored_keyI:
  assumes "st_files st uid DEK_FILE = Some blob" and "decode_record blob = Inr (v, outer)"
    and "unwrap (en_crypto E) ks (hs uid) outer = Inr inner" and "released_secret E = Inr secret"
    and "open_inner (en_crypto E) secret (hs uid) inner v = Inr dek"
  shows "account_key E ks hs st uid = Some dek"
  using assms by (simp add: account_key_def stored_key_def record_key_def)

lemma open_key_Inr:
  assumes "open_key E m uid (hs uid) s = (Inr dek, t)" and "honest ks E" and "secret_ok E s"
  shows "account_key E ks hs (pr_store s) uid = Some dek"
proof -
  from assms(1) obtain v outer inner s1 s0 where
    l: "load_record uid s = (Inr (v, outer), s0)" and
    u0: "client_unwrap E m (hs uid) outer s0 = (Inr inner, s1)" and
    o: "open_dek E (hs uid) inner v s1 = (Inr dek, t)"
    by (auto simp: open_key_def)
  note u = u0 [unfolded load_record_Inr [OF l, THEN conjunct1]]
  have "secret_ok E s1" using channel.keepsD [OF keeps_calls(4) u] assms(3) by (simp add: channel_kept_def)
  from open_dek_Inr [OF o this] client_unwrap_Inr [OF u assms(2)] load_record_Inr [OF l]
  show ?thesis by (auto intro: stored_keyI)
qed

lemma release_Inr:
  assumes "release_for_refresh E m uid (hs uid) htm htu nonce s = (Inr (dek, pr), t)" and "honest ks E" and "secret_ok E s"
  shows "account_key E ks hs (pr_store s) uid = Some dek"
proof -
  from assms(1) obtain v outer inner s1 s0 where
    l: "load_record uid s = (Inr (v, outer), s0)" and
    u0: "unwrap_and_sign E m (hs uid) outer htm htu nonce s0 = (Inr (inner, pr), s1)" and
    o: "open_dek E (hs uid) inner v s1 = (Inr dek, t)"
    by (auto simp: release_for_refresh_def)
  note u = u0 [unfolded load_record_Inr [OF l, THEN conjunct1]]
  have "secret_ok E s1" using channel.keepsD [OF keeps_calls(3) u] assms(3) by (simp add: channel_kept_def)
  from open_dek_Inr [OF o this] unwrap_and_sign_Inr [OF u assms(2)] load_record_Inr [OF l]
  show ?thesis by (auto intro: stored_keyI)
qed

lemma remember_quiet:
  assumes "account_key E ks hs (pr_store s) uid = Some dek"
  shows "quiet E ks hs s (s\<lparr>pr_store := (pr_store s)\<lparr>st_deks := dek_put now uid dek (st_deks (pr_store s))\<rparr>\<rparr>)"
proof -
  have "account_key E ks hs ((pr_store s)\<lparr>st_deks := d\<rparr>) = account_key E ks hs (pr_store s)" for d
    by (rule ext, rule account_key_files) simp
  then show ?thesis
    using assms by (auto simp: quiet_def keyring_inv_def secret_ok_def dek_put_def)
qed

text \<open>A key for a document comes from the cache or from the co-signer, and is the account's either way.\<close>

lemma dek_for_quiet:
  assumes "dek_for E m a s = (r, t)" and "identify a = Inr (uid, hs uid)" and "honest ks E" and "keyring_inv E ks hs s"
  shows "quiet E ks hs s t \<and> (\<forall>dek. r = Inr dek \<longrightarrow> account_key E ks hs (pr_store s) uid = Some dek)"
proof (cases "dek_get (mo_mono m) uid (st_deks (pr_store s))")
  case (Some dek)
  with assms(1,2) have "r = Inr dek" "t = s"
    by (simp_all add: dek_for_def and_then_def of_sum_def read_store_def give_def)
  moreover from Some obtain e where "st_deks (pr_store s) uid = Some (dek, e)"
    by (auto simp: dek_get_def split: option.splits if_splits)
  ultimately show ?thesis using assms(4) by (auto simp: keyring_inv_def silent.R_refl)
next
  case None
  obtain q u where q: "open_key E m uid (hs uid) s = (q, u)" by fastforce
  have su: "channel_kept E s u" by (rule channel.keepsD [OF keeps_opening(1) q])
  show ?thesis
  proof (cases q)
    case (Inl e)
    with None assms(1,2) q have "r = Inl e" "t = u"
      by (simp_all add: dek_for_def and_then_def of_sum_def read_store_def)
    with channel_quiet [OF su] show ?thesis by simp
  next
    case (Inr dek)
    with q assms(3,4) have key: "account_key E ks hs (pr_store s) uid = Some dek"
      by (auto intro: open_key_Inr simp: keyring_inv_def)
    moreover have "pr_store u = pr_store s" using su by (simp add: channel_kept_def)
    ultimately have "account_key E ks hs (pr_store u) uid = Some dek" by simp
    from remember_quiet [OF this] None Inr assms(1,2) q
    have "r = Inr dek" "quiet E ks hs u t"
      by (auto simp: dek_for_def and_then_def of_sum_def read_store_def remember_def change_store_def give_def)
    with key silent.R_trans [OF channel_quiet [OF su]] show ?thesis by blast
  qed
qed
lemma stays [dest]:
  "read_store f s = (Inl e, t) \<Longrightarrow> t = s" "check_handle_of h s = (Inl e, t) \<Longrightarrow> t = s"
  "store_record uid outer v s = (Inl e, t) \<Longrightarrow> t = s"
  by (auto simp: read_store_def check_handle_of_def store_record_def and_then_Inl put_doc_def)

lemma store_record_Inr:
  assumes "store_record uid outer v s = (Inr x, t)"
  shows "\<exists>blob. account_dir uid = Inr uid \<and> encode_record v outer = Inr blob
    \<and> t = s\<lparr>pr_store := put_file uid DEK_FILE blob (pr_store s)\<rparr>"
proof -
  from assms obtain dir blob where "account_dir uid = Inr dir" "encode_record v outer = Inr blob"
    "t = s\<lparr>pr_store := put_file dir DEK_FILE blob (pr_store s)\<rparr>"
    by (auto simp: store_record_def put_doc_def)
  with account_dir_Inr show ?thesis by blast
qed

lemma create_Inl:
  assumes "create E m uid handle s = (Inl e, t)"
  shows "channel_kept E s t"
  using assms
  by (auto simp: create_def and_then_Inl remember_def channel.R_refl
      dest!: channel.keepsD [OF keeps_calls(6)] channel.keepsD [OF keeps_calls(2)] intro: channel.R_trans)

text \<open>A made key opens: the record on disk holds it under both layers, and it is the one in memory.\<close>

lemma create_Inr:
  assumes "create E m uid (hs uid) s = (Inr x, t)" and "honest ks E" and "aead_inverts (en_crypto E)"
    and "secret_ok E s" and "length (mo_seal m) = 12"
  obtains blob where
    "pr_store t = (put_file uid DEK_FILE blob (pr_store s))\<lparr>st_deks := dek_put (mo_created m) uid (mo_dek m) (st_deks (pr_store s))\<rparr>"
    "secret_ok E t" "account_key E ks hs (pr_store t) uid = Some (mo_dek m)"
    "st_files (pr_store s) uid DEK_FILE = None" "account_dir uid = Inr uid"
proof -
  from assms(1) obtain inner outer s1 s2 s3 where
    none: "has_key uid (pr_store s) = Inr False" and
    seal: "seal_dek E (mo_seal m) (hs uid) (mo_dek m) KEY_VERSION s = (Inr inner, s1)" and
    wrapped: "client_wrap E m (hs uid) inner s1 = (Inr outer, s2)" and
    stored: "store_record uid outer KEY_VERSION s2 = (Inr (), s3)" and
    t: "t = s3\<lparr>pr_store := (pr_store s3)\<lparr>st_deks := dek_put (mo_created m) uid (mo_dek m) (st_deks (pr_store s3))\<rparr>\<rparr>"
    by (auto simp: create_def remember_def)
  from seal_dek_Inr [OF seal assms(4)] obtain secret where
    sec: "released_secret E = Inr secret" "secret_ok E s1" "pr_store s1 = pr_store s" "length (mo_dek m) = 32"
      "inner = mo_seal m @ aead_enc (en_crypto E) (inner_key (en_crypto E) (hs uid) KEY_VERSION secret)
         (mo_seal m) (hs uid) (mo_dek m)" by blast
  have s2: "pr_store s2 = pr_store s" "secret_ok E s2"
    using channel.keepsD [OF keeps_calls(2) wrapped] sec(2,3) by (simp_all add: channel_kept_def)
  from client_wrap_Inr [OF wrapped assms(2)] obtain nonce where
    w: "length nonce = 12" "wrap (en_crypto E) ks nonce (hs uid) inner = Inr outer" by blast
  from store_record_Inr [OF stored] s2 obtain blob where
    b: "account_dir uid = Inr uid" "encode_record KEY_VERSION outer = Inr blob"
      "s3 = s2\<lparr>pr_store := put_file uid DEK_FILE blob (pr_store s)\<rparr>" by auto
  have files: "st_files (pr_store t) uid DEK_FILE = Some blob" unfolding t b(3) by simp
  have "account_key E ks hs (pr_store t) uid = Some (mo_dek m)"
    by (rule stored_keyI [where E = E and ks = ks and hs = hs and uid = uid, OF files decode_encode [OF b(2)] wrap_unwrap [OF assms(3) w] sec(1)])
      (simp add: sec(5) open_inner_seal [OF assms(3,5) sec(4)])
  moreover have "secret_ok E t" using s2 by (simp add: t b(3) secret_ok_def)
  moreover have "st_files (pr_store s) uid DEK_FILE = None"
    using none b(1) by (auto simp: has_key_def file_at_def)
  ultimately show thesis using that b(1) by (simp add: t b(3))
qed

text \<open>A rotation of one record keeps the key it opens to, and touches no other file.\<close>

lemma rewrap_record_Inl:
  "rewrap_record E m uid handle s = (Inl e, t) \<Longrightarrow> channel_kept E s t"
  by (auto simp: rewrap_record_def and_then_Inl channel.R_refl load_record_Inr
      dest!: channel.keepsD [OF keeps_calls(5)] channel.keepsD [OF keeps_pure(3)] intro: channel.R_trans
      split: prod.splits)

definition on_current :: "keystore \<Rightarrow> store \<Rightarrow> string \<Rightarrow> bool" where
  "on_current ks st uid \<longleftrightarrow>
     (\<exists>blob v outer. st_files st uid DEK_FILE = Some blob \<and> decode_record blob = Inr (v, outer)
        \<and> unat (hd outer) = ks_version ks)"

lemma rewrap_record_Inr:
  assumes "rewrap_record E m uid (hs uid) s = (Inr x, t)" and "honest ks E" and "aead_inverts (en_crypto E)"
    and "secret_ok E s"
  obtains blob where "pr_store t = put_file uid DEK_FILE blob (pr_store s)" "secret_ok E t"
    "account_key E ks hs (pr_store t) uid = account_key E ks hs (pr_store s) uid" "account_dir uid = Inr uid"
    "on_current ks (pr_store t) uid"
proof -
  from assms(1) obtain v outer outer' s0 s1 where
    l: "load_record uid s = (Inr (v, outer), s0)" and
    r0: "client_rewrap E m (hs uid) outer s0 = (Inr outer', s1)" and
    stored: "store_record uid outer' v s1 = (Inr (), t)"
    by (auto simp: rewrap_record_def)
  from load_record_Inr [OF l] obtain old where
    old: "s0 = s" "st_files (pr_store s) uid DEK_FILE = Some old" "decode_record old = Inr (v, outer)" by blast
  note r = r0 [unfolded old(1)]
  have s1: "pr_store s1 = pr_store s" "secret_ok E s1"
    using channel.keepsD [OF keeps_calls(5) r] assms(4) by (simp_all add: channel_kept_def)
  from client_rewrap_Inr [OF r assms(2)] obtain nonce inner where
    w: "length nonce = 12" "unwrap (en_crypto E) ks (hs uid) outer = Inr inner"
      "wrap (en_crypto E) ks nonce (hs uid) inner = Inr outer'"
    by (auto simp: rewrap_def split: if_splits sum.splits)
  from store_record_Inr [OF stored] s1 obtain blob where
    b: "account_dir uid = Inr uid" "encode_record v outer' = Inr blob"
      "t = s1\<lparr>pr_store := put_file uid DEK_FILE blob (pr_store s)\<rparr>" by auto
  have files: "st_files (pr_store t) uid DEK_FILE = Some blob" unfolding b(3) by simp
  have "account_key E ks hs (pr_store t) uid = account_key E ks hs (pr_store s) uid"
    using w(2) wrap_unwrap [OF assms(3) w(1,3)]
    by (simp add: account_key_def stored_key_def record_key_def files old(2,3) decode_encode [OF b(2)] split: sum.splits)
  moreover have "secret_ok E t" using s1(2) by (simp add: b(3) secret_ok_def)
  moreover have "on_current ks (pr_store t) uid"
    using files decode_encode [OF b(2)] wrap_version_byte [OF w(3)] by (auto simp: on_current_def)
  ultimately show thesis using that b by simp
qed

section \<open>Effects on the view\<close>

text \<open>A random key is one that nothing on disk was encrypted under.\<close>

definition fresh_key :: "'w enclave \<Rightarrow> moment \<Rightarrow> (string \<Rightarrow> string) \<Rightarrow> string \<Rightarrow> 'w proc \<Rightarrow> bool" where
  "fresh_key E m hs uid s \<longleftrightarrow>
     (\<forall>name blob. name \<noteq> DEK_FILE \<longrightarrow> st_files (pr_store s) uid name = Some blob \<longrightarrow>
        readable (en_crypto E) (mo_dek m) (hs uid) name blob = None)"

lemma account_key_none: "st_files st uid DEK_FILE = None \<Longrightarrow> account_key E ks hs st uid = None"
  by (simp add: account_key_def stored_key_def split: sum.splits)

lemma account_key_other:
  "u \<noteq> uid \<Longrightarrow> account_key E ks hs (put_file uid n blob st) u = account_key E ks hs st u"
  "u \<noteq> uid \<Longrightarrow> account_key E ks hs (drop_file uid n st) u = account_key E ks hs st u"
  by (rule account_key_files, simp)+

lemma account_key_deks: "account_key E ks hs (st\<lparr>st_deks := d\<rparr>) u = account_key E ks hs st u"
  by (rule account_key_files) simp

lemma vault_deks: "vault E ks hs (st\<lparr>st_deks := d\<rparr>) = vault E ks hs st"
  by (rule vault_files) simp

lemma vault_record:
  assumes "account_key E ks hs (put_file uid DEK_FILE blob st) uid = account_key E ks hs st uid
    \<or> account_key E ks hs st uid = None \<and>
      (\<forall>dek name blob'. account_key E ks hs (put_file uid DEK_FILE blob st) uid = Some dek \<longrightarrow> name \<noteq> DEK_FILE \<longrightarrow>
        st_files st uid name = Some blob' \<longrightarrow> readable (en_crypto E) dek (hs uid) name blob' = None)"
  shows "vault E ks hs (put_file uid DEK_FILE blob st) = vault E ks hs st"
proof (rule ext, clarify)
  fix u n
  show "vault E ks hs (put_file uid DEK_FILE blob st) (u, n) = vault E ks hs st (u, n)"
    using assms by (cases "u = uid") (auto simp: vault_def account_key_other split: option.splits)
qed

lemma inv_record:
  assumes "keyring_inv E ks hs s" and "secret_ok E t" and "pr_store t = put_file uid DEK_FILE blob (pr_store s)"
    and "account_key E ks hs (pr_store t) uid = account_key E ks hs (pr_store s) uid"
  shows "keyring_inv E ks hs t"
proof -
  have "account_key E ks hs (pr_store t) u = account_key E ks hs (pr_store s) u" for u
    using assms(3,4) by (cases "u = uid") (simp_all add: account_key_other)
  with assms(1-3) show ?thesis by (simp add: keyring_inv_def)
qed

lemma create_step:
  assumes "create E m uid (hs uid) s = (r, t)" and "honest ks E" and "aead_inverts (en_crypto E)"
    and "keyring_inv E ks hs s" and "length (mo_seal m) = 12" and "fresh_key E m hs uid s"
  shows "keyring_inv E ks hs t \<and> vault E ks hs (pr_store t) = vault E ks hs (pr_store s)
    \<and> (r = Inr () \<longrightarrow> account_key E ks hs (pr_store t) uid = Some (mo_dek m) \<and> account_dir uid = Inr uid)"
proof (cases r)
  case (Inl e)
  with create_Inl assms(1) have "channel_kept E s t" by blast
  from channel_quiet [OF this] quiet_vault [OF channel_quiet [OF this]] assms(4) Inl
  show ?thesis by (auto simp: quiet_def)
next
  case (Inr x)
  with assms(1) have run: "create E m uid (hs uid) s = (Inr x, t)" by simp
  have "secret_ok E s" using assms(4) by (simp add: keyring_inv_def)
  from create_Inr [where hs = hs and ks = ks, OF run assms(2,3) this assms(5)] obtain blob where b:
    "pr_store t = (put_file uid DEK_FILE blob (pr_store s))\<lparr>st_deks := dek_put (mo_created m) uid (mo_dek m) (st_deks (pr_store s))\<rparr>"
    "secret_ok E t" "account_key E ks hs (pr_store t) uid = Some (mo_dek m)"
    "st_files (pr_store s) uid DEK_FILE = None" "account_dir uid = Inr uid" by blast
  note none = account_key_none [OF b(4), of E ks hs]
  have key: "account_key E ks hs (put_file uid DEK_FILE blob (pr_store s)) uid = Some (mo_dek m)"
    using b(3) by (simp add: b(1) account_key_deks)
  have "vault E ks hs (pr_store t) = vault E ks hs (pr_store s)"
    unfolding b(1) vault_deks
    by (rule vault_record) (use none key assms(6) in \<open>auto simp: fresh_key_def\<close>)
  moreover have "keyring_inv E ks hs t"
    unfolding keyring_inv_def
  proof (intro conjI allI impI)
    fix u k e
    assume u: "st_deks (pr_store t) u = Some (k, e)"
    show "account_key E ks hs (pr_store t) u = Some k"
    proof (cases "u = uid")
      case True
      with u b(1,3) show ?thesis by (simp add: dek_put_def)
    next
      case False
      with u b(1) have "st_deks (pr_store s) u = Some (k, e)" by (simp add: dek_put_def)
      with assms(4) have "account_key E ks hs (pr_store s) u = Some k" by (simp add: keyring_inv_def)
      with False show ?thesis by (simp add: b(1) account_key_deks account_key_other)
    qed
  qed (rule b(2))
  ultimately show ?thesis using b(3,5) by simp
qed

lemma rewrap_step:
  assumes "rewrap_record E m uid (hs uid) s = (r, t)" and "honest ks E" and "aead_inverts (en_crypto E)"
    and "keyring_inv E ks hs s"
  shows "keyring_inv E ks hs t \<and> vault E ks hs (pr_store t) = vault E ks hs (pr_store s)
    \<and> (\<forall>u. on_current ks (pr_store s) u \<longrightarrow> on_current ks (pr_store t) u)
    \<and> (r = Inr () \<longrightarrow> on_current ks (pr_store t) uid)"
proof (cases r)
  case (Inl e)
  with rewrap_record_Inl assms(1) have "channel_kept E s t" by blast
  from channel_quiet [OF this] quiet_vault [OF channel_quiet [OF this]] assms(4) Inl
  show ?thesis by (auto simp: quiet_def on_current_def)
next
  case (Inr x)
  with assms(1) have run: "rewrap_record E m uid (hs uid) s = (Inr x, t)" by simp
  have "secret_ok E s" using assms(4) by (simp add: keyring_inv_def)
  from rewrap_record_Inr [where hs = hs and ks = ks, OF run assms(2,3) this] obtain blob where b:
    "pr_store t = put_file uid DEK_FILE blob (pr_store s)" "secret_ok E t"
    "account_key E ks hs (pr_store t) uid = account_key E ks hs (pr_store s) uid"
    "on_current ks (pr_store t) uid" by blast
  have "on_current ks (pr_store t) u" if "on_current ks (pr_store s) u" for u
    using that b(4) by (cases "u = uid") (auto simp: b(1) on_current_def)
  then have cur: "\<forall>u. on_current ks (pr_store s) u \<longrightarrow> on_current ks (pr_store t) u" by blast
  from inv_record [OF assms(4) b(2,1,3)] vault_record [of E ks hs uid blob "pr_store s"] b(3,4) cur
  show ?thesis by (simp add: b(1))
qed

lemma readable_encrypt:
  assumes "encrypt C nonce dek handle name data = Inr blob" and "aead_inverts C" and "length nonce = 12"
    and "data \<noteq> []"
  shows "readable C dek handle name blob = Some data"
proof -
  from assms(1) have e: "length dek = KEY_LEN" "name \<noteq> []" "blob = nonce @ aead_enc C dek nonce (doc_aad handle name) data"
    by (auto simp: encrypt_def split: if_splits)
  have "length data + 16 \<le> length (aead_enc C dek nonce (doc_aad handle name) data)"
    using assms(2) unfolding aead_inverts_def by blast
  moreover have "0 < length data" using assms(4) by simp
  ultimately have "16 < length (aead_enc C dek nonce (doc_aad handle name) data)" by linarith
  then show ?thesis
    using e assms(2,3)
    by (simp add: readable_def decrypt_def NONCE_LEN_def TAG_LEN_def aead_inverts_def)
qed

lemma vault_put:
  assumes "account_key E ks hs st uid = Some dek" and "name \<noteq> DEK_FILE"
    and "readable (en_crypto E) dek (hs uid) name blob = Some data"
  shows "vault E ks hs (put_file uid name blob st) = (vault E ks hs st)((uid, name) \<mapsto> data)"
proof (rule ext, clarify)
  fix u n
  have "account_key E ks hs (put_file uid name blob st) u = account_key E ks hs st u"
    by (rule account_key_files) (use assms(2) in simp)
  then show "vault E ks hs (put_file uid name blob st) (u, n) = ((vault E ks hs st)((uid, name) \<mapsto> data)) (u, n)"
    using assms by (auto simp: vault_def)
qed

lemma vault_drop:
  assumes "name \<noteq> DEK_FILE"
  shows "vault E ks hs (drop_file uid name st) = (vault E ks hs st)((uid, name) := None)"
proof (rule ext, clarify)
  fix u n
  have "account_key E ks hs (drop_file uid name st) u = account_key E ks hs st u"
    by (rule account_key_files) (use assms in simp)
  then show "vault E ks hs (drop_file uid name st) (u, n) = ((vault E ks hs st)((uid, name) := None)) (u, n)"
    using assms by (auto simp: vault_def split: option.splits)
qed

lemma inv_doc:
  assumes "keyring_inv E ks hs s" and "secret_ok E t" and "name \<noteq> DEK_FILE"
    and "pr_store t = put_file uid name blob (pr_store s) \<or> pr_store t = drop_file uid name (pr_store s)"
  shows "keyring_inv E ks hs t"
proof -
  have "st_files (pr_store t) u DEK_FILE = st_files (pr_store s) u DEK_FILE" for u
    using assms(3,4) by auto
  then have "account_key E ks hs (pr_store t) u = account_key E ks hs (pr_store s) u" for u
    by (rule account_key_files)
  with assms show ?thesis by (auto simp: keyring_inv_def)
qed

lemma identify_Inr: "identify a = Inr (uid, h) \<Longrightarrow> uid \<noteq> [] \<and> is_handle h"
  by (auto simp: identify_def Let_def split: subject.splits if_splits sum.splits)

lemma refuse_quiet: "refuse_if_deleted E a uid s = (r, t) \<Longrightarrow> quiet E ks hs s t"
  by (auto simp: refuse_if_deleted_def silent.R_refl quiet_forget
      split: subject.splits if_splits sum.splits option.splits)

text \<open>Having a key: there was one, or one was minted; either way the view is the same.\<close>

definition ensure_key :: "'w enclave \<Rightarrow> moment \<Rightarrow> subject \<Rightarrow> string \<Rightarrow> string \<Rightarrow> bool \<Rightarrow> ('w, unit) custody" where
  "ensure_key E m a uid handle there =
     (if there then give () else and_then (refuse_if_deleted E a uid) (\<lambda>_. create E m uid handle))"

lemma fresh_quiet: "quiet E ks hs s t \<Longrightarrow> fresh_key E m hs uid t \<longleftrightarrow> fresh_key E m hs uid s"
  by (simp add: fresh_key_def quiet_def)

lemma ensure_key_step:
  assumes "ensure_key E m a uid (hs uid) there s = (r, t)" and "honest ks E" and "aead_inverts (en_crypto E)"
    and "keyring_inv E ks hs s" and "length (mo_seal m) = 12" and "fresh_key E m hs uid s"
  shows "keyring_inv E ks hs t \<and> vault E ks hs (pr_store t) = vault E ks hs (pr_store s)"
proof (cases there)
  case True
  with assms show ?thesis by (simp add: ensure_key_def give_def)
next
  case False
  obtain q u where q: "refuse_if_deleted E a uid s = (q, u)" by fastforce
  note su = refuse_quiet [OF q, of ks hs]
  show ?thesis
  proof (cases q)
    case (Inl e)
    with False assms(1) q have "t = u" by (simp add: ensure_key_def and_then_def)
    with su assms(4) quiet_vault [OF su] show ?thesis by (simp add: quiet_def)
  next
    case (Inr x)
    with False assms(1) q have "create E m uid (hs uid) u = (r, t)" by (simp add: ensure_key_def and_then_def)
    from create_step [where hs = hs and ks = ks, OF this assms(2,3) _ assms(5)] su assms(4,6) quiet_vault [OF su] fresh_quiet [OF su]
    show ?thesis by (auto simp: quiet_def)
  qed
qed

lemma write_encrypted_unfold:
  "write_encrypted E m a name body =
     and_then (of_sum (identify a)) (\<lambda>(uid, handle).
     and_then (read_store (has_key uid)) (\<lambda>there.
     and_then (ensure_key E m a uid handle there) (\<lambda>_.
     and_then (read_store (\<lambda>_. account_dir uid)) (\<lambda>dir.
     and_then (dek_for E m a) (\<lambda>dek.
     and_then (of_sum (encrypt (en_crypto E) (mo_nonce m) dek handle name (utf8 body))) (\<lambda>blob.
     put_doc dir name blob))))))"
  by (simp add: write_encrypted_def ensure_key_def)

lemma utf8_eq_Nil [simp]: "utf8 t = [] \<longleftrightarrow> t = []"
  by (cases t) (auto simp: Let_def)

lemma write_step:
  assumes "write_encrypted E m a name body s = (r, t)" and "identify a = Inr (uid, hs uid)"
    and "honest ks E" and "aead_inverts (en_crypto E)" and "keyring_inv E ks hs s"
    and "length (mo_seal m) = 12" and "length (mo_nonce m) = 12" and "fresh_key E m hs uid s"
    and "name \<noteq> DEK_FILE" and "body \<noteq> []"
  shows "keyring_inv E ks hs t \<and>
    vault E ks hs (pr_store t) =
      vault_apply (case r of Inl _ \<Rightarrow> Quiet | Inr _ \<Rightarrow> Put uid name (utf8 body)) (vault E ks hs (pr_store s))"
proof (cases "has_key uid (pr_store s)")
  case (Inl e)
  with assms(1,2) have "r = Inl (AccountError e)" "t = s"
    by (simp_all add: write_encrypted_unfold and_then_def of_sum_def read_store_def)
  with assms(5) show ?thesis by simp
next
  case (Inr there)
  obtain q u where q: "ensure_key E m a uid (hs uid) there s = (q, u)" by fastforce
  note made = ensure_key_step [OF q assms(3-6,8)]
  show ?thesis
  proof (cases q)
    case (Inl e)
    with Inr assms(1,2) q have "r = Inl e" "t = u"
      by (simp_all add: write_encrypted_unfold and_then_def of_sum_def read_store_def)
    with made show ?thesis by simp
  next
    case (Inr x)
    have dir: "account_dir uid = Inr uid"
      using \<open>has_key uid (pr_store s) = Inr there\<close>
      by (auto simp: has_key_def file_at_def split: sum.splits dest: account_dir_Inr)
    obtain p w where p: "dek_for E m a u = (p, w)" by fastforce
    from dek_for_quiet [where hs = hs and ks = ks, OF p assms(2,3)] made
    have uw: "quiet E ks hs u w" "\<And>dek. p = Inr dek \<Longrightarrow> account_key E ks hs (pr_store u) uid = Some dek"
      by auto
    have w: "keyring_inv E ks hs w" "vault E ks hs (pr_store w) = vault E ks hs (pr_store s)"
      using uw(1) made quiet_vault [OF uw(1)] by (auto simp: quiet_def)
    note run = Inr \<open>has_key uid (pr_store s) = Inr there\<close> q dir p assms(1,2)
    show ?thesis
    proof (cases p)
      case (Inl e)
      with run have "r = Inl e" "t = w"
        by (simp_all add: write_encrypted_unfold and_then_def of_sum_def read_store_def)
      with w show ?thesis by simp
    next
      case key: (Inr dek)
      have dek: "account_key E ks hs (pr_store w) uid = Some dek"
        using uw key account_key_files [of "pr_store w" uid "pr_store u" E ks hs] by (simp add: quiet_def)
      show ?thesis
      proof (cases "encrypt (en_crypto E) (mo_nonce m) dek (hs uid) name (utf8 body)")
        case (Inl e)
        with key run have "r = Inl e" "t = w"
          by (simp_all add: write_encrypted_unfold and_then_def of_sum_def read_store_def)
        with w show ?thesis by simp
      next
        case blob: (Inr blob)
        with key run have res: "r = Inr ()" "t = w\<lparr>pr_store := put_file uid name blob (pr_store w)\<rparr>"
          by (simp_all add: write_encrypted_unfold and_then_def of_sum_def read_store_def put_doc_def change_store_def)
        have "readable (en_crypto E) dek (hs uid) name blob = Some (utf8 body)"
          using blob assms(4,7,10) by (intro readable_encrypt) auto
        from vault_put [OF dek assms(9) this] inv_doc [where t = t and uid = uid and blob = blob, OF w(1) _ assms(9)] w
        show ?thesis by (simp add: res keyring_inv_def secret_ok_def)
      qed
    qed
  qed
qed

lemma read_step:
  assumes "read_encrypted E m a name s = (r, t)" and "identify a = Inr (uid, hs uid)"
    and "honest ks E" and "keyring_inv E ks hs s"
  shows "quiet E ks hs s t"
proof (cases "file_at uid name (pr_store s)")
  case (Inl e)
  with assms(1,2) have "t = s" by (simp add: read_encrypted_def and_then_def of_sum_def read_store_def)
  then show ?thesis by (simp add: silent.R_refl)
next
  case (Inr f)
  show ?thesis
  proof (cases f)
    case None
    with Inr assms(1,2) have "t = s"
      by (simp add: read_encrypted_def and_then_def of_sum_def read_store_def give_def del: file_at_Inr)
    then show ?thesis by (simp add: silent.R_refl)
  next
    case (Some blob)
    obtain p w where p: "dek_for E m a s = (p, w)" by fastforce
    with Inr Some assms(1,2) have "t = w"
      by (auto simp: read_encrypted_def and_then_def of_sum_def read_store_def give_def simp del: file_at_Inr
          split: sum.splits prod.splits)
    with dek_for_quiet [where hs = hs and ks = ks, OF p assms(2-4)] show ?thesis by blast
  qed
qed

lemma read_Inr:
  assumes "read_encrypted E m a name s = (Inr (Some body), t)" and "identify a = Inr (uid, hs uid)"
    and "honest ks E" and "keyring_inv E ks hs s" and "name \<noteq> DEK_FILE"
  shows "\<exists>raw. vault E ks hs (pr_store s) (uid, name) = Some raw \<and> utf8_decode raw = Some body"
proof -
  from assms(1,2) obtain blob dek w raw where
    f: "file_at uid name (pr_store s) = Inr (Some blob)" and d: "dek_for E m a s = (Inr dek, w)" and
    raw: "decrypt (en_crypto E) dek (hs uid) name blob = Inr raw" "decode_text raw = Inr body"
    by (auto simp: read_encrypted_def simp del: file_at_Inr split: option.splits)
  from dek_for_quiet [where hs = hs and ks = ks, OF d assms(2-4)]
  have "account_key E ks hs (pr_store s) uid = Some dek" by blast
  moreover from f have "st_files (pr_store s) uid name = Some blob"
    by (auto dest: account_dir_Inr dest!: sym [of "Some blob"])
  ultimately show ?thesis
    using raw assms(5) by (simp add: vault_def readable_def decode_text_def split: option.splits)
qed

lemma clear_step:
  assumes "clear_encrypted a name s = (r, t)" and "identify a = Inr (uid, hs uid)"
    and "keyring_inv E ks hs s" and "name \<noteq> DEK_FILE"
  shows "keyring_inv E ks hs t \<and>
    vault E ks hs (pr_store t) =
      vault_apply (case r of Inl _ \<Rightarrow> Quiet | Inr _ \<Rightarrow> Drop uid name) (vault E ks hs (pr_store s))"
proof (cases "file_at uid name (pr_store s)")
  case (Inl e)
  with assms(1,2) have "r = Inl (AccountError e)" "t = s"
    by (simp_all add: clear_encrypted_def and_then_def of_sum_def read_store_def)
  with assms(3) show ?thesis by simp
next
  case (Inr f)
  then have f: "f = st_files (pr_store s) uid name" by (auto dest: account_dir_Inr)
  show ?thesis
  proof (cases f)
    case None
    with Inr assms(1,2) have "r = Inr False" "t = s"
      by (simp_all add: clear_encrypted_def and_then_def of_sum_def read_store_def give_def del: file_at_Inr)
    moreover have "vault E ks hs (pr_store s) (uid, name) = None"
      using None f by (simp add: vault_def split: option.splits)
    ultimately show ?thesis using assms(3) by (simp add: fun_upd_idem)
  next
    case (Some blob)
    with Inr assms(1,2) have "r = Inr True" "t = s\<lparr>pr_store := drop_file uid name (pr_store s)\<rparr>"
      by (simp_all add: clear_encrypted_def and_then_def of_sum_def read_store_def give_def change_store_def
          del: file_at_Inr)
    with vault_drop [OF assms(4)] inv_doc [where t = t and uid = uid, OF assms(3) _ assms(4)] assms(3)
    show ?thesis by (simp add: keyring_inv_def secret_ok_def)
  qed
qed

lemma shred_step:
  assumes "destroy uid (pr_store s) = (Inr b, st)" and "keyring_inv E ks hs s"
  shows "keyring_inv E ks hs (s\<lparr>pr_store := st\<rparr>) \<and> vault E ks hs st = vault_apply (Shred uid) (vault E ks hs (pr_store s))"
proof -
  note d = destroy_shreds [OF assms(1)]
  have none: "account_key E ks hs st uid = None" using d(1) by (rule account_key_none)
  have other: "account_key E ks hs st u = account_key E ks hs (pr_store s) u" if "u \<noteq> uid" for u
    by (rule account_key_files) (use d(3) that in simp)
  have "vault E ks hs st (u, n) = vault_apply (Shred uid) (vault E ks hs (pr_store s)) (u, n)" for u n
    using none other d(3) [of u n] by (cases "u = uid") (auto simp: vault_def split: option.splits)
  then have "vault E ks hs st = vault_apply (Shred uid) (vault E ks hs (pr_store s))" by (auto simp: fun_eq_iff)
  moreover have "account_key E ks hs st u = Some k" if "st_deks st u = Some (k, e)" for u k e
    using that d(2) d(4) [of u] other [of u] assms(2) by (cases "u = uid") (auto simp: keyring_inv_def)
  ultimately show ?thesis using assms(2) by (auto simp: keyring_inv_def secret_ok_def)
qed

section \<open>Histories\<close>

text \<open>
  One call of this process on the account store, with whatever it returned. Accounts are named
  by the handle \<open>hs\<close> gives their id; a call that may mint a key has a random one and the nonces
  of the cipher's length; an empty document is not among the writes (see the end of the theory).
\<close>

inductive keyring_step ::
  "'w enclave \<Rightarrow> (string \<Rightarrow> string) \<Rightarrow> vault_op \<Rightarrow> 'w proc \<Rightarrow> 'w proc \<Rightarrow> bool" for E hs where
  Create: "create E m uid (hs uid) s = (r, t) \<Longrightarrow> length (mo_seal m) = 12 \<Longrightarrow> fresh_key E m hs uid s \<Longrightarrow>
    keyring_step E hs Quiet s t"
| Write: "write_encrypted E m a name body s = (r, t) \<Longrightarrow> identify a = Inr (uid, hs uid) \<Longrightarrow>
    length (mo_seal m) = 12 \<Longrightarrow> length (mo_nonce m) = 12 \<Longrightarrow> fresh_key E m hs uid s \<Longrightarrow>
    name \<noteq> DEK_FILE \<Longrightarrow> body \<noteq> [] \<Longrightarrow>
    keyring_step E hs (case r of Inl _ \<Rightarrow> Quiet | Inr _ \<Rightarrow> Put uid name (utf8 body)) s t"
| Read: "read_encrypted E m a name s = (r', t) \<Longrightarrow> identify a = Inr (uid, hs uid) \<Longrightarrow> keyring_step E hs Quiet s t"
| Clear: "clear_encrypted a name s = (b, t) \<Longrightarrow> identify a = Inr (uid, hs uid) \<Longrightarrow> name \<noteq> DEK_FILE \<Longrightarrow>
    keyring_step E hs (case b of Inl _ \<Rightarrow> Quiet | Inr _ \<Rightarrow> Drop uid name) s t"
| Open: "open_key E m uid (hs uid) s = (k, t) \<Longrightarrow> keyring_step E hs Quiet s t"
| Release: "release_for_refresh E m uid (hs uid) htm htu nonce s = (p, t) \<Longrightarrow> keyring_step E hs Quiet s t"
| Key: "dek_for E m a s = (k, t) \<Longrightarrow> identify a = Inr (uid, hs uid) \<Longrightarrow> keyring_step E hs Quiet s t"
| Rewrap: "rewrap_record E m uid (hs uid) s = (r, t) \<Longrightarrow> keyring_step E hs Quiet s t"
| Forget: "keyring_step E hs Quiet s (s\<lparr>pr_store := forget_keys u (pr_store s)\<rparr>)"
| Destroy: "destroy uid (pr_store s) = (Inr gone, st) \<Longrightarrow> keyring_step E hs (Shred uid) s (s\<lparr>pr_store := st\<rparr>)"

inductive keyring_run ::
  "'w enclave \<Rightarrow> (string \<Rightarrow> string) \<Rightarrow> vault_op list \<Rightarrow> 'w proc \<Rightarrow> 'w proc \<Rightarrow> bool" for E hs where
  Start: "keyring_run E hs [] s s"
| Step: "keyring_run E hs ops s t \<Longrightarrow> keyring_step E hs lab t u \<Longrightarrow> keyring_run E hs (ops @ [lab]) s u"

lemma quiet_step:
  "quiet E ks hs s t \<Longrightarrow> keyring_inv E ks hs s \<Longrightarrow>
   keyring_inv E ks hs t \<and> vault E ks hs (pr_store t) = vault_apply Quiet (vault E ks hs (pr_store s))"
  by (simp add: quiet_vault) (simp add: quiet_def)

lemma step_refines:
  assumes "keyring_step E hs lab s t" and "honest ks E" and "aead_inverts (en_crypto E)" and "keyring_inv E ks hs s"
  shows "keyring_inv E ks hs t \<and> vault E ks hs (pr_store t) = vault_apply lab (vault E ks hs (pr_store s))"
  using assms(1)
proof cases
  case (Create m uid r)
  from create_step [where hs = hs and ks = ks, OF Create(2) assms(2-4) Create(3,4)] Create(1) show ?thesis by simp
next
  case (Write m a name body r uid)
  from write_step [where hs = hs and ks = ks, OF Write(2,3) assms(2-4) Write(4-8)] Write(1) show ?thesis by simp
next
  case (Read m a name r' uid)
  from quiet_step [OF read_step [where hs = hs and ks = ks, OF Read(2,3) assms(2,4)] assms(4)] Read(1) show ?thesis by simp
next
  case (Clear a name b uid)
  from clear_step [where hs = hs and ks = ks, OF Clear(2,3) assms(4) Clear(4)] Clear(1) show ?thesis by simp
next
  case (Open m uid k)
  from quiet_step [OF channel_quiet [OF channel.keepsD [OF keeps_opening(1) Open(2)]] assms(4)] Open(1) show ?thesis by simp
next
  case (Release m uid htm htu nonce p)
  from quiet_step [OF channel_quiet [OF channel.keepsD [OF keeps_opening(2) Release(2)]] assms(4)] Release(1)
  show ?thesis by simp
next
  case (Key m a k uid)
  from quiet_step [OF dek_for_quiet [where hs = hs and ks = ks, OF Key(2,3) assms(2,4), THEN conjunct1] assms(4)] Key(1)
  show ?thesis by simp
next
  case (Rewrap m uid r)
  from rewrap_step [where hs = hs and ks = ks, OF Rewrap(2) assms(2-4)] Rewrap(1) show ?thesis by simp
next
  case (Forget u)
  from quiet_step [OF quiet_forget assms(4)] Forget show ?thesis by simp
next
  case (Destroy uid gone st)
  from shred_step [where hs = hs and ks = ks, OF Destroy(3) assms(4)] Destroy(1,2) show ?thesis by simp
qed

text \<open>
  C21: the keyring is a map. Whatever an operation returned and whatever the network did, seen
  through both keys the store changed exactly as its label says: a write that returned put those
  bytes under that account and name, a clear or a shred removed, and a failed write, a read, a
  cache hit or miss, a token refresh, a re-wrap and an eviction changed nothing; and the keys in
  memory stay the keys of the records.
\<close>

theorem keyring_refines_vault:
  assumes "honest ks E" and "aead_inverts (en_crypto E)" and "keyring_inv E ks hs s" and "keyring_step E hs lab s t"
  shows "keyring_inv E ks hs t \<and> vault E ks hs (pr_store t) = vault_apply lab (vault E ks hs (pr_store s))"
  by (rule step_refines [OF assms(4,1,2,3)])

definition touches :: "string \<Rightarrow> string \<Rightarrow> vault_op \<Rightarrow> bool" where
  "touches uid name lab \<longleftrightarrow> (\<exists>b. lab = Put uid name b) \<or> lab = Drop uid name \<or> lab = Shred uid"

lemma apply_untouched: "\<not> touches uid name lab \<Longrightarrow> vault_apply lab v (uid, name) = v (uid, name)"
  by (cases lab) (auto simp: touches_def)

lemma run_untouched:
  assumes "keyring_run E hs ops s t" and "honest ks E" and "aead_inverts (en_crypto E)" and "keyring_inv E ks hs s"
    and "\<forall>lab \<in> set ops. \<not> touches uid name lab"
  shows "keyring_inv E ks hs t \<and> vault E ks hs (pr_store t) (uid, name) = vault E ks hs (pr_store s) (uid, name)"
  using assms(1,4,5)
proof induction
  case (Start s)
  then show ?case by simp
next
  case (Step ops s t lab u)
  then show ?case using step_refines [OF Step.hyps(2) assms(2,3)] by (auto simp: apply_untouched)
qed

text \<open>
  C22: what was written is what is read. After a write that returned, and any history of other
  calls that did not write or clear this document or shred its account (key rotations, cache
  expiry, failed calls, writes of other documents), a read that returns gives the text that was
  written: never another one, and never "no such file".
\<close>

theorem document_survives:
  assumes "honest ks E" and "aead_inverts (en_crypto E)" and "keyring_inv E ks hs s"
    and "write_encrypted E m a name body s = (Inr x, s1)" and "identify a = Inr (uid, hs uid)"
    and "length (mo_seal m) = 12" and "length (mo_nonce m) = 12" and "fresh_key E m hs uid s"
    and "name \<noteq> DEK_FILE" and "body \<noteq> []"
    and "keyring_run E hs ops s1 s2" and "\<forall>lab \<in> set ops. \<not> touches uid name lab"
    and "read_encrypted E m' a name s2 = (Inr res, s3)"
  shows "res = Some body"
proof -
  from write_step [OF assms(4,5,1,2,3,6-10)]
  have w: "keyring_inv E ks hs s1" "vault E ks hs (pr_store s1) (uid, name) = Some (utf8 body)" by simp_all
  from run_untouched [OF assms(11,1,2) w(1) assms(12)] w(2)
  have v: "keyring_inv E ks hs s2" "vault E ks hs (pr_store s2) (uid, name) = Some (utf8 body)" by simp_all
  show ?thesis
  proof (cases res)
    case None
    with assms(13,5) have "st_files (pr_store s2) uid name = None"
      by (auto simp: read_encrypted_def split: option.splits dest: account_dir_Inr)
    with v(2) show ?thesis by (simp add: vault_def split: option.splits if_splits)
  next
    case (Some t)
    from read_Inr [where hs = hs and ks = ks, OF assms(13)[unfolded Some] assms(5,1) v(1) assms(9)] v(2) Some
    show ?thesis by (simp add: text_codec.round_trip)
  qed
qed

lemma no_record_no_key:
  assumes "st_files (pr_store s) uid DEK_FILE = None" and "st_deks (pr_store s) uid = None"
  shows "open_key E m uid handle s \<noteq> (Inr k, t)" and "release_for_refresh E m uid handle htm htu nonce s \<noteq> (Inr p, t)"
    and "identify a = Inr (uid, handle) \<Longrightarrow> dek_for E m a s \<noteq> (Inr k, t)"
proof -
  have load: "load_record uid s \<noteq> (Inr x, u)" for x u
    using load_record_Inr [of uid s "fst x" "snd x" u] assms(1) by auto
  then show o: "open_key E m uid handle s \<noteq> (Inr k, t)" for k t
    by (auto simp: open_key_def)
  show "release_for_refresh E m uid handle htm htu nonce s \<noteq> (Inr p, t)"
    using load by (auto simp: release_for_refresh_def)
  show "dek_for E m a s \<noteq> (Inr k, t)" if "identify a = Inr (uid, handle)"
    using o assms(2) that by (auto simp: dek_for_def dek_get_def)
qed

text \<open>
  C23: a shred is final. Once an account's key was destroyed, in every later state whose key file
  and key cache are as the shred left them no operation yields its key and no read of any of its
  files returns a text, whatever ciphertext is put back under its directory and whatever the
  co-signer answers.
\<close>

theorem shred_is_final:
  assumes "destroy uid (pr_store s) = (Inr b, st)"
    and "st_files (pr_store s') uid DEK_FILE = st_files st uid DEK_FILE"
    and "st_deks (pr_store s') uid = st_deks st uid"
    and "identify a = Inr (uid, handle)"
  shows "read_encrypted E m a name s' \<noteq> (Inr (Some body), t)
    \<and> open_key E m uid handle s' \<noteq> (Inr k, t)
    \<and> release_for_refresh E m uid handle htm htu nonce s' \<noteq> (Inr p, t)"
proof -
  have gone: "st_files (pr_store s') uid DEK_FILE = None" "st_deks (pr_store s') uid = None"
    using destroy_shreds(1,2) [OF assms(1)] assms(2,3) by simp_all
  note no = no_record_no_key [OF gone]
  have "read_encrypted E m a name s' \<noteq> (Inr (Some body), t)"
    using no(3) [OF assms(4)] assms(4) by (auto simp: read_encrypted_def split: option.splits)
  with no(1,2) show ?thesis by blast
qed

lemma doc_aad_inject:
  assumes "is_handle h" and "is_handle h'" and "doc_aad h name = doc_aad h' name'"
  shows "h = h' \<and> name = name'"
  using assms by (auto simp: doc_aad_def is_handle_def)

text \<open>
  a ciphertext is bound to its key, its account and its file name: of all keys, handles and
  names, exactly the ones it was made with open it, so a record cannot be moved between accounts
  or between the files of one account.
\<close>

theorem documents_do_not_move:
  assumes "aead_inverts C" and "aead_binds C" and "length nonce = 12" and "data \<noteq> []"
    and "is_handle h" and "is_handle h'" and "encrypt C nonce dek h name data = Inr blob"
  shows "decrypt C dek' h' name' blob = Inr p \<longleftrightarrow> p = data \<and> dek' = dek \<and> h' = h \<and> name' = name"
proof
  assume d: "decrypt C dek' h' name' blob = Inr p"
  from assms(7) have blob: "blob = nonce @ aead_enc C dek nonce (doc_aad h name) data"
    by (auto simp: encrypt_def split: if_splits)
  with d assms(3) have open': "aead_dec C dek' nonce (doc_aad h' name') (aead_enc C dek nonce (doc_aad h name) data) = Some p"
    by (auto simp: decrypt_def NONCE_LEN_def split: if_splits option.splits)
  have "(dek', nonce, doc_aad h' name') = (dek, nonce, doc_aad h name)"
    using open' assms(2) unfolding aead_binds_def by (metis option.distinct(1))
  with doc_aad_inject [OF assms(6,5)] have "dek' = dek" "h' = h" "name' = name" by auto
  moreover from this open' assms(1) have "p = data" by (simp add: aead_inverts_def)
  ultimately show "p = data \<and> dek' = dek \<and> h' = h \<and> name' = name" by simp
next
  assume "p = data \<and> dek' = dek \<and> h' = h \<and> name' = name"
  with readable_encrypt [OF assms(7,1,3,4)] show "decrypt C dek' h' name' blob = Inr p"
    by (auto simp: readable_def split: sum.splits)
qed

text \<open>
  C24: the empty document is the exception: what \<open>encrypt\<close> writes for it is as long as a nonce
  and a tag, and \<open>decrypt\<close> refuses everything that short, so a write that returned can never be
  read back.
\<close>

theorem empty_document_is_unreadable:
  assumes "length (aead_enc C dek nonce (doc_aad handle name) []) = TAG_LEN" and "length nonce = NONCE_LEN"
    and "encrypt C nonce dek handle name (utf8 []) = Inr blob"
  shows "\<exists>msg. decrypt C dek handle name blob = Inl (BadRecord msg)"
  using assms by (auto simp: encrypt_def decrypt_def split: if_splits)

section \<open>Rotation\<close>

lemma on_current_forget: "on_current ks (forget_keys u st) v = on_current ks st v"
  by (simp add: on_current_def)

lemma rotate_each_step:
  assumes "rotate_each E m as s = (r, t)" and "honest ks E" and "aead_inverts (en_crypto E)" and "keyring_inv E ks hs s"
    and "\<forall>a \<in> set as. str_or (ac_handle a) '''' = hs (ac_id a)"
  shows "keyring_inv E ks hs t \<and> vault E ks hs (pr_store t) = vault E ks hs (pr_store s)
    \<and> (\<forall>u. on_current ks (pr_store s) u \<longrightarrow> on_current ks (pr_store t) u)
    \<and> (\<forall>n. r = Inr n \<longrightarrow> n = length as \<and> (\<forall>a \<in> set as. on_current ks (pr_store t) (ac_id a)))"
  using assms(1,4,5)
proof (induction as arbitrary: s r t)
  case Nil
  then show ?case by (auto simp: give_def)
next
  case (Cons a as)
  obtain q u where q: "rewrap_record E m (ac_id a) (hs (ac_id a)) s = (q, u)" by fastforce
  note one = rewrap_step [where hs = hs and ks = ks, OF q assms(2,3) Cons.prems(2)]
  show ?case
  proof (cases q)
    case (Inl e)
    with Cons.prems(1,3) q have "r = Inl e" "t = u" by (simp_all add: and_then_def)
    with one show ?thesis by simp
  next
    case (Inr x)
    define w where "w = u\<lparr>pr_store := forget_keys (Some (ac_id a)) (pr_store u)\<rparr>"
    have uw: "quiet E ks hs u w" unfolding w_def by (rule quiet_forget)
    obtain p v where p: "rotate_each E m as w = (p, v)" by fastforce
    have w: "keyring_inv E ks hs w" "vault E ks hs (pr_store w) = vault E ks hs (pr_store s)"
      "\<And>u'. on_current ks (pr_store w) u' = on_current ks (pr_store u) u'"
      using uw one quiet_vault [OF uw] by (auto simp: quiet_def w_def on_current_forget)
    from Cons.IH [OF p w(1)] Cons.prems(3) have rest:
      "keyring_inv E ks hs v" "vault E ks hs (pr_store v) = vault E ks hs (pr_store w)"
      "\<And>u'. on_current ks (pr_store w) u' \<Longrightarrow> on_current ks (pr_store v) u'"
      "\<And>n. p = Inr n \<Longrightarrow> n = length as \<and> (\<forall>a \<in> set as. on_current ks (pr_store v) (ac_id a))" by auto
    have run: "t = v" "r = (case p of Inl e \<Rightarrow> Inl e | Inr n \<Rightarrow> Inr (Suc n))"
      using Cons.prems(1,3) q Inr p
      by (auto simp: and_then_def change_store_def w_def [symmetric] give_def split: sum.splits)
    show ?thesis
      using rest w one Inr unfolding run by (auto split: sum.splits)
  qed
qed

text \<open>
  C26: a rotation moves every record and loses none: whether it finished or stopped half-way, no
  document of any account changed for its reader and every record that was on the co-signer's
  current key still is; when it returned, every candidate's record is, and the count is theirs.
\<close>

theorem rotation_keeps_every_document:
  assumes "honest ks E" and "aead_inverts (en_crypto E)" and "keyring_inv E ks hs s"
    and "candidates E (pr_store s) = Inr as" and "\<forall>a \<in> set as. str_or (ac_handle a) '''' = hs (ac_id a)"
    and "rotate E m True s = (r, t)"
  shows "vault E ks hs (pr_store t) = vault E ks hs (pr_store s)
    \<and> (\<forall>u. on_current ks (pr_store s) u \<longrightarrow> on_current ks (pr_store t) u)
    \<and> (\<forall>n k. r = Inr (n, k) \<longrightarrow> n = length as \<and> k = 0 \<and> (\<forall>a \<in> set as. on_current ks (pr_store t) (ac_id a)))"
proof -
  obtain p v where p: "rotate_each E m as s = (p, v)" by fastforce
  have run: "t = v" "r = (case p of Inl e \<Rightarrow> Inl e | Inr n \<Rightarrow> Inr (n, length as - n))"
    using assms(4,6) p by (auto simp: rotate_def and_then_def read_store_def give_def split: sum.splits)
  from rotate_each_step [OF p assms(1-3,5)] show ?thesis unfolding run by (auto split: sum.splits)
qed

section \<open>Metering\<close>

lemma world_of_raw:
  assumes "raw_request E m verb path body s = (Inr kvs, t)"
  shows "\<exists>i detail. en_net E verb (cosigner_url (en_env E) path) body i (env_get (en_env E) ''COSIGNER_CA'') (pr_world s)
       = (Reply 200 detail (Some (JObj kvs)), pr_world t)"
  using raw_request_Inr [OF assms] by metis

lemma world_of_request:
  assumes "client_request E m verb path body s = (Inr kvs, t)" and "path \<noteq> ''/health''"
  shows "\<exists>i detail w. en_net E verb (cosigner_url (en_env E) path) body i (env_get (en_env E) ''COSIGNER_CA'') w
       = (Reply 200 detail (Some (JObj kvs)), pr_world t)"
proof -
  from assms obtain s1 where "raw_request E m verb path body s1 = (Inr kvs, t)" by (auto simp: client_request_def)
  from world_of_raw [OF this] show ?thesis by blast
qed

lemma open_dek_world: "open_dek E handle inner v s = (r, t) \<Longrightarrow> pr_world t = pr_world s"
  by (auto simp: open_dek_def and_then_def demand_def app_secret_def split: if_splits option.splits sum.splits)

text \<open>
  mail access is metered: a key released for a token refresh, whatever this process had
  cached, was released by an answer of the co-signer to this call, asked with this account's
  handle and record, and that exchange is the last thing that happened on the wire.
\<close>

theorem refresh_asks_the_cosigner:
  assumes "release_for_refresh E m uid handle htm htu nonce s = (Inr (dek, proof), t)"
  shows "\<exists>kvs body i detail w v outer blob.
    en_net E ''POST'' (cosigner_url (en_env E) ''/unwrap-and-sign'') (Some (JObj body)) i (env_get (en_env E) ''COSIGNER_CA'') w
      = (Reply 200 detail (Some (JObj kvs)), pr_world t)
    \<and> jget body ''uid'' = JStr handle \<and> jget body ''outer'' = JStr (b64 outer) \<and> jget kvs ''proof'' = proof
    \<and> st_files (pr_store s) uid DEK_FILE = Some blob \<and> decode_record blob = Inr (v, outer)"
proof -
  from assms obtain v outer inner s0 s1 where
    l: "load_record uid s = (Inr (v, outer), s0)" and
    u: "unwrap_and_sign E m handle outer htm htu nonce s0 = (Inr (inner, proof), s1)" and
    o: "open_dek E handle inner v s1 = (Inr dek, t)"
    by (auto simp: release_for_refresh_def)
  from u obtain kvs where req: "client_request E m ''POST'' ''/unwrap-and-sign''
      (Some (JObj ([(''uid'', JStr handle), (''outer'', JStr (b64 outer))] @ proof_body htm htu nonce))) s0 = (Inr kvs, s1)"
    and pr: "jget kvs ''proof'' = proof"
    by (auto simp: unwrap_and_sign_def Let_def split: if_splits)
  have ne: "''/unwrap-and-sign'' \<noteq> ''/health''" by simp
  from world_of_request [OF req ne] obtain i detail w where
    "en_net E ''POST'' (cosigner_url (en_env E) ''/unwrap-and-sign'')
      (Some (JObj ([(''uid'', JStr handle), (''outer'', JStr (b64 outer))] @ proof_body htm htu nonce))) i
      (env_get (en_env E) ''COSIGNER_CA'') w = (Reply 200 detail (Some (JObj kvs)), pr_world s1)" by blast
  moreover from load_record_Inr [OF l] obtain blob where
    "st_files (pr_store s) uid DEK_FILE = Some blob" "decode_record blob = Inr (v, outer)" by blast
  ultimately show ?thesis
    using pr open_dek_world [OF o]
    by (intro exI [of _ kvs] exI [of _ "[(''uid'', JStr handle), (''outer'', JStr (b64 outer))] @ proof_body htm htu nonce"]
        exI [of _ i] exI [of _ detail] exI [of _ w] exI [of _ v] exI [of _ outer] exI [of _ blob]) simp
qed

text \<open>
  C27: a document key stays in memory for five minutes and not longer: the call that fetched it
  at \<open>t0\<close> lets later calls before \<open>t0 + 300\<close> have it without a word on the wire or any other
  change, and from then on a call returns exactly what asking the co-signer again returns.
\<close>

theorem document_key_lives_five_minutes:
  assumes "identify a = Inr (uid, handle)" and "dek_get (mo_mono m) uid (st_deks (pr_store s)) = None"
    and "dek_for E m a s = (Inr dek, t)" and "st_deks (pr_store u) uid = st_deks (pr_store t) uid"
  shows "if mo_mono m' < mo_mono m + 300 then dek_for E m' a u = (Inr dek, u)
    else fst (dek_for E m' a u) = fst (open_key E m' uid handle u)"
proof -
  from assms(1-3) have "st_deks (pr_store t) uid = Some (dek, mo_mono m + DEK_TTL)"
    by (auto simp: dek_for_def remember_def dek_put_def)
  then have c: "dek_get (mo_mono m') uid (st_deks (pr_store u)) = (if mo_mono m' < mo_mono m + 300 then Some dek else None)"
    by (simp add: dek_get_def assms(4) DEK_TTL_def)
  show ?thesis
  proof (cases "mo_mono m' < mo_mono m + 300")
    case True
    with c assms(1) show ?thesis by (simp add: dek_for_def and_then_def of_sum_def read_store_def give_def)
  next
    case False
    with c assms(1) show ?thesis
      by (simp add: dek_for_def and_then_def of_sum_def read_store_def remember_def change_store_def give_def
          split: sum.splits prod.splits)
  qed
qed

end
