(* ===== verification/Tokens.thy ===== *)
theory Tokens
  imports KeyringRun
begin

text \<open>
  \<open>backend/custody/tokens.py\<close>: access tokens, one co-signer round trip per refresh. The process
  adds two things to the custody state: the access tokens it holds and the last DPoP nonce
  Google gave. Google is a parameter of the same network: a POST is answered with a response or
  an exception of the HTTP client.
\<close>

record response =
  rs_status :: int
  rs_nonce :: "string option"
  rs_www :: "string option"
  rs_debug :: "string option"
  rs_text :: string
  rs_json :: "json option"

record 'w google =
  gg_post :: "string \<Rightarrow> (string \<times> string) list \<Rightarrow> json option \<Rightarrow> 'w \<Rightarrow> (string + response) \<times> 'w"
  gg_keys :: "string + string \<times> string"

record 'w toks =
  tk_proc :: "'w proc"
  tk_access :: "string \<Rightarrow> (json \<times> secs) option"
  tk_nonce :: "string option"

type_synonym ('w, 'a) tok = "('w toks, custody_error, 'a) comp"

definition in_proc :: "('w, 'a) custody \<Rightarrow> ('w, 'a) tok" where
  "in_proc f s = (case f (tk_proc s) of (r, p) \<Rightarrow> (r, s\<lparr>tk_proc := p\<rparr>))"

definition TOKEN_FILE :: string where "TOKEN_FILE = ''token.bin''"
definition REVOKE_ENDPOINT :: string where "REVOKE_ENDPOINT = ''https://oauth2.googleapis.com/revoke''"
definition EXPIRY_MARGIN :: secs where "EXPIRY_MARGIN = 120"

section \<open>Taking custody\<close>

definition token_file :: "subject \<Rightarrow> ('w, bytes option) custody" where
  "token_file a =
     and_then (of_sum (identify a)) (\<lambda>(uid, _). read_store (file_at uid TOKEN_FILE))"

definition take_custody :: "'w enclave \<Rightarrow> moment \<Rightarrow> subject \<Rightarrow> string \<Rightarrow> ('w, unit) custody" where
  "take_custody E m a refresh_token =
     and_then (demand (refresh_token \<noteq> []) (AssertFail ''take_custody needs a refresh token'')) (\<lambda>_.
     and_then (of_sum (identify a)) (\<lambda>(uid, handle).
     and_then (read_store (has_key uid)) (\<lambda>there.
     and_then (if there then give () else create E m uid handle) (\<lambda>_.
     write_encrypted E m a TOKEN_FILE refresh_token))))"

definition has_custody :: "subject \<Rightarrow> ('w, bool) custody" where
  "has_custody a = and_then (token_file a) (\<lambda>f. give (f \<noteq> None))"

definition discard :: "subject \<Rightarrow> ('w, bool) custody" where
  "discard a = clear_encrypted a TOKEN_FILE"

definition http_post ::
  "'w google \<Rightarrow> string \<Rightarrow> (string \<times> string) list \<Rightarrow> json option \<Rightarrow> ('w, response) tok" where
  "http_post G url form proof s =
     (case gg_post G url form proof (pr_world (tk_proc s)) of
        (r, w) \<Rightarrow> (lift_err Uncaught r, s\<lparr>tk_proc := (tk_proc s)\<lparr>pr_world := w\<rparr>\<rparr>))"

definition revoke :: "'w enclave \<Rightarrow> 'w google \<Rightarrow> moment \<Rightarrow> subject \<Rightarrow> ('w, bool) tok" where
  "revoke E G m a =
     and_then (in_proc (token_file a)) (\<lambda>f.
     if f = None then give False
     else and_then (in_proc (read_encrypted E m a TOKEN_FILE)) (\<lambda>t.
       if \<not> truthy t then give False
       else and_then (http_post G REVOKE_ENDPOINT [(''token'', str_or t '''')] None) (\<lambda>resp.
         give (rs_status resp = 200 \<or> rs_status resp = 400))))"

section \<open>The token endpoint\<close>

definition json_get :: "json \<Rightarrow> string \<Rightarrow> custody_error + json" where
  "json_get j name = (case jobj j of None \<Rightarrow> Inl (Uncaught ''AttributeError'') | Some kvs \<Rightarrow> Inr (jget kvs name))"

definition needs_nonce :: "response \<Rightarrow> custody_error + bool" where
  "needs_nonce resp =
     (if rs_status resp \<noteq> 400 \<and> rs_status resp \<noteq> 401 then Inr False
      else case rs_json resp of
          None \<Rightarrow> Inr False
        | Some j \<Rightarrow> (case json_get j ''error'' of Inl e \<Rightarrow> Inl e | Inr err \<Rightarrow> Inr (err = JStr ''use_dpop_nonce'')))"

definition refusal_detail :: "response \<Rightarrow> string" where
  "refusal_detail resp =
     (let hints = concat (map (\<lambda>(name, v). if truthy v then [py_repr name @ '': '' @ py_repr (str_or v '''')] else [])
            [(''WWW-Authenticate'', rs_www resp), (''DPoP-Nonce'', rs_nonce resp), (''X-Debug-Tracking-Id'', rs_debug resp)]);
          detail = take 300 (rs_text resp)
      in if hints = [] then detail else detail @ '' {'' @ join_with '', '' hints @ ''}'')"

definition keep_nonce :: "response \<Rightarrow> ('w, unit) tok" where
  "keep_nonce resp s = (Inr (), if truthy (rs_nonce resp) then s\<lparr>tk_nonce := rs_nonce resp\<rparr> else s)"

text \<open>\<open>uid or form.get("client_id", "")\<close>, the id an error names.\<close>

definition grant_owner :: "(string \<times> string) list \<Rightarrow> string option \<Rightarrow> string" where
  "grant_owner form who =
     (if truthy who then str_or who '''' else the_default [] (map_of form ''client_id''))"

definition accept_response :: "(string \<times> string) list \<Rightarrow> string option \<Rightarrow> response \<Rightarrow> custody_error + json" where
  "accept_response form who resp =
     (if rs_status resp \<noteq> 200
      then (let detail = refusal_detail resp
            in if contains ''invalid_grant'' detail then Inl (ReauthRequired (grant_owner form who))
               else Inl (CustodyError (''token endpoint returned HTTP '' @ str_int (rs_status resp) @ '' for ''
                 @ the_default ''None'' (map_of form ''grant_type'') @ '' with fields ''
                 @ repr_list (sort (map fst form)) @ '': '' @ detail)))
      else case rs_json resp of None \<Rightarrow> Inl (Uncaught ''JSONDecodeError'') | Some j \<Rightarrow> Inr j)"

text \<open>\<open>proof\<close> and \<open>sign\<close> are each optional, as in the source.\<close>

definition exchange_with_dpop ::
  "'w google \<Rightarrow> (string \<times> string) list \<Rightarrow> string option \<Rightarrow> json option \<Rightarrow> (string option \<Rightarrow> ('w, json) tok) option \<Rightarrow> ('w, json) tok" where
  "exchange_with_dpop G form who proof sign =
     and_then (demand (proof \<noteq> None \<or> sign \<noteq> None) (AssertFail ''exchange_with_dpop needs a proof or a way to sign one'')) (\<lambda>_.
     and_then (case proof of
         Some p \<Rightarrow> give p
       | None \<Rightarrow> (\<lambda>s. case sign of None \<Rightarrow> (Inl (AssertFail ''exchange_with_dpop needs a proof or a way to sign one''), s)
                     | Some f \<Rightarrow> f (tk_nonce s) s)) (\<lambda>p.
     and_then (http_post G TOKEN_ENDPOINT form (Some p)) (\<lambda>resp.
     and_then (keep_nonce resp) (\<lambda>_.
     and_then (of_sum (needs_nonce resp)) (\<lambda>again.
     if \<not> again then of_sum (accept_response form who resp)
     else case sign of
         None \<Rightarrow> raise (AssertFail ''Google asked for a DPoP nonce and there is no way to sign a second proof'')
       | Some f \<Rightarrow>
           if \<not> truthy (rs_nonce resp) then raise (CustodyError ''Google demanded a DPoP nonce without supplying one'')
           else and_then (f (rs_nonce resp)) (\<lambda>p2.
                and_then (http_post G TOKEN_ENDPOINT form (Some p2)) (\<lambda>resp2.
                and_then (keep_nonce resp2) (\<lambda>_. of_sum (accept_response form who resp2)))))))))"

section \<open>A refresh\<close>

text \<open>\<open>int(value)\<close> of a member of the answer; \<open>expires_in\<close> defaults to an hour when absent.\<close>

definition trunc :: "rat \<Rightarrow> int" where
  "trunc q = (if 0 \<le> q then \<lfloor>q\<rfloor> else \<lceil>q\<rceil>)"

definition int_of_json :: "json \<Rightarrow> custody_error + int" where
  "int_of_json j =
     (case j of
        JNum q \<Rightarrow> Inr (trunc q)
      | JBool b \<Rightarrow> Inr (if b then 1 else 0)
      | JStr t \<Rightarrow> (case py_int t of None \<Rightarrow> Inl (Uncaught ''ValueError'') | Some i \<Rightarrow> Inr i)
      | _ \<Rightarrow> Inl (Uncaught ''TypeError''))"

definition expires_in :: "json \<Rightarrow> custody_error + int" where
  "expires_in payload =
     (case jobj payload of
        None \<Rightarrow> Inl (Uncaught ''AttributeError'')
      | Some kvs \<Rightarrow> (case map_of kvs ''expires_in'' of None \<Rightarrow> Inr 3600 | Some j \<Rightarrow> int_of_json j))"

definition refresh_form :: "string \<Rightarrow> string \<times> string \<Rightarrow> (string \<times> string) list" where
  "refresh_form tok keys =
     [(''grant_type'', ''refresh_token''), (''refresh_token'', tok), (''client_id'', fst keys), (''client_secret'', snd keys)]"

definition as_reauth :: "string \<Rightarrow> ('w, 'a) custody \<Rightarrow> ('w, 'a) custody" where
  "as_reauth uid f s =
     (case f s of (Inl (NoDataKey _), s') \<Rightarrow> (Inl (ReauthRequired uid), s') | (r, s') \<Rightarrow> (r, s'))"

definition refresh :: "'w enclave \<Rightarrow> 'w google \<Rightarrow> moment \<Rightarrow> account \<Rightarrow> ('w, json \<times> secs) tok" where
  "refresh E G m acct =
     and_then (of_sum (identify (Acct acct))) (\<lambda>(uid, handle).
     and_then (in_proc (token_file (Acct acct))) (\<lambda>there.
     and_then (demand (there \<noteq> None) (ReauthRequired uid)) (\<lambda>_.
     and_then (\<lambda>s. in_proc (as_reauth uid (release_for_refresh E m uid handle ''POST'' TOKEN_ENDPOINT (tk_nonce s))) s)
       (\<lambda>(dek, proof).
     and_then (in_proc (token_file (Acct acct))) (\<lambda>blob.
     and_then (of_sum (decrypt (en_crypto E) dek handle TOKEN_FILE (the_default [] blob))) (\<lambda>raw.
     and_then (of_sum (lift_err Uncaught (gg_keys G))) (\<lambda>keys.
     and_then (of_sum (decode_text raw)) (\<lambda>tok.
     and_then (exchange_with_dpop G (refresh_form tok keys) (Some uid) (Some proof)
         (Some (\<lambda>nonce. in_proc (sign_dpop E m ''POST'' TOKEN_ENDPOINT nonce)))) (\<lambda>payload.
     and_then (of_sum (json_get payload ''access_token'')) (\<lambda>access.
     and_then (demand (jtrue access) (CustodyError (''token endpoint returned no access_token for '' @ uid))) (\<lambda>_.
     and_then (of_sum (expires_in payload)) (\<lambda>secs.
     give (access, mo_answered m + of_int secs - EXPIRY_MARGIN)))))))))))))"

definition access_token_for :: "'w enclave \<Rightarrow> 'w google \<Rightarrow> moment \<Rightarrow> account \<Rightarrow> ('w, json) tok" where
  "access_token_for E G m acct s =
     (case tk_access s (ac_id acct) of
        Some (tok, expiry) \<Rightarrow>
          if mo_wall m < expiry then (Inr tok, s)
          else and_then (refresh E G m acct) (\<lambda>(access, e) s'.
            (Inr access, s'\<lparr>tk_access := (tk_access s')(ac_id acct \<mapsto> (access, e))\<rparr>)) s
      | None \<Rightarrow>
          and_then (refresh E G m acct) (\<lambda>(access, e) s'.
            (Inr access, s'\<lparr>tk_access := (tk_access s')(ac_id acct \<mapsto> (access, e))\<rparr>)) s)"

text \<open>What google-auth is given: the token with its expiry.\<close>

definition refresh_handler_for :: "'w enclave \<Rightarrow> 'w google \<Rightarrow> moment \<Rightarrow> account \<Rightarrow> ('w, json \<times> secs) tok" where
  "refresh_handler_for E G m acct =
     and_then (access_token_for E G m acct) (\<lambda>tok s.
       case tk_access s (ac_id acct) of None \<Rightarrow> (Inl (Uncaught ''KeyError''), s) | Some (_, e) \<Rightarrow> (Inr (tok, e), s))"

definition forget_tokens :: "string option \<Rightarrow> 'w toks \<Rightarrow> 'w toks" where
  "forget_tokens uid s =
     s\<lparr>tk_access := (case uid of None \<Rightarrow> (\<lambda>_. None) | Some u \<Rightarrow> (tk_access s)(u := None)),
       tk_proc := (tk_proc s)\<lparr>pr_store := forget_keys uid (pr_store (tk_proc s))\<rparr>\<rparr>"

section \<open>The nonce round trip\<close>

lemma http_post_Inr:
  "http_post G url form p s = (Inr resp, t) \<Longrightarrow>
   gg_post G url form p (pr_world (tk_proc s)) = (Inr resp, pr_world (tk_proc t))"
  by (auto simp: http_post_def lift_err_def split: prod.splits sum.splits)

lemma keep_nonce_Inr [simp]:
  "keep_nonce resp s = (r, t) \<longleftrightarrow> r = Inr () \<and> t = (if truthy (rs_nonce resp) then s\<lparr>tk_nonce := rs_nonce resp\<rparr> else s)"
  by (auto simp: keep_nonce_def)

lemma accept_Inr: "accept_response form who resp = Inr j \<longleftrightarrow> rs_status resp = 200 \<and> rs_json resp = Some j"
  by (auto simp: accept_response_def Let_def split: option.splits if_splits)

lemma needs_nonce_True: "needs_nonce resp = Inr True \<Longrightarrow> rs_status resp = 400 \<or> rs_status resp = 401"
  by (auto simp: needs_nonce_def split: if_splits)

text \<open>What follows the first answer.\<close>

definition answered ::
  "'w google \<Rightarrow> (string \<times> string) list \<Rightarrow> string option \<Rightarrow> (string option \<Rightarrow> ('w, json) tok) option \<Rightarrow> response \<Rightarrow> bool \<Rightarrow> ('w, json) tok" where
  "answered G form who sign resp again =
     (if \<not> again then of_sum (accept_response form who resp)
     else case sign of
         None \<Rightarrow> raise (AssertFail ''Google asked for a DPoP nonce and there is no way to sign a second proof'')
       | Some f \<Rightarrow>
           if \<not> truthy (rs_nonce resp) then raise (CustodyError ''Google demanded a DPoP nonce without supplying one'')
           else and_then (f (rs_nonce resp)) (\<lambda>p2.
                and_then (http_post G TOKEN_ENDPOINT form (Some p2)) (\<lambda>resp2.
                and_then (keep_nonce resp2) (\<lambda>_. of_sum (accept_response form who resp2)))))"

lemma exchange_unfold:
  "exchange_with_dpop G form who (Some p) sign =
     and_then (http_post G TOKEN_ENDPOINT form (Some p)) (\<lambda>resp.
     and_then (keep_nonce resp) (\<lambda>_.
     and_then (of_sum (needs_nonce resp)) (answered G form who sign resp)))"
  by (rule ext) (simp add: exchange_with_dpop_def answered_def [abs_def] and_then_def demand_def give_def)

text \<open>
  One retry, for one reason. An exchange that returned posted the form with the given proof,
  and either that was answered with 200, or it was answered with 400 or 401 and a nonce, and a
  second and last post, under a proof signed over exactly that nonce, was answered with 200; the
  value is the body of the 200.
\<close>

theorem exchange_retries_once_with_the_nonce:
  assumes "exchange_with_dpop G form who (Some p) sign s = (Inr j, t)"
  shows "\<exists>resp w1. gg_post G TOKEN_ENDPOINT form (Some p) (pr_world (tk_proc s)) = (Inr resp, w1)
    \<and> (rs_status resp = 200 \<and> rs_json resp = Some j \<and> pr_world (tk_proc t) = w1
       \<or> (\<exists>nonce f p2 s1 u resp2. (rs_status resp = 400 \<or> rs_status resp = 401) \<and> rs_nonce resp = Some nonce \<and> nonce \<noteq> []
            \<and> sign = Some f \<and> pr_world (tk_proc s1) = w1 \<and> f (Some nonce) s1 = (Inr p2, u)
            \<and> gg_post G TOKEN_ENDPOINT form (Some p2) (pr_world (tk_proc u)) = (Inr resp2, pr_world (tk_proc t))
            \<and> rs_status resp2 = 200 \<and> rs_json resp2 = Some j))"
proof -
  from assms obtain resp s1 again where
    post: "http_post G TOKEN_ENDPOINT form (Some p) s = (Inr resp, s1)" and need: "needs_nonce resp = Inr again" and
    rest: "answered G form who sign resp again (if truthy (rs_nonce resp) then s1\<lparr>tk_nonce := rs_nonce resp\<rparr> else s1)
      = (Inr j, t)"
    unfolding exchange_unfold and_then_Inr by auto
  note first = http_post_Inr [OF post]
  show ?thesis
  proof (cases again)
    case False
    with rest have "rs_status resp = 200" "rs_json resp = Some j" "pr_world (tk_proc t) = pr_world (tk_proc s1)"
      by (auto simp: answered_def accept_Inr split: if_splits)
    with first show ?thesis by auto
  next
    case True
    with rest obtain f where f: "sign = Some f" and n: "truthy (rs_nonce resp)"
      by (auto simp: answered_def split: option.splits if_splits)
    from n obtain nonce where nonce: "rs_nonce resp = Some nonce" "nonce \<noteq> []"
      by (cases "rs_nonce resp") (auto simp: truthy_def)
    from rest True f n nonce obtain p2 u resp2 u' where
      "f (Some nonce) (s1\<lparr>tk_nonce := Some nonce\<rparr>) = (Inr p2, u)"
      "http_post G TOKEN_ENDPOINT form (Some p2) u = (Inr resp2, u')"
      "accept_response form who resp2 = Inr j" "pr_world (tk_proc t) = pr_world (tk_proc u')"
      by (auto simp: answered_def split: if_splits)
    note second = this
    have code: "rs_status resp = 400 \<or> rs_status resp = 401" using needs_nonce_True need True by simp
    have "rs_status resp2 = 200" "rs_json resp2 = Some j" using second(3) by (simp_all add: accept_Inr)
    moreover have "gg_post G TOKEN_ENDPOINT form (Some p2) (pr_world (tk_proc u)) = (Inr resp2, pr_world (tk_proc t))"
      using http_post_Inr [OF second(2)] second(4) by simp
    moreover have "pr_world (tk_proc (s1\<lparr>tk_nonce := Some nonce\<rparr>)) = pr_world (tk_proc s1)" by simp
    ultimately show ?thesis using first nonce f code second(1) by blast
  qed
qed

section \<open>What the user is told\<close>

definition plain_error :: "custody_error \<Rightarrow> bool" where
  "plain_error e \<longleftrightarrow> (\<forall>x. e \<noteq> ReauthRequired x \<and> e \<noteq> NoDataKey x)"

lemma plain_simps [simp]:
  "plain_error (CustodyError x)" "plain_error (CoSignerUnavailable x)" "plain_error (CoSignerNotAttesting j)"
  "plain_error (AssertFail x)" "plain_error (AccountError e)" "plain_error (Uncaught x)" "plain_error (BadRecord x)"
  by (simp_all add: plain_error_def)

lemma plain_raw: "raises_only plain_error (raw_request E m verb path body)"
proof -
  have "raises_only plain_error (client_identity E)"
    by (rule raises_onlyI) (auto simp: client_identity_def Let_def split: option.splits if_splits tls_answer.splits)
  then show ?thesis
    unfolding raw_request_def
    by (rule raises_only_and_then)
      (auto simp: raises_only_def Let_def split: prod.splits reply.splits if_splits option.splits)
qed

lemma plain_request: "raises_only plain_error (client_request E m verb path body)"
proof -
  have "raises_only plain_error (and_then (raw_request E m ''GET'' ''/health'' None) (\<lambda>kvs s1.
        let stated = jget kvs ''attestation''
        in if stated \<noteq> JStr ''required''
           then (Inl (CoSignerNotAttesting stated), alert_operator E m ''co-signer is not attesting'' s1)
           else (Inr (), s1\<lparr>pr_attested := True\<rparr>)))"
    by (rule raises_only_and_then [OF plain_raw]) (auto simp: raises_only_def Let_def)
  then have "raises_only plain_error (require_attesting E m)"
    unfolding require_attesting_def by (auto simp: raises_only_def split: if_splits)
  then show ?thesis unfolding client_request_def by (simp add: raises_only_and_then plain_raw)
qed

lemma wire_bytes_Inl: "wire_bytes j = Inl e \<Longrightarrow> plain_error e"
  by (auto simp: wire_bytes_def split: json.splits option.splits)

lemma plain_calls:
  "raises_only plain_error (sign_dpop E m htm htu nonce)"
  "raises_only plain_error (unwrap_and_sign E m handle outer htm htu nonce)"
  "raises_only plain_error (open_dek E handle inner v)"
  "raises_only plain_error (check_handle_of h)"
proof -
  show "raises_only plain_error (sign_dpop E m htm htu nonce)"
    "raises_only plain_error (unwrap_and_sign E m handle outer htm htu nonce)"
    unfolding sign_dpop_def unwrap_and_sign_def Let_def
    by (auto intro!: raises_rules plain_request simp del: wire_bytes_Inr dest: wire_bytes_Inl)
  show "raises_only plain_error (open_dek E handle inner v)"
    unfolding open_dek_def
    by (intro raises_only_and_then raises_only_basic(3))
      (auto simp: raises_only_def open_inner_def split: prod.splits sum.splits option.splits if_splits)
  show "raises_only plain_error (check_handle_of h)"
    unfolding check_handle_of_def by (auto intro!: raises_rules simp: lift_err_def split: sum.splits)
qed

lemma accept_reauth:
  "accept_response form who resp = Inl (ReauthRequired x) \<Longrightarrow>
   rs_status resp \<noteq> 200 \<and> contains ''invalid_grant'' (refusal_detail resp)"
  by (auto simp: accept_response_def Let_def split: if_splits option.splits)

definition google_refused :: "'w google \<Rightarrow> 'w \<Rightarrow> bool" where
  "google_refused G world \<longleftrightarrow>
     (\<exists>form proof w resp. gg_post G TOKEN_ENDPOINT form (Some proof) w = (Inr resp, world)
        \<and> rs_status resp \<noteq> 200 \<and> contains ''invalid_grant'' (refusal_detail resp))"

lemma google_refusedI:
  "http_post G TOKEN_ENDPOINT form (Some p) s = (Inr resp, t) \<Longrightarrow> accept_response form who resp = Inl (ReauthRequired x) \<Longrightarrow>
   tk_proc u = tk_proc t \<Longrightarrow> google_refused G (pr_world (tk_proc u))"
  unfolding google_refused_def using http_post_Inr accept_reauth by metis

lemma http_post_plain: "raises_only plain_error (http_post G url form p)"
  by (auto simp: raises_only_def http_post_def lift_err_def split: prod.splits sum.splits)

lemma not_plain: "\<not> plain_error (ReauthRequired x)" "\<not> plain_error (NoDataKey x)"
  by (simp_all add: plain_error_def)

lemma needs_nonce_plain: "needs_nonce resp = Inl e \<Longrightarrow> plain_error e"
  by (auto simp: needs_nonce_def json_get_def split: if_splits option.splits sum.splits)

lemma plain_reauth:
  "raises_only plain_error f \<Longrightarrow> f s = (Inl (ReauthRequired x), t) \<longleftrightarrow> False"
  "raises_only plain_error f \<Longrightarrow> f s = (Inl (NoDataKey x), t) \<longleftrightarrow> False"
  by (auto dest: raises_onlyD simp: not_plain)

lemma exchange_reauth:
  assumes "exchange_with_dpop G form who (Some p) (Some f) s = (Inl (ReauthRequired x), t)"
    and "\<And>n. raises_only plain_error (f n)"
  shows "google_refused G (pr_world (tk_proc t))"
proof -
  note no = plain_reauth(1) [OF http_post_plain] plain_reauth(1) [OF assms(2)]
  note [simp] = no
  have nn: "needs_nonce resp \<noteq> Inl (ReauthRequired x)" for resp
    using needs_nonce_plain not_plain by blast
  from assms(1) nn obtain resp s1 again where post: "http_post G TOKEN_ENDPOINT form (Some p) s = (Inr resp, s1)" and
    rest: "answered G form who (Some f) resp again (if truthy (rs_nonce resp) then s1\<lparr>tk_nonce := rs_nonce resp\<rparr> else s1)
      = (Inl (ReauthRequired x), t)"
    unfolding exchange_unfold and_then_Inl by auto
  show ?thesis
  proof (cases again)
    case False
    with rest google_refusedI [OF post] show ?thesis by (auto simp: answered_def split: if_splits)
  next
    case True
    with rest show ?thesis by (auto simp: answered_def and_then_Inl split: if_splits intro: google_refusedI)
  qed
qed

lemma release_missing:
  assumes "release_for_refresh E m uid handle htm htu nonce s = (Inl (NoDataKey x), t)"
  shows "\<exists>e. fst (load_record uid s) = Inl e"
proof -
  note [simp] = plain_reauth(2) [OF plain_calls(2)] plain_reauth(2) [OF plain_calls(3)] plain_reauth(2) [OF plain_calls(4)]
  from assms have "load_record uid s = (Inl (NoDataKey x), t)"
    by (auto simp: release_for_refresh_def and_then_Inl split: prod.splits)
  then show ?thesis by simp
qed

lemma in_proc_simps:
  "in_proc f s = (r, t) \<longleftrightarrow> (\<exists>p. f (tk_proc s) = (r, p) \<and> t = s\<lparr>tk_proc := p\<rparr>)"
  by (auto simp: in_proc_def split: prod.splits)

lemma raises_in_proc: "raises_only P f \<Longrightarrow> raises_only P (in_proc f)"
  by (auto simp: raises_only_def in_proc_simps)

lemma plain_identify: "identify a = Inl e \<Longrightarrow> plain_error e"
  by (auto simp: identify_def Let_def lift_err_def split: subject.splits if_splits sum.splits)

lemma plain_decrypt: "decrypt C dek handle name blob = Inl e \<Longrightarrow> plain_error e"
  by (auto simp: decrypt_def split: if_splits option.splits)

lemma plain_token_file: "raises_only plain_error (token_file a)"
  unfolding token_file_def
  by (auto intro!: raises_only_and_then raises_only_basic dest: plain_identify)
    (auto simp: raises_only_def read_store_def lift_err_def split: sum.splits)

lemma plain_sums:
  "lift_err Uncaught q = Inl e \<Longrightarrow> plain_error e" "decode_text raw = Inl e \<Longrightarrow> plain_error e"
  "json_get j name = Inl e \<Longrightarrow> plain_error e" "expires_in j = Inl e \<Longrightarrow> plain_error e"
  by (auto simp: lift_err_def decode_text_def json_get_def expires_in_def int_of_json_def
      split: sum.splits option.splits json.splits)

lemma token_file_Inr:
  "token_file a s = (Inr f, t) \<Longrightarrow> identify a = Inr (uid, h) \<Longrightarrow> t = s \<and> f = st_files (pr_store s) uid TOKEN_FILE"
  by (auto simp: token_file_def dest: account_dir_Inr)

lemma release_no_reauth: "release_for_refresh E m uid handle htm htu nonce s = (Inl (ReauthRequired x), t) \<longleftrightarrow> False"
proof -
  note [simp] = plain_reauth(1) [OF plain_calls(2)] plain_reauth(1) [OF plain_calls(3)] plain_reauth(1) [OF plain_calls(4)]
  have "decode_record blob = Inl e \<Longrightarrow> plain_error e" for blob e
    by (auto simp: decode_record_def Let_def split: if_splits)
  then have "record_of blob \<noteq> Inl (ReauthRequired x)" for blob
    using not_plain by (auto simp: record_of_def split: sum.splits custody_error.splits)
  then have "load_record uid s \<noteq> (Inl (ReauthRequired x), t)" for s t
    by (auto simp: load_record_def and_then_Inl read_store_def lift_err_def split: sum.splits option.splits)
  then show ?thesis by (auto simp: release_for_refresh_def and_then_Inl split: prod.splits)
qed

lemma as_reauth_cases:
  "as_reauth uid f s = (Inr y, t) \<longleftrightarrow> f s = (Inr y, t)"
  "as_reauth uid f s = (Inl (ReauthRequired x), t) \<Longrightarrow>
     (\<exists>y. f s = (Inl (NoDataKey y), t)) \<or> f s = (Inl (ReauthRequired x), t)"
  by (cases "f s"; auto simp: as_reauth_def split: sum.splits custody_error.splits)+

text \<open>A refresh from the key on: everything after the co-signer released it.\<close>

definition spend ::
  "'w enclave \<Rightarrow> 'w google \<Rightarrow> moment \<Rightarrow> account \<Rightarrow> string \<Rightarrow> string \<Rightarrow> bytes \<times> json \<Rightarrow> ('w, json \<times> secs) tok" where
  "spend E G m acct uid handle = (\<lambda>(dek, proof).
     and_then (in_proc (token_file (Acct acct))) (\<lambda>blob.
     and_then (of_sum (decrypt (en_crypto E) dek handle TOKEN_FILE (the_default [] blob))) (\<lambda>raw.
     and_then (of_sum (lift_err Uncaught (gg_keys G))) (\<lambda>keys.
     and_then (of_sum (decode_text raw)) (\<lambda>tok.
     and_then (exchange_with_dpop G (refresh_form tok keys) (Some uid) (Some proof)
         (Some (\<lambda>nonce. in_proc (sign_dpop E m ''POST'' TOKEN_ENDPOINT nonce)))) (\<lambda>payload.
     and_then (of_sum (json_get payload ''access_token'')) (\<lambda>access.
     and_then (demand (jtrue access) (CustodyError (''token endpoint returned no access_token for '' @ uid))) (\<lambda>_.
     and_then (of_sum (expires_in payload)) (\<lambda>secs.
     give (access, mo_answered m + of_int secs - EXPIRY_MARGIN))))))))))"

lemma refresh_unfold:
  "refresh E G m acct =
     and_then (of_sum (identify (Acct acct))) (\<lambda>(uid, handle).
     and_then (in_proc (token_file (Acct acct))) (\<lambda>there.
     and_then (demand (there \<noteq> None) (ReauthRequired uid)) (\<lambda>_.
     and_then (\<lambda>s. in_proc (as_reauth uid (release_for_refresh E m uid handle ''POST'' TOKEN_ENDPOINT (tk_nonce s))) s)
       (spend E G m acct uid handle))))"
  by (simp add: refresh_def spend_def)

lemma spend_reauth:
  assumes "spend E G m acct uid handle kp s = (Inl (ReauthRequired x), t)"
  shows "google_refused G (pr_world (tk_proc t))"
proof -
  note [simp] = plain_reauth(1) [OF raises_in_proc [OF plain_token_file]]
  have [simp]: "q \<noteq> Inl (ReauthRequired x)" if "\<And>e. q = Inl e \<Longrightarrow> plain_error e" for q :: "custody_error + 'z"
    using that not_plain by blast
  have no: "decrypt C dek h n b \<noteq> Inl (ReauthRequired x)" "lift_err Uncaught q \<noteq> Inl (ReauthRequired x)"
    "decode_text r \<noteq> Inl (ReauthRequired x)" "json_get j k \<noteq> Inl (ReauthRequired x)" "expires_in j \<noteq> Inl (ReauthRequired x)"
    for C dek h n b r j k and q :: "string + string \<times> string"
    using plain_decrypt plain_sums not_plain by metis+
  from assms obtain form p u where
    "exchange_with_dpop G form (Some uid) (Some p) (Some (\<lambda>nonce. in_proc (sign_dpop E m ''POST'' TOKEN_ENDPOINT nonce))) u
       = (Inl (ReauthRequired x), t)"
    by (auto simp: spend_def and_then_Inl no split: prod.splits if_splits)
  from exchange_reauth [OF this raises_in_proc [OF plain_calls(1)]] show ?thesis .
qed

text \<open>
  C28: "sign in again" is never said for an outage: a refresh fails with \<open>ReauthRequired\<close> only when
  the account has no token file, or no readable data key record, or the last thing on the wire
  was a POST to the token endpoint that Google refused with an invalid grant. A co-signer that is down or refuses, a proof that cannot be signed and any other
  answer of Google's are other errors.
\<close>

theorem reauth_is_about_the_grant:
  assumes "refresh E G m acct s = (Inl (ReauthRequired x), t)"
  shows "\<exists>uid handle. identify (Acct acct) = Inr (uid, handle) \<and>
    (st_files (pr_store (tk_proc s)) uid TOKEN_FILE = None
     \<or> (\<exists>e. fst (load_record uid (tk_proc s)) = Inl e)
     \<or> google_refused G (pr_world (tk_proc t)))"
proof (cases "identify (Acct acct)")
  case (Inl e)
  with assms plain_identify [OF Inl] show ?thesis by (simp add: refresh_def and_then_def of_sum_def not_plain)
next
  case (Inr uh)
  obtain uid handle where uh: "uh = (uid, handle)" by fastforce
  note id = Inr [unfolded uh]
  obtain q p where q: "token_file (Acct acct) (tk_proc s) = (q, p)" by fastforce
  have "q \<noteq> Inl (ReauthRequired x)" using q plain_reauth(1) [OF plain_token_file] by metis
  then obtain f where f: "q = Inr f"
    using assms id q by (cases q) (auto simp: refresh_unfold and_then_def of_sum_def in_proc_def)
  from token_file_Inr [OF q [unfolded f] id] have tf: "p = tk_proc s" "f = st_files (pr_store (tk_proc s)) uid TOKEN_FILE"
    by auto
  show ?thesis
  proof (cases f)
    case None
    with tf id show ?thesis by auto
  next
    case (Some blob)
    obtain r u where r: "as_reauth uid (release_for_refresh E m uid handle ''POST'' TOKEN_ENDPOINT (tk_nonce s)) (tk_proc s) = (r, u)"
      by fastforce
    have q': "token_file (Acct acct) (tk_proc s) = (Inr (Some blob), tk_proc s)" using q f tf(1) Some by simp
    from assms id q' r have run: "(case r of Inl e \<Rightarrow> (Inl e, s\<lparr>tk_proc := u\<rparr>)
        | Inr kp \<Rightarrow> spend E G m acct uid handle kp (s\<lparr>tk_proc := u\<rparr>)) = (Inl (ReauthRequired x), t)"
      by (auto simp: refresh_unfold and_then_def of_sum_def in_proc_def demand_def split: sum.splits)
    show ?thesis
    proof (cases r)
      case (Inl e)
      with run r have "as_reauth uid (release_for_refresh E m uid handle ''POST'' TOKEN_ENDPOINT (tk_nonce s)) (tk_proc s)
        = (Inl (ReauthRequired x), u)" by simp
      from as_reauth_cases(2) [OF this] release_missing id show ?thesis
        by (auto simp: release_no_reauth)
    next
      case (Inr kp)
      with run have "spend E G m acct uid handle kp (s\<lparr>tk_proc := u\<rparr>) = (Inl (ReauthRequired x), t)" by simp
      from spend_reauth [OF this] id show ?thesis by blast
    qed
  qed
qed

section \<open>The lifetime of an access token\<close>

text \<open>\<open>payload\<close> is the body of the 200 with which the token endpoint answered the last POST, of \<open>form\<close>.\<close>

definition answered_with :: "'w google \<Rightarrow> (string \<times> string) list \<Rightarrow> 'w \<Rightarrow> json \<Rightarrow> bool" where
  "answered_with G form world payload \<longleftrightarrow>
     (\<exists>pf w resp. gg_post G TOKEN_ENDPOINT form (Some pf) w = (Inr resp, world)
        \<and> rs_status resp = 200 \<and> rs_json resp = Some payload)"

lemma exchange_body:
  assumes "exchange_with_dpop G form who (Some p) sign s = (Inr j, t)"
  shows "answered_with G form (pr_world (tk_proc t)) j"
proof -
  have post: "answered_with G form (pr_world (tk_proc u)) j"
    if "http_post G TOKEN_ENDPOINT form (Some q) s1 = (Inr resp, s2)" and "accept_response form who resp = Inr j"
      and "tk_proc u = tk_proc s2" for q s1 s2 u resp
    using http_post_Inr [OF that(1)] that(2,3) unfolding answered_with_def accept_Inr by metis
  from assms obtain resp s1 again where first: "http_post G TOKEN_ENDPOINT form (Some p) s = (Inr resp, s1)" and
    rest: "answered G form who sign resp again (if truthy (rs_nonce resp) then s1\<lparr>tk_nonce := rs_nonce resp\<rparr> else s1)
      = (Inr j, t)"
    unfolding exchange_unfold and_then_Inr by auto
  show ?thesis
  proof (cases again)
    case False
    with rest post [OF first] show ?thesis by (auto simp: answered_def split: if_splits)
  next
    case True
    with rest show ?thesis by (auto simp: answered_def split: if_splits option.splits intro: post)
  qed
qed

lemma refresh_Inr_payload:
  assumes "refresh E G m acct s = (Inr (tok, e), t)"
  shows "\<exists>form payload secs. answered_with G form (pr_world (tk_proc t)) payload \<and> json_get payload ''access_token'' = Inr tok
    \<and> expires_in payload = Inr secs \<and> e = mo_answered m + of_int secs - 120"
  using assms by (auto simp: refresh_unfold spend_def EXPIRY_MARGIN_def split: prod.splits dest: exchange_body)

lemma access_Inr_cold:
  assumes "access_token_for E G m acct s = (Inr tok, t)"
    and "\<forall>k e. tk_access s (ac_id acct) = Some (k, e) \<longrightarrow> e \<le> mo_wall m"
  obtains e u where "refresh E G m acct s = (Inr (tok, e), u)" "tk_access t (ac_id acct) = Some (tok, e)" "tk_proc t = tk_proc u"
  using assms
  by (auto simp: access_token_for_def split: option.splits prod.splits if_splits)

text \<open>
  C29: an access token is never used to its last minute: one that was fetched is the access token of
  the 200 that was the last answer on the wire, and it is handed out again, without a word on the
  wire, until two minutes before the lifetime that answer states is over, counted from the clock
  read after the answer; from then on a call gives what a new refresh gives.
\<close>

theorem access_token_stops_before_expiry:
  assumes "access_token_for E G m acct s = (Inr tok, t)"
    and "\<forall>k e. tk_access s (ac_id acct) = Some (k, e) \<longrightarrow> e \<le> mo_wall m"
  shows "\<exists>form payload secs. answered_with G form (pr_world (tk_proc t)) payload
    \<and> json_get payload ''access_token'' = Inr tok \<and> expires_in payload = Inr secs \<and>
    (\<forall>m' u. tk_access u (ac_id acct) = tk_access t (ac_id acct) \<longrightarrow>
      (if mo_wall m' < mo_answered m + of_int secs - 120 then access_token_for E G m' acct u = (Inr tok, u)
       else fst (access_token_for E G m' acct u) = (case fst (refresh E G m' acct u) of Inl e \<Rightarrow> Inl e | Inr (k, _) \<Rightarrow> Inr k)))"
proof -
  from access_Inr_cold [OF assms] obtain e v where
    r: "refresh E G m acct s = (Inr (tok, e), v)" "tk_access t (ac_id acct) = Some (tok, e)" "tk_proc t = tk_proc v" .
  from refresh_Inr_payload [OF r(1)] obtain form payload secs where
    p: "answered_with G form (pr_world (tk_proc t)) payload" "json_get payload ''access_token'' = Inr tok"
      "expires_in payload = Inr secs" "e = mo_answered m + of_int secs - 120" using r(3) by auto
  show ?thesis
    by (intro exI [of _ form] exI [of _ payload] exI [of _ secs] conjI p(1-3))
      (use r(2) p(4) in \<open>auto simp: access_token_for_def and_then_def split: sum.splits prod.splits\<close>)
qed

section \<open>The token that is spent is the token that was taken\<close>

lemma take_step:
  assumes "take_custody E m a tok s = (Inr x, t)" and "identify a = Inr (uid, hs uid)"
    and "honest ks E" and "aead_inverts (en_crypto E)" and "keyring_inv E ks hs s"
    and "length (mo_seal m) = 12" and "length (mo_nonce m) = 12" and "fresh_key E m hs uid s"
  shows "keyring_inv E ks hs t
    \<and> vault E ks hs (pr_store t) = vault_apply (Put uid TOKEN_FILE (utf8 tok)) (vault E ks hs (pr_store s))"
proof -
  from assms(1,2) obtain there u where
    k: "has_key uid (pr_store s) = Inr there" "(if there then give () else create E m uid (hs uid)) s = (Inr (), u)" and
    w: "write_encrypted E m a TOKEN_FILE tok u = (Inr x, t)" and ne: "tok \<noteq> []"
    by (auto simp: take_custody_def)
  have u: "keyring_inv E ks hs u \<and> fresh_key E m hs uid u \<and> vault E ks hs (pr_store u) = vault E ks hs (pr_store s)"
  proof (cases there)
    case True
    with k(2) assms(5,8) show ?thesis by (simp add: give_def)
  next
    case False
    with k(2) have c: "create E m uid (hs uid) s = (Inr (), u)" by simp
    have sec: "secret_ok E s" using assms(5) by (simp add: keyring_inv_def)
    from create_Inr [where hs = hs and ks = ks, OF c assms(3,4) sec assms(6)] obtain blob where
      "pr_store u = (put_file uid DEK_FILE blob (pr_store s))\<lparr>st_deks := dek_put (mo_created m) uid (mo_dek m) (st_deks (pr_store s))\<rparr>"
      by blast
    then have "fresh_key E m hs uid u" using assms(8) by (simp add: fresh_key_def)
    with create_step [where hs = hs and ks = ks, OF c assms(3-6,8)] show ?thesis by blast
  qed
  have "TOKEN_FILE \<noteq> DEK_FILE" by (simp add: TOKEN_FILE_def DEK_FILE_def)
  from write_step [where hs = hs and ks = ks, OF w assms(2-4) _ assms(6,7) _ this ne] u show ?thesis by simp
qed

lemma refresh_spends:
  assumes "refresh E G m acct s = (Inr y, t)" and "identify (Acct acct) = Inr (uid, hs uid)"
    and "honest ks E" and "keyring_inv E ks hs (tk_proc s)"
    and "vault E ks hs (pr_store (tk_proc s)) (uid, TOKEN_FILE) = Some (utf8 tok)"
  shows "\<exists>keys payload. gg_keys G = Inr keys
    \<and> answered_with G (refresh_form tok keys) (pr_world (tk_proc t)) payload \<and> json_get payload ''access_token'' = Inr (fst y)"
proof -
  from assms(1,2) obtain dek pf p s1 blob q raw keys tok' payload s2 where
    rel: "release_for_refresh E m uid (hs uid) ''POST'' TOKEN_ENDPOINT (tk_nonce s) p = (Inr (dek, pf), s1)" and
    p: "\<exists>f. token_file (Acct acct) (tk_proc s) = (Inr f, p)" and
    f: "token_file (Acct acct) s1 = (Inr blob, q)" and
    d: "decrypt (en_crypto E) dek (hs uid) TOKEN_FILE (the_default [] blob) = Inr raw" and
    keys: "gg_keys G = Inr keys" and dt: "decode_text raw = Inr tok'" and
    ex: "exchange_with_dpop G (refresh_form tok' keys) (Some uid) (Some pf)
         (Some (\<lambda>nonce. in_proc (sign_dpop E m ''POST'' TOKEN_ENDPOINT nonce))) s2 = (Inr payload, t)" and
    acc: "json_get payload ''access_token'' = Inr (fst y)"
    by (auto simp: refresh_unfold spend_def in_proc_simps as_reauth_cases)
  from p token_file_Inr assms(2) have p': "p = tk_proc s" by metis
  note rel = rel [unfolded p']
  from release_Inr [where hs = hs and ks = ks, OF rel assms(3)] assms(4)
  have key: "account_key E ks hs (pr_store (tk_proc s)) uid = Some dek" by (simp add: keyring_inv_def)
  have "pr_store s1 = pr_store (tk_proc s)"
    using channel.keepsD [OF keeps_opening(2) rel] by (simp add: channel_kept_def)
  with token_file_Inr [OF f assms(2)] have b: "blob = st_files (pr_store (tk_proc s)) uid TOKEN_FILE" by simp
  have "raw = utf8 tok"
    using assms(5) key d b
    by (auto simp: vault_def readable_def the_default_def split: if_splits option.splits sum.splits)
  with dt have "tok' = tok" by (simp add: decode_text_def text_codec.round_trip)
  with exchange_body [OF ex] keys acc show ?thesis by blast
qed

text \<open>
  What Google is shown is what the user consented to: after custody was taken of a refresh
  token, and any history of the keyring that did not rewrite that file or shred the account, a
  refresh that returns has its access token from the 200 to a POST of exactly that token, under a
  proof, to the token endpoint.
\<close>

theorem refresh_spends_the_token_taken:
  assumes "honest ks E" and "aead_inverts (en_crypto E)" and "keyring_inv E ks hs s"
    and "identify (Acct acct) = Inr (uid, hs uid)"
    and "length (mo_seal m) = 12" and "length (mo_nonce m) = 12" and "fresh_key E m hs uid s"
    and "take_custody E m (Acct acct) tok s = (Inr x, s1)"
    and "keyring_run E hs ops s1 (tk_proc u)" and "\<forall>lab \<in> set ops. \<not> touches uid TOKEN_FILE lab"
    and "refresh E G m' acct u = (Inr y, t)"
  shows "\<exists>keys payload. gg_keys G = Inr keys
    \<and> answered_with G (refresh_form tok keys) (pr_world (tk_proc t)) payload \<and> json_get payload ''access_token'' = Inr (fst y)"
proof -
  from take_step [where hs = hs and ks = ks, OF assms(8,4,1-3,5-7)]
  have t: "keyring_inv E ks hs s1" "vault E ks hs (pr_store s1) (uid, TOKEN_FILE) = Some (utf8 tok)"
    by (simp_all del: utf8.simps)
  from run_untouched [OF assms(9,1,2) t(1) assms(10)] t(2)
  have "keyring_inv E ks hs (tk_proc u)" "vault E ks hs (pr_store (tk_proc u)) (uid, TOKEN_FILE) = Some (utf8 tok)" by simp_all
  from refresh_spends [where hs = hs and ks = ks, OF assms(11,4,1) this] show ?thesis .
qed

end
