(* ===== verification/ChatLink.thy ===== *)
theory ChatLink
  imports Tokens
begin

text \<open>
  Who may change where an account's summaries go: \<open>backend/accounts/chat_link.py\<close>, the sign-in notes
  of \<open>backend/accounts/auth_recency.py\<close>, and what they use of \<open>backend/integrations/telegram.py\<close>. The
  daemon keeps the pending changes and the notes in memory. Telegram is a parameter: a POST is an
  exception or a body, None when it is not JSON; so is the call that puts a message into a mailbox.
\<close>

section \<open>The daemon's desk\<close>

datatype desk_error = ChangeRefused string | DeskStore acct_error | DeskAssert string | DeskUncaught string

record change =
  ch_action :: string
  ch_code :: string
  ch_since :: int
  ch_expires :: int
  ch_chat :: "string option"

record 'w desk =
  dk_store :: store
  dk_pending :: "string \<Rightarrow> change option"
  dk_proven :: "string \<Rightarrow> secs option"
  dk_username :: "json option"
  dk_world :: 'w

record 'w bots =
  bt_site :: site_env
  bt_post :: "string \<Rightarrow> json \<Rightarrow> 'w \<Rightarrow> (string + json option) \<times> 'w"
  bt_insert :: "account \<Rightarrow> string \<Rightarrow> string \<Rightarrow> 'w \<Rightarrow> (string + unit) \<times> 'w"

type_synonym ('w, 'a) desk_op = "('w desk, desk_error, 'a) comp"

definition PENDING_TTL :: int where "PENDING_TTL = 900"
definition FRESH_SECONDS :: secs where "FRESH_SECONDS = 600"
definition CHAT_LINK :: string where "CHAT_LINK = ''link''"
definition CHAT_UNLINK :: string where "CHAT_UNLINK = ''unlink''"
definition CHAT_CODE_SUBJECT :: string where "CHAT_CODE_SUBJECT = ''Your Letterlock Telegram code''"

definition NO_SUCH_ACCOUNT :: string where "NO_SUCH_ACCOUNT = ''That account no longer exists.''"
definition NOT_CONFIGURED :: string where "NOT_CONFIGURED = ''Telegram is not configured on this server yet.''"
definition CODE_EXPIRED :: string where "CODE_EXPIRED = ''That code expired. Start again.''"
definition CHANGED_MEANWHILE :: string where
  "CHANGED_MEANWHILE = ''Your Telegram settings changed in the meantime. Start again.''"
definition CODE_NOT_SEEN :: string where
  "CODE_NOT_SEEN = ''We have not seen that code yet. Send it to the bot, then press the button again.''"
definition CODE_NOT_SEEN_FROM_CHAT :: string where
  "CODE_NOT_SEEN_FROM_CHAT = ''We have not seen that code arrive from the linked chat yet. Send it from the chat that currently receives your summary, then press the button again.''"
definition CODE_NOT_DELIVERED :: string where
  "CODE_NOT_DELIVERED = ''We could not put the code in your inbox just now. Try again in a minute.''"

definition USER_MESSAGES :: "string set" where
  "USER_MESSAGES = {NO_SUCH_ACCOUNT, NOT_CONFIGURED, CODE_EXPIRED, CHANGED_MEANWHILE, CODE_NOT_SEEN,
     CODE_NOT_SEEN_FROM_CHAT, CODE_NOT_DELIVERED}"

text \<open>Raising \<open>ChangeRefused\<close>: its constructor asserts the message is a vetted one.\<close>

definition refuse :: "string \<Rightarrow> ('w, 'a) desk_op" where
  "refuse msg = raise (if msg \<in> USER_MESSAGES then ChangeRefused msg else DeskAssert msg)"

section \<open>Sign-in notes\<close>

text \<open>\<open>_prune\<close> and \<open>record\<close>: storing a note drops the ones that are over.\<close>

definition note_sign_in :: "secs \<Rightarrow> string \<Rightarrow> (string \<Rightarrow> secs option) \<Rightarrow> string \<Rightarrow> secs option" where
  "note_sign_in now uid notes =
     (\<lambda>u. case notes u of None \<Rightarrow> None | Some t \<Rightarrow> if t + FRESH_SECONDS \<le> now then None else Some t)(uid \<mapsto> now)"

definition proven_recently :: "secs \<Rightarrow> string \<Rightarrow> (string \<Rightarrow> secs option) \<Rightarrow> bool" where
  "proven_recently now uid notes = (case notes uid of None \<Rightarrow> False | Some t \<Rightarrow> now - t < FRESH_SECONDS)"

definition record_sign_in :: "secs \<Rightarrow> string \<Rightarrow> ('w, unit) desk_op" where
  "record_sign_in now uid =
     and_then (demand (uid \<noteq> []) (DeskAssert ''an authentication with no account is not one'')) (\<lambda>_ s.
       (Inr (), s\<lparr>dk_proven := note_sign_in now uid (dk_proven s)\<rparr>))"

definition forget_sign_in :: "string \<Rightarrow> ('w, unit) desk_op" where
  "forget_sign_in uid s = (Inr (), s\<lparr>dk_proven := (dk_proven s)(uid := None)\<rparr>)"

section \<open>The bot\<close>

definition bot_token :: "'w bots \<Rightarrow> string option" where
  "bot_token B = keep_truthy (se_bot (bt_site B))"

text \<open>
  None on any failure it foresees. A body that is JSON and no object is not among them: \<open>body.get\<close>
  stands outside the \<open>try\<close>.
\<close>

definition telegram_call :: "'w bots \<Rightarrow> string \<Rightarrow> json \<Rightarrow> string option \<Rightarrow> ('w, json option) desk_op" where
  "telegram_call B verb msg token s =
     (let tok = (if truthy token then token else bot_token B)
      in if \<not> truthy tok then (Inr None, s)
         else case bt_post B (''https://api.telegram.org/bot'' @ str_or tok '''' @ ''/'' @ verb) msg (dk_world s) of
           (r, w) \<Rightarrow>
             (case r of
                Inl _ \<Rightarrow> Inr None
              | Inr None \<Rightarrow> Inr None
              | Inr (Some body) \<Rightarrow>
                 (case jobj body of
                    None \<Rightarrow> Inl (DeskUncaught ''AttributeError'')
                  | Some kvs \<Rightarrow>
                      if \<not> jtrue (jget kvs ''ok'') then Inr None
                      else Inr (Some (if jget kvs ''result'' = JNull then JBool True else jget kvs ''result''))),
              s\<lparr>dk_world := w\<rparr>))"

definition bot_username :: "'w bots \<Rightarrow> ('w, json option) desk_op" where
  "bot_username B s =
     (let answer = (\<lambda>u. if jtrue u then Some u else None)
      in case dk_username s of
           Some u \<Rightarrow> (Inr (answer u), s)
         | None \<Rightarrow>
            and_then (telegram_call B ''getMe'' (JObj []) None) (\<lambda>r s1.
              case (case r of None \<Rightarrow> Some [] | Some j \<Rightarrow> if jtrue j then jobj j else Some []) of
                None \<Rightarrow> (Inl (DeskUncaught ''AttributeError''), s1)
              | Some kvs \<Rightarrow>
                  let u = (if jtrue (jget kvs ''username'') then jget kvs ''username'' else JStr [])
                  in (Inr (answer u), s1\<lparr>dk_username := Some u\<rparr>)) s)"

definition send_telegram :: "'w bots \<Rightarrow> string \<Rightarrow> (string \<times> string) option \<Rightarrow> ('w, bool) desk_op" where
  "send_telegram B message target =
     (case target of
        None \<Rightarrow> give False
      | Some (token, chat) \<Rightarrow>
          and_then (telegram_call B ''sendMessage''
              (JObj [(''chat_id'', JStr chat), (''text'', JStr message), (''parse_mode'', JStr ''HTML'')]) (Some token))
            (\<lambda>r. give (r \<noteq> None)))"

definition new_link_code :: "string \<Rightarrow> string" where
  "new_link_code draw = ''LL-'' @ draw"

text \<open>\<open>code not in (text or "")\<close> and \<open>x or {}\<close> on members of an update.\<close>

definition holds_code :: "string \<Rightarrow> json \<Rightarrow> desk_error + bool" where
  "holds_code code t =
     (if \<not> jtrue t then Inr (contains code [])
      else case t of
          JStr s \<Rightarrow> Inr (contains code s)
        | JList xs \<Rightarrow> Inr (JStr code \<in> set xs)
        | JObj kvs \<Rightarrow> Inr (code \<in> fst ` set kvs)
        | _ \<Rightarrow> Inl (DeskUncaught ''TypeError''))"

definition members :: "json \<Rightarrow> desk_error + (string \<times> json) list" where
  "members j =
     (if \<not> jtrue j then Inr []
      else case jobj j of None \<Rightarrow> Inl (DeskUncaught ''AttributeError'') | Some kvs \<Rightarrow> Inr kvs)"

text \<open>\<open>str(chat_id)\<close> of the two kinds of id Telegram has, a number and a name.\<close>

definition chat_name :: "json \<Rightarrow> desk_error + string" where
  "chat_name j =
     (case j of JStr s \<Rightarrow> Inr s | JNum q \<Rightarrow> Inr (str_int (trunc q)) | _ \<Rightarrow> Inl (DeskUncaught ''chat id''))"

text \<open>One update: None when it does not carry the code or has no chat.\<close>

definition post_in :: "string \<Rightarrow> json \<Rightarrow> desk_error + (string \<times> int) option" where
  "post_in code update =
     (case jobj update of
        None \<Rightarrow> Inl (DeskUncaught ''AttributeError'')
      | Some u \<Rightarrow>
     (case members (if jtrue (jget u ''message'') then jget u ''message'' else jget u ''channel_post'') of
        Inl e \<Rightarrow> Inl e
      | Inr message \<Rightarrow>
     (case holds_code code (jget message ''text'') of
        Inl e \<Rightarrow> Inl e
      | Inr False \<Rightarrow> Inr None
      | Inr True \<Rightarrow>
     (case members (jget message ''chat'') of
        Inl e \<Rightarrow> Inl e
      | Inr chat \<Rightarrow>
     (if jget chat ''id'' = JNull then Inr None
      else case chat_name (jget chat ''id'') of
          Inl e \<Rightarrow> Inl e
        | Inr name \<Rightarrow>
           (case (if jtrue (jget message ''date'') then lift_err (\<lambda>_. DeskUncaught ''date'') (int_of_json (jget message ''date'')) else Inr 0) of
              Inl e \<Rightarrow> Inl e
            | Inr date \<Rightarrow> Inr (Some (name, date))))))))"

fun posts_in :: "string \<Rightarrow> json list \<Rightarrow> desk_error + (string \<times> int) list" where
  "posts_in code [] = Inr []"
| "posts_in code (u # us) =
     (case post_in code u of
        Inl e \<Rightarrow> Inl e
      | Inr p \<Rightarrow>
         (case posts_in code us of
            Inl e \<Rightarrow> Inl e | Inr ps \<Rightarrow> Inr (case p of None \<Rightarrow> ps | Some x \<Rightarrow> x # ps)))"

definition posts_of :: "'w bots \<Rightarrow> string \<Rightarrow> ('w, (string \<times> int) list) desk_op" where
  "posts_of B code =
     and_then (demand (code \<noteq> []) (DeskAssert ''posts_of needs a code'')) (\<lambda>_.
     and_then (telegram_call B ''getUpdates'' (JObj [(''limit'', JNum 100), (''timeout'', JNum 0)]) None) (\<lambda>r.
       case r of Some (JList updates) \<Rightarrow> of_sum (posts_in code (rev updates)) | _ \<Rightarrow> give []))"

section \<open>The rule\<close>

definition action_for :: "account \<Rightarrow> string" where
  "action_for a = (if ac_telegram a \<noteq> None then CHAT_UNLINK else CHAT_LINK)"

definition chat_of :: "account \<Rightarrow> string option" where
  "chat_of a = map_option snd (ac_telegram a)"

definition the_account :: "'w bots \<Rightarrow> string \<Rightarrow> ('w, account) desk_op" where
  "the_account B uid s =
     (case account_for_email (bt_site B) (Some uid) True (dk_store s) of
        Inl e \<Rightarrow> (Inl (DeskStore e), s)
      | Inr None \<Rightarrow> refuse NO_SUCH_ACCOUNT s
      | Inr (Some a) \<Rightarrow> (Inr a, s))"

definition prune_pending :: "int \<Rightarrow> (string \<Rightarrow> change option) \<Rightarrow> string \<Rightarrow> change option" where
  "prune_pending now m u = (case m u of None \<Rightarrow> None | Some e \<Rightarrow> if ch_expires e \<le> now then None else Some e)"

definition forget_change :: "string \<Rightarrow> ('w, unit) desk_op" where
  "forget_change uid s = (Inr (), s\<lparr>dk_pending := (dk_pending s)(uid := None)\<rparr>)"

definition notice_body :: "string \<Rightarrow> string" where
  "notice_body code =
     ''Someone asked to link a Telegram chat to your Letterlock account.\<newline>\<newline>Your code is: '' @ code @
     ''\<newline>\<newline>Send it to the Letterlock bot from the Telegram chat you want your drafts and\<newline>your daily summary to arrive in, then press the button on the settings page.\<newline>\<newline>If you did not ask for this, do not send the code anywhere. Nothing changes\<newline>until the code is sent from a chat, and whoever asked cannot read this message.\<newline>\<newline>This mailbox is not monitored; please do not reply.\<newline>''"

definition deliver_code :: "'w bots \<Rightarrow> account \<Rightarrow> string \<Rightarrow> ('w, unit) desk_op" where
  "deliver_code B a code s =
     (case bt_insert B a CHAT_CODE_SUBJECT (notice_body code) (dk_world s) of
        (Inl _, w) \<Rightarrow> refuse CODE_NOT_DELIVERED (s\<lparr>dk_world := w\<rparr>)
      | (Inr _, w) \<Rightarrow> (Inr (), s\<lparr>dk_world := w\<rparr>))"

text \<open>\<open>draw\<close> is the eight random characters of the code, \<open>now\<close> the wall clock.\<close>

definition begin_change ::
  "'w bots \<Rightarrow> secs \<Rightarrow> string \<Rightarrow> string \<Rightarrow> ('w, string \<times> string option \<times> json option) desk_op" where
  "begin_change B now draw uid =
     and_then (the_account B uid) (\<lambda>a.
     and_then (if bot_token B = None then refuse NOT_CONFIGURED else give ()) (\<lambda>_.
     (let action = action_for a; code = new_link_code draw
      in and_then (\<lambda>s. give (action = CHAT_UNLINK \<or> proven_recently now (ac_id a) (dk_proven s)) s) (\<lambda>to_caller.
         and_then (if to_caller then give () else deliver_code B a code) (\<lambda>_.
         and_then (\<lambda>s. (Inr (), s\<lparr>dk_pending := (prune_pending \<lfloor>now\<rfloor> (dk_pending s))(ac_id a \<mapsto>
             \<lparr>ch_action = action, ch_code = code, ch_since = \<lfloor>now\<rfloor>, ch_expires = \<lfloor>now\<rfloor> + PENDING_TTL, ch_chat = chat_of a\<rparr>)\<rparr>)) (\<lambda>_.
         and_then (bot_username B) (\<lambda>name.
         give (action, if to_caller then Some code else None, name))))))))"

definition claim :: "secs \<Rightarrow> string \<Rightarrow> ('w, change) desk_op" where
  "claim now uid s =
     (let m = prune_pending \<lfloor>now\<rfloor> (dk_pending s); s1 = s\<lparr>dk_pending := m\<rparr>
      in case m uid of None \<Rightarrow> refuse CODE_EXPIRED s1 | Some e \<Rightarrow> (Inr e, s1))"

definition posted_since ::
  "'w bots \<Rightarrow> string \<Rightarrow> int \<Rightarrow> string option \<Rightarrow> ('w, string option) desk_op" where
  "posted_since B code since chat =
     and_then (posts_of B code) (\<lambda>ps.
       give (map_option fst (find (\<lambda>(posted, when). since \<le> when \<and> (chat = None \<or> chat = Some posted)) ps)))"

definition store_telegram ::
  "'w bots \<Rightarrow> ctx \<Rightarrow> string \<Rightarrow> string option \<Rightarrow> bool \<Rightarrow> ('w, account) desk_op" where
  "store_telegram B cx uid chat clear s =
     (case set_telegram (bt_site B) cx (Some uid) chat None clear (dk_store s) of
        (r, st) \<Rightarrow> (lift_err DeskStore r, s\<lparr>dk_store := st\<rparr>))"

definition LINKED_MESSAGE :: string where
  "LINKED_MESSAGE = ''<b>Letterlock is linked to this chat.</b>\<newline>You will get a message when a draft is ready, plus your daily summary.''"

definition finish_change :: "'w bots \<Rightarrow> ctx \<Rightarrow> string \<Rightarrow> ('w, account) desk_op" where
  "finish_change B cx uid =
     and_then (claim (cx_now cx) uid) (\<lambda>e.
     and_then (the_account B uid) (\<lambda>a.
     if action_for a \<noteq> ch_action e \<or> chat_of a \<noteq> ch_chat e
     then and_then (forget_change uid) (\<lambda>_. refuse CHANGED_MEANWHILE)
     else if ch_action e = CHAT_LINK
     then and_then (posted_since B (ch_code e) (ch_since e) None) (\<lambda>chat.
          if chat = None then refuse CODE_NOT_SEEN
          else and_then (forget_change uid) (\<lambda>_.
               and_then (store_telegram B cx (ac_id a) chat False) (\<lambda>a'.
               and_then (send_telegram B LINKED_MESSAGE (ac_telegram a')) (\<lambda>_. give a'))))
     else and_then (demand (truthy (ch_chat e)) (DeskAssert ''an unlink was pending for an account with no chat'')) (\<lambda>_.
          and_then (posted_since B (ch_code e) (ch_since e) (ch_chat e)) (\<lambda>chat.
          if chat = None then refuse CODE_NOT_SEEN_FROM_CHAT
          else and_then (forget_change uid) (\<lambda>_. store_telegram B cx (ac_id a) None True)))))"

definition force_unlink :: "'w bots \<Rightarrow> ctx \<Rightarrow> string \<Rightarrow> ('w, account) desk_op" where
  "force_unlink B cx uid =
     and_then (forget_change uid) (\<lambda>_. store_telegram B cx uid None True)"

section \<open>The operator's two commands\<close>

text \<open>\<open>resolve\<close> of \<open>unlink_telegram.py\<close> and of \<open>whois.py\<close>: an address or a handle.\<close>

definition resolve_unlink :: "'w bots \<Rightarrow> string \<Rightarrow> store \<Rightarrow> acct_error + account option" where
  "resolve_unlink B arg s =
     (let v = py_strip arg
      in if v = [] then Inr None
         else if is_handle v
         then (let email = email_for_handle v s
               in if \<not> truthy email then Inr None else account_for_email (bt_site B) email True s)
         else account_for_email (bt_site B) (Some v) True s)"

datatype whois_answer = IsAccount string | IsHandle string

definition whois_resolve :: "string \<Rightarrow> store \<Rightarrow> whois_answer option" where
  "whois_resolve arg s =
     (let v = py_strip arg
      in if v = [] then None
         else if is_handle v then map_option IsAccount (email_for_handle v s)
         else map_option IsHandle (handle_for_email (Some v) s))"


section \<open>Sign-in notes are a cache of ten minutes\<close>

interpretation sign_ins: ttl_cache
  "\<lambda>now uid notes. if proven_recently now uid notes then Some () else None"
  "\<lambda>now uid _ notes. note_sign_in now uid notes" "\<lambda>uid notes. notes(uid := None)" "\<lambda>_. None" "\<lambda>_. FRESH_SECONDS"
  by unfold_locales (auto simp: proven_recently_def note_sign_in_def FRESH_SECONDS_def split: option.splits)

section \<open>What each operation leaves alone\<close>

text \<open>Talking to Telegram and to a mailbox touches neither the accounts nor the pending changes.\<close>

definition only_wire :: "'w desk \<Rightarrow> 'w desk \<Rightarrow> bool" where
  "only_wire s t \<longleftrightarrow> dk_store t = dk_store s \<and> dk_pending t = dk_pending s \<and> dk_proven t = dk_proven s"

interpretation wired: kept_relation only_wire
  by unfold_locales (auto simp: only_wire_def)

lemma refuse_keeps: "wired.keeps (refuse msg)"
  by (simp add: refuse_def wired.keeps_raise)

lemma telegram_call_keeps: "wired.keeps (telegram_call B verb msg token)"
  by (rule wired.keepsI) (auto simp: telegram_call_def Let_def only_wire_def split: if_splits prod.splits)

lemma bot_username_keeps: "wired.keeps (bot_username B)"
proof (rule wired.keepsI)
  fix s r t assume run: "bot_username B s = (r, t)"
  show "only_wire s t"
  proof (cases "dk_username s")
    case (Some u)
    with run show ?thesis by (simp add: bot_username_def Let_def only_wire_def)
  next
    case None
    obtain q s1 where q: "telegram_call B ''getMe'' (JObj []) None s = (q, s1)" by fastforce
    have "only_wire s s1" by (rule wired.keepsD [OF telegram_call_keeps q])
    moreover have "only_wire s1 t"
      using run None q
      by (auto simp: bot_username_def Let_def and_then_def only_wire_def split: sum.splits option.splits)
    ultimately show ?thesis by (rule wired.R_trans)
  qed
qed

lemma posts_of_keeps: "wired.keeps (posts_of B code)"
proof -
  have "wired.keeps (case r of Some (JList updates) \<Rightarrow> of_sum (posts_in code (rev updates)) | _ \<Rightarrow> give [])" for r
    by (auto split: option.splits json.splits intro: wired.keeps_rules)
  then show ?thesis unfolding posts_of_def by (intro wired.keeps_rules telegram_call_keeps)
qed

lemma posted_since_keeps: "wired.keeps (posted_since B code since chat)"
  unfolding posted_since_def by (intro wired.keeps_rules posts_of_keeps)

lemma send_telegram_keeps: "wired.keeps (send_telegram B message target)"
  unfolding send_telegram_def by (cases target) (auto intro!: wired.keeps_rules telegram_call_keeps)

lemma deliver_code_keeps: "wired.keeps (deliver_code B a code)"
proof (rule wired.keepsI)
  fix s r t assume run: "deliver_code B a code s = (r, t)"
  obtain q w where q: "bt_insert B a CHAT_CODE_SUBJECT (notice_body code) (dk_world s) = (q, w)" by fastforce
  have "only_wire s (s\<lparr>dk_world := w\<rparr>)" by (simp add: only_wire_def)
  with run q show "only_wire s t"
    by (auto simp: deliver_code_def refuse_def raise_def split: sum.splits)
qed

lemma the_account_cases:
  "the_account B uid s = (Inr a, t) \<longleftrightarrow> account_for_email (bt_site B) (Some uid) True (dk_store s) = Inr (Some a) \<and> t = s"
  by (auto simp: the_account_def refuse_def raise_def split: sum.splits option.splits)

lemma the_account_keeps: "wired.keeps (the_account B uid)"
  by (rule wired.keepsI) (auto simp: the_account_def refuse_def raise_def only_wire_def split: sum.splits option.splits if_splits)

section \<open>Beginning a change\<close>

definition minted :: "secs \<Rightarrow> string \<Rightarrow> account \<Rightarrow> change" where
  "minted now draw a =
     \<lparr>ch_action = action_for a, ch_code = new_link_code draw, ch_since = \<lfloor>now\<rfloor>, ch_expires = \<lfloor>now\<rfloor> + PENDING_TTL,
      ch_chat = chat_of a\<rparr>"

definition begun :: "secs \<Rightarrow> string \<Rightarrow> account \<Rightarrow> ('w, unit) desk_op" where
  "begun now draw a s =
     (Inr (), s\<lparr>dk_pending := (prune_pending \<lfloor>now\<rfloor> (dk_pending s))(ac_id a \<mapsto> minted now draw a)\<rparr>)"

text \<open>A begin from the account on.\<close>

definition begin_for :: "'w bots \<Rightarrow> secs \<Rightarrow> string \<Rightarrow> account \<Rightarrow> ('w, string \<times> string option \<times> json option) desk_op" where
  "begin_for B now draw a =
     and_then (if bot_token B = None then refuse NOT_CONFIGURED else give ()) (\<lambda>_.
     and_then (\<lambda>s. (Inr (action_for a = CHAT_UNLINK \<or> proven_recently now (ac_id a) (dk_proven s)), s)) (\<lambda>to_caller.
     and_then (if to_caller then give () else deliver_code B a (new_link_code draw)) (\<lambda>_.
     and_then (begun now draw a) (\<lambda>_.
     and_then (bot_username B) (\<lambda>name.
     give (action_for a, if to_caller then Some (new_link_code draw) else None, name))))))"

lemma begin_unfold: "begin_change B now draw uid = and_then (the_account B uid) (begin_for B now draw)"
  by (simp add: begin_change_def begin_for_def [abs_def] begun_def [abs_def] minted_def Let_def give_def)

lemma action_unlink: "action_for a = CHAT_UNLINK \<longleftrightarrow> chat_of a \<noteq> None"
  by (simp add: action_for_def chat_of_def CHAT_LINK_def CHAT_UNLINK_def)

lemma begin_Inr:
  assumes "begin_change B now draw uid s = (Inr (action, shown, name), t)"
  shows "\<exists>a. account_for_email (bt_site B) (Some uid) True (dk_store s) = Inr (Some a)
    \<and> dk_store t = dk_store s \<and> dk_pending t (ac_id a) = Some (minted now draw a) \<and> action = action_for a
    \<and> (if chat_of a \<noteq> None \<or> proven_recently now (ac_id a) (dk_proven s)
       then shown = Some (new_link_code draw)
       else shown = None \<and> (\<exists>w. bt_insert B a CHAT_CODE_SUBJECT (notice_body (new_link_code draw)) (dk_world s) = (Inr (), w)))"
proof -
  from assms obtain a s1 s2 s3 where
    a: "account_for_email (bt_site B) (Some uid) True (dk_store s) = Inr (Some a)" and
    d: "(if action_for a = CHAT_UNLINK \<or> proven_recently now (ac_id a) (dk_proven s) then give ()
         else deliver_code B a (new_link_code draw)) s = (Inr (), s1)" and
    b: "begun now draw a s1 = (Inr (), s2)" and n: "bot_username B s2 = (Inr name, t)" and
    r: "action = action_for a" "shown = (if action_for a = CHAT_UNLINK \<or> proven_recently now (ac_id a) (dk_proven s)
      then Some (new_link_code draw) else None)"
    unfolding begin_unfold begin_for_def and_then_Inr the_account_cases by (auto simp: refuse_def split: if_splits)
  have "only_wire s s1"
    using d deliver_code_keeps [THEN wired.keepsD] wired.R_refl by (auto split: if_splits)
  moreover have "only_wire s2 t" by (rule wired.keepsD [OF bot_username_keeps n])
  moreover have "\<exists>w. bt_insert B a CHAT_CODE_SUBJECT (notice_body (new_link_code draw)) (dk_world s) = (Inr (), w)"
    if "\<not> (action_for a = CHAT_UNLINK \<or> proven_recently now (ac_id a) (dk_proven s))"
    using d that by (auto simp: deliver_code_def refuse_def raise_def split: prod.splits sum.splits)
  ultimately show ?thesis
    using a b r by (intro exI [of _ a]) (auto simp: begun_def only_wire_def action_unlink)
qed

text \<open>
  A code the web tier could use is kept from it: beginning a change never touches an account;
  the code is shown to the caller when the account's own chat has to post it back, or when this
  process saw the account sign in within the last ten minutes; otherwise it is put into the
  account's mailbox and not returned. In each case the pending change is the one that was minted.
\<close>

theorem link_code_is_withheld:
  assumes "begin_change B now draw uid s = (Inr (action, shown, name), t)"
  shows "\<exists>a. account_for_email (bt_site B) (Some uid) True (dk_store s) = Inr (Some a)
    \<and> dk_store t = dk_store s \<and> dk_pending t (ac_id a) = Some (minted now draw a) \<and> action = action_for a
    \<and> (if chat_of a \<noteq> None \<or> proven_recently now (ac_id a) (dk_proven s)
       then shown = Some (new_link_code draw)
       else shown = None \<and> (\<exists>w. bt_insert B a CHAT_CODE_SUBJECT (notice_body (new_link_code draw)) (dk_world s) = (Inr (), w)))"
  using assms by (rule begin_Inr)


section \<open>Histories\<close>

lemma pruned: "prune_pending now m u = Some e \<longleftrightarrow> m u = Some e \<and> now < ch_expires e"
  by (auto simp: prune_pending_def split: option.splits)

text \<open>
  A begin either mints or leaves the pending changes as they are, and it touches no other account's
  pending change, except that it drops those that are over.
\<close>

definition mints :: "string \<Rightarrow> change \<Rightarrow> 'w desk \<Rightarrow> 'w desk \<Rightarrow> bool" where
  "mints uid e s t \<longleftrightarrow>
     (dk_pending t = dk_pending s \<or> dk_pending t uid = Some e)
     \<and> (\<forall>u e'. u \<noteq> uid \<longrightarrow> dk_pending t u = Some e' \<longrightarrow> dk_pending s u = Some e')"

interpretation mints: kept_relation "mints uid e" for uid e
proof
  show "mints uid e s u" if "mints uid e s t" "mints uid e t u" for s t u :: "'w desk"
    using that unfolding mints_def by metis
qed (simp add: mints_def)

lemma wired_mints: "wired.keeps f \<Longrightarrow> mints.keeps uid e f"
  by (rule mints.keepsI) (drule (1) wired.keepsD, simp add: only_wire_def mints_def)

lemma begin_for_mints: "mints.keeps (ac_id a) (minted now draw a) (begin_for B now draw a)"
proof -
  have "mints.keeps (ac_id a) (minted now draw a) (begun now draw a)"
    by (rule mints.keepsI) (auto simp: begun_def mints_def pruned)
  moreover have "mints.keeps (ac_id a) (minted now draw a)
      (\<lambda>s. (Inr (action_for a = CHAT_UNLINK \<or> proven_recently now (ac_id a) (dk_proven s)), s))"
    by (rule mints.keepsI) (auto simp: mints_def)
  ultimately show ?thesis
    unfolding begin_for_def
    by (auto intro!: mints.keeps_rules wired_mints [OF refuse_keeps] wired_mints [OF deliver_code_keeps]
        wired_mints [OF bot_username_keeps])
qed

lemma begin_cases:
  assumes "begin_change B now draw uid s = (r, t)"
  shows "dk_pending t = dk_pending s \<or>
    (\<exists>a. account_for_email (bt_site B) (Some uid) True (dk_store s) = Inr (Some a) \<and> mints (ac_id a) (minted now draw a) s t
      \<and> dk_pending t (ac_id a) = Some (minted now draw a))"
proof (cases "fst (the_account B uid s)")
  case (Inl e)
  then have "the_account B uid s = (Inl e, t)" using assms by (cases "the_account B uid s") (simp add: begin_unfold and_then_def)
  from wired.keepsD [OF the_account_keeps this] show ?thesis by (simp add: only_wire_def)
next
  case (Inr a)
  then have a: "the_account B uid s = (Inr a, s)" by (metis prod.collapse the_account_cases)
  then have "begin_for B now draw a s = (r, t)" using assms by (simp add: begin_unfold and_then_def)
  from mints.keepsD [OF begin_for_mints this] a show ?thesis by (auto simp: the_account_cases mints_def)
qed

text \<open>
  The daemon from its start: the changes it minted, by account, oldest first. \<open>Elsewhere\<close> is every
  other writer of the store and every other traffic.
\<close>

inductive desk_run :: "'w bots \<Rightarrow> (string \<times> change) list \<Rightarrow> 'w desk \<Rightarrow> bool" for B where
  Start: "dk_pending s = (\<lambda>_. None) \<Longrightarrow> desk_run B [] s"
| Minted: "desk_run B hist s \<Longrightarrow> begin_change B now draw uid s = (r, t) \<Longrightarrow>
    account_for_email (bt_site B) (Some uid) True (dk_store s) = Inr (Some a) \<Longrightarrow> mints (ac_id a) (minted now draw a) s t \<Longrightarrow>
    dk_pending t (ac_id a) = Some (minted now draw a) \<Longrightarrow>
    desk_run B (hist @ [(ac_id a, minted now draw a)]) t"
| Not_minted: "desk_run B hist s \<Longrightarrow> begin_change B now draw uid s = (r, t) \<Longrightarrow> dk_pending t = dk_pending s \<Longrightarrow> desk_run B hist t"
| Finish: "desk_run B hist s \<Longrightarrow> finish_change B cx uid s = (r, t) \<Longrightarrow> desk_run B hist t"
| Forget: "desk_run B hist s \<Longrightarrow> forget_change uid s = (r, t) \<Longrightarrow> desk_run B hist t"
| Signed_in: "desk_run B hist s \<Longrightarrow> record_sign_in now uid s = (r, t) \<Longrightarrow> desk_run B hist t"
| Operator: "desk_run B hist s \<Longrightarrow> force_unlink B cx uid s = (r, t) \<Longrightarrow> desk_run B hist t"
| Elsewhere: "desk_run B hist s \<Longrightarrow> dk_pending t = dk_pending s \<Longrightarrow> desk_run B hist t"

text \<open>Every pending change was minted, and keeps its times.\<close>

definition pending_ok :: "(string \<times> change) list \<Rightarrow> 'w desk \<Rightarrow> bool" where
  "pending_ok hist s \<longleftrightarrow>
     (\<forall>uid e. dk_pending s uid = Some e \<longrightarrow> (uid, e) \<in> set hist) \<and> (\<forall>(uid, e) \<in> set hist. ch_expires e = ch_since e + PENDING_TTL)"

definition fewer :: "'w desk \<Rightarrow> 'w desk \<Rightarrow> bool" where
  "fewer s t \<longleftrightarrow> (\<forall>uid e. dk_pending t uid = Some e \<longrightarrow> dk_pending s uid = Some e)"

interpretation fewer: kept_relation fewer
  by unfold_locales (auto simp: fewer_def)

lemma wired_fewer: "wired.keeps f \<Longrightarrow> fewer.keeps f"
  by (rule fewer.keepsI) (drule (1) wired.keepsD, simp add: only_wire_def fewer_def)

lemma fewer_ok: "fewer s t \<Longrightarrow> pending_ok hist s \<Longrightarrow> pending_ok hist t"
  by (auto simp: fewer_def pending_ok_def)

lemma claim_fewer: "fewer.keeps (claim now uid)"
  by (rule fewer.keepsI) (auto simp: claim_def Let_def fewer_def refuse_def raise_def pruned split: option.splits)

lemma forget_fewer: "fewer.keeps (forget_change uid)"
  by (rule fewer.keepsI) (auto simp: forget_change_def fewer_def split: if_splits)

lemma store_telegram_fewer: "fewer.keeps (store_telegram B cx uid chat clear)"
  by (rule fewer.keepsI) (auto simp: store_telegram_def fewer_def split: prod.splits)

lemma finish_fewer: "fewer.keeps (finish_change B cx uid)"
proof -
  note rules = fewer.keeps_rules claim_fewer forget_fewer store_telegram_fewer wired_fewer [OF the_account_keeps]
    wired_fewer [OF posted_since_keeps] wired_fewer [OF send_telegram_keeps] wired_fewer [OF refuse_keeps]
  show ?thesis unfolding finish_change_def by (auto intro!: rules)
qed

lemma run_ok: "desk_run B hist s \<Longrightarrow> pending_ok hist s"
proof (induction rule: desk_run.induct)
  case (Start s)
  then show ?case by (simp add: pending_ok_def)
next
  case (Minted hist s now draw uid r t a)
  show ?case unfolding pending_ok_def
  proof (intro conjI allI impI)
    fix u e assume "dk_pending t u = Some e"
    with Minted.hyps(4) Minted.IH show "(u, e) \<in> set (hist @ [(ac_id a, minted now draw a)])"
      using Minted.hyps(5) by (cases "u = ac_id a") (auto simp: mints_def pending_ok_def)
  next
    show "\<forall>(u, e) \<in> set (hist @ [(ac_id a, minted now draw a)]). ch_expires e = ch_since e + PENDING_TTL"
      using Minted.IH by (auto simp: pending_ok_def minted_def)
  qed
next
  case (Not_minted hist s now draw uid r t)
  then show ?case by (simp add: pending_ok_def)
next
  case (Finish hist s cx uid r t)
  from fewer.keepsD [OF finish_fewer Finish.hyps(2)] Finish.IH show ?case by (rule fewer_ok)
next
  case (Forget hist s uid r t)
  from fewer.keepsD [OF forget_fewer Forget.hyps(2)] Forget.IH show ?case by (rule fewer_ok)
next
  case (Signed_in hist s now uid r t)
  then show ?case by (auto simp: record_sign_in_def and_then_def demand_def pending_ok_def split: if_splits)
next
  case (Operator hist s cx uid r t)
  have "fewer.keeps (force_unlink B cx uid)"
    unfolding force_unlink_def by (intro fewer.keeps_rules forget_fewer store_telegram_fewer)
  from fewer.keepsD [OF this Operator.hyps(2)] Operator.IH show ?case by (rule fewer_ok)
next
  case (Elsewhere hist s t)
  then show ?case by (simp add: pending_ok_def)
qed


section \<open>Finishing a change\<close>

lemma claim_cases:
  assumes "claim now uid s = (r, t)"
  shows "dk_store t = dk_store s \<and> dk_world t = dk_world s
    \<and> (case r of Inl e \<Rightarrow> e = ChangeRefused CODE_EXPIRED | Inr e \<Rightarrow> dk_pending s uid = Some e \<and> \<lfloor>now\<rfloor> < ch_expires e)"
  using assms
  by (auto simp: claim_def Let_def refuse_def raise_def pruned USER_MESSAGES_def split: option.splits)

lemma posted_since_Inr:
  assumes "posted_since B code since chat s = (Inr (Some posted), t)"
  shows "\<exists>ps when. posts_of B code s = (Inr ps, t) \<and> (posted, when) \<in> set ps \<and> since \<le> when
    \<and> (chat = None \<or> chat = Some posted)"
proof -
  from assms obtain ps where "posts_of B code s = (Inr ps, t)" and
    "map_option fst (find (\<lambda>(posted, when). since \<le> when \<and> (chat = None \<or> chat = Some posted)) ps) = Some posted"
    by (auto simp: posted_since_def dest: sym)
  moreover from this(2) obtain x where
    "find (\<lambda>(posted, when). since \<le> when \<and> (chat = None \<or> chat = Some posted)) ps = Some x" and "posted = fst x"
    by (auto simp: map_option_case split: option.splits)
  ultimately show ?thesis
    unfolding find_Some_iff by (intro exI [of _ ps] exI [of _ "snd x"]) (auto simp: in_set_conv_nth)
qed

lemma store_telegram_store:
  "store_telegram B cx uid chat clear s = (r, t) \<Longrightarrow>
   dk_store t = snd (set_telegram (bt_site B) cx (Some uid) chat None clear (dk_store s)) \<and> dk_world t = dk_world s"
  by (auto simp: store_telegram_def split: prod.splits)

text \<open>A finish from the pending change and the account on.\<close>

definition finish_for :: "'w bots \<Rightarrow> ctx \<Rightarrow> string \<Rightarrow> change \<Rightarrow> account \<Rightarrow> ('w, account) desk_op" where
  "finish_for B cx uid e a =
     (if action_for a \<noteq> ch_action e \<or> chat_of a \<noteq> ch_chat e
     then and_then (forget_change uid) (\<lambda>_. refuse CHANGED_MEANWHILE)
     else if ch_action e = CHAT_LINK
     then and_then (posted_since B (ch_code e) (ch_since e) None) (\<lambda>chat.
          if chat = None then refuse CODE_NOT_SEEN
          else and_then (forget_change uid) (\<lambda>_.
               and_then (store_telegram B cx (ac_id a) chat False) (\<lambda>a'.
               and_then (send_telegram B LINKED_MESSAGE (ac_telegram a')) (\<lambda>_. give a'))))
     else and_then (demand (truthy (ch_chat e)) (DeskAssert ''an unlink was pending for an account with no chat'')) (\<lambda>_.
          and_then (posted_since B (ch_code e) (ch_since e) (ch_chat e)) (\<lambda>chat.
          if chat = None then refuse CODE_NOT_SEEN_FROM_CHAT
          else and_then (forget_change uid) (\<lambda>_. store_telegram B cx (ac_id a) None True))))"

lemma finish_unfold:
  "finish_change B cx uid =
     and_then (claim (cx_now cx) uid) (\<lambda>e. and_then (the_account B uid) (\<lambda>a. finish_for B cx uid e a))"
  by (simp add: finish_change_def finish_for_def)

lemma forget_change_run: "and_then (forget_change uid) g s = g () (s\<lparr>dk_pending := (dk_pending s)(uid := None)\<rparr>)"
  by (simp add: and_then_def forget_change_def)

lemma finish_for_link:
  assumes "finish_for B cx uid e a s = (r, t)" and "ch_action e = CHAT_LINK" and "dk_store t \<noteq> dk_store s"
  shows "action_for a = ch_action e \<and> chat_of a = ch_chat e \<and> (\<exists>posted u.
    posted_since B (ch_code e) (ch_since e) None s = (Inr (Some posted), u)
    \<and> dk_store t = snd (set_telegram (bt_site B) cx (Some (ac_id a)) (Some posted) None False (dk_store s)))"
proof (cases "action_for a \<noteq> ch_action e \<or> chat_of a \<noteq> ch_chat e")
  case True
  with assms show ?thesis by (auto simp: finish_for_def forget_change_run refuse_def raise_def)
next
  case False
  obtain q u where p: "posted_since B (ch_code e) (ch_since e) None s = (q, u)" by fastforce
  have u: "dk_store u = dk_store s" using wired.keepsD [OF posted_since_keeps p] by (simp add: only_wire_def)
  show ?thesis
  proof (cases q)
    case (Inl x)
    with False assms p u show ?thesis by (auto simp: finish_for_def and_then_def)
  next
    case (Inr chat)
    show ?thesis
    proof (cases chat)
      case None
      with False assms p u Inr show ?thesis by (auto simp: finish_for_def and_then_def refuse_def raise_def)
    next
      case (Some posted)
      let ?v = "u\<lparr>dk_pending := (dk_pending u)(uid := None)\<rparr>"
      obtain y v where st: "store_telegram B cx (ac_id a) (Some posted) False ?v = (y, v)" by fastforce
      from False assms p Inr Some st have run: "(case y of Inl x \<Rightarrow> (Inl x, v)
          | Inr a' \<Rightarrow> and_then (send_telegram B LINKED_MESSAGE (ac_telegram a')) (\<lambda>_. give a') v) = (r, t)"
        by (auto simp: finish_for_def and_then_def [of "posted_since B (ch_code e) (ch_since e) None"] forget_change_run
            and_then_def [of "store_telegram B cx (ac_id a) (Some posted) False"])
      have "wired.keeps (and_then (send_telegram B LINKED_MESSAGE (ac_telegram a')) (\<lambda>_. give a'))" for a'
        by (intro wired.keeps_rules send_telegram_keeps)
      from run wired.keepsD [OF this] have "dk_store t = dk_store v" by (cases y) (auto simp: only_wire_def)
      moreover from store_telegram_store [OF st] u
      have "dk_store v = snd (set_telegram (bt_site B) cx (Some (ac_id a)) (Some posted) None False (dk_store s))" by simp
      ultimately show ?thesis using False p Inr Some by auto
    qed
  qed
qed

lemma finish_for_unlink:
  assumes "finish_for B cx uid e a s = (r, t)" and "ch_action e \<noteq> CHAT_LINK" and "dk_store t \<noteq> dk_store s"
  shows "action_for a = ch_action e \<and> chat_of a = ch_chat e \<and> (\<exists>posted u.
    posted_since B (ch_code e) (ch_since e) (ch_chat e) s = (Inr (Some posted), u)
    \<and> dk_store t = snd (set_telegram (bt_site B) cx (Some (ac_id a)) None None True (dk_store s)))"
proof (cases "action_for a = ch_action e \<and> chat_of a = ch_chat e \<and> truthy (ch_chat e)")
  case False
  show ?thesis
  proof (cases "action_for a = ch_action e \<and> chat_of a = ch_chat e")
    case True
    with False assms show ?thesis by (simp add: finish_for_def and_then_def demand_def split: if_splits)
  next
    case changed: False
    then have "finish_for B cx uid e a s = refuse CHANGED_MEANWHILE (s\<lparr>dk_pending := (dk_pending s)(uid := None)\<rparr>)"
      by (auto simp: finish_for_def forget_change_run)
    with assms(1,3) show ?thesis by (auto simp: refuse_def raise_def)
  qed
next
  case now: True
  obtain q u where p: "posted_since B (ch_code e) (ch_since e) (ch_chat e) s = (q, u)" by fastforce
  have u: "dk_store u = dk_store s" using wired.keepsD [OF posted_since_keeps p] by (simp add: only_wire_def)
  have run: "(case q of Inl x \<Rightarrow> (Inl x, u) | Inr chat \<Rightarrow>
      (if chat = None then refuse CODE_NOT_SEEN_FROM_CHAT u
       else store_telegram B cx (ac_id a) None True (u\<lparr>dk_pending := (dk_pending u)(uid := None)\<rparr>))) = (r, t)"
    using now assms p
    by (auto simp: finish_for_def and_then_def [of "demand c x" for c x] demand_def forget_change_run
        and_then_def [of "posted_since B (ch_code e) (ch_since e) (ch_chat e)"] split: sum.splits if_splits)
  show ?thesis
  proof (cases q)
    case (Inl x)
    with run u assms(3) show ?thesis by simp
  next
    case (Inr chat)
    show ?thesis
    proof (cases chat)
      case None
      with run u assms(3) Inr show ?thesis by (auto simp: refuse_def raise_def)
    next
      case (Some posted)
      with run Inr store_telegram_store u p now show ?thesis by fastforce
    qed
  qed
qed

text \<open>
  C31: a target changes only with the consent of what it is taken from: in any history of the
  daemon, a finish that changed an account's record did so for a code this process minted for that
  account less than fifteen minutes before, with the target the account had then and has now. The
  code was in the bot's inbox, dated no earlier than it was minted, and, when a chat was linked,
  posted from that very chat; the change is to unlink it, or, when none was, to link the chat that
  posted.
\<close>

theorem telegram_change_is_proven:
  assumes "desk_run B hist s" and "finish_change B cx uid s = (r, t)" and "dk_store t \<noteq> dk_store s"
  shows "\<exists>a e s1 ps s2 posted when. account_for_email (bt_site B) (Some uid) True (dk_store s) = Inr (Some a)
    \<and> (uid, e) \<in> set hist \<and> \<lfloor>cx_now cx\<rfloor> < ch_since e + PENDING_TTL \<and> ch_chat e = chat_of a
    \<and> dk_world s1 = dk_world s \<and> posts_of B (ch_code e) s1 = (Inr ps, s2)
    \<and> (posted, when) \<in> set ps \<and> ch_since e \<le> when \<and> (chat_of a \<noteq> None \<longrightarrow> chat_of a = Some posted)
    \<and> dk_store t = snd (set_telegram (bt_site B) cx (Some (ac_id a)) (if chat_of a = None then Some posted else None) None
         (chat_of a \<noteq> None) (dk_store s))"
proof -
  obtain q s1 where c: "claim (cx_now cx) uid s = (q, s1)" by fastforce
  note c' = claim_cases [OF c]
  from assms(2,3) c c' obtain e where q: "q = Inr e" by (cases q) (auto simp: finish_unfold and_then_def)
  obtain y s2 where y: "the_account B uid s1 = (y, s2)" by fastforce
  have "dk_store s2 = dk_store s1" using wired.keepsD [OF the_account_keeps y] by (simp add: only_wire_def)
  with assms(2,3) c c' q y obtain a where a: "y = Inr a" by (cases y) (auto simp: finish_unfold and_then_def)
  with y c' have acct: "account_for_email (bt_site B) (Some uid) True (dk_store s) = Inr (Some a)" and s2: "s2 = s1"
    by (auto simp: the_account_cases)
  have fin: "finish_for B cx uid e a s1 = (r, t)" using assms(2) c q y a s2 by (simp add: finish_unfold and_then_def)
  have ch: "dk_store t \<noteq> dk_store s1" using assms(3) c' by simp
  from run_ok [OF assms(1)] c' q have h: "(uid, e) \<in> set hist" "\<lfloor>cx_now cx\<rfloor> < ch_since e + PENDING_TTL"
    by (fastforce simp: pending_ok_def)+
  show ?thesis
  proof (cases "ch_action e = CHAT_LINK")
    case True
    from finish_for_link [OF fin True ch] obtain posted u where
      "action_for a = ch_action e" "chat_of a = ch_chat e"
      "posted_since B (ch_code e) (ch_since e) None s1 = (Inr (Some posted), u)"
      "dk_store t = snd (set_telegram (bt_site B) cx (Some (ac_id a)) (Some posted) None False (dk_store s1))" by blast
    note f = this
    have "chat_of a = None" using f(1) True action_unlink [of a] by (auto simp: CHAT_LINK_def CHAT_UNLINK_def)
    moreover from posted_since_Inr [OF f(3)] obtain ps tm where
      "posts_of B (ch_code e) s1 = (Inr ps, u)" "(posted, tm) \<in> set ps" "ch_since e \<le> tm" by blast
    ultimately show ?thesis using f(2,4) acct h c'
      by - (rule exI [of _ a], rule exI [of _ e], rule exI [of _ s1], rule exI [of _ ps], rule exI [of _ u],
          rule exI [of _ posted], rule exI [of _ tm], auto)
  next
    case False
    from finish_for_unlink [OF fin False ch] obtain posted u where
      "action_for a = ch_action e" "chat_of a = ch_chat e"
      "posted_since B (ch_code e) (ch_since e) (ch_chat e) s1 = (Inr (Some posted), u)"
      "dk_store t = snd (set_telegram (bt_site B) cx (Some (ac_id a)) None None True (dk_store s1))" by blast
    note f = this
    have "chat_of a \<noteq> None" using f(1) False by (auto simp: action_for_def chat_of_def split: if_splits)
    moreover from posted_since_Inr [OF f(3)] obtain ps tm where
      "posts_of B (ch_code e) s1 = (Inr ps, u)" "(posted, tm) \<in> set ps" "ch_since e \<le> tm"
      "ch_chat e = None \<or> ch_chat e = Some posted" by blast
    ultimately show ?thesis using f(2,4) acct h c'
      by - (rule exI [of _ a], rule exI [of _ e], rule exI [of _ s1], rule exI [of _ ps], rule exI [of _ u],
          rule exI [of _ posted], rule exI [of _ tm], auto)
  qed
qed


section \<open>Refusals\<close>

definition unrefused :: "desk_error \<Rightarrow> bool" where
  "unrefused e \<longleftrightarrow> (\<forall>m. e \<noteq> ChangeRefused m)"

lemma unrefused_simps [simp]:
  "unrefused (DeskStore e)" "unrefused (DeskAssert m)" "unrefused (DeskUncaught m)" "\<not> unrefused (ChangeRefused m)"
  by (simp_all add: unrefused_def)

lemma telegram_call_unrefused: "raises_only unrefused (telegram_call B verb msg token)"
  by (auto simp: raises_only_def telegram_call_def Let_def split: if_splits prod.splits sum.splits option.splits)

lemma post_in_unrefused: "post_in code u = Inl e \<Longrightarrow> unrefused e"
proof -
  have m: "members j = Inl e \<Longrightarrow> unrefused e" for j by (auto simp: members_def split: if_splits option.splits)
  have h: "holds_code code j = Inl e \<Longrightarrow> unrefused e" for j
    by (auto simp: holds_code_def split: if_splits json.splits)
  have c: "chat_name j = Inl e \<Longrightarrow> unrefused e" for j by (auto simp: chat_name_def split: json.splits)
  show "post_in code u = Inl e \<Longrightarrow> unrefused e"
    unfolding post_in_def lift_err_def
    by (auto split: option.splits sum.splits bool.splits if_splits dest: m h c)
qed

lemma posts_in_unrefused: "posts_in code us = Inl e \<Longrightarrow> unrefused e"
  by (induction us) (auto split: sum.splits dest: post_in_unrefused)

lemma posted_since_unrefused: "raises_only unrefused (posted_since B code since chat)"
proof -
  have "raises_only unrefused (case r of Some (JList updates) \<Rightarrow> of_sum (posts_in code (rev updates)) | _ \<Rightarrow> give [])" for r
    by (auto split: option.splits json.splits intro: raises_only_basic posts_in_unrefused)
  then show ?thesis
    unfolding posted_since_def posts_of_def by (intro raises_rules telegram_call_unrefused) simp_all
qed

lemma send_telegram_unrefused: "raises_only unrefused (send_telegram B message target)"
  unfolding send_telegram_def by (cases target) (auto intro!: raises_rules telegram_call_unrefused)

lemma store_telegram_unrefused: "raises_only unrefused (store_telegram B cx uid chat clear)"
  by (auto simp: raises_only_def store_telegram_def lift_err_def split: prod.splits sum.splits)

lemma refused_no:
  "raises_only unrefused f \<Longrightarrow> f s = (Inl (ChangeRefused m), t) \<longleftrightarrow> False"
  by (auto dest: raises_onlyD)

lemma vetted: "CHANGED_MEANWHILE \<in> USER_MESSAGES" "CODE_NOT_SEEN \<in> USER_MESSAGES" "CODE_NOT_SEEN_FROM_CHAT \<in> USER_MESSAGES"
  "NO_SUCH_ACCOUNT \<in> USER_MESSAGES" "CODE_EXPIRED \<in> USER_MESSAGES"
  by (simp_all add: USER_MESSAGES_def)

lemma refuse_run [simp]: "refuse m s = (Inl (ChangeRefused m'), t) \<longleftrightarrow> m' = m \<and> m \<in> USER_MESSAGES \<and> t = s"
  by (auto simp: refuse_def raise_def)

lemma finish_for_refused:
  assumes "finish_for B cx uid e a s = (Inl (ChangeRefused m), t)"
  shows "m \<in> USER_MESSAGES \<and> dk_store t = dk_store s
    \<and> (m = CHANGED_MEANWHILE \<or> dk_pending t = dk_pending s)"
proof -
  let ?post = "\<lambda>c. posted_since B (ch_code e) (ch_since e) c"
  have wire: "dk_store u = dk_store s \<and> dk_pending u = dk_pending s" if "?post c s = (q, u)" for c q u
    using wired.keepsD [OF posted_since_keeps that] by (simp add: only_wire_def)
  have link: "raises_only unrefused (and_then (forget_change uid) (\<lambda>_.
               and_then (store_telegram B cx (ac_id a) chat False) (\<lambda>a'.
               and_then (send_telegram B LINKED_MESSAGE (ac_telegram a')) (\<lambda>_. give a'))))" for chat
    by (intro raises_rules store_telegram_unrefused send_telegram_unrefused)
      (auto simp: raises_only_def forget_change_def)
  have unlink: "raises_only unrefused (and_then (forget_change uid) (\<lambda>_. store_telegram B cx (ac_id a) None True))"
    by (intro raises_rules store_telegram_unrefused) (auto simp: raises_only_def forget_change_def)
  note [simp] = refused_no [OF posted_since_unrefused] refused_no [OF link] refused_no [OF unlink]
  show ?thesis
  proof (cases "action_for a \<noteq> ch_action e \<or> chat_of a \<noteq> ch_chat e")
    case True
    with assms show ?thesis by (auto simp: finish_for_def forget_change_run)
  next
    case False
    then have eq: "action_for a = ch_action e" "chat_of a = ch_chat e" by auto
    show ?thesis
    proof (cases "ch_action e = CHAT_LINK")
      case True
      with assms eq obtain u where "?post None s = (Inr None, u)" "m = CODE_NOT_SEEN" "t = u"
        by (auto simp: finish_for_def and_then_Inl [of "?post None"] split: if_splits)
      with wire [of None "Inr None" u] vetted show ?thesis by simp
    next
      case False
      with assms eq obtain u where "?post (ch_chat e) s = (Inr None, u)" "m = CODE_NOT_SEEN_FROM_CHAT" "t = u"
        by (auto simp: finish_for_def and_then_Inl [of "?post (ch_chat e)"] and_then_Inl [of "demand x y" for x y] split: if_splits)
      with wire [of "ch_chat e" "Inr None" u] vetted show ?thesis by simp
    qed
  qed
qed

text \<open>
  A refusal changes nothing and says something that was vetted: every \<open>ChangeRefused\<close> of a finish
  carries one of the fixed messages and leaves every account as it was; a code that was not seen yet
  leaves the change pending, so the same button works again.
\<close>

theorem refused_change_can_be_retried:
  assumes "finish_change B cx uid s = (Inl (ChangeRefused m), t)"
  shows "m \<in> USER_MESSAGES \<and> dk_store t = dk_store s
    \<and> (m \<in> {CODE_NOT_SEEN, CODE_NOT_SEEN_FROM_CHAT} \<longrightarrow> dk_pending t uid = dk_pending s uid \<and> dk_pending s uid \<noteq> None)"
proof -
  have ne: "CODE_NOT_SEEN \<noteq> CODE_EXPIRED" "CODE_NOT_SEEN_FROM_CHAT \<noteq> CODE_EXPIRED" "CODE_NOT_SEEN \<noteq> NO_SUCH_ACCOUNT"
    "CODE_NOT_SEEN_FROM_CHAT \<noteq> NO_SUCH_ACCOUNT" "CODE_NOT_SEEN \<noteq> CHANGED_MEANWHILE" "CODE_NOT_SEEN_FROM_CHAT \<noteq> CHANGED_MEANWHILE"
    by (simp_all add: CODE_NOT_SEEN_def CODE_EXPIRED_def CODE_NOT_SEEN_FROM_CHAT_def NO_SUCH_ACCOUNT_def CHANGED_MEANWHILE_def)
  obtain q s1 where c: "claim (cx_now cx) uid s = (q, s1)" by fastforce
  note c' = claim_cases [OF c]
  show ?thesis
  proof (cases q)
    case (Inl x)
    with assms c c' show ?thesis using vetted ne by (auto simp: finish_unfold and_then_def)
  next
    case (Inr e)
    with c c' have p: "dk_pending s1 uid = Some e" "dk_pending s uid = Some e"
      by (auto simp: claim_def Let_def refuse_def raise_def split: option.splits)
    have run: "and_then (the_account B uid) (\<lambda>a. finish_for B cx uid e a) s1 = (Inl (ChangeRefused m), t)"
      using assms c Inr by (simp add: finish_unfold and_then_def [of "claim (cx_now cx) uid"])
    from run consider "the_account B uid s1 = (Inl (ChangeRefused m), t)"
      | a where "finish_for B cx uid e a s1 = (Inl (ChangeRefused m), t)"
      by (auto simp: and_then_Inl the_account_cases)
    then show ?thesis
    proof cases
      case 1
      then have "m = NO_SUCH_ACCOUNT \<and> t = s1"
        by (auto simp: the_account_def split: sum.splits option.splits)
      with c' vetted ne show ?thesis by auto
    next
      case 2
      from finish_for_refused [OF 2] c' p ne show ?thesis by auto
    qed
  qed
qed

end
