(* ===== verification/Erasure.thy ===== *)
theory Erasure
  imports KeyringRun ManifestRun
begin

text \<open>
  What is left of an account once \<open>delete_account\<close> has returned, for a process that still holds the
  account object and perhaps its key: the manifest of \<open>backend/accounts/account.py\<close> and the keyring
  of \<open>backend/custody/keyring.py\<close> together.
\<close>

lemma build_all_filter:
  "build_all E es = Inr as \<Longrightarrow> build_all E (filter (\<lambda>e. p (ae_id e)) es) = Inr (filter (\<lambda>a. p (ac_id a)) as)"
proof (induction es arbitrary: as)
  case (Cons e es)
  then show ?case by (auto dest: account_fields(4) split: sum.splits)
qed simp

lemma distinct_present_filter: "distinct (present f xs) \<Longrightarrow> distinct (present f (filter p xs))"
  by (induction xs) (auto simp: set_present)

text \<open>The accounts of the store after a deletion are the ones before it that have another id.\<close>

lemma all_accounts_deleted:
  assumes "all_accounts E s = Inr as" and "st_manifest s' \<noteq> None"
    and "entries_of s' = filter (\<lambda>e. \<not> same_id aid e) (entries_of s)"
  shows "all_accounts E s' = Inr (filter (\<lambda>a. norm_id (ac_id a) \<noteq> norm_arg aid) as)"
proof -
  have b: "build_all E (entries_of s) = Inr as" and d: "distinct (map ac_id as)" "distinct (present ac_handle as)"
      "distinct (present ac_polar_customer_id as)"
    using assms(1) by (auto simp: all_accounts_def entries_of_def the_default_def split: option.splits sum.splits if_splits)
  from build_all_filter [OF b, of "\<lambda>x. norm_id x \<noteq> norm_arg aid"]
  have "build_all E (entries_of s') = Inr (filter (\<lambda>a. norm_id (ac_id a) \<noteq> norm_arg aid) as)"
    by (simp add: assms(3) same_id_def has_id_def)
  with assms(2) d show ?thesis
    by (auto simp: all_accounts_def entries_of_def the_default_def distinct_map_filter distinct_present_filter)
qed

lemma account_handle_of:
  "build_all E es = Inr as \<Longrightarrow> a \<in> set as \<Longrightarrow> \<exists>e \<in> set es. ac_id a = ae_id e \<and> ac_handle a = ae_handle e"
proof (induction es arbitrary: as)
  case (Cons e es)
  then show ?case by (auto dest: account_fields(1,4) split: sum.splits)
qed simp

lemma nobody_matches:
  assumes "\<forall>b \<in> set as. norm_id (ac_id b) \<noteq> norm_id uid \<and> norm_id uid \<notin> py_lower ` set (id_emails (ac_identity b))"
  shows "match_account as (Some uid) = None"
proof -
  have "norm_id (ac_id b) = norm_id uid" if "py_lower (ac_id b) = norm_id uid" for b
  proof -
    have "norm_id (ac_id b) = py_strip (py_lower (ac_id b))" by (simp add: py_strip_lower)
    also have "\<dots> = py_strip (norm_id uid)" by (simp only: that)
    also have "\<dots> = norm_id uid" by (simp add: py_strip_lower)
    finally show ?thesis .
  qed
  moreover have "\<forall>b \<in> set as. \<forall>m \<in> set (id_emails (ac_identity b)). py_lower m \<noteq> norm_id uid"
    using assms by (metis imageI)
  ultimately show ?thesis
    using assms
    by (auto simp: match_account_def norm_arg_def str_or_def find_None_iff Let_def split: option.splits)
qed

text \<open>
  C25: an erased account stays erased. Once a deletion has returned True, a process that still holds the
  account object it loaded before, and whatever that process has in memory, cannot write a document
  of the account: the call raises \<open>AccountGone\<close>, asks the co-signer nothing, mints no key,
  leaves the disk alone and drops the key that process still had. The exception is an account whose
  address another account lists among its own.
\<close>

theorem deleted_account_is_not_recreated:
  assumes "manifest_run (en_site E) st" and "all_accounts (en_site E) st = Inr as"
    and "acct \<in> set as" and "norm_id (ac_id acct) = norm_arg aid"
    and "\<forall>b \<in> set as. b \<noteq> acct \<longrightarrow> norm_id (ac_id acct) \<notin> py_lower ` set (id_emails (ac_identity b))"
    and "delete_account cx aid st = (Inr True, st')"
    and "st_manifest (pr_store s) = st_manifest st'" and "st_files (pr_store s) = st_files st'"
  shows "\<exists>t. write_encrypted E m (Acct acct) name body s = (Inl (AccountGone (ac_id acct)), t)
    \<and> st_files (pr_store t) = st_files (pr_store s) \<and> st_manifest (pr_store t) = st_manifest (pr_store s)
    \<and> st_deks (pr_store t) (ac_id acct) = None \<and> pr_world t = pr_world s"
proof -
  let ?uid = "ac_id acct"
  have b: "build_all (en_site E) (entries_of st) = Inr as"
    using assms(2) by (auto simp: all_accounts_def entries_of_def the_default_def split: option.splits sum.splits if_splits)
  from account_handle_of [OF this assms(3)] obtain e where e: "e \<in> set (entries_of st)" "?uid = ae_id e"
    "ac_handle acct = ae_handle e" by blast
  from erased_facts [OF assms(6)] obtain gone where gone: "gone \<in> set (entries_of st)"
    "norm_id (ae_id gone) = norm_arg aid" "account_dir (ae_id gone) = Inr (ae_id gone)"
    "entries_of st' = filter (\<lambda>e. \<not> same_id aid e) (entries_of st)" "st_manifest st' \<noteq> None"
    "st_files st' (ae_id gone) DEK_FILE = None" by blast
  have u: "unique_entries (entries_of st)" using run_keeps [OF assms(1)] by blast
  have "entry_key gone = entry_key e" using gone(2) assms(4) e(2) by (simp add: entry_key_def)
  with u gone(1) e(1) have "gone = e" by (auto simp: unique_entries_def distinct_map inj_on_def)
  with gone e(2) have dir: "account_dir ?uid = Inr ?uid" and nokey: "st_files st' ?uid DEK_FILE = None" by simp_all
  have "has_key ?uid (pr_store s) = Inr False"
    using dir nokey assms(8) by (simp add: has_key_def file_at_def del: file_at_Inr)
  moreover obtain h where "identify (Acct acct) = Inr (?uid, h)"
  proof -
    from run_handled [OF assms(1)] e obtain h where h: "ac_handle acct = Some h" "is_handle h"
      by (auto simp: list_all_iff handled_def)
    then have "truthy (ac_handle acct)" by (auto simp: truthy_def is_handle_def HANDLE_BYTES_def)
    with h account_dir_Inr [OF dir] have "identify (Acct acct) = Inr (?uid, h)"
      by (auto simp: identify_def check_handle_def check_id_def lift_err_def split: if_splits simp del: check_handle_Inr)
    with that show thesis .
  qed
  moreover have "account_for_email (en_site E) (Some ?uid) True (pr_store s) = Inr None"
  proof -
    have "all_accounts (en_site E) (pr_store s) = Inr (filter (\<lambda>a. norm_id (ac_id a) \<noteq> norm_arg aid) as)"
      using all_accounts_deleted [OF assms(2) gone(5,4)] assms(7) by (simp add: all_accounts_def)
    moreover have "match_account (filter (\<lambda>a. norm_id (ac_id a) \<noteq> norm_arg aid) as) (Some ?uid) = None"
      by (rule nobody_matches) (use assms(4,5) in auto)
    ultimately show ?thesis by (simp add: account_for_email_def)
  qed
  ultimately show ?thesis
    using gone(5) assms(7)
    by (auto simp: write_encrypted_def and_then_def of_sum_def read_store_def refuse_if_deleted_def)
qed

end
