(* ===== verification/KeyringDemo.thy ===== *)
theory KeyringDemo
  imports Erasure
begin

text \<open>
  The keyring on a concrete pair of boxes: an enclave on a dev secret whose network delivers every
  POST to a freshly started co-signer of the model. The properties of the keyring theories are
  applied here to real runs: a key minted, a document written and read, a record rotated, a key
  released for a refresh.
\<close>

section \<open>The co-signer at the other end\<close>

lemma demo_authorize_any:
  assumes "a \<in> {ACTION_WRAP, ACTION_UNWRAP, ACTION_UNWRAP_DATA, ACTION_REWRAP}"
  shows "\<exists>s'. authorize demo_box (demo_clk 1) u a (demo_verdict ''fp'') None cosigner_start = Inr (None, s')"
proof -
  have "granted_since since (Some arg) who empty_db = 0" and "distinct_uids_since since arg empty_db = 0"
    and "\<not> ever_granted u arg' empty_db" for since arg who arg'
    by (simp_all add: window_simps granted_rows_def empty_db_def ever_granted_def)
  then have "decide demo_box (demo_clk 1) u a (demo_verdict ''fp'') None empty_db = Inr None"
    using assms
    by (auto simp: decide_def demo_disabled demo_verdict_def rate_refusal_def rate_ceiling_def wrap_once_refusal_def
        sweep_refusal_def Let_def demo_limits demo_box_def [THEN arg_cong [where f = box_env]])
  then show ?thesis by (simp add: authorize_def cosigner_start_def Let_def)
qed

lemma demo_guarded:
  assumes "a \<in> {ACTION_WRAP, ACTION_UNWRAP, ACTION_UNWRAP_DATA, ACTION_REWRAP}"
  shows "\<exists>s'. guarded demo_host u a (demo_verdict ''fp'') None (Inr p) cosigner_start = (Inr (None, p), s')"
  using demo_authorize_any [OF assms, of u] by (auto simp: guarded_def demo_host_fields)

lemma demo_post_ok:
  assumes "endpoint path = Some handler"
    and "\<exists>s'. handler demo_host (JObj kvs) (demo_verdict ''fp'') cosigner_start = (Inr (None, p), s')"
  shows "\<exists>sv'. do_POST demo_host demo_attestor (demo_request path kvs) demo_server = ((200, p), sv')"
  using assms
  by (auto simp: do_POST_def run_post_def demo_path demo_cert demo_body demo_server_def demo_verify_request
      respond_def Let_def)

lemma demo_post_wrap:
  assumes "wrap demo_crypto demo_keystore (replicate 12 0) u inner = Inr outer" and "u \<noteq> []" and "inner \<noteq> []"
  shows "\<exists>sv'. do_POST demo_host demo_attestor
      (demo_request ''/wrap'' [(''uid'', JStr u), (''inner'', JStr (b64 inner))]) demo_server
     = ((200, [(''outer'', JStr (b64 outer))]), sv')"
proof (rule demo_post_ok)
  show "endpoint ''/wrap'' = Some wrap_request" by (simp add: endpoint_def)
  show "\<exists>s'. wrap_request demo_host (JObj [(''uid'', JStr u), (''inner'', JStr (b64 inner))]) (demo_verdict ''fp'')
      cosigner_start = (Inr (None, [(''outer'', JStr (b64 outer))]), s')"
    using assms demo_guarded [of ACTION_WRAP u]
    by (simp add: wrap_request_def required_field_def binary_field_def field_def wire.round_trip demo_host_fields
        unless_empty_def lift_keys_def Let_def del: b64.simps)
qed

lemma demo_post_unwrap:
  assumes "unwrap demo_crypto demo_keystore u outer = Inr inner" and "u \<noteq> []" and "outer \<noteq> []"
  shows "\<exists>sv'. do_POST demo_host demo_attestor
      (demo_request ''/unwrap'' [(''uid'', JStr u), (''outer'', JStr (b64 outer))]) demo_server
     = ((200, [(''inner'', JStr (b64 inner))]), sv')"
proof (rule demo_post_ok)
  show "endpoint ''/unwrap'' = Some unwrap_data_request" by (simp add: endpoint_def)
  show "\<exists>s'. unwrap_data_request demo_host (JObj [(''uid'', JStr u), (''outer'', JStr (b64 outer))]) (demo_verdict ''fp'')
      cosigner_start = (Inr (None, [(''inner'', JStr (b64 inner))]), s')"
    using assms demo_guarded [of ACTION_UNWRAP_DATA u]
    by (simp add: unwrap_data_request_def required_field_def binary_field_def field_def wire.round_trip demo_host_fields
        unless_empty_def open_record_def Let_def del: b64.simps)
qed

lemma demo_post_rewrap:
  assumes "rewrap demo_crypto demo_keystore (replicate 12 0) u outer = Inr outer'" and "u \<noteq> []" and "outer \<noteq> []"
  shows "\<exists>sv'. do_POST demo_host demo_attestor
      (demo_request ''/rewrap'' [(''uid'', JStr u), (''outer'', JStr (b64 outer))]) demo_server
     = ((200, [(''outer'', JStr (b64 outer'))]), sv')"
proof (rule demo_post_ok)
  show "endpoint ''/rewrap'' = Some rewrap_request" by (simp add: endpoint_def)
  show "\<exists>s'. rewrap_request demo_host (JObj [(''uid'', JStr u), (''outer'', JStr (b64 outer))]) (demo_verdict ''fp'')
      cosigner_start = (Inr (None, [(''outer'', JStr (b64 outer'))]), s')"
    using assms demo_guarded [of ACTION_REWRAP u]
    by (simp add: rewrap_request_def required_field_def binary_field_def field_def wire.round_trip demo_host_fields
        unless_empty_def Let_def del: b64.simps)
qed

lemma demo_post_refresh:
  assumes "unwrap demo_crypto demo_keystore u outer = Inr inner" and "u \<noteq> []" and "outer \<noteq> []"
  shows "\<exists>sv'. do_POST demo_host demo_attestor
      (demo_request ''/unwrap-and-sign'' ([(''uid'', JStr u), (''outer'', JStr (b64 outer))]
         @ proof_body ''POST'' TOKEN_ENDPOINT None)) demo_server
     = ((200, [(''inner'', JStr (b64 inner)), (''proof'', JStr ''jws'')]), sv')"
proof (rule demo_post_ok)
  show "endpoint ''/unwrap-and-sign'' = Some unwrap_request" by (simp add: endpoint_def)
  have t: "TOKEN_ENDPOINT \<noteq> []" by (simp add: TOKEN_ENDPOINT_def)
  show "\<exists>s'. unwrap_request demo_host (JObj ([(''uid'', JStr u), (''outer'', JStr (b64 outer))]
         @ proof_body ''POST'' TOKEN_ENDPOINT None)) (demo_verdict ''fp'')
      cosigner_start = (Inr (None, [(''inner'', JStr (b64 inner)), (''proof'', JStr ''jws'')]), s')"
    using assms demo_guarded [of ACTION_UNWRAP u] t
    by (simp add: unwrap_request_def proof_request_def proof_body_def truthy_def required_field_def binary_field_def
        field_def wire.round_trip demo_host_fields allowed_target_None allowed_target_def
        unless_empty_def open_record_def lift_keys_def demo_dpop_proof Let_def del: b64.simps)
qed

section \<open>The enclave\<close>

definition demo_url :: string where "demo_url = ''https://cosigner.morganrivers.com''"

definition demo_net ::
  "string \<Rightarrow> string \<Rightarrow> json option \<Rightarrow> client_cert_source option \<Rightarrow> string \<Rightarrow> unit \<Rightarrow> reply \<times> unit" where
  "demo_net verb url body i ca w =
     (case body of
        Some (JObj kvs) \<Rightarrow>
          (case do_POST demo_host demo_attestor (demo_request (drop (length demo_url) url) kvs) demo_server of
             ((code, p), _) \<Rightarrow> (Reply code [] (Some (JObj p)), w))
      | _ \<Rightarrow> (NetError ''down'', w))"

definition demo_enclave :: "unit enclave" where
  "demo_enclave = demo_tee\<lparr>en_env := [''LETTERLOCK_DEV_APP_SECRET'' \<mapsto> replicate 16 CHR ''s''],
     en_agent := False, en_net := demo_net, en_site := demo_site\<rparr>"

lemma demo_enclave_fields [simp]:
  "en_crypto demo_enclave = demo_crypto" "en_net demo_enclave = demo_net" "en_agent demo_enclave = False"
  "en_site demo_enclave = demo_site"
  "tee_required (en_env demo_enclave) = False" "cosigner_url (en_env demo_enclave) path = demo_url @ path"
  "en_env demo_enclave ''COSIGNER_CLIENT_CERT'' = None"
proof -
  show "tee_required (en_env demo_enclave) = False"
    by (simp add: demo_enclave_def tee_required_def env_get_def py_strip_def py_lower_def)
  show "cosigner_url (en_env demo_enclave) path = demo_url @ path"
    by (simp add: demo_enclave_def cosigner_url_def env_get_def py_strip_def the_default_def demo_url_def Let_def)
qed (simp_all add: demo_enclave_def demo_tee_def)

lemma demo_secret: "released_secret demo_enclave = Inr (utf8 (replicate 16 CHR ''s''))"
proof -
  have "length (utf8 (replicate 16 CHR ''s'')) = 16" by code_simp
  moreover have "env_get (en_env demo_enclave) ''LETTERLOCK_DEV_APP_SECRET'' = replicate 16 CHR ''s''"
    by (simp add: demo_enclave_def env_get_def)
  ultimately show ?thesis by (simp add: released_secret_def Let_def)
qed

lemma demo_honest: "honest demo_keystore demo_enclave"
  unfolding honest_def
proof (intro allI impI)
  fix path body i ca w detail kvs w'
  assume "en_net demo_enclave ''POST'' (cosigner_url (en_env demo_enclave) path) (Some body) i ca w
    = (Reply 200 detail (Some (JObj kvs)), w')"
  then obtain b sv' where "body = JObj b"
    "do_POST demo_host demo_attestor (demo_request path b) demo_server = ((200, kvs), sv')"
    by (auto simp: demo_net_def split: json.splits prod.splits)
  then show "\<exists>h ao rq sv sv'. h_crypto h = en_crypto demo_enclave \<and> h_keys h = demo_keystore \<and> length (h_nonce h) = 12
     \<and> rq_path rq = path \<and> read_body rq = Inr body \<and> do_POST h ao rq sv = ((200, kvs), sv')"
    by (intro exI [of _ demo_host] exI [of _ demo_attestor] exI [of _ "demo_request path b"] exI [of _ demo_server]
        exI [of _ sv'])
      (simp add: demo_host_fields demo_path demo_body)
qed

lemma demo_request_ok:
  assumes "\<exists>sv'. do_POST demo_host demo_attestor (demo_request path kvs) demo_server = ((200, p), sv')"
    and "pr_identity s = None"
  shows "client_request demo_enclave m ''POST'' path (Some (JObj kvs)) s = (Inr p, s) \<or> path = ''/health''"
proof -
  have "env_get (en_env demo_enclave) ''COSIGNER_CLIENT_CERT'' = []" by (simp add: env_get_def)
  with assms show ?thesis
    by (auto simp: client_request_def require_attesting_def and_then_def raw_request_def client_identity_def
        demo_net_def Let_def)
qed

lemma demo_client_wrap:
  assumes "wrap demo_crypto demo_keystore (replicate 12 0) u inner = Inr outer" and "u \<noteq> []" and "inner \<noteq> []"
    and "pr_identity s = None" and "outer \<noteq> []"
  shows "client_wrap demo_enclave m u inner s = (Inr outer, s)"
  using demo_request_ok [OF demo_post_wrap [OF assms(1-3)] assms(4), of m] assms(2,3,5)
  by (simp add: client_wrap_def and_then_def demand_def of_sum_def wire_bytes_def wire.round_trip)

lemma demo_client_unwrap:
  assumes "unwrap demo_crypto demo_keystore u outer = Inr inner" and "u \<noteq> []" and "outer \<noteq> []" and "inner \<noteq> []"
    and "pr_identity s = None"
  shows "client_unwrap demo_enclave m u outer s = (Inr inner, s)"
  using demo_request_ok [OF demo_post_unwrap [OF assms(1-3)] assms(5), of m] assms(2-4)
  by (simp add: client_unwrap_def and_then_def demand_def of_sum_def wire_bytes_def wire.round_trip)

lemma demo_client_rewrap:
  assumes "rewrap demo_crypto demo_keystore (replicate 12 0) u outer = Inr outer'" and "u \<noteq> []" and "outer \<noteq> []"
    and "outer' \<noteq> []" and "pr_identity s = None"
  shows "client_rewrap demo_enclave m u outer s = (Inr outer', s)"
  using demo_request_ok [OF demo_post_rewrap [OF assms(1-3)] assms(5), of m] assms(2-4)
  by (simp add: client_rewrap_def and_then_def demand_def of_sum_def wire_bytes_def wire.round_trip)

lemma demo_client_refresh:
  assumes "unwrap demo_crypto demo_keystore u outer = Inr inner" and "u \<noteq> []" and "outer \<noteq> []" and "inner \<noteq> []"
    and "pr_identity s = None"
  shows "unwrap_and_sign demo_enclave m u outer ''POST'' TOKEN_ENDPOINT None s = (Inr (inner, JStr ''jws''), s)"
proof -
  have "TOKEN_ENDPOINT \<noteq> []" by (simp add: TOKEN_ENDPOINT_def)
  with demo_request_ok [OF demo_post_refresh [OF assms(1-3)] assms(5), of m] assms(2-4) show ?thesis
    by (simp add: unwrap_and_sign_def and_then_def demand_def of_sum_def wire_bytes_def wire.round_trip give_def)
qed

section \<open>A key, a document\<close>

definition demo_h :: string where "demo_h = replicate 32 CHR ''a''"
definition demo_who :: subject where "demo_who = Pair ''a@b'' demo_h"
definition demo_inner :: bytes where
  "demo_inner = replicate 12 1 @ aead_enc demo_crypto (inner_key demo_crypto demo_h 1 (utf8 (replicate 16 CHR ''s'')))
     (replicate 12 1) demo_h (replicate 32 9)"

definition demo_record :: bytes where
  "demo_record = 1 # replicate 12 0 @ aead_enc demo_crypto (kdf demo_crypto demo_h ''outer'' (replicate 32 5))
     (replicate 12 0) demo_h demo_inner"

definition demo_file :: bytes where "demo_file = RECORD_MAGIC @ [1, 1] @ demo_record"

text \<open>The process after the key was minted: its record is on disk and the key is in memory.\<close>

definition demo_keyed :: "unit proc" where
  "demo_keyed = demo_proc\<lparr>pr_secret := Some (utf8 (replicate 16 CHR ''s'')),
     pr_store := (put_file ''a@b'' DEK_FILE demo_file (pr_store demo_proc))
       \<lparr>st_deks := dek_put 0 ''a@b'' (replicate 32 9) (\<lambda>_. None)\<rparr>\<rparr>"

lemma demo_names [simp]:
  "is_handle demo_h" "demo_h \<noteq> []" "check_id ''a@b'' = Inr ''a@b''" "account_dir ''a@b'' = Inr ''a@b''"
  "identify demo_who = Inr (''a@b'', demo_h)"
proof -
  show h: "is_handle demo_h" "demo_h \<noteq> []" by (simp_all add: demo_h_def is_handle_def HANDLE_BYTES_def is_hex_def Let_def)
  show c: "check_id ''a@b'' = Inr ''a@b''" by (simp add: check_id_def)
  show "account_dir ''a@b'' = Inr ''a@b''" by (simp add: account_dir_def c del: check_id_Inr)
  show "identify demo_who = Inr (''a@b'', demo_h)"
    using h c by (simp add: identify_def demo_who_def truthy_def check_handle_def del: check_id_Inr check_handle_Inr)
qed

lemma demo_lengths [simp]: "demo_inner \<noteq> []" "demo_record \<noteq> []"
  by (simp_all add: demo_inner_def demo_record_def)

lemma demo_outer_wrap: "wrap demo_crypto demo_keystore (replicate 12 0) demo_h demo_inner = Inr demo_record"
  using demo_master
  by (simp add: wrap_def outer_key_def current_version_def FIRST_VERSION_def MAX_VERSION_def demo_record_def
      demo_keystore_def [THEN arg_cong [where f = ks_version]])

lemma demo_outer_unwrap: "unwrap demo_crypto demo_keystore demo_h demo_record = Inr demo_inner"
  by (rule wrap_unwrap [OF demo_crypto_laws(1) _ demo_outer_wrap]) simp

lemma demo_outer_rewrap: "rewrap demo_crypto demo_keystore (replicate 12 0) demo_h demo_record = Inr demo_record"
  by (simp add: rewrap_def demo_outer_unwrap demo_outer_wrap)

lemma demo_encode: "encode_record 1 demo_record = Inr demo_file"
  by (simp add: encode_record_def demo_file_def RECORD_VERSION_def)

lemma demo_moment_fields [simp]:
  "mo_seal demo_moment = replicate 12 1" "mo_dek demo_moment = replicate 32 9" "mo_nonce demo_moment = replicate 12 2"
  "mo_created demo_moment = 0" "mo_mono demo_moment = 0"
  by (simp_all add: demo_moment_def)

lemma demo_proc_fields [simp]:
  "pr_secret demo_proc = None" "pr_identity demo_proc = None" "st_files (pr_store demo_proc) d n = None"
  "st_deks (pr_store demo_proc) = (\<lambda>_. None)" "st_manifest (pr_store demo_proc) = None" "secret_ok demo_enclave demo_proc"
  by (simp_all add: demo_proc_def secret_ok_def)

lemma demo_inv: "keyring_inv demo_enclave demo_keystore hs demo_proc"
  by (simp add: keyring_inv_def)

lemma demo_fresh: "fresh_key demo_enclave demo_moment hs ''a@b'' demo_proc"
  by (simp add: fresh_key_def)

lemma demo_create: "create demo_enclave demo_moment ''a@b'' demo_h demo_proc = (Inr (), demo_keyed)"
proof -
  let ?s = "demo_proc\<lparr>pr_secret := Some (utf8 (replicate 16 CHR ''s''))\<rparr>"
  have "seal_dek demo_enclave (replicate 12 1) demo_h (replicate 32 9) 1 demo_proc = (Inr demo_inner, ?s)"
    by (simp add: seal_dek_def and_then_def demand_def KEY_LEN_def app_secret_eval [OF demo_secret] give_def demo_inner_def)
  moreover have "client_wrap demo_enclave demo_moment demo_h demo_inner ?s = (Inr demo_record, ?s)"
    by (rule demo_client_wrap [OF demo_outer_wrap]) simp_all
  ultimately show ?thesis
    using demo_encode
    by (simp add: create_def and_then_def check_handle_of_def of_sum_def check_handle_def read_store_def has_key_def
        file_at_def demand_def KEY_VERSION_def store_record_def put_doc_def change_store_def remember_def demo_keyed_def
        del: check_handle_Inr file_at_Inr)
qed

lemma demo_dek: "dek_for demo_enclave demo_moment demo_who demo_keyed = (Inr (replicate 32 9), demo_keyed)"
  by (simp add: dek_for_def and_then_def of_sum_def read_store_def demo_keyed_def dek_get_def dek_put_def DEK_TTL_def give_def)

definition demo_blob :: bytes where
  "demo_blob = replicate 12 2 @ aead_enc demo_crypto (replicate 32 9) (replicate 12 2) (doc_aad demo_h ''v.md'') (utf8 ''hi'')"

definition demo_written :: "unit proc" where
  "demo_written = demo_keyed\<lparr>pr_store := put_file ''a@b'' ''v.md'' demo_blob (pr_store demo_keyed)\<rparr>"

lemma demo_write: "write_encrypted demo_enclave demo_moment demo_who ''v.md'' ''hi'' demo_proc = (Inr (), demo_written)"
proof -
  have "encrypt demo_crypto (replicate 12 2) (replicate 32 9) demo_h ''v.md'' (utf8 ''hi'') = Inr demo_blob"
    by (simp add: encrypt_def KEY_LEN_def demo_blob_def)
  moreover have "refuse_if_deleted demo_enclave demo_who ''a@b'' demo_proc = (Inr (), demo_proc)"
    by (simp add: refuse_if_deleted_def demo_who_def)
  ultimately show ?thesis
    using demo_create demo_dek
    by (simp add: write_encrypted_def and_then_def of_sum_def read_store_def has_key_def file_at_def
        put_doc_def change_store_def demo_written_def del: file_at_Inr)
qed

lemma demo_read: "read_encrypted demo_enclave demo_moment demo_who ''v.md'' demo_written = (Inr (Some ''hi''), demo_written)"
proof -
  have e: "encrypt demo_crypto (replicate 12 2) (replicate 32 9) demo_h ''v.md'' (utf8 ''hi'') = Inr demo_blob"
    by (simp add: encrypt_def KEY_LEN_def demo_blob_def)
  from readable_encrypt [OF this demo_crypto_laws(1)]
  have d: "decrypt demo_crypto (replicate 32 9) demo_h ''v.md'' demo_blob = Inr (utf8 ''hi'')"
    by (auto simp: readable_def split: sum.splits)
  have k: "dek_for demo_enclave demo_moment demo_who demo_written = (Inr (replicate 32 9), demo_written)"
    by (simp add: dek_for_def and_then_def of_sum_def read_store_def demo_written_def demo_keyed_def dek_get_def
        dek_put_def DEK_TTL_def give_def)
  have f: "file_at ''a@b'' ''v.md'' (pr_store demo_written) = Inr (Some demo_blob)"
    by (simp add: file_at_def demo_written_def del: file_at_Inr)
  show ?thesis
    by (simp add: read_encrypted_def and_then_def of_sum_def read_store_def f k d decode_text_def
        text_codec.round_trip give_def del: file_at_Inr utf8.simps)
qed

section \<open>Witnesses\<close>

text \<open>Any process that has the record on disk and nothing in memory for the account.\<close>

definition demo_cold :: "unit proc \<Rightarrow> bool" where
  "demo_cold s \<longleftrightarrow> st_files (pr_store s) ''a@b'' DEK_FILE = Some demo_file
     \<and> pr_secret s = Some (utf8 (replicate 16 CHR ''s'')) \<and> pr_identity s = None
     \<and> st_deks (pr_store s) ''a@b'' = None"

lemma demo_load:
  assumes "demo_cold s"
  shows "load_record ''a@b'' s = (Inr (1, demo_record), s)"
proof -
  have "file_at ''a@b'' DEK_FILE (pr_store s) = Inr (Some demo_file)"
    using assms by (simp add: file_at_def demo_cold_def del: file_at_Inr)
  then show ?thesis
    by (simp add: load_record_def and_then_def read_store_def of_sum_def record_of_def decode_encode [OF demo_encode]
        del: file_at_Inr)
qed

lemma demo_open_dek:
  assumes "pr_secret s = Some (utf8 (replicate 16 CHR ''s''))"
  shows "open_dek demo_enclave demo_h demo_inner 1 s = (Inr (replicate 32 9), s)"
proof -
  have "NONCE_LEN + TAG_LEN < length demo_inner"
    unfolding demo_inner_def by (rule sealed_length [OF demo_crypto_laws(1)]) simp_all
  moreover have "open_inner demo_crypto (utf8 (replicate 16 CHR ''s'')) demo_h demo_inner 1 = Inr (replicate 32 9)"
    unfolding demo_inner_def by (rule open_inner_seal [OF demo_crypto_laws(1)]) simp_all
  ultimately show ?thesis
    using assms by (simp add: open_dek_def and_then_def demand_def app_secret_def del: utf8.simps)
qed

lemma demo_open:
  assumes "demo_cold s"
  shows "open_key demo_enclave m ''a@b'' demo_h s = (Inr (replicate 32 9), s)"
proof -
  have "client_unwrap demo_enclave m demo_h demo_record s = (Inr demo_inner, s)"
    using assms by (intro demo_client_unwrap [OF demo_outer_unwrap]) (simp_all add: demo_cold_def)
  moreover have "open_dek demo_enclave demo_h demo_inner 1 s = (Inr (replicate 32 9), s)"
    using assms by (intro demo_open_dek) (simp add: demo_cold_def)
  ultimately show ?thesis
    using demo_load [OF assms]
    by (simp add: open_key_def and_then_def check_handle_of_def of_sum_def check_handle_def del: check_handle_Inr)
qed

definition demo_forgot :: "unit proc" where
  "demo_forgot = demo_written\<lparr>pr_store := forget_keys (Some ''a@b'') (pr_store demo_written)\<rparr>"

lemma demo_forgot_cold: "demo_cold demo_forgot"
  by (simp add: DEK_FILE_def demo_cold_def demo_forgot_def demo_written_def demo_keyed_def)

lemma demo_read_cold:
  "\<exists>t. read_encrypted demo_enclave demo_moment demo_who ''v.md'' demo_forgot = (Inr (Some ''hi''), t)"
proof -
  have e: "encrypt demo_crypto (replicate 12 2) (replicate 32 9) demo_h ''v.md'' (utf8 ''hi'') = Inr demo_blob"
    by (simp add: encrypt_def KEY_LEN_def demo_blob_def)
  from readable_encrypt [OF this demo_crypto_laws(1)]
  have d: "decrypt demo_crypto (replicate 32 9) demo_h ''v.md'' demo_blob = Inr (utf8 ''hi'')"
    by (auto simp: readable_def split: sum.splits)
  have "dek_get 0 ''a@b'' (st_deks (pr_store demo_forgot)) = None" by (simp add: demo_forgot_def dek_get_def)
  then have k: "\<exists>t. dek_for demo_enclave demo_moment demo_who demo_forgot = (Inr (replicate 32 9), t)"
    using demo_open [OF demo_forgot_cold]
    by (simp add: dek_for_def and_then_def of_sum_def read_store_def give_def remember_def change_store_def)
  have f: "file_at ''a@b'' ''v.md'' (pr_store demo_forgot) = Inr (Some demo_blob)"
    by (simp add: file_at_def demo_forgot_def demo_written_def del: file_at_Inr)
  from k obtain t where "dek_for demo_enclave demo_moment demo_who demo_forgot = (Inr (replicate 32 9), t)" by blast
  then show ?thesis
    by (simp add: read_encrypted_def and_then_def of_sum_def read_store_def f d decode_text_def
        text_codec.round_trip give_def del: file_at_Inr utf8.simps)
qed

theorem keyring_refines_vault_witness:
  "vault demo_enclave demo_keystore (\<lambda>_. demo_h) (pr_store demo_written) (''a@b'', ''v.md'') = Some (utf8 ''hi'')"
proof -
  have "keyring_step demo_enclave (\<lambda>_. demo_h)
      (case Inr () of Inl (_ :: custody_error) \<Rightarrow> Quiet | Inr _ \<Rightarrow> Put ''a@b'' ''v.md'' (utf8 ''hi'')) demo_proc demo_written"
    by (rule keyring_step.Write [OF demo_write]) (simp_all add: demo_fresh DEK_FILE_def)
  from keyring_refines_vault [OF demo_honest _ demo_inv this] demo_crypto_laws(1)
  show ?thesis by (simp del: utf8.simps)
qed

theorem document_survives_witness:
  "\<exists>res t. read_encrypted demo_enclave demo_moment demo_who ''v.md'' demo_forgot = (Inr res, t) \<and> res = Some ''hi''"
proof -
  obtain t where r: "read_encrypted demo_enclave demo_moment demo_who ''v.md'' demo_forgot = (Inr (Some ''hi''), t)"
    using demo_read_cold by blast
  have "keyring_step demo_enclave (\<lambda>_. demo_h) Quiet demo_written demo_forgot"
    unfolding demo_forgot_def by (rule keyring_step.Forget)
  then have run: "keyring_run demo_enclave (\<lambda>_. demo_h) ([] @ [Quiet]) demo_written demo_forgot"
    by (rule keyring_run.Step [OF keyring_run.Start])
  have inv: "aead_inverts (en_crypto demo_enclave)" using demo_crypto_laws(1) by simp
  have "Some ''hi'' = Some ''hi''"
    by (rule document_survives [OF demo_honest inv demo_inv demo_write _ _ _ demo_fresh _ _ run _ r])
      (simp_all add: DEK_FILE_def touches_def)
  with r show ?thesis by blast
qed

theorem shred_is_final_witness:
  "\<exists>b st. destroy ''a@b'' (pr_store demo_written) = (Inr b, st)
     \<and> (\<forall>t. read_encrypted demo_enclave demo_moment demo_who ''v.md'' (demo_written\<lparr>pr_store := st\<rparr>) \<noteq> (Inr (Some ''hi''), t))"
proof -
  obtain st where d: "destroy ''a@b'' (pr_store demo_written) = (Inr True, st)"
    by (simp add: DEK_FILE_def destroy_def Let_def demo_written_def demo_keyed_def)
  from shred_is_final [OF d, of "demo_written\<lparr>pr_store := st\<rparr>" demo_who demo_h demo_enclave demo_moment "''v.md''" "''hi''"]
  show ?thesis using d by auto
qed

theorem documents_do_not_move_witness:
  "\<forall>p. decrypt demo_crypto (replicate 32 9) demo_h ''token.bin'' demo_blob \<noteq> Inr p"
proof -
  have e: "encrypt demo_crypto (replicate 12 2) (replicate 32 9) demo_h ''v.md'' (utf8 ''hi'') = Inr demo_blob"
    by (simp add: encrypt_def KEY_LEN_def demo_blob_def)
  from documents_do_not_move [OF demo_crypto_laws _ _ demo_names(1) demo_names(1) this, of "replicate 32 9" "''token.bin''"]
  show ?thesis by simp
qed

definition tag_crypto :: crypto where
  "tag_crypto = demo_crypto\<lparr>aead_enc := (\<lambda>k n a p. p @ replicate 16 0)\<rparr>"

theorem empty_document_is_unreadable_witness:
  "\<exists>blob msg. encrypt tag_crypto (replicate 12 0) (replicate 32 9) demo_h ''v.md'' (utf8 []) = Inr blob
     \<and> decrypt tag_crypto (replicate 32 9) demo_h ''v.md'' blob = Inl (BadRecord msg)"
proof -
  obtain blob where e: "encrypt tag_crypto (replicate 12 0) (replicate 32 9) demo_h ''v.md'' (utf8 []) = Inr blob"
    by (simp add: encrypt_def KEY_LEN_def)
  from empty_document_is_unreadable [OF _ _ e] e show ?thesis
    by (auto simp: tag_crypto_def TAG_LEN_def NONCE_LEN_def)
qed

text \<open>The account of the manifest's demo entry, and a process whose store has that manifest.\<close>

lemma demo_member:
  "\<exists>a. account_from_entry demo_site demo_entry = Inr a \<and> ac_id a = ''a@b'' \<and> ac_handle a = Some demo_h"
proof -
  obtain a where a: "account_from_entry demo_site demo_entry = Inr a"
    using demo_account [of demo_site demo_handle] by (cases "account_from_entry demo_site demo_entry") (auto simp: demo_entry_def)
  moreover from a have "ac_id a = ''a@b''" "ac_handle a = Some demo_h"
    by (auto simp: account_from_entry_def user_identity_def demo_entry_def new_entry_def demo_signup_def demo_h_def
        demo_handle_def Let_def split: if_splits sum.splits)
  ultimately show ?thesis by blast
qed

definition demo_with :: "acct_entry list \<Rightarrow> unit proc \<Rightarrow> unit proc" where
  "demo_with es s = s\<lparr>pr_store := (pr_store s)\<lparr>st_manifest := Some es\<rparr>\<rparr>"

theorem deleted_account_is_not_recreated_witness:
  "\<exists>acct st st' t. delete_account demo_ctx (Some ''a@b'') st = (Inr True, st')
     \<and> write_encrypted demo_enclave demo_moment (Acct acct) ''v.md'' ''hi'' (demo_proc\<lparr>pr_store := st'\<rparr>)
       = (Inl (AccountGone ''a@b''), t)"
proof -
  obtain st where st: "manifest_run demo_site st" "entries_of st = [demo_entry]" using demo_run by blast
  then have m: "st_manifest st = Some [demo_entry]" by (cases "st_manifest st") (auto simp: entries_of_def the_default_def)
  obtain st' where del: "delete_account demo_ctx (Some ''a@b'') st = (Inr True, st')" using demo_delete [OF m] by blast
  obtain a where a: "account_from_entry demo_site demo_entry = Inr a" "ac_id a = ''a@b''" using demo_member by blast
  then have all: "all_accounts demo_site st = Inr [a]"
    by (simp add: all_accounts_def m)
  have "\<exists>t. write_encrypted demo_enclave demo_moment (Acct a) ''v.md'' ''hi'' (demo_proc\<lparr>pr_store := st'\<rparr>)
      = (Inl (AccountGone (ac_id a)), t)"
    using deleted_account_is_not_recreated [of demo_enclave st "[a]" a "Some ''a@b''" demo_ctx st' "demo_proc\<lparr>pr_store := st'\<rparr>"
        demo_moment "''v.md''" "''hi''"] st(1) all a(2) del demo_one(4) demo_email(2)
    by auto
  with a(2) del show ?thesis by metis
qed

lemma demo_rewrap:
  assumes "demo_cold s"
  shows "rewrap_record demo_enclave m ''a@b'' demo_h s =
    (Inr (), s\<lparr>pr_store := put_file ''a@b'' DEK_FILE demo_file (pr_store s)\<rparr>)"
proof -
  have "client_rewrap demo_enclave m demo_h demo_record s = (Inr demo_record, s)"
    using assms by (intro demo_client_rewrap [OF demo_outer_rewrap]) (simp_all add: demo_cold_def)
  then show ?thesis
    using demo_load [OF assms] demo_encode
    by (simp add: rewrap_record_def and_then_def check_handle_of_def of_sum_def check_handle_def store_record_def
        read_store_def put_doc_def change_store_def del: check_handle_Inr)
qed

theorem rotation_keeps_every_document_witness:
  "\<exists>t. rotate demo_enclave demo_moment True (demo_with [demo_entry] demo_forgot) = (Inr (1, 0), t)
     \<and> on_current demo_keystore (pr_store t) ''a@b''"
proof -
  let ?s = "demo_with [demo_entry] demo_forgot"
  obtain a where a: "account_from_entry demo_site demo_entry = Inr a" "ac_id a = ''a@b''" "ac_handle a = Some demo_h"
    using demo_member by blast
  have cold: "demo_cold ?s" using demo_forgot_cold by (simp add: demo_cold_def demo_with_def)
  have key: "has_key ''a@b'' (pr_store ?s) = Inr True"
    using cold by (simp add: has_key_def file_at_def demo_cold_def del: file_at_Inr)
  have cand: "candidates demo_enclave (pr_store ?s) = Inr [a]"
    using a key by (simp add: candidates_def all_accounts_def demo_with_def truthy_def present_def str_or_def)
  obtain t where run: "rotate demo_enclave demo_moment True ?s = (Inr (1, 0), t)"
    using cand a demo_rewrap [OF cold, of demo_moment]
    by (simp add: rotate_def and_then_def read_store_def change_store_def str_or_def give_def)
  have "account_key demo_enclave demo_keystore (\<lambda>_. demo_h) (pr_store ?s) u = Some k"
    if "st_deks (pr_store ?s) u = Some (k, e)" for u k e
    using that by (simp add: demo_with_def demo_forgot_def demo_written_def demo_keyed_def dek_put_def split: if_splits)
  then have inv: "keyring_inv demo_enclave demo_keystore (\<lambda>_. demo_h) ?s"
    using demo_secret
    by (simp add: keyring_inv_def secret_ok_def demo_with_def demo_forgot_def demo_written_def demo_keyed_def)
  from rotation_keeps_every_document [OF demo_honest _ inv cand _ run] demo_crypto_laws(1) a run
  show ?thesis by (simp add: str_or_def)
qed

theorem refresh_asks_the_cosigner_witness:
  "\<exists>dek t blob. release_for_refresh demo_enclave demo_moment ''a@b'' demo_h ''POST'' TOKEN_ENDPOINT None demo_forgot
      = (Inr (dek, JStr ''jws''), t)
    \<and> st_files (pr_store demo_forgot) ''a@b'' DEK_FILE = Some blob"
proof -
  have "unwrap_and_sign demo_enclave demo_moment demo_h demo_record ''POST'' TOKEN_ENDPOINT None demo_forgot
      = (Inr (demo_inner, JStr ''jws''), demo_forgot)"
    using demo_forgot_cold by (intro demo_client_refresh [OF demo_outer_unwrap]) (simp_all add: demo_cold_def)
  moreover have "open_dek demo_enclave demo_h demo_inner 1 demo_forgot = (Inr (replicate 32 9), demo_forgot)"
    using demo_forgot_cold by (intro demo_open_dek) (simp add: demo_cold_def)
  ultimately have run: "release_for_refresh demo_enclave demo_moment ''a@b'' demo_h ''POST'' TOKEN_ENDPOINT None demo_forgot
      = (Inr (replicate 32 9, JStr ''jws''), demo_forgot)"
    using demo_load [OF demo_forgot_cold]
    by (simp add: release_for_refresh_def and_then_def check_handle_of_def of_sum_def check_handle_def give_def
        del: check_handle_Inr)
  from refresh_asks_the_cosigner [OF run] run show ?thesis by blast
qed

theorem document_key_lives_five_minutes_witness:
  "\<exists>dek t. dek_for demo_enclave demo_moment demo_who demo_forgot = (Inr dek, t)
     \<and> dek_for demo_enclave (demo_moment\<lparr>mo_mono := 299\<rparr>) demo_who t = (Inr dek, t)
     \<and> fst (dek_for demo_enclave (demo_moment\<lparr>mo_mono := 300\<rparr>) demo_who t)
       = fst (open_key demo_enclave (demo_moment\<lparr>mo_mono := 300\<rparr>) ''a@b'' demo_h t)"
proof -
  have none: "dek_get (mo_mono demo_moment) ''a@b'' (st_deks (pr_store demo_forgot)) = None"
    by (simp add: demo_forgot_def dek_get_def)
  then obtain t where run: "dek_for demo_enclave demo_moment demo_who demo_forgot = (Inr (replicate 32 9), t)"
    using demo_open [OF demo_forgot_cold]
    by (simp add: dek_for_def and_then_def of_sum_def read_store_def give_def remember_def change_store_def)
  note lives = document_key_lives_five_minutes [OF demo_names(5) none run refl]
  from lives [of "demo_moment\<lparr>mo_mono := 299\<rparr>"] lives [of "demo_moment\<lparr>mo_mono := 300\<rparr>"] run
  show ?thesis by auto
qed

end
