(* ===== verification/TokensDemo.thy ===== *)
theory TokensDemo
  imports Tokens KeyringDemo
begin

text \<open>
  The token theory on concrete runs: a token endpoint that asks once for a nonce and then answers,
  an account whose refresh token is taken, forgotten from memory and spent, and one that has none.
\<close>

section \<open>A token endpoint\<close>

definition demo_answer :: json where
  "demo_answer = JObj [(''access_token'', JStr ''ya29''), (''expires_in'', JNum 3600)]"

definition demo_ok :: response where
  "demo_ok = \<lparr>rs_status = 200, rs_nonce = None, rs_www = None, rs_debug = None, rs_text = [], rs_json = Some demo_answer\<rparr>"

definition demo_ask :: response where
  "demo_ask = \<lparr>rs_status = 400, rs_nonce = Some ''n1'', rs_www = None, rs_debug = None, rs_text = [],
     rs_json = Some (JObj [(''error'', JStr ''use_dpop_nonce'')])\<rparr>"

definition demo_google :: "unit google" where
  "demo_google = \<lparr>gg_post = (\<lambda>url form pf w. (Inr (if pf = Some (JStr ''stale'') then demo_ask else demo_ok), w)),
     gg_keys = Inr (''id'', ''secret'')\<rparr>"

definition demo_toks :: "unit proc \<Rightarrow> unit toks" where
  "demo_toks p = \<lparr>tk_proc = p, tk_access = (\<lambda>_. None), tk_nonce = None\<rparr>"

lemma demo_google_simps [simp]:
  "rs_status demo_ok = 200" "rs_json demo_ok = Some demo_answer" "rs_nonce demo_ok = None"
  "rs_status demo_ask = 400" "rs_nonce demo_ask = Some ''n1''"
  "gg_keys demo_google = Inr (''id'', ''secret'')"
  "gg_post demo_google url form pf w = (Inr (if pf = Some (JStr ''stale'') then demo_ask else demo_ok), w)"
  "needs_nonce demo_ok = Inr False" "needs_nonce demo_ask = Inr True"
  "accept_response form who demo_ok = Inr demo_answer"
  "json_get demo_answer ''access_token'' = Inr (JStr ''ya29'')" "expires_in demo_answer = Inr 3600"
  "tk_proc (demo_toks p) = p" "tk_access (demo_toks p) u = None" "tk_nonce (demo_toks p) = None"
  by (simp_all add: demo_ok_def demo_ask_def demo_google_def needs_nonce_def accept_response_def json_get_def jget_def
      demo_answer_def expires_in_def int_of_json_def trunc_def demo_toks_def)

definition demo_sign :: "string option \<Rightarrow> (unit, json) tok" where
  "demo_sign nonce = give (JStr (the_default [] nonce))"

theorem exchange_retries_once_with_the_nonce_witness:
  "\<exists>t. exchange_with_dpop demo_google [] (Some ''a@b'') (Some (JStr ''stale'')) (Some demo_sign) (demo_toks demo_proc) = (Inr demo_answer, t)
     \<and> (\<exists>resp. gg_post demo_google TOKEN_ENDPOINT [] (Some (JStr ''stale'')) () = (Inr resp, ()) \<and> rs_nonce resp = Some ''n1'')"
proof -
  obtain t where run: "exchange_with_dpop demo_google [] (Some ''a@b'') (Some (JStr ''stale'')) (Some demo_sign) (demo_toks demo_proc)
    = (Inr demo_answer, t)"
    by (simp add: exchange_with_dpop_def and_then_def demand_def give_def http_post_def lift_err_def keep_nonce_def
        of_sum_def truthy_def demo_sign_def the_default_def)
  from exchange_retries_once_with_the_nonce [OF this] run show ?thesis by auto
qed

section \<open>An account and its token\<close>

definition demo_home :: "unit proc" where "demo_home = demo_with [demo_entry] demo_keyed"

definition demo_grant :: bytes where
  "demo_grant = replicate 12 2 @ aead_enc demo_crypto (replicate 32 9) (replicate 12 2) (doc_aad demo_h TOKEN_FILE) (utf8 ''rt'')"

definition demo_taken :: "unit proc" where
  "demo_taken = demo_home\<lparr>pr_store := put_file ''a@b'' TOKEN_FILE demo_grant (pr_store demo_home)\<rparr>"

definition demo_later :: "unit proc" where
  "demo_later = demo_taken\<lparr>pr_store := forget_keys (Some ''a@b'') (pr_store demo_taken)\<rparr>"

lemma demo_acct:
  "\<exists>a. account_from_entry demo_site demo_entry = Inr a \<and> ac_id a = ''a@b'' \<and> ac_handle a = Some demo_h
     \<and> identify (Acct a) = Inr (''a@b'', demo_h)"
proof -
  obtain a where a: "account_from_entry demo_site demo_entry = Inr a" "ac_id a = ''a@b''" "ac_handle a = Some demo_h"
    using demo_member by blast
  then have "identify (Acct a) = Inr (''a@b'', demo_h)"
    by (simp add: identify_def truthy_def check_handle_def del: check_handle_Inr)
  with a show ?thesis by blast
qed

lemma demo_not_deleted:
  assumes "account_from_entry demo_site demo_entry = Inr a" and "ac_id a = ''a@b''"
  shows "refuse_if_deleted demo_enclave (Acct a) ''a@b'' demo_home = (Inr (), demo_home)"
proof -
  have "norm_arg (Some ''a@b'') = ''a@b''" "py_lower ''a@b'' = ''a@b''" by code_simp+
  then have "account_for_email (en_site demo_enclave) (Some ''a@b'') True (pr_store demo_home) = Inr (Some a)"
    using assms by (simp add: account_for_email_def all_accounts_def demo_home_def demo_with_def match_account_def present_def Let_def)
  then show ?thesis by (simp add: refuse_if_deleted_def)
qed

lemma demo_dek_home:
  assumes "identify (Acct a) = Inr (''a@b'', demo_h)"
  shows "dek_for demo_enclave demo_moment (Acct a) demo_home = (Inr (replicate 32 9), demo_home)"
  using assms
  by (simp add: dek_for_def and_then_def of_sum_def read_store_def demo_home_def demo_with_def demo_keyed_def dek_get_def
      dek_put_def DEK_TTL_def give_def)

lemma demo_grant_enc: "encrypt demo_crypto (replicate 12 2) (replicate 32 9) demo_h TOKEN_FILE (utf8 ''rt'') = Inr demo_grant"
  by (simp add: encrypt_def KEY_LEN_def demo_grant_def TOKEN_FILE_def)

lemma demo_take:
  assumes "account_from_entry demo_site demo_entry = Inr a" and "ac_id a = ''a@b''" and "identify (Acct a) = Inr (''a@b'', demo_h)"
  shows "take_custody demo_enclave demo_moment (Acct a) ''rt'' demo_home = (Inr (), demo_taken)"
proof -
  have k: "has_key ''a@b'' (pr_store demo_home) = Inr True"
    by (simp add: has_key_def file_at_def demo_home_def demo_with_def demo_keyed_def DEK_FILE_def del: file_at_Inr)
  show ?thesis
    using demo_not_deleted [OF assms(1,2)] demo_dek_home [OF assms(3)] demo_grant_enc assms(3) k
    by (simp add: take_custody_def write_encrypted_def and_then_def of_sum_def read_store_def demand_def give_def
        put_doc_def change_store_def demo_taken_def)
qed


lemma demo_release:
  "release_for_refresh demo_enclave m ''a@b'' demo_h ''POST'' TOKEN_ENDPOINT None demo_later
     = (Inr (replicate 32 9, JStr ''jws''), demo_later)"
proof -
  have cold: "demo_cold demo_later"
    by (simp add: demo_cold_def demo_later_def demo_taken_def demo_home_def demo_with_def demo_keyed_def TOKEN_FILE_def DEK_FILE_def)
  then have "unwrap_and_sign demo_enclave m demo_h demo_record ''POST'' TOKEN_ENDPOINT None demo_later
      = (Inr (demo_inner, JStr ''jws''), demo_later)"
    by (intro demo_client_refresh [OF demo_outer_unwrap]) (simp_all add: demo_cold_def)
  moreover have "open_dek demo_enclave demo_h demo_inner 1 demo_later = (Inr (replicate 32 9), demo_later)"
    using cold by (intro demo_open_dek) (simp add: demo_cold_def)
  ultimately show ?thesis
    using demo_load [OF cold]
    by (simp add: release_for_refresh_def and_then_def check_handle_of_def of_sum_def check_handle_def give_def
        del: check_handle_Inr)
qed

lemma demo_refresh:
  assumes "identify (Acct a) = Inr (''a@b'', demo_h)"
  shows "refresh demo_enclave demo_google demo_moment a (demo_toks demo_later)
    = (Inr (JStr ''ya29'', mo_answered demo_moment + 3600 - 120), demo_toks demo_later)"
proof -
  have f: "token_file (Acct a) demo_later = (Inr (Some demo_grant), demo_later)"
    using assms
    by (simp add: token_file_def and_then_def of_sum_def read_store_def file_at_def demo_later_def demo_taken_def
        TOKEN_FILE_def del: file_at_Inr)
  from readable_encrypt [OF demo_grant_enc demo_crypto_laws(1)]
  have d: "decrypt demo_crypto (replicate 32 9) demo_h TOKEN_FILE demo_grant = Inr (utf8 ''rt'')"
    by (auto simp: readable_def split: sum.splits)
  have x: "exchange_with_dpop demo_google form u (Some (JStr ''jws'')) sign (demo_toks demo_later) = (Inr demo_answer, demo_toks demo_later)"
    for form u sign
    by (simp add: exchange_with_dpop_def and_then_def demand_def give_def http_post_def lift_err_def keep_nonce_def
        of_sum_def truthy_def demo_toks_def)
  show ?thesis
    using assms d x
    by (simp add: refresh_def and_then_def of_sum_def in_proc_def f demand_def as_reauth_def demo_release the_default_def
        decode_text_def text_codec.round_trip give_def EXPIRY_MARGIN_def demo_toks_def
        del: utf8.simps)
qed


lemma demo_home_inv: "keyring_inv demo_enclave demo_keystore (\<lambda>_. demo_h) demo_home"
proof -
  have "keyring_inv demo_enclave demo_keystore (\<lambda>_. demo_h) demo_keyed"
    using create_step [where hs = "\<lambda>_. demo_h" and ks = demo_keystore, OF demo_create demo_honest _ demo_inv _ demo_fresh]
      demo_crypto_laws(1) by simp
  moreover have "account_key demo_enclave ks hs (pr_store demo_home) uid = account_key demo_enclave ks hs (pr_store demo_keyed) uid" for ks hs uid
    by (simp add: account_key_def stored_key_def demo_home_def demo_with_def split: sum.splits)
  ultimately show ?thesis by (simp add: keyring_inv_def secret_ok_def demo_home_def demo_with_def)
qed

lemma demo_home_fresh: "fresh_key demo_enclave demo_moment (\<lambda>_. demo_h) ''a@b'' demo_home"
  by (simp add: fresh_key_def demo_home_def demo_with_def demo_keyed_def)

theorem refresh_spends_the_token_taken_witness:
  "\<exists>a t. identify (Acct a) = Inr (''a@b'', demo_h)
     \<and> refresh demo_enclave demo_google demo_moment a (demo_toks demo_later) = (Inr (JStr ''ya29'', mo_answered demo_moment + 3600 - 120), t)
     \<and> answered_with demo_google (refresh_form ''rt'' (''id'', ''secret'')) () demo_answer"
proof -
  obtain a where a: "account_from_entry demo_site demo_entry = Inr a" "ac_id a = ''a@b''"
    "identify (Acct a) = Inr (''a@b'', demo_h)" using demo_acct by blast
  have "keyring_step demo_enclave (\<lambda>_. demo_h) Quiet demo_taken demo_later"
    unfolding demo_later_def by (rule keyring_step.Forget)
  then have run: "keyring_run demo_enclave (\<lambda>_. demo_h) ([] @ [Quiet]) demo_taken (tk_proc (demo_toks demo_later))"
    by (simp only: demo_google_simps) (rule keyring_run.Step [OF keyring_run.Start])
  have inv: "aead_inverts (en_crypto demo_enclave)" using demo_crypto_laws(1) by simp
  note r = demo_refresh [OF a(3)]
  have "\<exists>keys payload. gg_keys demo_google = Inr keys
      \<and> answered_with demo_google (refresh_form ''rt'' keys) () payload
      \<and> json_get payload ''access_token'' = Inr (fst (JStr ''ya29'', mo_answered demo_moment + 3600 - 120))"
    using refresh_spends_the_token_taken [OF demo_honest inv demo_home_inv a(3) _ _ demo_home_fresh demo_take [OF a] run _ r]
    by (simp add: touches_def)
  then obtain payload where p: "answered_with demo_google (refresh_form ''rt'' (''id'', ''secret'')) () payload" by auto
  then have "payload = demo_answer" by (auto simp: answered_with_def split: if_splits)
  with a(3) r p show ?thesis by blast
qed

theorem access_token_stops_before_expiry_witness:
  "\<exists>a t. access_token_for demo_enclave demo_google demo_moment a (demo_toks demo_later) = (Inr (JStr ''ya29''), t)
     \<and> access_token_for demo_enclave demo_google (demo_moment\<lparr>mo_wall := mo_answered demo_moment + 3479\<rparr>) a t = (Inr (JStr ''ya29''), t)"
proof -
  obtain a where a: "ac_id a = ''a@b''" "identify (Acct a) = Inr (''a@b'', demo_h)" using demo_acct by blast
  obtain t where run: "access_token_for demo_enclave demo_google demo_moment a (demo_toks demo_later) = (Inr (JStr ''ya29''), t)"
    using demo_refresh [OF a(2)] by (simp add: access_token_for_def and_then_def)
  have "\<exists>form payload secs. answered_with demo_google form () payload \<and> expires_in payload = Inr secs \<and>
      (\<forall>m' u. tk_access u (ac_id a) = tk_access t (ac_id a) \<longrightarrow> mo_wall m' < mo_answered demo_moment + of_int secs - 120 \<longrightarrow>
        access_token_for demo_enclave demo_google m' a u = (Inr (JStr ''ya29''), u))"
    using access_token_stops_before_expiry [OF run] by force
  moreover have "payload = demo_answer" if "answered_with demo_google form () payload" for form payload
    using that by (auto simp: answered_with_def split: if_splits)
  ultimately have "access_token_for demo_enclave demo_google (demo_moment\<lparr>mo_wall := mo_answered demo_moment + 3479\<rparr>) a t = (Inr (JStr ''ya29''), t)"
    by fastforce
  with run show ?thesis by blast
qed

theorem reauth_is_about_the_grant_witness:
  "\<exists>a t. refresh demo_enclave demo_google demo_moment a (demo_toks demo_home) = (Inl (ReauthRequired ''a@b''), t)
     \<and> (st_files (pr_store demo_home) ''a@b'' TOKEN_FILE = None \<or> (\<exists>e. fst (load_record ''a@b'' demo_home) = Inl e)
        \<or> google_refused demo_google (pr_world (tk_proc t)))"
proof -
  obtain a where a: "identify (Acct a) = Inr (''a@b'', demo_h)" using demo_acct by blast
  have "token_file (Acct a) demo_home = (Inr None, demo_home)"
    using a by (simp add: token_file_def and_then_def of_sum_def read_store_def file_at_def demo_home_def demo_with_def
        demo_keyed_def TOKEN_FILE_def DEK_FILE_def del: file_at_Inr)
  then obtain t where run: "refresh demo_enclave demo_google demo_moment a (demo_toks demo_home) = (Inl (ReauthRequired ''a@b''), t)"
    using a by (simp add: refresh_def and_then_def of_sum_def in_proc_def demand_def)
  from reauth_is_about_the_grant [OF run] a run show ?thesis by auto
qed

end
