(* ===== verification/ChatDemo.thy ===== *)
theory ChatDemo
  imports ChatLink TokensDemo
begin

text \<open>
  A chat that is linked, on concrete values: the daemon mints a code for an account with no chat,
  puts it into the mailbox, and links the chat that posts it. The same run with an empty inbox is
  refused and can be retried.
\<close>

definition chat_site :: site_env where "chat_site = demo_site\<lparr>se_bot := Some ''bot''\<rparr>"

definition demo_post :: json where
  "demo_post = JObj [(''message'', JObj [(''text'', JStr ''my code is LL-ABCDEFGH''), (''chat'', JObj [(''id'', JNum 77)]),
     (''date'', JNum 20000005)])]"

definition demo_bots :: "json list \<Rightarrow> unit bots" where
  "demo_bots updates = \<lparr>bt_site = chat_site,
     bt_post = (\<lambda>url msg w. (Inr (Some (JObj [(''ok'', JBool True), (''result'', JList updates)])), w)),
     bt_insert = (\<lambda>a subject body w. (Inr (), w))\<rparr>"

definition demo_desk :: "unit desk" where
  "demo_desk = \<lparr>dk_store = demo_store, dk_pending = (\<lambda>_. None), dk_proven = (\<lambda>_. None),
     dk_username = Some (JStr ''letterlock_bot''), dk_world = ()\<rparr>"

definition demo_change :: change where
  "demo_change = \<lparr>ch_action = CHAT_LINK, ch_code = ''LL-ABCDEFGH'', ch_since = 20000000, ch_expires = 20000900, ch_chat = None\<rparr>"

definition demo_waiting :: "unit desk" where
  "demo_waiting = demo_desk\<lparr>dk_pending := [''a@b'' \<mapsto> demo_change]\<rparr>"

lemma demo_bots_simps [simp]:
  "bt_site (demo_bots us) = chat_site" "bot_token (demo_bots us) = Some ''bot''"
  "dk_store demo_desk = demo_store" "dk_store demo_waiting = demo_store" "dk_pending demo_desk = (\<lambda>_. None)"
  "dk_proven demo_desk = (\<lambda>_. None)" "bt_insert (demo_bots us) a subject body w = (Inr (), w)"
  "dk_username demo_desk = Some (JStr ''letterlock_bot'')" "demo_desk\<lparr>dk_world := w\<rparr> = demo_desk"
  by (simp_all add: demo_bots_def demo_desk_def demo_waiting_def bot_token_def chat_site_def keep_truthy_def truthy_def)

lemma demo_unlinked:
  "\<exists>a. account_for_email chat_site (Some ''a@b'') True demo_store = Inr (Some a) \<and> ac_id a = ''a@b'' \<and> ac_telegram a = None"
proof -
  obtain a where a: "account_from_entry chat_site demo_entry = Inr a"
    using demo_account [of chat_site demo_handle] by (cases "account_from_entry chat_site demo_entry") (auto simp: demo_entry_def)
  then have f: "ac_id a = ''a@b''" "ac_telegram a = None"
    by (auto simp: account_from_entry_def user_identity_def demo_entry_def new_entry_def demo_signup_def telegram_from_entry_def
        keep_truthy_def truthy_def str_or_def Let_def split: if_splits sum.splits)
  have "norm_arg (Some ''a@b'') = ''a@b''" "py_lower ''a@b'' = ''a@b''" by code_simp+
  with a f show ?thesis
    by (simp add: account_for_email_def all_accounts_def demo_store_def match_account_def present_def Let_def)
qed

lemma prune_pending_empty [simp]: "prune_pending now (\<lambda>_. None) = (\<lambda>_. None)"
  by (simp add: prune_pending_def fun_eq_iff)

lemma demo_begin:
  "\<exists>a. ac_id a = ''a@b'' \<and> account_for_email chat_site (Some ''a@b'') True demo_store = Inr (Some a)
    \<and> begin_change (demo_bots us) 20000000 ''ABCDEFGH'' ''a@b'' demo_desk = (Inr (CHAT_LINK, None, Some (JStr ''letterlock_bot'')), demo_waiting)
    \<and> minted 20000000 ''ABCDEFGH'' a = demo_change"
proof -
  obtain a where a: "account_for_email chat_site (Some ''a@b'') True demo_store = Inr (Some a)" "ac_id a = ''a@b''" "ac_telegram a = None"
    using demo_unlinked by blast
  have m: "minted 20000000 ''ABCDEFGH'' a = demo_change"
    using a(3) by (simp add: minted_def demo_change_def action_for_def chat_of_def new_link_code_def PENDING_TTL_def)
  have "action_for a = CHAT_LINK" using a(3) by (simp add: action_for_def)
  moreover have "CHAT_LINK \<noteq> CHAT_UNLINK" by (simp add: CHAT_LINK_def CHAT_UNLINK_def)
  ultimately have "begin_change (demo_bots us) 20000000 ''ABCDEFGH'' ''a@b'' demo_desk
      = (Inr (CHAT_LINK, None, Some (JStr ''letterlock_bot'')), demo_waiting)"
    using a m
    by (simp add: begin_unfold begin_for_def and_then_def the_account_def give_def proven_recently_def deliver_code_def
        begun_def prune_pending_empty demo_waiting_def bot_username_def)
  with a m show ?thesis by blast
qed

theorem link_code_is_withheld_witness:
  "\<exists>t. begin_change (demo_bots []) 20000000 ''ABCDEFGH'' ''a@b'' demo_desk = (Inr (CHAT_LINK, None, Some (JStr ''letterlock_bot'')), t)
     \<and> dk_store t = demo_store"
proof -
  obtain t where run: "begin_change (demo_bots []) 20000000 ''ABCDEFGH'' ''a@b'' demo_desk
      = (Inr (CHAT_LINK, None, Some (JStr ''letterlock_bot'')), t)" using demo_begin by blast
  from link_code_is_withheld [OF run] run show ?thesis by auto
qed

definition later_ctx :: ctx where "later_ctx = demo_ctx\<lparr>cx_now := 20000010\<rparr>"

lemma demo_claim: "claim (cx_now later_ctx) ''a@b'' demo_waiting = (Inr demo_change, demo_waiting)"
  by (auto simp: claim_def Let_def prune_pending_def demo_waiting_def demo_change_def later_ctx_def fun_eq_iff)

lemma demo_finish:
  "\<exists>a. finish_change (demo_bots us) later_ctx ''a@b'' demo_waiting = finish_for (demo_bots us) later_ctx ''a@b'' demo_change a demo_waiting
     \<and> ac_id a = ''a@b'' \<and> action_for a = CHAT_LINK \<and> chat_of a = None"
proof -
  obtain a where "account_for_email chat_site (Some ''a@b'') True demo_store = Inr (Some a)" "ac_id a = ''a@b''" "ac_telegram a = None"
    using demo_unlinked by blast
  moreover from this have "the_account (demo_bots us) ''a@b'' demo_waiting = (Inr a, demo_waiting)"
    by (simp add: the_account_cases)
  ultimately show ?thesis
    by (intro exI [of _ a]) (simp add: finish_unfold and_then_def [of "claim x y" for x y] demo_claim
        and_then_def [of "the_account (demo_bots us) ''a@b''"] action_for_def chat_of_def)
qed

lemma demo_call: "telegram_call (demo_bots us) verb msg None s = (Inr (Some (JList us)), s)"
  by (simp add: telegram_call_def truthy_def Let_def) (simp add: demo_bots_def)

theorem refused_change_can_be_retried_witness:
  "\<exists>t. finish_change (demo_bots []) later_ctx ''a@b'' demo_waiting = (Inl (ChangeRefused CODE_NOT_SEEN), t)
     \<and> dk_pending t ''a@b'' = Some demo_change"
proof -
  obtain a where f: "finish_change (demo_bots []) later_ctx ''a@b'' demo_waiting
      = finish_for (demo_bots []) later_ctx ''a@b'' demo_change a demo_waiting" "action_for a = CHAT_LINK" "chat_of a = None"
    using demo_finish by blast
  have run: "finish_change (demo_bots []) later_ctx ''a@b'' demo_waiting = (Inl (ChangeRefused CODE_NOT_SEEN), demo_waiting)"
    using f by (simp add: finish_for_def demo_change_def posted_since_def posts_of_def and_then_def demand_def demo_call give_def
        of_sum_def vetted)
  from refused_change_can_be_retried [OF run] run show ?thesis by (simp add: demo_waiting_def)
qed

lemma demo_inbox: "posts_of (demo_bots [demo_post]) ''LL-ABCDEFGH'' s = (Inr [(''77'', 20000005)], s)"
proof -
  have "contains ''LL-ABCDEFGH'' ''my code is LL-ABCDEFGH''" "str_int 77 = ''77''" by code_simp+
  then have "post_in ''LL-ABCDEFGH'' demo_post = Inr (Some (''77'', 20000005))"
    by (simp add: post_in_def demo_post_def members_def holds_code_def chat_name_def trunc_def lift_err_def int_of_json_def)
  then show ?thesis by (simp add: posts_of_def and_then_def demand_def demo_call of_sum_def)
qed

theorem telegram_change_is_proven_witness:
  "\<exists>r t. finish_change (demo_bots [demo_post]) later_ctx ''a@b'' demo_waiting = (r, t)
     \<and> st_manifest (dk_store t) = Some [demo_entry\<lparr>ae_telegram := Some \<lparr>tg_chat_id = Some ''77'', tg_token = None\<rparr>\<rparr>]"
proof -
  let ?B = "demo_bots [demo_post]" let ?e = "demo_entry\<lparr>ae_telegram := Some \<lparr>tg_chat_id = Some ''77'', tg_token = None\<rparr>\<rparr>"
  obtain a0 where b: "account_for_email chat_site (Some ''a@b'') True demo_store = Inr (Some a0)" "ac_id a0 = ''a@b''"
    "begin_change ?B 20000000 ''ABCDEFGH'' ''a@b'' demo_desk = (Inr (CHAT_LINK, None, Some (JStr ''letterlock_bot'')), demo_waiting)"
    "minted 20000000 ''ABCDEFGH'' a0 = demo_change" using demo_begin by blast
  have "mints ''a@b'' demo_change demo_desk demo_waiting" by (simp add: mints_def demo_waiting_def)
  moreover have "desk_run ?B [] demo_desk" by (rule desk_run.Start) simp
  ultimately have run: "desk_run ?B ([] @ [(ac_id a0, minted 20000000 ''ABCDEFGH'' a0)]) demo_waiting"
    using b by (intro desk_run.Minted [OF _ b(3)]) (simp_all add: demo_waiting_def)
  obtain a where f: "finish_change ?B later_ctx ''a@b'' demo_waiting = finish_for ?B later_ctx ''a@b'' demo_change a demo_waiting"
    "ac_id a = ''a@b''" "action_for a = CHAT_LINK" "chat_of a = None" using demo_finish by blast
  let ?s = "demo_waiting\<lparr>dk_pending := (dk_pending demo_waiting)(''a@b'' := None)\<rparr>"
  have "same_id (Some ''a@b'') demo_entry"
    by (simp add: same_id_def has_id_def demo_entry_def demo_email norm_arg_def str_or_def)
  moreover have "ae_telegram demo_entry = Some no_telegram"
    by (simp add: demo_entry_def new_entry_def demo_signup_def no_telegram_def keep_truthy_def truthy_def)
  ultimately have tr: "transaction False (edit_entry (Some ''a@b'') (link_telegram (Some ''77'') None False)) demo_store
      = (Inr ([''chat_id''], demo_entry, ?e), demo_store\<lparr>st_manifest := Some [?e]\<rparr>)"
    by (simp add: transaction_def demo_store_def edit_entry_def link_telegram_def the_default_def truthy_def no_telegram_def Let_def)
  have m: "st_manifest (snd (set_telegram chat_site later_ctx (Some ''a@b'') (Some ''77'') None False demo_store)) = Some [?e]"
  proof -
    obtain q v where fin: "finished chat_site later_ctx TELEGRAM ''linked'' [''chat_id''] ?e (demo_store\<lparr>st_manifest := Some [?e]\<rparr>) = (q, v)"
      by fastforce
    then have "set_telegram chat_site later_ctx (Some ''a@b'') (Some ''77'') None False demo_store = (q, v)"
      by (simp add: set_telegram_def truthy_def tr)
    with finished_store [OF fin] show ?thesis by simp
  qed
  obtain q u where st: "store_telegram ?B later_ctx ''a@b'' (Some ''77'') False ?s = (q, u)" by fastforce
  then have u: "st_manifest (dk_store u) = Some [?e]" using store_telegram_store [OF st] m by simp
  obtain r t where fin: "finish_change ?B later_ctx ''a@b'' demo_waiting = (r, t)" by fastforce
  have p: "posted_since ?B ''LL-ABCDEFGH'' 20000000 None demo_waiting = (Inr (Some ''77''), demo_waiting)"
    by (simp add: posted_since_def and_then_def demo_inbox give_def)
  have "wired.keeps (and_then (send_telegram ?B LINKED_MESSAGE (ac_telegram a')) (\<lambda>_. give a'))" for a'
    by (intro wired.keeps_rules send_telegram_keeps)
  note keeps = wired.keepsD [OF this]
  have "(case q of Inl x \<Rightarrow> (Inl x, u) | Inr a' \<Rightarrow> and_then (send_telegram ?B LINKED_MESSAGE (ac_telegram a')) (\<lambda>_. give a') u) = (r, t)"
    using fin f p st
    by (simp add: finish_for_def demo_change_def and_then_def [of "posted_since x y z w" for x y z w] forget_change_run
        and_then_def [of "store_telegram x y z w v" for x y z w v])
  then have "dk_store t = dk_store u" using keeps by (cases q) (auto simp: only_wire_def)
  with u have t: "st_manifest (dk_store t) = Some [?e]" by simp
  have "?e \<noteq> demo_entry"
    by (simp add: demo_entry_def new_entry_def demo_signup_def keep_truthy_def truthy_def)
  with t have "dk_store t \<noteq> dk_store demo_waiting" by (auto simp: demo_store_def)
  from telegram_change_is_proven [OF run fin this] fin t show ?thesis by blast
qed

end
