(* ===== verification/Session.thy ===== *)
theory Session
  imports Custody
begin

text \<open>
  \<open>frontend/session.py\<close>: the signed values the web tier keeps in browsers. A session, an OAuth
  state, a checkout and an anti-CSRF token are all \<open>kid:value:iat:sig\<close> under a ring of signing
  keys. \<open>hmac\<close> and \<open>sha256\<close> are parameters (their hexadecimal digests); a request's cookies are the
  map \<open>http.cookies\<close> reads from its header, and a \<open>Set-Cookie\<close> is its name, value and age. The ring
  is read once per process, so every operation takes the ring that process read.
\<close>

section \<open>The ring of signing keys\<close>

record signer =
  sg_mac :: "bytes \<Rightarrow> bytes \<Rightarrow> string"
  sg_sha :: "bytes \<Rightarrow> string"

datatype session_error = MissingSecret string | SessionAssert string | NoMacKey | NonAscii

type_synonym ring = "(string \<times> bytes) list"

definition SESSION_SECRET :: string where "SESSION_SECRET = ''SESSION_SECRET''"
definition SESSION_SECRET_PREVIOUS :: string where "SESSION_SECRET_PREVIOUS = ''SESSION_SECRET_PREVIOUS''"
definition SESSION_COOKIE :: string where "SESSION_COOKIE = ''letterlock_session''"
definition SESSION_TTL :: int where "SESSION_TTL = 86400 * 30"
definition SESSION_PURPOSE :: string where "SESSION_PURPOSE = ''session''"
definition STATE_PURPOSE :: string where "STATE_PURPOSE = ''oauth-state''"
definition STATE_TTL :: int where "STATE_TTL = 1800"
definition CSRF_PURPOSE :: string where "CSRF_PURPOSE = ''csrf''"
definition STATE_COOKIE :: string where "STATE_COOKIE = ''letterlock_oauth_state''"
definition CHECKOUT_COOKIE :: string where "CHECKOUT_COOKIE = ''letterlock_checkout''"
definition CHECKOUT_PURPOSE :: string where "CHECKOUT_PURPOSE = ''checkout''"
definition CHECKOUT_TTL :: int where "CHECKOUT_TTL = 3600"
definition MAX_PENDING :: nat where "MAX_PENDING = 3"

definition fingerprint :: "signer \<Rightarrow> bytes \<Rightarrow> string" where
  "fingerprint sg key = (if key = [] then ''(unset)'' else ''sha256:'' @ take 8 (sg_sha sg key))"

definition kid_of :: "signer \<Rightarrow> bytes \<Rightarrow> session_error + string" where
  "kid_of sg key =
     (let label = fingerprint sg key;
          digest = drop 1 (dropWhile (\<lambda>c. c \<noteq> CHR '':'') label)
      in if digest = [] \<or> CHR '':'' \<in> set digest
         then Inl (SessionAssert (takeWhile (\<lambda>c. c \<noteq> CHR '':'') label @ '' label is unusable as a kid''))
         else Inr digest)"

fun label_all :: "signer \<Rightarrow> bytes list \<Rightarrow> session_error + ring" where
  "label_all sg [] = Inr []"
| "label_all sg (key # keys) =
     (case kid_of sg key of
        Inl e \<Rightarrow> Inl e
      | Inr kid \<Rightarrow> (case label_all sg keys of Inl e \<Rightarrow> Inl e | Inr ks \<Rightarrow> Inr ((kid, key) # ks)))"

definition signing_keys :: "signer \<Rightarrow> env \<Rightarrow> session_error + ring" where
  "signing_keys sg e =
     (let current = env_get e SESSION_SECRET; previous = utf8 (env_get e SESSION_SECRET_PREVIOUS)
      in if current = [] then Inl (MissingSecret SESSION_SECRET)
         else case label_all sg (utf8 current # (if previous \<noteq> [] \<and> previous \<noteq> utf8 current then [previous] else [])) of
             Inl err \<Rightarrow> Inl err
           | Inr ks \<Rightarrow> if distinct (map fst ks) then Inr ks else Inl (SessionAssert ''two signing keys share a key id''))"

definition describe_keys :: "signer \<Rightarrow> ring \<Rightarrow> session_error + string" where
  "describe_keys sg ks =
     (if 2 < length ks then Inl (SessionAssert ''more keys than names for them'')
      else let key = (\<lambda>i. if i < length ks then snd (ks ! i) else [])
           in Inr (join_with '' '' [SESSION_SECRET @ ''='' @ fingerprint sg (key 0),
                                   SESSION_SECRET_PREVIOUS @ ''='' @ fingerprint sg (key 1)]))"

text \<open>\<open>hmac.compare_digest\<close> on two strings: it raises \<open>TypeError\<close> unless both are ASCII.\<close>

definition ascii :: "string \<Rightarrow> bool" where
  "ascii s \<longleftrightarrow> (\<forall>c \<in> set s. (of_char c :: nat) < 128)"

definition compare_digest :: "string \<Rightarrow> string \<Rightarrow> session_error + bool" where
  "compare_digest a b = (if ascii a \<and> ascii b then Inr (a = b) else Inl NonAscii)"

fun find_key :: "bytes option \<Rightarrow> ring \<Rightarrow> string \<Rightarrow> session_error + bytes option" where
  "find_key found [] kid = Inr found"
| "find_key found ((known, key) # ks) kid =
     (case compare_digest known kid of
        Inl e \<Rightarrow> Inl e
      | Inr same \<Rightarrow> find_key (if same then Some key else found) ks kid)"

definition key_for :: "ring \<Rightarrow> string \<Rightarrow> session_error + bytes option" where
  "key_for ks kid = find_key None ks kid"

section \<open>A signed value\<close>

definition payload :: "string \<Rightarrow> string \<Rightarrow> int \<Rightarrow> string" where
  "payload kid v iat = kid @ '':'' @ v @ '':'' @ str_int iat"

definition mac :: "signer \<Rightarrow> bytes \<Rightarrow> string \<Rightarrow> string \<Rightarrow> session_error + string" where
  "mac sg key purpose body =
     (if key = [] then Inl NoMacKey else Inr (sg_mac sg key (utf8 (purpose @ '':'' @ body))))"

definition signed :: "signer \<Rightarrow> ring \<Rightarrow> string \<Rightarrow> string \<Rightarrow> int \<Rightarrow> session_error + string" where
  "signed sg ks purpose v iat =
     (case ks of
        [] \<Rightarrow> Inl (SessionAssert ''no signing key'')
      | (kid, key) # _ \<Rightarrow>
         (case mac sg key purpose (payload kid v iat) of
            Inl e \<Rightarrow> Inl e | Inr sig \<Rightarrow> Inr (payload kid v iat @ '':'' @ sig)))"

text \<open>\<open>value = ":".join(parts[1:-2])\<close>, the time is the last part but one.\<close>

definition parse_signed :: "string \<Rightarrow> (string \<times> string \<times> int \<times> string) option" where
  "parse_signed raw =
     (let parts = split_on CHR '':'' raw; n = length parts
      in if n < 4 then None
         else case py_int (parts ! (n - 2)) of
             None \<Rightarrow> None
           | Some iat \<Rightarrow> Some (hd parts, join_with '':'' (take (n - 3) (tl parts)), iat, last parts))"

definition open_signed ::
  "signer \<Rightarrow> ring \<Rightarrow> int \<Rightarrow> string \<Rightarrow> string option \<Rightarrow> int \<Rightarrow> session_error + string option" where
  "open_signed sg ks now purpose raw ttl =
     (case parse_signed (str_or raw '''') of
        None \<Rightarrow> Inr None
      | Some (kid, v, iat, sig) \<Rightarrow>
         (if ttl < now - iat then Inr None
          else case key_for ks kid of
              Inl e \<Rightarrow> Inl e
            | Inr key \<Rightarrow>
               (case mac sg (the_default (the_default [] (map_option snd (case ks of [] \<Rightarrow> None | k # _ \<Rightarrow> Some k))) key)
                     purpose (payload kid v iat) of
                  Inl e \<Rightarrow> Inl e
                | Inr good \<Rightarrow>
                   (case compare_digest sig good of
                      Inl e \<Rightarrow> Inl e
                    | Inr same \<Rightarrow> Inr (if key = None \<or> \<not> same then None else Some v)))))"

section \<open>The session cookie and the anti-CSRF token\<close>

type_synonym jar = "string \<Rightarrow> string option"

record set_cookie =
  sc_name :: string
  sc_value :: string
  sc_age :: int
  sc_guarded :: bool

text \<open>The header text: a value is rendered with the guarding attributes, a removal without.\<close>

definition cookie_header :: "set_cookie \<Rightarrow> string" where
  "cookie_header c =
     (if sc_guarded c
      then sc_name c @ ''='' @ sc_value c @ ''; HttpOnly; Path=/; Max-Age='' @ str_int (sc_age c) @ ''; SameSite=Lax; Secure''
      else sc_name c @ ''=; Path=/; Max-Age='' @ str_int (sc_age c))"

text \<open>What a browser holds after it: an age of zero removes the cookie.\<close>

definition browse :: "jar \<Rightarrow> set_cookie \<Rightarrow> jar" where
  "browse j c = j(sc_name c := if 0 < sc_age c then Some (sc_value c) else None)"

definition make_cookie :: "signer \<Rightarrow> ring \<Rightarrow> int \<Rightarrow> string \<Rightarrow> session_error + set_cookie" where
  "make_cookie sg ks now email =
     (case signed sg ks SESSION_PURPOSE email now of
        Inl e \<Rightarrow> Inl e
      | Inr v \<Rightarrow> Inr \<lparr>sc_name = SESSION_COOKIE, sc_value = v, sc_age = SESSION_TTL, sc_guarded = True\<rparr>)"

definition clear_cookie :: set_cookie where
  "clear_cookie = \<lparr>sc_name = SESSION_COOKIE, sc_value = [], sc_age = 0, sc_guarded = False\<rparr>"

definition get_email :: "signer \<Rightarrow> ring \<Rightarrow> int \<Rightarrow> jar \<Rightarrow> session_error + string option" where
  "get_email sg ks now j = open_signed sg ks now SESSION_PURPOSE (j SESSION_COOKIE) SESSION_TTL"

definition csrf_token :: "signer \<Rightarrow> ring \<Rightarrow> int \<Rightarrow> string \<Rightarrow> session_error + string" where
  "csrf_token sg ks now account_id =
     (if account_id = [] then Inl (SessionAssert ''csrf_token needs the signed-in account id'')
      else signed sg ks CSRF_PURPOSE account_id now)"

definition csrf_ok :: "signer \<Rightarrow> ring \<Rightarrow> int \<Rightarrow> string \<Rightarrow> string \<Rightarrow> session_error + bool" where
  "csrf_ok sg ks now token account_id =
     (if token = [] \<or> account_id = [] then Inr False
      else case open_signed sg ks now CSRF_PURPOSE (Some token) SESSION_TTL of
          Inl e \<Rightarrow> Inl e
        | Inr None \<Rightarrow> Inr False
        | Inr (Some v) \<Rightarrow> compare_digest v account_id)"

section \<open>Cookies that hold several pending values\<close>

record pending =
  pv_cookie :: string
  pv_purpose :: string
  pv_ttl :: int

fun live_entries :: "signer \<Rightarrow> ring \<Rightarrow> int \<Rightarrow> pending \<Rightarrow> string list \<Rightarrow> session_error + string list" where
  "live_entries sg ks now pv [] = Inr []"
| "live_entries sg ks now pv (c # cs) =
     (case (if c = [] then Inr None else open_signed sg ks now (pv_purpose pv) (Some c) (pv_ttl pv)) of
        Inl e \<Rightarrow> Inl e
      | Inr v \<Rightarrow>
         (case live_entries sg ks now pv cs of
            Inl e \<Rightarrow> Inl e | Inr es \<Rightarrow> Inr (if truthy v then c # es else es)))"

definition live :: "signer \<Rightarrow> ring \<Rightarrow> int \<Rightarrow> pending \<Rightarrow> jar option \<Rightarrow> session_error + string list" where
  "live sg ks now pv headers =
     (case headers of
        None \<Rightarrow> Inr []
      | Some j \<Rightarrow> live_entries sg ks now pv (split_on CHR ''|'' (str_or (j (pv_cookie pv)) '''')))"

definition render_pending :: "pending \<Rightarrow> string list \<Rightarrow> set_cookie" where
  "render_pending pv es =
     \<lparr>sc_name = pv_cookie pv, sc_value = join_with ''|'' (take MAX_PENDING es), sc_age = pv_ttl pv, sc_guarded = True\<rparr>"

definition sign_pending :: "signer \<Rightarrow> ring \<Rightarrow> int \<Rightarrow> pending \<Rightarrow> string \<Rightarrow> session_error + string" where
  "sign_pending sg ks now pv v =
     (if v = [] \<or> CHR ''|'' \<in> set v then Inl (SessionAssert (pv_purpose pv @ '' value is unusable in a cookie''))
      else signed sg ks (pv_purpose pv) v now)"

definition with_entry ::
  "signer \<Rightarrow> ring \<Rightarrow> int \<Rightarrow> pending \<Rightarrow> string \<Rightarrow> jar option \<Rightarrow> session_error + set_cookie" where
  "with_entry sg ks now pv entry headers =
     (if entry = [] then Inl (SessionAssert ''with_entry needs an entry'')
      else case live sg ks now pv headers of
          Inl e \<Rightarrow> Inl e
        | Inr es \<Rightarrow> Inr (render_pending pv (entry # filter (\<lambda>e. e \<noteq> entry) es)))"

definition without ::
  "signer \<Rightarrow> ring \<Rightarrow> int \<Rightarrow> pending \<Rightarrow> string \<Rightarrow> jar option \<Rightarrow> session_error + set_cookie" where
  "without sg ks now pv entry headers =
     (case live sg ks now pv headers of
        Inl e \<Rightarrow> Inl e
      | Inr es \<Rightarrow> Inr (render_pending pv (filter (\<lambda>e. e \<noteq> entry) es)))"

definition clear_pending :: "pending \<Rightarrow> set_cookie" where
  "clear_pending pv = \<lparr>sc_name = pv_cookie pv, sc_value = [], sc_age = 0, sc_guarded = False\<rparr>"

section \<open>The OAuth state\<close>

definition STATES :: pending where
  "STATES = \<lparr>pv_cookie = STATE_COOKIE, pv_purpose = STATE_PURPOSE, pv_ttl = STATE_TTL\<rparr>"

text \<open>\<open>token\<close> is the draw of \<open>secrets.token_urlsafe(24)\<close>.\<close>

definition new_state :: "signer \<Rightarrow> ring \<Rightarrow> int \<Rightarrow> string \<Rightarrow> session_error + string" where
  "new_state sg ks now token = sign_pending sg ks now STATES token"

definition state_cookie :: "signer \<Rightarrow> ring \<Rightarrow> int \<Rightarrow> string \<Rightarrow> jar option \<Rightarrow> session_error + set_cookie" where
  "state_cookie sg ks now state headers = with_entry sg ks now STATES state headers"

definition state_cookie_without ::
  "signer \<Rightarrow> ring \<Rightarrow> int \<Rightarrow> string \<Rightarrow> jar option \<Rightarrow> session_error + set_cookie" where
  "state_cookie_without sg ks now state headers = without sg ks now STATES state headers"

text \<open>\<open>any\<close> stops at the first entry that matches.\<close>

fun any_same :: "string \<Rightarrow> string list \<Rightarrow> session_error + bool" where
  "any_same x [] = Inr False"
| "any_same x (y # ys) =
     (case compare_digest x y of Inl e \<Rightarrow> Inl e | Inr True \<Rightarrow> Inr True | Inr False \<Rightarrow> any_same x ys)"

definition state_is_ours :: "signer \<Rightarrow> ring \<Rightarrow> int \<Rightarrow> string \<Rightarrow> jar option \<Rightarrow> session_error + bool" where
  "state_is_ours sg ks now state headers =
     (if state = [] then Inr False
      else case open_signed sg ks now STATE_PURPOSE (Some state) STATE_TTL of
          Inl e \<Rightarrow> Inl e
        | Inr v \<Rightarrow>
           (if \<not> truthy v then Inr False
            else case live sg ks now STATES headers of Inl e \<Rightarrow> Inl e | Inr es \<Rightarrow> any_same state es))"

section \<open>The checkout\<close>

definition CHECKOUTS :: pending where
  "CHECKOUTS = \<lparr>pv_cookie = CHECKOUT_COOKIE, pv_purpose = CHECKOUT_PURPOSE, pv_ttl = CHECKOUT_TTL\<rparr>"

definition checkout_cookie :: "signer \<Rightarrow> ring \<Rightarrow> int \<Rightarrow> string \<Rightarrow> jar option \<Rightarrow> session_error + set_cookie" where
  "checkout_cookie sg ks now cid headers =
     (case sign_pending sg ks now CHECKOUTS cid of
        Inl e \<Rightarrow> Inl e | Inr entry \<Rightarrow> with_entry sg ks now CHECKOUTS entry headers)"

text \<open>Whether one of the entries holds the id: each is opened and compared in turn.\<close>

fun holds_checkout :: "signer \<Rightarrow> ring \<Rightarrow> int \<Rightarrow> string \<Rightarrow> string list \<Rightarrow> session_error + bool" where
  "holds_checkout sg ks now cid [] = Inr False"
| "holds_checkout sg ks now cid (c # cs) =
     (case open_signed sg ks now CHECKOUT_PURPOSE (Some c) CHECKOUT_TTL of
        Inl e \<Rightarrow> Inl e
      | Inr v \<Rightarrow>
         (case compare_digest (str_or v '''') cid of
            Inl e \<Rightarrow> Inl e | Inr True \<Rightarrow> Inr True | Inr False \<Rightarrow> holds_checkout sg ks now cid cs))"

definition checkout_is_ours :: "signer \<Rightarrow> ring \<Rightarrow> int \<Rightarrow> string \<Rightarrow> jar option \<Rightarrow> session_error + bool" where
  "checkout_is_ours sg ks now cid headers =
     (if cid = [] then Inr False
      else case live sg ks now CHECKOUTS headers of Inl e \<Rightarrow> Inl e | Inr es \<Rightarrow> holds_checkout sg ks now cid es)"

fun entry_of :: "signer \<Rightarrow> ring \<Rightarrow> int \<Rightarrow> string \<Rightarrow> string list \<Rightarrow> session_error + string option" where
  "entry_of sg ks now cid [] = Inr None"
| "entry_of sg ks now cid (c # cs) =
     (case open_signed sg ks now CHECKOUT_PURPOSE (Some c) CHECKOUT_TTL of
        Inl e \<Rightarrow> Inl e
      | Inr v \<Rightarrow> if v = Some cid then Inr (Some c) else entry_of sg ks now cid cs)"

definition checkout_cookie_without ::
  "signer \<Rightarrow> ring \<Rightarrow> int \<Rightarrow> string \<Rightarrow> jar option \<Rightarrow> session_error + set_cookie option" where
  "checkout_cookie_without sg ks now cid headers =
     (case live sg ks now CHECKOUTS headers of
        Inl e \<Rightarrow> Inl e
      | Inr es \<Rightarrow>
         (case entry_of sg ks now cid es of
            Inl e \<Rightarrow> Inl e
          | Inr None \<Rightarrow> Inr None
          | Inr (Some c) \<Rightarrow>
             (case without sg ks now CHECKOUTS c headers of Inl e \<Rightarrow> Inl e | Inr sc \<Rightarrow> Inr (Some sc))))"


section \<open>What the digests are\<close>

text \<open>Documented behaviour of \<open>hexdigest\<close>: lower-case hexadecimal, 64 digits of it for SHA-256.\<close>

definition hex_signer :: "signer \<Rightarrow> bool" where
  "hex_signer sg \<longleftrightarrow>
     (\<forall>k m c. c \<in> set (sg_mac sg k m) \<longrightarrow> is_hex c)
     \<and> (\<forall>k. length (sg_sha sg k) = 64 \<and> (\<forall>c \<in> set (sg_sha sg k). is_hex c))"

lemma hex_char:
  "is_hex c \<Longrightarrow> c \<noteq> CHR '':'' \<and> c \<noteq> CHR ''|'' \<and> (of_char c :: nat) < 128"
  by (auto simp: is_hex_def is_digit_def Let_def)

lemma hex_label:
  assumes "hex_signer sg"
  shows "\<forall>c \<in> set (take 8 (sg_sha sg key)). is_hex c" and "take 8 (sg_sha sg key) \<noteq> []"
proof -
  have "length (sg_sha sg key) = 64" and h: "\<forall>c \<in> set (sg_sha sg key). is_hex c"
    using assms by (simp_all add: hex_signer_def)
  then show "take 8 (sg_sha sg key) \<noteq> []" by auto
  show "\<forall>c \<in> set (take 8 (sg_sha sg key)). is_hex c"
    using h by (blast dest: in_set_takeD)
qed

lemma kid_of_key:
  assumes "hex_signer sg" and "key \<noteq> []"
  shows "kid_of sg key = Inr (take 8 (sg_sha sg key))"
proof -
  have d: "dropWhile (\<lambda>c. c \<noteq> CHR '':'') (fingerprint sg key) = CHR '':'' # take 8 (sg_sha sg key)"
    using assms(2) by (simp add: fingerprint_def)
  have "CHR '':'' \<notin> set (take 8 (sg_sha sg key))"
    using hex_label(1) [OF assms(1)] hex_char by blast
  moreover have "sg_sha sg key \<noteq> []" using hex_label(2) [OF assms(1), of key] by auto
  ultimately show ?thesis by (simp add: kid_of_def d Let_def)
qed

text \<open>What \<open>_keyring\<close> answers: labels that are hexadecimal and pairwise different, keys that are not empty.\<close>

definition ring_ok :: "signer \<Rightarrow> ring \<Rightarrow> bool" where
  "ring_ok sg ks \<longleftrightarrow>
     ks \<noteq> [] \<and> distinct (map fst ks) \<and> (\<forall>(kid, key) \<in> set ks. key \<noteq> [] \<and> kid = take 8 (sg_sha sg key))"

lemma label_all_Inr:
  assumes "hex_signer sg" and "label_all sg keys = Inr ks" and "[] \<notin> set keys"
  shows "ks = map (\<lambda>key. (take 8 (sg_sha sg key), key)) keys"
  using assms(2,3)
  by (induction keys arbitrary: ks) (auto simp: kid_of_key [OF assms(1)] split: sum.splits)

lemma utf8_empty [simp]: "utf8 t = [] \<longleftrightarrow> t = []"
  by (cases t) (auto simp: Let_def)

lemma signing_keys_Inr:
  assumes "hex_signer sg" and "signing_keys sg e = Inr ks"
  shows "ring_ok sg ks"
    and "map snd ks = utf8 (env_get e SESSION_SECRET)
      # (if env_get e SESSION_SECRET_PREVIOUS = [] \<or> utf8 (env_get e SESSION_SECRET_PREVIOUS) = utf8 (env_get e SESSION_SECRET)
         then [] else [utf8 (env_get e SESSION_SECRET_PREVIOUS)])"
proof -
  let ?keys = "utf8 (env_get e SESSION_SECRET)
      # (if env_get e SESSION_SECRET_PREVIOUS = [] \<or> utf8 (env_get e SESSION_SECRET_PREVIOUS) = utf8 (env_get e SESSION_SECRET)
         then [] else [utf8 (env_get e SESSION_SECRET_PREVIOUS)])"
  from assms(2) have all: "label_all sg ?keys = Inr ks" and d: "distinct (map fst ks)" and "env_get e SESSION_SECRET \<noteq> []"
    by (auto simp: signing_keys_def Let_def split: if_splits sum.splits)
  from this(3) have "[] \<notin> set ?keys" by (auto simp: eq_commute [of "[]"])
  from label_all_Inr [OF assms(1) all this] have ks: "ks = map (\<lambda>key. (take 8 (sg_sha sg key), key)) ?keys" .
  then show "map snd ks = ?keys" by (simp add: comp_def)
  show "ring_ok sg ks"
    using ks d \<open>[] \<notin> set ?keys\<close> unfolding ring_ok_def by auto
qed

section \<open>Opening what was signed\<close>

lemma parse_payload:
  assumes "CHR '':'' \<notin> set kid" and "CHR '':'' \<notin> set sig"
  shows "parse_signed (payload kid v iat @ '':'' @ sig) = Some (kid, v, iat, sig)"
proof -
  have i: "CHR '':'' \<notin> set (str_int iat)" by (auto dest: str_int_chars simp: is_digit_def)
  have parts: "split_on CHR '':'' (payload kid v iat @ CHR '':'' # sig) = kid # split_on CHR '':'' v @ [str_int iat, sig]"
    using assms i by (simp add: payload_def split_on_append split_on_append_all split_on_no_sep)
  have "length (split_on CHR '':'' v) \<noteq> 0" by simp
  then show ?thesis
    by (simp add: parse_signed_def parts Let_def nth_append py_int_str_int)
qed

lemma parse_signed_kid: "parse_signed raw = Some (kid, v, iat, sig) \<Longrightarrow> CHR '':'' \<notin> set kid \<and> CHR '':'' \<notin> set sig"
proof -
  assume "parse_signed raw = Some (kid, v, iat, sig)"
  then have "kid = hd (split_on CHR '':'' raw)" "sig = last (split_on CHR '':'' raw)"
    by (auto simp: parse_signed_def Let_def split: if_splits option.splits)
  then show ?thesis by (metis hd_in_set last_in_set split_on_nonempty split_on_parts)
qed

lemma ascii_hex: "\<forall>c \<in> set s. is_hex c \<Longrightarrow> ascii s"
  by (auto simp: ascii_def dest: hex_char)

lemma find_key_ascii:
  assumes "\<forall>(known, key) \<in> set ks. ascii known" and "ascii kid"
  shows "find_key found ks kid = Inr (case map_of (rev ks) kid of None \<Rightarrow> found | Some key \<Rightarrow> Some key)"
  using assms
  by (induction found ks kid rule: find_key.induct)
    (auto simp: compare_digest_def map_add_def split: option.splits)

lemma map_of_rev_distinct: "distinct (map fst xs) \<Longrightarrow> map_of (rev xs) = map_of xs"
proof (induction xs)
  case (Cons x xs)
  then have "map_of xs (fst x) = None" by (simp add: map_of_eq_None_iff)
  with Cons show ?case by (cases x) (auto simp: map_add_def fun_eq_iff split: option.splits)
qed simp

lemma ring_ok_kid:
  assumes "ring_ok sg ks" and "hex_signer sg" and "(kid, key) \<in> set ks"
  shows "ascii kid" and "CHR '':'' \<notin> set kid" and "CHR ''|'' \<notin> set kid" and "key \<noteq> []" and "kid \<noteq> []"
proof -
  from assms(1,3) have k: "kid = take 8 (sg_sha sg key)" and "key \<noteq> []" by (auto simp: ring_ok_def)
  with hex_label [OF assms(2), of key] show "ascii kid" "CHR '':'' \<notin> set kid" "CHR ''|'' \<notin> set kid" "key \<noteq> []" "kid \<noteq> []"
    using hex_char ascii_hex by (metis, blast, blast, blast, metis)
qed

lemma key_for_ring:
  assumes "ring_ok sg ks" and "hex_signer sg" and "ascii kid"
  shows "key_for ks kid = Inr (map_of ks kid)"
proof -
  have "\<forall>(known, key) \<in> set ks. ascii known" using ring_ok_kid(1) [OF assms(1,2)] by blast
  moreover have "distinct (map fst ks)" using assms(1) by (simp add: ring_ok_def)
  then have "map_of (rev ks) = map_of ks" by (rule map_of_rev_distinct)
  ultimately show ?thesis
    using find_key_ascii [OF _ assms(3), of ks None] by (simp add: key_for_def option.case_eq_if)
qed


lemma key_for_not_ascii: "ks \<noteq> [] \<Longrightarrow> \<not> ascii kid \<Longrightarrow> key_for ks kid = Inl NonAscii"
  by (cases ks) (auto simp: key_for_def compare_digest_def)

lemma mac_Inr [simp]: "mac sg key purpose body = Inr sig \<longleftrightarrow> key \<noteq> [] \<and> sig = sg_mac sg key (utf8 (purpose @ '':'' @ body))"
  by (auto simp: mac_def)

lemma sig_chars:
  assumes "hex_signer sg"
  shows "ascii (sg_mac sg key m)" and "CHR '':'' \<notin> set (sg_mac sg key m)" and "CHR ''|'' \<notin> set (sg_mac sg key m)"
  using assms hex_char unfolding hex_signer_def ascii_def by blast+

lemma opens_iff:
  assumes "ring_ok sg ks" and "hex_signer sg"
  shows "open_signed sg ks now purpose (Some raw) ttl = Inr (Some v) \<longleftrightarrow>
    (\<exists>kid iat sig key. parse_signed raw = Some (kid, v, iat, sig) \<and> now - iat \<le> ttl \<and> (kid, key) \<in> set ks
       \<and> mac sg key purpose (payload kid v iat) = Inr sig)"
proof (cases "parse_signed raw")
  case None
  moreover have "str_or (Some raw) '''' = raw" by (simp add: str_or_def)
  ultimately show ?thesis by (simp add: open_signed_def)
next
  case (Some q)
  obtain kid w iat sig where q: "q = (kid, w, iat, sig)" by (cases q) auto
  have raw: "str_or (Some raw) '''' = raw" by (simp add: str_or_def)
  have d: "distinct (map fst ks)" and ne: "ks \<noteq> []" using assms(1) by (simp_all add: ring_ok_def)
  have keys: "key \<noteq> []" if "(k, key) \<in> set ks" for k key using ring_ok_kid(4) [OF assms that] .
  have first: "snd (hd ks) \<noteq> []" using ne keys [of "fst (hd ks)" "snd (hd ks)"] by simp
  show ?thesis
  proof (cases "ascii kid")
    case False
    then have "(kid, key) \<notin> set ks" for key using ring_ok_kid(1) [OF assms] by blast
    with False show ?thesis
      by (simp add: open_signed_def raw Some q key_for_not_ascii [OF ne])
  next
    case True
    have k: "key_for ks kid = Inr (map_of ks kid)" by (rule key_for_ring [OF assms True])
    show ?thesis
    proof (cases "map_of ks kid")
      case None
      then have "(kid, key) \<notin> set ks" for key by (metis map_of_eq_None_iff fst_conv image_eqI)
      with None k show ?thesis
        by (auto simp: open_signed_def raw Some q split: sum.splits)
    next
      case (Some key)
      then have m: "(kid, key') \<in> set ks \<longleftrightarrow> key' = key" for key'
        using d map_of_eq_Some_iff by fastforce
      then have "key \<noteq> []" using keys by blast
      with k Some m sig_chars(1) [OF assms(2)] show ?thesis
        by (auto simp: open_signed_def raw \<open>parse_signed raw = Some q\<close> q mac_def compare_digest_def the_default_def split: if_splits)
    qed
  qed
qed

lemma signed_opens:
  assumes "ring_ok sg ks" and "hex_signer sg" and "signed sg ks purpose v iat = Inr tok"
    and "ring_ok sg ks'" and "hd ks \<in> set ks'"
  shows "open_signed sg ks' now purpose (Some tok) ttl = Inr (if now - iat \<le> ttl then Some v else None)"
proof -
  from assms(3) obtain kid key rest where ks: "ks = (kid, key) # rest" and
    tok: "tok = payload kid v iat @ '':'' @ sg_mac sg key (utf8 (purpose @ '':'' @ payload kid v iat))"
    by (auto simp: signed_def mac_def split: list.splits if_splits)
  have live: "(kid, key) \<in> set ks'" using assms(5) ks by simp
  note kid = ring_ok_kid [OF assms(4,2) live]
  have p: "parse_signed tok = Some (kid, v, iat, sg_mac sg key (utf8 (purpose @ '':'' @ payload kid v iat)))"
    unfolding tok by (rule parse_payload [OF kid(2) sig_chars(2) [OF assms(2)]])
  show ?thesis
  proof (cases "now - iat \<le> ttl")
    case True
    with p live kid(4) have "open_signed sg ks' now purpose (Some tok) ttl = Inr (Some v)"
      unfolding opens_iff [OF assms(4,2)] by auto
    with True show ?thesis by simp
  next
    case False
    then show ?thesis by (simp add: open_signed_def str_or_def p)
  qed
qed

text \<open>
  What opens is exactly what was signed: a string opens to a value for a purpose when it parses
  into a label of a live key, the value, a time no older than the lifetime and the MAC of precisely
  these under that key and for that purpose. Nothing else opens.
\<close>

theorem opens_only_what_a_live_key_signed:
  assumes "hex_signer sg" and "signing_keys sg e = Inr ks"
  shows "open_signed sg ks now purpose (Some raw) ttl = Inr (Some v) \<longleftrightarrow>
    (\<exists>kid iat sig key. parse_signed raw = Some (kid, v, iat, sig) \<and> now - iat \<le> ttl \<and> (kid, key) \<in> set ks
       \<and> mac sg key purpose (payload kid v iat) = Inr sig)"
  by (rule opens_iff [OF signing_keys_Inr(1) [OF assms] assms(1)])

text \<open>
  C30: a rotation of the signing secret signs nobody out: a session cookie minted by one process is
  read by a process whose current or previous secret is the one that signed it, as that address,
  for thirty days and not longer.
\<close>

theorem session_survives_rotation:
  assumes "hex_signer sg" and "signing_keys sg e = Inr ks" and "signing_keys sg e' = Inr ks'"
    and "env_get e SESSION_SECRET = env_get e' SESSION_SECRET \<or> env_get e SESSION_SECRET = env_get e' SESSION_SECRET_PREVIOUS"
    and "make_cookie sg ks now email = Inr c"
  shows "get_email sg ks' later (browse j c) = Inr (if later - now \<le> SESSION_TTL then Some email else None)"
proof -
  note ks = signing_keys_Inr [OF assms(1,2)] and ks' = signing_keys_Inr [OF assms(1,3)]
  let ?key = "utf8 (env_get e SESSION_SECRET)"
  have "map snd ks \<noteq> [] \<and> hd (map snd ks) = ?key" using ks(2) by simp
  then have "ks \<noteq> []" and h: "snd (hd ks) = ?key" by (auto simp: hd_map)
  then have fst: "hd ks = (take 8 (sg_sha sg ?key), ?key)" using ks(1) by (cases ks) (auto simp: ring_ok_def)
  have "?key \<noteq> []" using ring_ok_kid(4) [OF ks(1) assms(1), of "take 8 (sg_sha sg ?key)" ?key] fst \<open>ks \<noteq> []\<close>
    by (metis list.set_sel(1))
  with assms(4) ks'(2) have "?key \<in> set (map snd ks')" by auto
  then have "hd ks \<in> set ks'" using ks'(1) fst by (auto simp: ring_ok_def)
  moreover obtain tok where "signed sg ks SESSION_PURPOSE email now = Inr tok"
    "c = \<lparr>sc_name = SESSION_COOKIE, sc_value = tok, sc_age = SESSION_TTL, sc_guarded = True\<rparr>"
    using assms(5) by (auto simp: make_cookie_def split: sum.splits)
  ultimately show ?thesis
    using signed_opens [OF ks(1) assms(1) _ ks'(1)] by (simp add: get_email_def browse_def SESSION_TTL_def)
qed

section \<open>One key, four purposes\<close>

text \<open>
  No signed message can be read as another: the text under a MAC determines the purpose, the
  label, the value and the time, whatever colons the value holds. So a MAC made for one kind of
  token is over a message no other kind, no other account and no other time has.
\<close>

theorem signed_message_is_unambiguous:
  assumes "utf8 (p @ '':'' @ payload kid v iat) = utf8 (p' @ '':'' @ payload kid' v' iat')"
    and "{p, p'} \<subseteq> {SESSION_PURPOSE, STATE_PURPOSE, CSRF_PURPOSE, CHECKOUT_PURPOSE}"
    and "CHR '':'' \<notin> set kid" and "CHR '':'' \<notin> set kid'"
  shows "p = p' \<and> kid = kid' \<and> v = v' \<and> iat = iat'"
proof -
  have i: "CHR '':'' \<notin> set (str_int n)" for n by (auto dest: str_int_chars simp: is_digit_def)
  have c: "CHR '':'' \<notin> set p" "CHR '':'' \<notin> set p'"
    using assms(2) by (auto simp: SESSION_PURPOSE_def STATE_PURPOSE_def CSRF_PURPOSE_def CHECKOUT_PURPOSE_def)
  have parts: "split_on CHR '':'' (q @ CHR '':'' # payload k w n) = q # k # split_on CHR '':'' w @ [str_int n]"
    if "CHR '':'' \<notin> set q" "CHR '':'' \<notin> set k" for q k w n
    using that i by (simp add: payload_def split_on_append split_on_append_all split_on_no_sep)
  from assms(1) have "p @ '':'' @ payload kid v iat = p' @ '':'' @ payload kid' v' iat'"
    by (metis option.inject text_codec.round_trip)
  then have "p # kid # split_on CHR '':'' v @ [str_int iat] = p' # kid' # split_on CHR '':'' v' @ [str_int iat']"
    using parts c assms(3,4) by (metis append_Cons append_Nil)
  then have "p = p'" "kid = kid'" "split_on CHR '':'' v = split_on CHR '':'' v'" "str_int iat = str_int iat'" by auto
  then show ?thesis by (metis join_split_on option.inject py_int_str_int)
qed


section \<open>The anti-CSRF token\<close>

text \<open>
  A form token is good for one account: minted for account \<open>a\<close> it is accepted for \<open>a\<close>, by any
  process that still holds the key, for thirty days, and for no other account.
\<close>

theorem csrf_token_is_for_its_account:
  assumes "hex_signer sg" and "signing_keys sg e = Inr ks" and "signing_keys sg e' = Inr ks'" and "hd ks \<in> set ks'"
    and "csrf_token sg ks now a = Inr tok" and "ascii a" and "ascii b" and "b \<noteq> []"
  shows "csrf_ok sg ks' later tok b = Inr (a = b \<and> later - now \<le> SESSION_TTL)"
proof -
  from assms(5) have s: "signed sg ks CSRF_PURPOSE a now = Inr tok"
    by (simp add: csrf_token_def split: if_splits)
  then have "tok \<noteq> []" by (auto simp: signed_def payload_def split: list.splits sum.splits)
  then show ?thesis
    using signed_opens [OF signing_keys_Inr(1) [OF assms(1,2)] assms(1) s signing_keys_Inr(1) [OF assms(1,3)] assms(4)]
      assms(6-8)
    by (simp add: csrf_ok_def compare_digest_def)
qed

text \<open>
  A posted token that is not ASCII is not refused but raises: when the part that names the key
  holds a character beyond ASCII and the token has a time that is not too old, \<open>compare_digest\<close>
  raises \<open>TypeError\<close> and \<open>csrf_ok\<close> has no answer.
\<close>

theorem csrf_raises_beyond_ascii:
  assumes "hex_signer sg" and "signing_keys sg e = Inr ks" and "account_id \<noteq> []"
    and "parse_signed token = Some (kid, v, iat, sig)" and "now - iat \<le> SESSION_TTL" and "\<not> ascii kid"
  shows "csrf_ok sg ks now token account_id = Inl NonAscii"
proof -
  have "token \<noteq> []" using assms(4) by (auto simp: parse_signed_def Let_def)
  moreover have "ks \<noteq> []" using signing_keys_Inr(1) [OF assms(1,2)] by (simp add: ring_ok_def)
  ultimately show ?thesis
    using assms(3-6) key_for_not_ascii by (simp add: csrf_ok_def open_signed_def str_or_def)
qed

section \<open>Pending values\<close>

lemma split_join:
  "\<forall>x \<in> set xs. c \<notin> set x \<Longrightarrow> xs \<noteq> [] \<Longrightarrow> split_on c (join_with [c] xs) = xs"
proof (induction xs)
  case (Cons x xs)
  then show ?case
    by (cases "xs = []") (auto simp: join_with_Cons split_on_append split_on_no_sep)
qed simp

text \<open>An entry that is dropped is empty, not ours, too old, or was signed over an empty value.\<close>

definition opens :: "signer \<Rightarrow> ring \<Rightarrow> int \<Rightarrow> pending \<Rightarrow> string \<Rightarrow> bool" where
  "opens sg ks now pv c \<longleftrightarrow>
     c \<noteq> [] \<and> (\<exists>v. open_signed sg ks now (pv_purpose pv) (Some c) (pv_ttl pv) = Inr (Some v) \<and> v \<noteq> [])"

lemma live_entries_Inr:
  "live_entries sg ks now pv cs = Inr es \<Longrightarrow> es = filter (opens sg ks now pv) cs"
  by (induction cs arbitrary: es)
    (auto simp: opens_def truthy_def split: sum.splits if_splits option.splits)

lemma live_entries_opens:
  "\<forall>c \<in> set cs. opens sg ks now pv c \<Longrightarrow> live_entries sg ks now pv cs = Inr cs"
  by (induction cs) (auto simp: opens_def truthy_def split: sum.splits)

lemma live_Inr:
  assumes "live sg ks now pv (Some j) = Inr es"
  shows "\<forall>e \<in> set es. opens sg ks now pv e \<and> CHR ''|'' \<notin> set e"
  using live_entries_Inr assms split_on_parts unfolding live_def option.case by fastforce

text \<open>What a later request of that browser holds, after a \<open>Set-Cookie\<close> with these entries.\<close>

lemma live_rendered:
  assumes "\<forall>e \<in> set es. opens sg ks now pv e \<and> CHR ''|'' \<notin> set e" and "0 < pv_ttl pv"
  shows "live sg ks now pv (Some (browse j (render_pending pv es))) = Inr (take MAX_PENDING es)"
proof -
  let ?kept = "take MAX_PENDING es"
  have j: "browse j (render_pending pv es) (pv_cookie pv) = Some (join_with ''|'' ?kept)"
    using assms(2) by (simp add: browse_def render_pending_def)
  have kept: "\<forall>e \<in> set ?kept. opens sg ks now pv e \<and> CHR ''|'' \<notin> set e"
    using assms(1) by (blast dest: in_set_takeD)
  have l: "live sg ks now pv (Some (browse j (render_pending pv es)))
      = live_entries sg ks now pv (split_on CHR ''|'' (join_with ''|'' ?kept))"
    by (simp add: live_def j str_or_def)
  show ?thesis
  proof (cases "?kept = []")
    case True
    show ?thesis unfolding l True by (simp add: truthy_def)
  next
    case False
    with kept have "split_on CHR ''|'' (join_with ''|'' ?kept) = ?kept" by (intro split_join) auto
    with kept show ?thesis unfolding l by (simp add: live_entries_opens)
  qed
qed

lemma live_rendered_later:
  assumes "\<forall>e \<in> set es. CHR ''|'' \<notin> set e" and "0 < pv_ttl pv"
    and "live sg ks now pv (Some (browse j (render_pending pv es))) = Inr fs"
  shows "set fs \<subseteq> set es"
proof -
  let ?kept = "take MAX_PENDING es"
  have j: "browse j (render_pending pv es) (pv_cookie pv) = Some (join_with ''|'' ?kept)"
    using assms(2) by (simp add: browse_def render_pending_def)
  have s: "str_or (Some (join_with ''|'' ?kept)) '''' = join_with ''|'' ?kept" by (simp add: str_or_def)
  from assms(3) live_entries_Inr have fs: "fs = filter (opens sg ks now pv) (split_on CHR ''|'' (join_with ''|'' ?kept))"
    unfolding live_def option.case j s by blast
  show ?thesis
  proof (cases "?kept = []")
    case True
    with fs show ?thesis by (simp add: opens_def)
  next
    case False
    have "\<forall>e \<in> set ?kept. CHR ''|'' \<notin> set e" using assms(1) by (blast dest: in_set_takeD)
    with False have "split_on CHR ''|'' (join_with ''|'' ?kept) = ?kept" by (intro split_join) auto
    with fs show ?thesis by (auto dest: in_set_takeD)
  qed
qed

lemma ttls [simp]: "0 < pv_ttl STATES" "0 < pv_ttl CHECKOUTS" "pv_purpose STATES = STATE_PURPOSE" "pv_ttl STATES = STATE_TTL"
  "0 < STATE_TTL"
  by (simp_all add: STATES_def CHECKOUTS_def STATE_TTL_def CHECKOUT_TTL_def)

lemma any_same_ascii: "ascii x \<Longrightarrow> \<forall>y \<in> set ys. ascii y \<Longrightarrow> any_same x ys = Inr (x \<in> set ys)"
  by (induction ys) (auto simp: compare_digest_def split: bool.splits)

lemma any_same_True: "any_same x ys = Inr True \<Longrightarrow> x \<in> set ys"
  by (induction ys) (auto simp: compare_digest_def split: sum.splits bool.splits if_splits)

lemma sign_pending_opens:
  assumes "hex_signer sg" and "ring_ok sg ks" and "sign_pending sg ks now pv v = Inr tok" and "0 \<le> pv_ttl pv"
  shows "opens sg ks now pv tok \<and> CHR ''|'' \<notin> set tok"
proof -
  from assms(3) have v: "v \<noteq> []" "CHR ''|'' \<notin> set v" and s: "signed sg ks (pv_purpose pv) v now = Inr tok"
    by (auto simp: sign_pending_def split: if_splits)
  from s obtain kid key rest where k: "ks = (kid, key) # rest"
    "tok = payload kid v now @ '':'' @ sg_mac sg key (utf8 (pv_purpose pv @ '':'' @ payload kid v now))"
    by (auto simp: signed_def mac_def split: list.splits if_splits)
  have "CHR ''|'' \<notin> set (str_int now)" by (auto dest: str_int_chars simp: is_digit_def)
  with k v sig_chars(3) [OF assms(1)] ring_ok_kid(3) [OF assms(2,1), of kid key] have "CHR ''|'' \<notin> set tok"
    by (auto simp: payload_def)
  moreover have "hd ks \<in> set ks" using k by simp
  from signed_opens [OF assms(2,1) s assms(2) this] assms(4) v(1) k(2) have "opens sg ks now pv tok"
    by (auto simp: opens_def payload_def)
  ultimately show ?thesis by simp
qed

text \<open>
  Two sign-in tabs do not evict each other: after the cookie of a new state, the browser's live
  states are the new one and the first two of those it had, and each of them is accepted when its
  consent comes back.
\<close>

theorem second_tab_keeps_the_first:
  assumes "hex_signer sg" and "signing_keys sg e = Inr ks" and "live sg ks now STATES (Some j) = Inr old"
    and "new_state sg ks now token = Inr st" and "state_cookie sg ks now st (Some j) = Inr c"
    and "\<forall>s \<in> set (st # old). ascii s" and "s \<in> set (st # take 2 (filter (\<lambda>o'. o' \<noteq> st) old))"
  shows "live sg ks now STATES (Some (browse j c)) = Inr (st # take 2 (filter (\<lambda>o'. o' \<noteq> st) old))
    \<and> state_is_ours sg ks now s (Some (browse j c)) = Inr True"
proof -
  let ?es = "st # filter (\<lambda>o'. o' \<noteq> st) old"
  note ok = signing_keys_Inr(1) [OF assms(1,2)]
  have c: "c = render_pending STATES ?es"
    using assms(3,5) by (auto simp: state_cookie_def with_entry_def split: if_splits)
  have new: "opens sg ks now STATES st \<and> CHR ''|'' \<notin> set st"
    by (rule sign_pending_opens [OF assms(1) ok]) (use assms(4) in \<open>simp_all add: new_state_def STATE_TTL_def\<close>)
  with live_Inr [OF assms(3)] have "\<forall>e \<in> set ?es. opens sg ks now STATES e \<and> CHR ''|'' \<notin> set e" by auto
  from live_rendered [OF this ttls(1)] c
  have live: "live sg ks now STATES (Some (browse j c)) = Inr (st # take 2 (filter (\<lambda>o'. o' \<noteq> st) old))"
    by (simp add: MAX_PENDING_def)
  have "opens sg ks now STATES s"
    using assms(7) new live_Inr [OF assms(3)] by (auto dest: in_set_takeD)
  moreover have "ascii s" "\<forall>y \<in> set (st # take 2 (filter (\<lambda>o'. o' \<noteq> st) old)). ascii y"
    using assms(6,7) by (auto dest: in_set_takeD)
  from any_same_ascii [OF this] assms(7)
  have "any_same s (st # take 2 (filter (\<lambda>o'. o' \<noteq> st) old)) = Inr True" by (simp del: any_same.simps)
  ultimately have "state_is_ours sg ks now s (Some (browse j c)) = Inr True"
    using live by (auto simp: state_is_ours_def opens_def truthy_def)
  with live show ?thesis by simp
qed

text \<open>
  A consent is one-shot: after the cookie a callback sets, whatever its outcome, the state it
  named is not accepted from that browser again, by no later process and at no later time, while
  the other pending states stay.
\<close>

theorem consent_state_is_one_shot:
  assumes "live sg ks now STATES (Some j) = Inr old" and "state_cookie_without sg ks now st (Some j) = Inr c"
  shows "(\<forall>sg' ks' later. state_is_ours sg' ks' later st (Some (browse j c)) \<noteq> Inr True)
    \<and> live sg ks now STATES (Some (browse j c)) = Inr (take MAX_PENDING (filter (\<lambda>s. s \<noteq> st) old))"
proof -
  let ?es = "filter (\<lambda>s. s \<noteq> st) old"
  have c: "c = render_pending STATES ?es"
    using assms by (auto simp: state_cookie_without_def without_def)
  have es: "\<forall>e \<in> set ?es. opens sg ks now STATES e \<and> CHR ''|'' \<notin> set e" using live_Inr [OF assms(1)] by simp
  have "state_is_ours sg' ks' later st (Some (browse j c)) \<noteq> Inr True" for sg' ks' later
  proof
    assume "state_is_ours sg' ks' later st (Some (browse j c)) = Inr True"
    then obtain fs where "live sg' ks' later STATES (Some (browse j c)) = Inr fs" "any_same st fs = Inr True"
      by (auto simp: state_is_ours_def split: if_splits sum.splits)
    with live_rendered_later [of ?es STATES sg' ks' later j fs] es c any_same_True show False by auto
  qed
  with live_rendered [OF es ttls(1)] c show ?thesis by simp
qed


section \<open>A rotation, two tabs\<close>

definition demo_signer :: signer where
  "demo_signer = \<lparr>sg_mac = (\<lambda>k m. ''c0ffee''),
     sg_sha = (\<lambda>k. replicate 64 (if k = utf8 ''new'' then CHR ''b'' else CHR ''a''))\<rparr>"

definition before_env :: env where "before_env = [SESSION_SECRET \<mapsto> ''old'']"
definition after_env :: env where "after_env = [SESSION_SECRET \<mapsto> ''new'', SESSION_SECRET_PREVIOUS \<mapsto> ''old'']"
definition before_ring :: ring where "before_ring = [(''aaaaaaaa'', utf8 ''old'')]"
definition after_ring :: ring where "after_ring = [(''bbbbbbbb'', utf8 ''new''), (''aaaaaaaa'', utf8 ''old'')]"

lemma demo_hex: "hex_signer demo_signer"
proof -
  have "\<forall>c \<in> set ''c0ffee''. is_hex c" and "is_hex CHR ''a''" and "is_hex CHR ''b''" by code_simp+
  then show ?thesis by (auto simp: hex_signer_def demo_signer_def)
qed

lemma demo_old_new: "utf8 ''old'' \<noteq> utf8 ''new''"
proof
  assume "utf8 ''old'' = utf8 ''new''"
  then have "Some ''old'' = Some ''new''" by (metis text_codec.round_trip)
  then show False by simp
qed

lemma demo_kids:
  "kid_of demo_signer (utf8 ''old'') = Inr ''aaaaaaaa''" "kid_of demo_signer (utf8 ''new'') = Inr ''bbbbbbbb''"
proof -
  have "take 8 (replicate 64 CHR ''a'') = ''aaaaaaaa''" "take 8 (replicate 64 CHR ''b'') = ''bbbbbbbb''" by code_simp+
  with kid_of_key [OF demo_hex, of "utf8 ''old''"] kid_of_key [OF demo_hex, of "utf8 ''new''"] demo_old_new
  show "kid_of demo_signer (utf8 ''old'') = Inr ''aaaaaaaa''" "kid_of demo_signer (utf8 ''new'') = Inr ''bbbbbbbb''"
    by (simp_all add: demo_signer_def del: utf8.simps take_replicate)
qed

lemma demo_rings:
  "signing_keys demo_signer before_env = Inr before_ring" "signing_keys demo_signer after_env = Inr after_ring"
  using demo_old_new
  by (simp_all add: signing_keys_def before_env_def after_env_def env_get_def SESSION_SECRET_def SESSION_SECRET_PREVIOUS_def
      demo_kids before_ring_def after_ring_def Let_def del: utf8.simps)

definition demo_session :: string where
  "demo_session = payload ''aaaaaaaa'' ''a@b'' 100 @ '':'' @ ''c0ffee''"

lemma demo_mac: "sg_mac demo_signer k m = ''c0ffee''"
  by (simp add: demo_signer_def)

lemma demo_signed: "signed demo_signer before_ring p v t = Inr (payload ''aaaaaaaa'' v t @ '':'' @ ''c0ffee'')"
  by (simp add: signed_def before_ring_def mac_def demo_mac del: utf8.simps)

theorem session_survives_rotation_witness:
  "\<exists>c. make_cookie demo_signer before_ring 100 ''a@b'' = Inr c
     \<and> get_email demo_signer after_ring 2592100 (browse (\<lambda>_. None) c) = Inr (Some ''a@b'')
     \<and> get_email demo_signer after_ring 2592101 (browse (\<lambda>_. None) c) = Inr None"
proof -
  obtain c where c: "make_cookie demo_signer before_ring 100 ''a@b'' = Inr c"
    by (simp add: make_cookie_def demo_signed)
  have e: "env_get before_env SESSION_SECRET = env_get after_env SESSION_SECRET_PREVIOUS"
    by (simp add: env_get_def before_env_def after_env_def SESSION_SECRET_def SESSION_SECRET_PREVIOUS_def)
  note survives = session_survives_rotation [OF demo_hex demo_rings disjI2 [OF e] c, of _ "\<lambda>_. None"]
  show ?thesis using c survives [of 2592100] survives [of 2592101] by (simp add: SESSION_TTL_def)
qed

theorem opens_only_what_a_live_key_signed_witness:
  "open_signed demo_signer after_ring 200 SESSION_PURPOSE (Some demo_session) SESSION_TTL = Inr (Some ''a@b'')"
proof -
  have "parse_signed demo_session = Some (''aaaaaaaa'', ''a@b'', 100, ''c0ffee'')"
    unfolding demo_session_def by (rule parse_payload) simp_all
  moreover have "(''aaaaaaaa'', utf8 ''old'') \<in> set after_ring" by (simp add: after_ring_def)
  moreover have "mac demo_signer (utf8 ''old'') SESSION_PURPOSE (payload ''aaaaaaaa'' ''a@b'' 100) = Inr ''c0ffee''"
    by (simp add: demo_mac del: utf8.simps)
  ultimately show ?thesis
    unfolding opens_only_what_a_live_key_signed [OF demo_hex demo_rings(2)]
    by (intro exI conjI) (assumption | simp add: SESSION_TTL_def)+
qed

theorem signed_message_is_unambiguous_witness:
  "utf8 (SESSION_PURPOSE @ '':'' @ payload ''k'' ''a:1'' 2) \<noteq> utf8 (CSRF_PURPOSE @ '':'' @ payload ''k'' ''a'' 12)"
proof
  assume "utf8 (SESSION_PURPOSE @ '':'' @ payload ''k'' ''a:1'' 2) = utf8 (CSRF_PURPOSE @ '':'' @ payload ''k'' ''a'' 12)"
  from signed_message_is_unambiguous [OF this] show False by simp
qed

theorem csrf_token_is_for_its_account_witness:
  "\<exists>tok. csrf_token demo_signer before_ring 100 ''a@b'' = Inr tok
     \<and> csrf_ok demo_signer before_ring 200 tok ''a@b'' = Inr True \<and> csrf_ok demo_signer before_ring 200 tok ''c@d'' = Inr False"
proof -
  obtain tok where tok: "csrf_token demo_signer before_ring 100 ''a@b'' = Inr tok"
    by (simp add: csrf_token_def demo_signed)
  have a: "ascii ''a@b''" "ascii ''c@d''" by code_simp+
  have "hd before_ring \<in> set before_ring" by (simp add: before_ring_def)
  note own = csrf_token_is_for_its_account [OF demo_hex demo_rings(1) demo_rings(1) this tok a(1)]
  show ?thesis using tok own [OF a(1), of 200] own [OF a(2), of 200] by (simp add: SESSION_TTL_def)
qed

theorem csrf_raises_beyond_ascii_witness:
  "csrf_ok demo_signer before_ring 100 (payload [CHR 0xE9] ''a@b'' 100 @ '':'' @ ''00'') ''a@b'' = Inl NonAscii"
proof -
  have p: "parse_signed (payload [CHR 0xE9] ''a@b'' 100 @ '':'' @ ''00'') = Some ([CHR 0xE9], ''a@b'', 100, ''00'')"
    by (rule parse_payload) simp_all
  have "\<not> ascii [CHR 0xE9]" by code_simp
  from csrf_raises_beyond_ascii [OF demo_hex demo_rings(1) _ p _ this] show ?thesis by (simp add: SESSION_TTL_def)
qed

definition demo_state :: string where "demo_state = payload ''aaaaaaaa'' ''t1'' 100 @ '':'' @ ''c0ffee''"

definition demo_jar :: jar where "demo_jar = [STATE_COOKIE \<mapsto> demo_state]"

lemma demo_state_live: "live demo_signer before_ring 100 STATES (Some demo_jar) = Inr [demo_state]"
proof -
  have s: "sign_pending demo_signer before_ring 100 STATES ''t1'' = Inr demo_state"
    by (simp add: sign_pending_def demo_signed demo_state_def)
  have "opens demo_signer before_ring 100 STATES demo_state \<and> CHR ''|'' \<notin> set demo_state"
    by (rule sign_pending_opens [OF demo_hex signing_keys_Inr(1) [OF demo_hex demo_rings(1)] s])
      (simp add: STATE_TTL_def)
  moreover from this have "split_on CHR ''|'' demo_state = [demo_state]" "demo_state \<noteq> []"
    by (simp_all add: split_on_no_sep opens_def)
  moreover have "demo_jar (pv_cookie STATES) = Some demo_state" by (simp add: demo_jar_def STATES_def)
  ultimately show ?thesis by (simp add: live_def str_or_def live_entries_opens del: live_entries.simps)
qed

theorem consent_state_is_one_shot_witness:
  "\<exists>c. state_cookie_without demo_signer before_ring 100 demo_state (Some demo_jar) = Inr c
     \<and> state_is_ours demo_signer before_ring 101 demo_state (Some (browse demo_jar c)) \<noteq> Inr True"
proof -
  obtain c where c: "state_cookie_without demo_signer before_ring 100 demo_state (Some demo_jar) = Inr c"
    by (simp add: state_cookie_without_def without_def demo_state_live)
  from consent_state_is_one_shot [OF demo_state_live c] c show ?thesis by blast
qed

theorem second_tab_keeps_the_first_witness:
  "\<exists>st c. new_state demo_signer before_ring 100 ''t2'' = Inr st
     \<and> state_cookie demo_signer before_ring 100 st (Some demo_jar) = Inr c
     \<and> state_is_ours demo_signer before_ring 100 demo_state (Some (browse demo_jar c)) = Inr True"
proof -
  let ?st = "payload ''aaaaaaaa'' ''t2'' 100 @ '':'' @ ''c0ffee''"
  have st: "new_state demo_signer before_ring 100 ''t2'' = Inr ?st"
    by (simp add: new_state_def sign_pending_def demo_signed)
  obtain c where c: "state_cookie demo_signer before_ring 100 ?st (Some demo_jar) = Inr c"
    by (simp add: state_cookie_def with_entry_def demo_state_live payload_def)
  have ne: "demo_state \<noteq> ?st" by (simp add: demo_state_def payload_def)
  have "ascii ?st" "ascii demo_state" by code_simp+
  then have a: "\<forall>s \<in> set [?st, demo_state]. ascii s" by simp
  have "demo_state \<in> set (?st # take 2 (filter (\<lambda>o'. o' \<noteq> ?st) [demo_state]))" using ne by simp
  from second_tab_keeps_the_first [OF demo_hex demo_rings(1) demo_state_live st c a this] st c show ?thesis by blast
qed

end
