(* ===== verification/JsonText.thy ===== *)
theory JsonText
  imports Json "HOL-Library.AList"
begin

text \<open>
  The text of a JSON document, as \<open>json.dumps\<close> writes it and \<open>json.loads\<close> reads it, for the
  places whose correctness is about that text: what a tool is asked and answers, the identity
  token of a sign-in, and the canonical form the compose log is hashed in. \<open>dumps\<close> escapes everything outside printable
  ASCII, so its output never holds a newline; \<open>loads\<close> takes the grammar of the library: white
  space between tokens, the escapes, numbers with a fraction and an exponent (as exact
  rationals), and the last of two equal keys. A number that is no integer is written by the
  format's \<open>js_float\<close>. Out of scope are escapes above \<open>00ff\<close> and \<open>NaN\<close> and its like, which
  \<open>loads\<close> refuses here.
\<close>

record json_format =
  js_item :: string
  js_key :: string
  js_sort :: bool
  js_float :: "rat \<Rightarrow> string"

section \<open>Writing\<close>

definition js_escape :: "char \<Rightarrow> string" where
  "js_escape c =
     (let n = (of_char c :: nat)
      in if n = 34 then [CHR 0x5C, CHR 0x22]
         else if n = 92 then [CHR 0x5C, CHR 0x5C]
         else if n = 10 then [CHR 0x5C, CHR ''n'']
         else if n = 13 then [CHR 0x5C, CHR ''r'']
         else if n = 9 then [CHR 0x5C, CHR ''t'']
         else if n = 12 then [CHR 0x5C, CHR ''f'']
         else if n = 8 then [CHR 0x5C, CHR ''b'']
         else if 32 \<le> n \<and> n \<le> 126 then [c]
         else [CHR 0x5C, CHR ''u'', CHR ''0'', CHR ''0'', hex_digit (n div 16), hex_digit (n mod 16)])"

definition js_string :: "string \<Rightarrow> string" where
  "js_string s = [CHR 0x22] @ concat (map js_escape s) @ [CHR 0x22]"

definition js_number :: "json_format \<Rightarrow> rat \<Rightarrow> string" where
  "js_number F r = (if r \<in> \<int> then str_int \<lfloor>r\<rfloor> else js_float F r)"

definition in_order :: "json_format \<Rightarrow> (string \<times> 'a) list \<Rightarrow> (string \<times> 'a) list" where
  "in_order F kvs = (if js_sort F then sort_key fst kvs else kvs)"

fun dumps :: "json_format \<Rightarrow> json \<Rightarrow> string" where
  "dumps F JNull = ''null''"
| "dumps F (JBool b) = (if b then ''true'' else ''false'')"
| "dumps F (JNum r) = js_number F r"
| "dumps F (JStr s) = js_string s"
| "dumps F (JList xs) = ''['' @ join_with (js_item F) (map (dumps F) xs) @ '']''"
| "dumps F (JObj kvs) =
     ''{'' @ join_with (js_item F) (map (\<lambda>(k, t). js_string k @ js_key F @ t)
        (in_order F (map (\<lambda>(k, v). (k, dumps F v)) kvs))) @ ''}''"

section \<open>Reading\<close>

definition js_space :: "char \<Rightarrow> bool" where
  "js_space c = (let n = (of_char c :: nat) in n = 32 \<or> n = 9 \<or> n = 10 \<or> n = 13)"

definition skip :: "string \<Rightarrow> string" where
  "skip s = dropWhile js_space s"

definition nibble :: "char \<Rightarrow> nat option" where
  "nibble c =
     (let n = (of_char c :: nat)
      in if 48 \<le> n \<and> n \<le> 57 then Some (n - 48)
         else if 97 \<le> n \<and> n \<le> 102 then Some (n - 87)
         else if 65 \<le> n \<and> n \<le> 70 then Some (n - 55) else None)"

definition unescape1 :: "char \<Rightarrow> char option" where
  "unescape1 c =
     (if c = CHR 0x22 \<or> c = CHR 0x5C \<or> c = CHR ''/'' then Some c
      else if c = CHR ''n'' then Some (CHR 0x0A) else if c = CHR ''r'' then Some (CHR 0x0D)
      else if c = CHR ''t'' then Some (CHR 0x09) else if c = CHR ''f'' then Some (CHR 0x0C)
      else if c = CHR ''b'' then Some (CHR 0x08) else None)"

definition push :: "char \<Rightarrow> (string \<times> string) option \<Rightarrow> (string \<times> string) option" where
  "push c r = map_option (\<lambda>(s, rest). (c # s, rest)) r"

text \<open>The rest of a string literal, after its opening quote: its value and what follows it.\<close>

fun scan_string :: "string \<Rightarrow> (string \<times> string) option" where
  "scan_string [] = None"
| "scan_string (c # cs) =
     (if c = CHR 0x22 then Some ([], cs)
      else if c = CHR 0x5C then
        (case cs of
           [] \<Rightarrow> None
         | e # es \<Rightarrow>
             if e = CHR ''u'' then
               (case es of
                  a # b # x # y # tail \<Rightarrow>
                    (case (nibble a, nibble b, nibble x, nibble y) of
                       (Some 0, Some 0, Some h, Some l) \<Rightarrow> push (char_of (16 * h + l)) (scan_string tail)
                     | _ \<Rightarrow> None)
                | _ \<Rightarrow> None)
             else (case unescape1 e of None \<Rightarrow> None | Some d \<Rightarrow> push d (scan_string es)))
      else if (of_char c :: nat) < 32 then None
      else push c (scan_string cs))"

definition digits_of :: "string \<Rightarrow> nat" where
  "digits_of s = foldl (\<lambda>a c. 10 * a + digit_val c) 0 s"

definition scan_fraction :: "string \<Rightarrow> rat \<times> string" where
  "scan_fraction s =
     (case s of
        [] \<Rightarrow> (0, s)
      | c # cs \<Rightarrow>
          let ds = takeWhile is_digit cs
          in if c = CHR ''.'' \<and> ds \<noteq> []
             then (of_nat (digits_of ds) / 10 ^ length ds, dropWhile is_digit cs) else (0, s))"

definition scan_exponent :: "string \<Rightarrow> int \<times> string" where
  "scan_exponent s =
     (case s of
        [] \<Rightarrow> (0, s)
      | c # cs \<Rightarrow>
          let neg = (cs \<noteq> [] \<and> hd cs = CHR ''-'');
              es = (if cs \<noteq> [] \<and> (hd cs = CHR ''-'' \<or> hd cs = CHR ''+'') then tl cs else cs);
              ds = takeWhile is_digit es
          in if (c = CHR ''e'' \<or> c = CHR ''E'') \<and> ds \<noteq> []
             then ((if neg then - 1 else 1) * int (digits_of ds), dropWhile is_digit es) else (0, s))"

definition scale :: "rat \<Rightarrow> int \<Rightarrow> rat" where
  "scale r e = (if 0 \<le> e then r * 10 ^ nat e else r / 10 ^ nat (- e))"

definition scan_number :: "string \<Rightarrow> (rat \<times> string) option" where
  "scan_number s =
     (let neg = (s \<noteq> [] \<and> hd s = CHR ''-''); t = (if neg then tl s else s);
          whole = takeWhile is_digit t;
          ds = (if whole \<noteq> [] \<and> hd whole = CHR ''0'' then [CHR ''0''] else whole)
      in if ds = [] then None
         else let (f, rest) = scan_fraction (drop (length ds) t);
                  (e, rest') = scan_exponent rest;
                  r = scale (of_nat (digits_of ds) + f) e
              in Some (if neg then - r else r, rest'))"

definition literal :: "string \<Rightarrow> 'a \<Rightarrow> string \<Rightarrow> ('a \<times> string) option" where
  "literal w v s = (if take (length w) s = w then Some (v, drop (length w) s) else None)"

definition starts :: "char \<Rightarrow> string \<Rightarrow> bool" where
  "starts c s \<longleftrightarrow> s \<noteq> [] \<and> hd s = c"

lemma skip_length: "length (skip s) \<le> length s"
  by (simp add: skip_def length_dropWhile_le)

lemma push_Some: "push c r = Some (s, t) \<longleftrightarrow> (\<exists>s'. r = Some (s', t) \<and> s = c # s')"
  by (auto simp: push_def)

lemma scan_string_length: "scan_string s = Some (v, rest) \<Longrightarrow> length rest < length s"
proof (induction s arbitrary: v rest rule: scan_string.induct)
  case 1
  then show ?case by simp
next
  case (2 c cs)
  show ?case
    using "2.prems" "2.IH"
    by (fastforce simp: push_Some split: if_splits list.splits option.splits nat.splits)
qed

text \<open>
  The recursive descent of the library. The comparison of lengths before the recursion is there
  for the termination proof: a value takes at least one character, so it always holds.
\<close>

function parse_value :: "string \<Rightarrow> (json \<times> string) option"
  and parse_items :: "string \<Rightarrow> (json list \<times> string) option"
  and parse_members :: "string \<Rightarrow> ((string \<times> json) list \<times> string) option" where
  "parse_value s =
     (if starts (CHR 0x22) s then map_option (\<lambda>(v, r). (JStr v, r)) (scan_string (tl s))
      else if starts (CHR ''['') s then
        (if starts (CHR '']'') (skip (tl s)) then Some (JList [], tl (skip (tl s)))
         else map_option (\<lambda>(vs, r). (JList vs, r)) (parse_items (skip (tl s))))
      else if starts (CHR ''{'') s then
        (if starts (CHR ''}'') (skip (tl s)) then Some (JObj [], tl (skip (tl s)))
         else map_option (\<lambda>(kvs, r). (JObj (fold (\<lambda>(k, v). AList.update k v) kvs []), r))
                (parse_members (skip (tl s))))
      else if starts (CHR ''n'') s then literal ''null'' JNull s
      else if starts (CHR ''t'') s then literal ''true'' (JBool True) s
      else if starts (CHR ''f'') s then literal ''false'' (JBool False) s
      else map_option (\<lambda>(n, r). (JNum n, r)) (scan_number s))"
| "parse_items s =
     (case parse_value s of
        None \<Rightarrow> None
      | Some (v, r) \<Rightarrow>
          (if starts (CHR '']'') (skip r) then Some ([v], tl (skip r))
           else if starts (CHR '','') (skip r) \<and> length r \<le> length s
             then map_option (\<lambda>(vs, q). (v # vs, q)) (parse_items (skip (tl (skip r))))
           else None))"
| "parse_members s =
     (if starts (CHR 0x22) s then
        (case scan_string (tl s) of
           None \<Rightarrow> None
         | Some (k, q) \<Rightarrow>
             (if starts (CHR '':'') (skip q)
              then (case parse_value (skip (tl (skip q))) of
                      None \<Rightarrow> None
                    | Some (v, r) \<Rightarrow>
                        (if starts (CHR ''}'') (skip r) then Some ([(k, v)], tl (skip r))
                         else if starts (CHR '','') (skip r) \<and> length r \<le> length s
                           then map_option (\<lambda>(kvs, q). ((k, v) # kvs, q)) (parse_members (skip (tl (skip r))))
                         else None))
              else None))
      else None)"
  by pat_completeness auto

lemma skip_simps [simp]: "skip [] = []" "skip (c # cs) = (if js_space c then skip cs else c # cs)"
  by (simp_all add: skip_def)

lemma skip_tl_shorter: "s \<noteq> [] \<Longrightarrow> length (skip (tl s)) < length s"
  using skip_length [of "tl s"] by (cases s) auto

lemma skip_tl_skip_shorter: "starts c (skip r) \<Longrightarrow> length (skip (tl (skip r))) < length r"
  using skip_length [of r] skip_tl_shorter [of "skip r"] by (auto simp: starts_def)

termination parse_value
proof (relation "measure (\<lambda>x. case x of Inl s \<Rightarrow> 2 * length s | Inr (Inl s) \<Rightarrow> 2 * length s + 1
      | Inr (Inr s) \<Rightarrow> 2 * length s + 1)", goal_cases)
  case 1
  then show ?case by simp
next
  case (2 s)
  then show ?case using skip_tl_shorter [of s] by (simp add: starts_def)
next
  case (3 s)
  then show ?case using skip_tl_shorter [of s] by (simp add: starts_def)
next
  case (4 s)
  then show ?case by simp
next
  case (5 s x v r)
  then show ?case using skip_tl_skip_shorter [of _ r] by force
next
  case (6 s x k q)
  then have "length q < length (tl s)" and "length (skip (tl (skip q))) < length q"
    using scan_string_length skip_tl_skip_shorter by (blast, blast)
  then show ?case by simp
next
  case (7 s x k q y v r)
  then show ?case using skip_tl_skip_shorter [of _ r] by force
qed

declare parse_value.simps [simp del] parse_items.simps [simp del] parse_members.simps [simp del]

definition loads :: "string \<Rightarrow> json option" where
  "loads s =
     (case parse_value (skip s) of
        None \<Rightarrow> None
      | Some (v, r) \<Rightarrow> if skip r = [] then Some v else None)"

section \<open>What is written is read back\<close>

lemma nibble_hex_digit: "d < 16 \<Longrightarrow> nibble (hex_digit d) = Some d"
  by (auto simp: nibble_def hex_digit_def Let_def take_bit_eq_mod)

lemma of_char_eq_char: "(of_char c :: nat) = n \<Longrightarrow> c = char_of n"
  by auto

lemma js_escape_special:
  "js_escape (CHR 0x22) = [CHR 0x5C, CHR 0x22]" "js_escape (CHR 0x5C) = [CHR 0x5C, CHR 0x5C]"
  "js_escape (CHR 0x0A) = [CHR 0x5C, CHR ''n'']" "js_escape (CHR 0x0D) = [CHR 0x5C, CHR ''r'']"
  "js_escape (CHR 0x09) = [CHR 0x5C, CHR ''t'']" "js_escape (CHR 0x0C) = [CHR 0x5C, CHR ''f'']"
  "js_escape (CHR 0x08) = [CHR 0x5C, CHR ''b'']"
  by code_simp+

lemma char_of_special:
  "char_of (34 :: nat) = CHR 0x22" "char_of (92 :: nat) = CHR 0x5C" "char_of (10 :: nat) = CHR 0x0A"
  "char_of (13 :: nat) = CHR 0x0D" "char_of (9 :: nat) = CHR 0x09" "char_of (12 :: nat) = CHR 0x0C"
  "char_of (8 :: nat) = CHR 0x08"
  by code_simp+

lemma js_escape_cases:
  obtains (special) "c \<in> {CHR 0x22, CHR 0x5C, CHR 0x0A, CHR 0x0D, CHR 0x09, CHR 0x0C, CHR 0x08}"
  | (printable) "js_escape c = [c]" "c \<noteq> CHR 0x22" "c \<noteq> CHR 0x5C" "32 \<le> (of_char c :: nat)" "(of_char c :: nat) \<le> 126"
  | (control) h l where "h < 16" "l < 16" "c = char_of (16 * h + l)"
      "js_escape c = [CHR 0x5C, CHR ''u'', CHR ''0'', CHR ''0'', hex_digit h, hex_digit l]"
proof -
  obtain n :: nat where n: "n = of_char c" by simp
  then have c: "c = char_of n" "n < 256" by auto
  consider "n \<in> {34, 92, 10, 13, 9, 12, 8}"
    | "n \<notin> {34, 92, 10, 13, 9, 12, 8}" "32 \<le> n" "n \<le> 126"
    | "n \<notin> {34, 92, 10, 13, 9, 12, 8}" "\<not> (32 \<le> n \<and> n \<le> 126)" by blast
  then show thesis
  proof cases
    case 1
    then show thesis by (intro special) (auto simp: c(1) char_of_special)
  next
    case 2
    with n have "js_escape c = [c]" "c \<noteq> CHR 0x22" "c \<noteq> CHR 0x5C" by (auto simp: js_escape_def Let_def)
    with 2 n show thesis by (intro printable) auto
  next
    case 3
    with n have "js_escape c = [CHR 0x5C, CHR ''u'', CHR ''0'', CHR ''0'', hex_digit (n div 16), hex_digit (n mod 16)]"
      by (simp add: js_escape_def Let_def)
    moreover have "c = char_of (16 * (n div 16) + n mod 16)" using c(1) by simp
    moreover have "n div 16 < 16" "n mod 16 < 16" using c(2) by simp_all
    ultimately show thesis by (intro control)
  qed
qed

lemma scan_string_escape: "scan_string (js_escape c @ s) = push c (scan_string s)"
proof (cases c rule: js_escape_cases)
  case special
  then show ?thesis by (auto simp: js_escape_special unescape1_def)
next
  case printable
  then show ?thesis by simp
next
  case (control h l)
  have "nibble (CHR ''0'') = Some 0" by code_simp
  then show ?thesis
    using nibble_hex_digit [OF control(1)] nibble_hex_digit [OF control(2)]
    unfolding control(4) by (simp add: control(3) [symmetric])
qed

lemma scan_string_body: "scan_string (concat (map js_escape s) @ CHR 0x22 # rest) = Some (s, rest)"
  by (induction s) (simp_all add: scan_string_escape push_def del: scan_string.simps(2), simp)

definition ends_number :: "string \<Rightarrow> bool" where
  "ends_number s \<longleftrightarrow> s = [] \<or> (\<not> is_digit (hd s) \<and> hd s \<notin> set ''.eE'')"

lemma scan_fraction_end: "ends_number s \<Longrightarrow> scan_fraction s = (0, s)"
  and scan_exponent_end: "ends_number s \<Longrightarrow> scan_exponent s = (0, s)"
  by (auto simp: ends_number_def scan_fraction_def scan_exponent_def Let_def split: list.splits)

lemma takeWhile_digits: "ends_number rest \<Longrightarrow> takeWhile is_digit (str_nat n @ rest) = str_nat n"
  using str_nat_is_digit [of _ n] by (cases rest) (auto simp: ends_number_def takeWhile_append)

lemma digits_of_str_nat [simp]: "digits_of (str_nat n) = n"
  by (simp add: digits_of_def foldl_str_nat)

lemma str_nat_zero: "str_nat n = CHR ''0'' # ds \<Longrightarrow> ds = [] \<and> n = 0"
proof (induction n arbitrary: ds rule: str_nat.induct)
  case (1 n)
  show ?case
  proof (cases "n < 10")
    case True
    then have "digit_char n = CHR ''0''" "ds = []" using "1.prems" by (simp_all add: str_nat.simps [of n])
    with digit_char_facts(2) [OF True] show ?thesis by (simp add: digit_val_def)
  next
    case False
    then obtain es where es: "str_nat (n div 10) = CHR ''0'' # es"
      using "1.prems" str_nat_nonempty [of "n div 10"]
      by (cases "str_nat (n div 10)") (auto simp: str_nat.simps [of n])
    from "1.IH" [OF False es] have "n div 10 = 0" by simp
    with False show ?thesis by (simp add: div_eq_0_iff)
  qed
qed

lemma scan_number_nat:
  assumes "ends_number rest"
  shows "scan_number (str_nat n @ rest) = Some (of_nat n, rest)"
    and "scan_number (CHR ''-'' # str_nat n @ rest) = Some (- of_nat n, rest)"
proof -
  obtain c cs where c: "str_nat n = c # cs" by (cases "str_nat n") auto
  have "c \<noteq> CHR ''-''" using c str_nat_is_digit [of c n] by (auto simp: is_digit_def)
  moreover have "c = CHR ''0'' \<Longrightarrow> cs = [] \<and> n = 0" using str_nat_zero [of n cs] c by simp
  moreover have "takeWhile is_digit (c # cs @ rest) = c # cs"
    using takeWhile_digits [OF assms, of n] c by simp
  moreover have "digits_of (c # cs) = n" using digits_of_str_nat [of n] c by simp
  ultimately show "scan_number (str_nat n @ rest) = Some (of_nat n, rest)"
    and "scan_number (CHR ''-'' # str_nat n @ rest) = Some (- of_nat n, rest)"
    by (auto simp: scan_number_def c Let_def scan_fraction_end [OF assms] scan_exponent_end [OF assms]
        scale_def digits_of_def)
qed

lemma scan_number_int: "ends_number rest \<Longrightarrow> scan_number (str_int i @ rest) = Some (of_int i, rest)"
  by (auto simp: str_int_def scan_number_nat)

fun json_ok :: "json \<Rightarrow> bool" where
  "json_ok (JNum r) \<longleftrightarrow> r \<in> \<int>"
| "json_ok (JList xs) \<longleftrightarrow> list_all json_ok xs"
| "json_ok (JObj kvs) \<longleftrightarrow> distinct (map fst kvs) \<and> list_all (\<lambda>(k, v). json_ok v) kvs"
| "json_ok _ \<longleftrightarrow> True"

definition plain_format :: "json_format \<Rightarrow> bool" where
  "plain_format F \<longleftrightarrow> \<not> js_sort F
     \<and> starts (CHR '','') (js_item F) \<and> list_all js_space (tl (js_item F))
     \<and> starts (CHR '':'') (js_key F) \<and> list_all js_space (tl (js_key F))"

lemma skip_dumps: 
  assumes "starts c s" and "\<not> js_space c" 
  shows "skip s = s" "skip (s @ r) = s @ r"
  using assms by (cases s; auto simp: starts_def skip_def)+

lemma skip_spaces: "list_all js_space ws \<Longrightarrow> skip (ws @ s) = skip s"
  by (induction ws) (auto simp: skip_def)

lemma str_int_starts: "\<exists>c. starts c (str_int i) \<and> (c = CHR ''-'' \<or> is_digit c)"
proof -
  obtain c cs where "str_int i = c # cs" by (cases "str_int i") (auto simp: str_int_def split: if_splits)
  moreover from this have "c = CHR ''-'' \<or> is_digit c" using str_int_chars [of c i] by simp
  ultimately show ?thesis by (auto simp: starts_def)
qed

lemma dumps_starts:
  "json_ok j \<Longrightarrow> \<exists>c. starts c (dumps F j) \<and> \<not> js_space c \<and> c \<notin> set '']},:''"
proof (cases j)
  case (JNum r)
  assume "json_ok j"
  with JNum str_int_starts [of "\<lfloor>r\<rfloor>"] show ?thesis
    by (auto simp: js_number_def js_space_def is_digit_def Let_def)
qed (auto simp: starts_def js_string_def js_space_def)

lemma skip_dumps_append: "json_ok j \<Longrightarrow> skip (dumps F j @ r) = dumps F j @ r"
  using dumps_starts [of j F] skip_dumps(2) by blast

definition delimits :: "string \<Rightarrow> bool" where
  "delimits s \<longleftrightarrow> s = [] \<or> hd s \<in> set '',]}'' \<or> js_space (hd s)"

lemma delimits_ends: "delimits s \<Longrightarrow> ends_number s"
  by (auto simp: delimits_def ends_number_def js_space_def is_digit_def Let_def)

lemma parse_value_string: "parse_value (js_string s @ rest) = Some (JStr s, rest)"
  by (simp add: parse_value.simps js_string_def starts_def scan_string_body)

lemma parse_value_number:
  assumes "delimits rest"
  shows "parse_value (str_int i @ rest) = Some (JNum (of_int i), rest)"
proof -
  obtain c cs where c: "str_int i = c # cs" "c = CHR ''-'' \<or> is_digit c"
    using str_int_starts [of i] by (cases "str_int i") (auto simp: starts_def)
  then have "\<not> starts d (str_int i @ rest)" if "d \<in> {CHR 0x22, CHR ''['', CHR ''{'', CHR ''n'', CHR ''t'', CHR ''f''}" for d
    using that by (auto simp: starts_def is_digit_def Let_def)
  then show ?thesis
    by (simp add: parse_value.simps scan_number_int [OF delimits_ends [OF assms]])
qed

lemma item_sep:
  assumes "plain_format F"
  obtains ws where "js_item F = CHR '','' # ws" "list_all js_space ws"
  using assms by (cases "js_item F") (auto simp: plain_format_def starts_def)

lemma key_sep:
  assumes "plain_format F"
  obtains ws where "js_key F = CHR '':'' # ws" "list_all js_space ws"
  using assms by (cases "js_key F") (auto simp: plain_format_def starts_def)

lemma parse_items_written:
  assumes F: "plain_format F" and "xs \<noteq> []"
    and "\<And>x r. x \<in> set xs \<Longrightarrow> delimits r \<Longrightarrow> parse_value (dumps F x @ r) = Some (x, r)"
    and "list_all json_ok xs"
  shows "parse_items (join_with (js_item F) (map (dumps F) xs) @ CHR '']'' # rest) = Some (xs, rest)"
  using assms(2-4)
proof (induction xs)
  case Nil
  then show ?case by simp
next
  case (Cons x xs)
  show ?case
  proof (cases xs)
    case Nil
    with Cons.prems(2) [of x "CHR '']'' # rest"] show ?thesis
      by (simp add: parse_items.simps delimits_def starts_def js_space_def)
  next
    case (Cons y ys)
    obtain ws where ws: "js_item F = CHR '','' # ws" "list_all js_space ws" by (rule item_sep [OF F])
    define more where "more = join_with (js_item F) (map (dumps F) xs) @ CHR '']'' # rest"
    have IH: "parse_items more = Some (xs, rest)"
      unfolding more_def using Cons.IH Cons.prems Cons by simp
    have "more = dumps F y @ (if ys = [] then CHR '']'' # rest
        else js_item F @ join_with (js_item F) (map (dumps F) ys) @ CHR '']'' # rest)"
      by (cases ys) (auto simp: more_def Cons)
    with Cons.prems(3) Cons have skip_more: "skip more = more" by (simp add: skip_dumps_append)
    have "parse_value (dumps F x @ CHR '','' # ws @ more) = Some (x, CHR '','' # ws @ more)"
      by (rule Cons.prems(2)) (auto simp: delimits_def)
    moreover have "join_with (js_item F) (map (dumps F) (x # xs)) @ CHR '']'' # rest
        = dumps F x @ CHR '','' # ws @ more"
      using Cons by (simp add: more_def ws)
    ultimately show ?thesis
      using IH skip_more
      by (simp add: parse_items.simps [of "dumps F x @ CHR '','' # ws @ more"] starts_def js_space_def
          skip_spaces [OF ws(2)])
  qed
qed

definition member :: "json_format \<Rightarrow> string \<times> json \<Rightarrow> string" where
  "member F kv = js_string (fst kv) @ js_key F @ dumps F (snd kv)"

lemma dumps_object:
  "\<not> js_sort F \<Longrightarrow> dumps F (JObj kvs) = ''{'' @ join_with (js_item F) (map (member F) kvs) @ ''}''"
  by (simp add: in_order_def member_def [abs_def] comp_def case_prod_unfold)

lemma skip_string: "skip (js_string k @ r) = js_string k @ r"
  by (simp add: js_string_def skip_def js_space_def)

lemma parse_members_step:
  assumes F: "plain_format F" and "parse_value (dumps F v @ r) = Some (v, r)" and "json_ok v"
  shows "parse_members (member F (k, v) @ r) =
     (if starts (CHR ''}'') (skip r) then Some ([(k, v)], tl (skip r))
      else if starts (CHR '','') (skip r)
        then map_option (\<lambda>(kvs, q). ((k, v) # kvs, q)) (parse_members (skip (tl (skip r))))
      else None)"
proof -
  obtain ws where ws: "js_key F = CHR '':'' # ws" "list_all js_space ws" by (rule key_sep [OF F])
  have "skip (CHR '':'' # u) = CHR '':'' # u" for u by (simp add: skip_def js_space_def)
  moreover have "member F (k, v) @ r
      = CHR 0x22 # concat (map js_escape k) @ CHR 0x22 # CHR '':'' # ws @ dumps F v @ r"
    by (simp add: member_def js_string_def ws)
  ultimately show ?thesis
    using assms
    by (subst parse_members.simps) (simp add: starts_def scan_string_body skip_spaces [OF ws(2)] skip_dumps_append)
qed

lemma parse_members_written:
  assumes F: "plain_format F" and "kvs \<noteq> []"
    and "\<And>k v r. (k, v) \<in> set kvs \<Longrightarrow> delimits r \<Longrightarrow> parse_value (dumps F v @ r) = Some (v, r)"
    and "list_all (\<lambda>(k, v). json_ok v) kvs"
  shows "parse_members (join_with (js_item F) (map (member F) kvs) @ CHR ''}'' # rest) = Some (kvs, rest)"
  using assms(2-4)
proof (induction kvs)
  case Nil
  then show ?case by simp
next
  case (Cons kv kvs)
  obtain k v where kv: "kv = (k, v)" by fastforce
  have ok: "json_ok v" using Cons.prems(3) kv by simp
  show ?case
  proof (cases kvs)
    case Nil
    have "parse_value (dumps F v @ CHR ''}'' # rest) = Some (v, CHR ''}'' # rest)"
      by (rule Cons.prems(2)) (auto simp: kv delimits_def)
    from parse_members_step [OF F this ok] Nil show ?thesis
      by (simp add: kv starts_def js_space_def)
  next
    case (Cons kv' ys)
    obtain ws where ws: "js_item F = CHR '','' # ws" "list_all js_space ws" by (rule item_sep [OF F])
    define more where "more = join_with (js_item F) (map (member F) kvs) @ CHR ''}'' # rest"
    have IH: "parse_members more = Some (kvs, rest)"
      unfolding more_def by (rule Cons.IH) (use Cons.prems Cons in auto)
    have skip_more: "skip more = more"
      by (cases ys) (simp_all add: more_def Cons member_def skip_string)
    have "parse_value (dumps F v @ CHR '','' # ws @ more) = Some (v, CHR '','' # ws @ more)"
      by (rule Cons.prems(2)) (auto simp: kv delimits_def)
    from parse_members_step [OF F this ok, of k]
    have "parse_members (member F (k, v) @ CHR '','' # ws @ more) = Some ((k, v) # kvs, rest)"
      using IH skip_more by (simp add: starts_def js_space_def skip_spaces [OF ws(2)])
    then show ?thesis using Cons by (simp add: kv more_def ws)
  qed
qed

lemma fold_update_distinct:
  "distinct (map fst (acc @ kvs)) \<Longrightarrow> fold (\<lambda>(k, v). AList.update k v) kvs acc = acc @ kvs"
proof (induction kvs arbitrary: acc)
  case (Cons kv kvs)
  have "AList.update k v acc = acc @ [(k, v)]" if "k \<notin> fst ` set acc" for k v
    using that by (induction acc) auto
  with Cons show ?case by (cases kv) auto
qed simp

lemma parse_dumps:
  assumes F: "plain_format F"
  shows "json_ok j \<Longrightarrow> delimits rest \<Longrightarrow> parse_value (dumps F j @ rest) = Some (j, rest)"
proof (induction j arbitrary: rest)
  case (JNum r)
  then show ?case by (simp add: js_number_def parse_value_number)
next
  case (JStr s)
  then show ?case by (simp add: parse_value_string)
next
  case (JList xs)
  show ?case
  proof (cases "xs = []")
    case True
    then show ?thesis by (simp add: parse_value.simps starts_def js_space_def)
  next
    case False
    have items: "parse_items (join_with (js_item F) (map (dumps F) xs) @ CHR '']'' # rest) = Some (xs, rest)"
      using JList False by (intro parse_items_written [OF F]) (auto simp: list_all_iff)
    obtain c where "starts c (join_with (js_item F) (map (dumps F) xs))" "\<not> js_space c" "c \<noteq> CHR '']''"
    proof -
      obtain x ys where xs: "xs = x # ys" using False by (cases xs) auto
      with JList.prems dumps_starts [of x F] that show ?thesis
        by (cases ys) (auto simp: starts_def)
    qed
    with items show ?thesis
      by (auto simp: parse_value.simps starts_def skip_dumps(2))
  qed
next
  case (JObj kvs)
  have obj: "dumps F (JObj kvs) = ''{'' @ join_with (js_item F) (map (member F) kvs) @ ''}''"
    using F by (intro dumps_object) (simp add: plain_format_def)
  show ?case
  proof (cases "kvs = []")
    case True
    then show ?thesis unfolding obj by (simp add: parse_value.simps starts_def js_space_def)
  next
    case False
    have members: "parse_members (join_with (js_item F) (map (member F) kvs) @ CHR ''}'' # rest) = Some (kvs, rest)"
      using JObj False by (intro parse_members_written [OF F]) (auto simp: list_all_iff)
    have quote: "starts (CHR 0x22) (join_with (js_item F) (map (member F) kvs))"
    proof -
      obtain x ys where "kvs = x # ys" using False by (cases kvs) auto
      then show ?thesis by (cases ys) (auto simp: starts_def member_def js_string_def)
    qed
    have "skip (join_with (js_item F) (map (member F) kvs) @ r) = join_with (js_item F) (map (member F) kvs) @ r" for r
      by (rule skip_dumps(2) [OF quote]) (simp add: js_space_def)
    with quote members fold_update_distinct [of "[]" kvs] JObj.prems(1) show ?thesis
      unfolding obj by (auto simp: parse_value.simps starts_def)
  qed
qed (simp_all add: parse_value.simps starts_def literal_def)

lemma loads_dumps:
  assumes "plain_format F" and "json_ok j"
  shows "loads (dumps F j) = Some j"
  using parse_dumps [OF assms, of "[]"] skip_dumps_append [OF assms(2), of F "[]"]
  by (simp add: loads_def delimits_def skip_def)

section \<open>What is written is one line of printable ASCII\<close>

definition printable :: "string \<Rightarrow> bool" where
  "printable s \<longleftrightarrow> list_all (\<lambda>c. let n = (of_char c :: nat) in 32 \<le> n \<and> n \<le> 126) s"

lemma printable_simps [simp]:
  "printable []" "printable (s @ t) \<longleftrightarrow> printable s \<and> printable t"
  by (simp_all add: printable_def)

lemma printable_join: "printable sep \<Longrightarrow> (\<And>p. p \<in> set ps \<Longrightarrow> printable p) \<Longrightarrow> printable (join_with sep ps)"
  by (induction sep ps rule: join_with.induct) auto

lemma printable_escape: "printable (js_escape c)"
proof (cases c rule: js_escape_cases)
  case (control h l)
  have "printable [hex_digit d]" if "d < 16" for d
    using that by (auto simp: printable_def hex_digit_def Let_def take_bit_eq_mod)
  from this [OF control(1)] this [OF control(2)] show ?thesis
    by (simp add: control(4)) (simp add: printable_def)
qed (auto simp: js_escape_special printable_def Let_def)

lemma printable_string: "printable (js_string s)"
proof -
  have "printable (concat (map js_escape s))" by (induction s) (simp_all add: printable_escape)
  then show ?thesis by (simp add: js_string_def) (simp add: printable_def)
qed

lemma printable_str_int: "printable (str_int i)"
proof -
  have "32 \<le> (of_char c :: nat) \<and> (of_char c :: nat) \<le> 126" if "c \<in> set (str_int i)" for c
    using str_int_chars [OF that] by (auto simp: is_digit_def Let_def)
  then show ?thesis by (auto simp: printable_def list_all_iff Let_def)
qed

lemma printable_dumps:
  assumes "printable (js_item F)" and "printable (js_key F)"
  shows "json_ok j \<Longrightarrow> printable (dumps F j)"
proof (induction j)
  case (JNum r)
  then show ?case by (simp add: js_number_def printable_str_int)
next
  case (JStr s)
  then show ?case by (simp add: printable_string)
next
  case (JList xs)
  then have "printable (join_with (js_item F) (map (dumps F) xs))"
    using assms by (auto intro!: printable_join simp: list_all_iff)
  then show ?case by (simp add: printable_def)
next
  case (JObj kvs)
  have "printable (join_with (js_item F) (map (\<lambda>(k, t). js_string k @ js_key F @ t)
        (in_order F (map (\<lambda>(k, v). (k, dumps F v)) kvs))))"
  proof (rule printable_join [OF assms(1)])
    fix p
    assume "p \<in> set (map (\<lambda>(k, t). js_string k @ js_key F @ t) (in_order F (map (\<lambda>(k, v). (k, dumps F v)) kvs)))"
    then obtain k v where "(k, v) \<in> set kvs" "p = js_string k @ js_key F @ dumps F v"
      by (auto simp: in_order_def split: if_splits)
    with JObj assms(2) show "printable p" by (fastforce simp: printable_string list_all_iff)
  qed
  then show ?case by (simp add: printable_def)
qed (auto simp: printable_def)

end
