(* ===== verification/Inference.thy ===== *)
theory Inference
  imports Custody JsonText
begin

text \<open>
  \<open>backend/integrations/inference_attestation.py\<close> and the part of
  \<open>backend/integrations/llm_client.py\<close> that decides which provider reads an account's mail:
  a confidential provider's enclave is verified before a client for it exists. The report is
  what the endpoint answered, as parsed JSON; everything in it is written by the party being
  checked, so every misshapen field is a branch. The state is the verdict cache and the
  allowlist the process has loaded. The network, \<open>dcap_qvl\<close>, SHA-256, the two texts \<open>repr\<close> and
  \<open>str\<close> of parsed JSON and the message of an allowlist error are parameters; the reason
  that names a field which is no hex stops before the library's own words. Python's equality
  of a number with a truth value is not modelled.
\<close>

datatype inf_error =
    MalformedReport string | AllowlistInvalid allowlist_error | AttestationError string
  | InfAssert string | InfUncaught string

section \<open>The catalog\<close>

record provider =
  pv_name :: string
  pv_label :: string
  pv_base_url :: string
  pv_model :: string
  pv_key_env :: string
  pv_confidential :: bool
  pv_attestation_url :: "string option"
  pv_effort :: string

definition well_specified :: "provider \<Rightarrow> bool" where
  "well_specified p \<longleftrightarrow> pv_name p \<noteq> [] \<and> pv_base_url p \<noteq> [] \<and> pv_model p \<noteq> [] \<and> pv_key_env p \<noteq> []
     \<and> (pv_confidential p \<longrightarrow> truthy (pv_attestation_url p))"

definition attests :: "provider \<Rightarrow> bool" where
  "attests p \<longleftrightarrow> pv_confidential p \<and> truthy (pv_attestation_url p)"

definition catalog :: "provider list" where
  "catalog =
     [\<lparr>pv_name = ''deepseek'', pv_label = ''DeepSeek (standard)'',
       pv_base_url = ''https://api.deepseek.com'', pv_model = ''deepseek-v4-pro'',
       pv_key_env = ''DEEPSEEK_API_KEY'', pv_confidential = False, pv_attestation_url = None,
       pv_effort = ''max''\<rparr>,
      \<lparr>pv_name = ''nearai-glm'', pv_label = ''GLM 5.2 in an enclave (confidential)'',
       pv_base_url = ''https://glm-5-2.completions.near.ai/v1'', pv_model = ''z-ai/glm-5.2'',
       pv_key_env = ''NEARAI_API_KEY'', pv_confidential = True,
       pv_attestation_url = Some ''https://glm-5-2.completions.near.ai/v1/attestation/report'',
       pv_effort = ''max''\<rparr>,
      \<lparr>pv_name = ''nearai-gpt-oss'', pv_label = ''gpt-oss-120b in an enclave (confidential)'',
       pv_base_url = ''https://gpt-oss-120b.completions.near.ai/v1'', pv_model = ''openai/gpt-oss-120b'',
       pv_key_env = ''NEARAI_API_KEY'', pv_confidential = True,
       pv_attestation_url = Some ''https://gpt-oss-120b.completions.near.ai/v1/attestation/report'',
       pv_effort = ''max''\<rparr>]"

definition DEFAULT_PROVIDER :: string where "DEFAULT_PROVIDER = ''deepseek''"

definition provider_named :: "string \<Rightarrow> provider option" where
  "provider_named name = find (\<lambda>p. pv_name p = name) catalog"

definition api_key :: "env \<Rightarrow> provider \<Rightarrow> string" where
  "api_key e p = py_strip (env_get e (pv_key_env p))"

definition configured :: "env \<Rightarrow> provider \<Rightarrow> bool" where
  "configured e p \<longleftrightarrow> api_key e p \<noteq> []"

definition available_providers :: "env \<Rightarrow> provider list" where
  "available_providers e = filter (configured e) catalog"

definition available_provider_names :: "env \<Rightarrow> string list" where
  "available_provider_names e = map pv_name (available_providers e)"

definition providers_named :: "string list \<Rightarrow> provider list" where
  "providers_named names = filter (\<lambda>p. pv_name p \<in> set names) catalog"

definition resolve_provider :: "env \<Rightarrow> account option \<Rightarrow> inf_error + provider" where
  "resolve_provider e acct =
     (let chosen = (case acct of None \<Rightarrow> None | Some a \<Rightarrow> ac_inference_provider a)
      in if truthy chosen
         then (case provider_named (str_or chosen '''') of
                 None \<Rightarrow> Inl (InfAssert ''unknown inference provider'')
               | Some p \<Rightarrow>
                   if configured e p then Inr p
                   else Inl (InfAssert ''account selected a provider whose key is not set''))
         else case provider_named DEFAULT_PROVIDER of
             None \<Rightarrow> Inl (InfUncaught ''KeyError'')
           | Some d \<Rightarrow>
               if configured e d then Inr d
               else (case available_providers e of
                       [] \<Rightarrow> Inl (InfAssert ''no inference provider is configured'')
                     | [p] \<Rightarrow> Inr p
                     | _ \<Rightarrow> Inl (InfAssert ''more than one provider is available'')))"

section \<open>The pin list\<close>

record inf_lib =
  il_env :: env
  il_files :: "string \<Rightarrow> file_content"
  il_dcap :: "dcap option"
  il_sha256 :: "string \<Rightarrow> string"
  il_fetch :: "string \<Rightarrow> string \<Rightarrow> string + json"
  il_repr :: "json \<Rightarrow> string"
  il_str :: "json \<Rightarrow> string"
  il_float :: "rat \<Rightarrow> string"
  il_message :: "allowlist_error \<Rightarrow> string"

record inference =
  if_cache :: verdict_cache
  if_policy :: "(string \<times> allowlist) option"

type_synonym 'a attesting = "(inference, inf_error, 'a) comp"

definition fresh_inference :: inference where
  "fresh_inference = \<lparr>if_cache = cache_clear, if_policy = None\<rparr>"

definition DEFAULT_ALLOWLIST :: string where "DEFAULT_ALLOWLIST = ''inference_allowlist.json''"

definition allowlist_path :: "inf_lib \<Rightarrow> inf_error + string" where
  "allowlist_path L =
     (let override = il_env L ''LETTERLOCK_INFERENCE_ALLOWLIST''
      in if truthy override \<and> tee_required (il_env L)
         then Inl (AllowlistInvalid (RepointedUnderTee (str_or override '''')))
         else Inr (str_or override DEFAULT_ALLOWLIST))"

text \<open>
  What of \<open>quote_policy\<close> raises something other than \<open>AllowlistInvalid\<close>: the parse of the file and
  the assertion on an empty quote.
\<close>

definition raised :: "allowlist_error \<Rightarrow> inf_error" where
  "raised e = (if e = EmptyQuote then InfAssert ''verify() needs quote bytes''
               else if e = AllowlistNotJson then InfUncaught ''JSONDecodeError'' else AllowlistInvalid e)"

definition pin_list :: "inf_lib \<Rightarrow> allowlist attesting" where
  "pin_list L s =
     (case allowlist_path L of
        Inl e \<Rightarrow> (Inl e, s)
      | Inr path \<Rightarrow>
          (let load = (case load_policy (il_files L path) of
                 Inl e \<Rightarrow> (Inl (raised e), s)
               | Inr al \<Rightarrow> (Inr al, s\<lparr>if_policy := Some (path, al)\<rparr>))
           in case if_policy s of
                None \<Rightarrow> load
              | Some (p, al) \<Rightarrow> if p = path then (Inr al, s) else load))"

definition inference_mode :: "inf_lib \<Rightarrow> date \<Rightarrow> allowlist \<Rightarrow> inf_error + string" where
  "inference_mode L today al =
     lift_err AllowlistInvalid
       (policy_mode (if tee_required (il_env L) then None else il_env L ''LETTERLOCK_INFERENCE_ATTESTATION'')
          today al)"

definition mode_now :: "inf_lib \<Rightarrow> date \<Rightarrow> (string \<times> allowlist) attesting" where
  "mode_now L today =
     and_then (pin_list L) (\<lambda>al.
       and_then (of_sum (inference_mode L today al)) (\<lambda>m. give (m, al)))"

section \<open>The report\<close>

record report =
  rp_payload :: "(string \<times> json) list"
  rp_nonce :: string

definition json_type :: "json \<Rightarrow> string" where
  "json_type j =
     (case j of JNull \<Rightarrow> ''NoneType'' | JBool _ \<Rightarrow> ''bool'' | JNum r \<Rightarrow> (if r \<in> \<int> then ''int'' else ''float'')
      | JStr _ \<Rightarrow> ''str'' | JList _ \<Rightarrow> ''list'' | JObj _ \<Rightarrow> ''dict'')"

definition removeprefix :: "string \<Rightarrow> string \<Rightarrow> string" where
  "removeprefix p s = (if take (length p) s = p then drop (length p) s else s)"

definition hex_field :: "json \<Rightarrow> string \<Rightarrow> nat option \<Rightarrow> inf_error + bytes" where
  "hex_field raw field len =
     (case raw of
        JStr (c # cs) \<Rightarrow>
          (let v = py_strip (removeprefix ''0x'' (c # cs))
           in case len of
                Some n \<Rightarrow>
                  if length v \<noteq> n * 2
                  then Inl (MalformedReport (field @ '' is '' @ str_nat (length v div 2)
                          @ '' bytes, expected '' @ str_nat n))
                  else (case from_hex v of Some bs \<Rightarrow> Inr bs | None \<Rightarrow> Inl (MalformedReport (field @ '' is not hex'')))
              | None \<Rightarrow>
                  (case from_hex v of Some bs \<Rightarrow> Inr bs | None \<Rightarrow> Inl (MalformedReport (field @ '' is not hex''))))
      | _ \<Rightarrow> Inl (MalformedReport (field @ '' is missing'')))"

text \<open>\<open>(payload.get(name) or "").strip()\<close>, \<open>x.get(name)\<close> and one part of a \<open>join\<close>.\<close>

definition text_field :: "(string \<times> json) list \<Rightarrow> string \<Rightarrow> inf_error + string" where
  "text_field payload name =
     (let v = jget payload name
      in if \<not> jtrue v then Inr ''''
         else case v of JStr t \<Rightarrow> Inr (py_strip t) | _ \<Rightarrow> Inl (InfUncaught ''AttributeError''))"

definition attr_get :: "json \<Rightarrow> string \<Rightarrow> inf_error + json" where
  "attr_get j name = (case jobj j of None \<Rightarrow> Inl (InfUncaught ''AttributeError'') | Some kvs \<Rightarrow> Inr (jget kvs name))"

definition joined_part :: "json \<Rightarrow> string \<Rightarrow> inf_error + string" where
  "joined_part j d =
     (if \<not> jtrue j then Inr d else case j of JStr t \<Rightarrow> Inr t | _ \<Rightarrow> Inl (InfUncaught ''TypeError''))"

definition or_empty :: "json \<Rightarrow> json" where
  "or_empty j = (if jtrue j then j else JObj [])"

definition new_report :: "json \<Rightarrow> string \<Rightarrow> inf_error + report" where
  "new_report payload nonce =
     (case payload of
        JObj kvs \<Rightarrow> Inr \<lparr>rp_payload = kvs, rp_nonce = nonce\<rparr>
      | _ \<Rightarrow> Inl (MalformedReport (''attestation report is '' @ json_type payload @ '', not an object'')))"

definition enclave_identity :: "report \<Rightarrow> inf_error + string" where
  "enclave_identity r =
     sum_then (text_field (rp_payload r) ''signing_address'') (\<lambda>address.
     sum_then (attr_get (or_empty (jget (rp_payload r) ''info'')) ''instance_id'') (\<lambda>inst.
     sum_then (attr_get (or_empty (jget (rp_payload r) ''compose_manager_attestation'')) ''actions_hash'') (\<lambda>h.
     sum_then (joined_part inst ''no-instance'') (\<lambda>i.
     sum_then (joined_part h ''no-log'') (\<lambda>l.
       Inr (join_with '':'' [address, i, l]))))))"

definition ADDRESS_BYTES :: nat where "ADDRESS_BYTES = 20"
definition PAD_BYTES :: nat where "PAD_BYTES = 12"

definition nonce_bytes :: "string \<Rightarrow> inf_error + bytes" where
  "nonce_bytes nonce = (case from_hex nonce of Some bs \<Rightarrow> Inr bs | None \<Rightarrow> Inl (InfUncaught ''ValueError''))"

definition expected_report_data :: "report \<Rightarrow> inf_error + bytes" where
  "expected_report_data r =
     sum_then (text_field (rp_payload r) ''signing_address'') (\<lambda>address.
     sum_then (hex_field (JStr address) ''signing_address'' (Some ADDRESS_BYTES)) (\<lambda>bs.
     sum_then (nonce_bytes (rp_nonce r)) (\<lambda>nb.
       Inr (bs @ replicate PAD_BYTES 0 @ nb))))"

section \<open>The compose log\<close>

record compose_log =
  cl_payload :: "(string \<times> json) list"
  cl_nonce :: string

definition new_compose_log :: "report \<Rightarrow> inf_error + compose_log option" where
  "new_compose_log r =
     (let v = jget (rp_payload r) ''compose_manager_attestation''
      in if \<not> jtrue v then Inr None
         else case v of
             JObj kvs \<Rightarrow> Inr (Some \<lparr>cl_payload = kvs, cl_nonce = rp_nonce r\<rparr>)
           | _ \<Rightarrow> Inl (MalformedReport (''compose_manager_attestation is '' @ json_type v @ '', not an object'')))"

definition log_actions :: "compose_log \<Rightarrow> inf_error + json list" where
  "log_actions l =
     (let v = jget (cl_payload l) ''actions''
      in if \<not> jtrue v then Inr []
         else case v of
             JList xs \<Rightarrow> Inr xs
           | _ \<Rightarrow> Inl (MalformedReport (''compose_manager_attestation actions is '' @ json_type v @ '', not a list'')))"

definition compact :: "inf_lib \<Rightarrow> json_format" where
  "compact L = \<lparr>js_item = '','', js_key = '':'', js_sort = True, js_float = il_float L\<rparr>"

definition computed_hash :: "inf_lib \<Rightarrow> json list \<Rightarrow> string" where
  "computed_hash L actions = il_sha256 L (dumps (compact L) (JList actions))"

definition log_report_data :: "compose_log \<Rightarrow> string \<Rightarrow> inf_error + bytes" where
  "log_report_data l claimed =
     sum_then (hex_field (JStr claimed) ''actions_hash'' None) (\<lambda>h.
     sum_then (nonce_bytes (cl_nonce l)) (\<lambda>nb. Inr (h @ nb)))"

text \<open>
  \<open>started\<close>: a dict from file to digest, in insertion order. A key that is a list or an object
  cannot be hashed; popping from an empty dict does not hash.
\<close>

type_synonym composes = "(json \<times> json) list"

definition unhashable :: "json \<Rightarrow> bool" where
  "unhashable j = (case j of JList _ \<Rightarrow> True | JObj _ \<Rightarrow> True | _ \<Rightarrow> False)"

definition replay_action :: "json \<Rightarrow> composes \<Rightarrow> inf_error + composes" where
  "replay_action a up =
     sum_then (attr_get a ''action'') (\<lambda>verb.
     sum_then (attr_get a ''file'') (\<lambda>name.
       if \<not> jtrue name then Inr up
       else if verb = JStr ''compose_up''
         then sum_then (attr_get a ''file_sha256'') (\<lambda>d.
           if unhashable name then Inl (InfUncaught ''TypeError'') else Inr (AList.update name d up))
       else if verb = JStr ''compose_down''
         then (if up \<noteq> [] \<and> unhashable name then Inl (InfUncaught ''TypeError'')
               else Inr (AList.delete name up))
       else Inr up))"

fun replay_from :: "json list \<Rightarrow> composes \<Rightarrow> inf_error + composes" where
  "replay_from [] up = Inr up"
| "replay_from (a # as) up = sum_then (replay_action a up) (replay_from as)"

definition started :: "json list \<Rightarrow> inf_error + composes" where
  "started actions = replay_from actions []"

section \<open>The verdict\<close>

record verify_clock =
  ck_get :: secs
  ck_quote :: int
  ck_log :: int
  ck_put :: secs

definition raising :: "allowlist_error + 'a \<Rightarrow> inf_error + 'a" where
  "raising r = lift_err raised r"

definition text_or_none :: "string option \<Rightarrow> string" where
  "text_or_none s = (case s of None \<Rightarrow> ''None'' | Some t \<Rightarrow> t)"

text \<open>\<open>{row.get("file"): row.get("file_sha256") ...}.get(name)\<close>: the last row wins, a missing one is None.\<close>

definition option_json :: "string option \<Rightarrow> json" where
  "option_json t = (case t of None \<Rightarrow> JNull | Some s \<Rightarrow> JStr s)"

definition authorized :: "allowlist \<Rightarrow> string \<Rightarrow> json \<Rightarrow> json" where
  "authorized al scope name =
     (let rows = map (\<lambda>c. (option_json (cr_file c), option_json (cr_sha256 c))) (compose_rows (Some scope) al)
      in case map_of (rev rows) name of None \<Rightarrow> JNull | Some d \<Rightarrow> d)"

definition unauthorized :: "allowlist \<Rightarrow> string \<Rightarrow> composes \<Rightarrow> composes" where
  "unauthorized al scope up = filter (\<lambda>(name, d). authorized al scope name \<noteq> d) up"

definition compose_text :: "inf_lib \<Rightarrow> json \<times> json \<Rightarrow> string" where
  "compose_text L c = il_str L (fst c) @ ''@'' @ il_str L (snd c)"

definition verify_composes ::
  "inf_lib \<Rightarrow> verify_clock \<Rightarrow> provider \<Rightarrow> allowlist \<Rightarrow> report \<Rightarrow> string \<Rightarrow> inf_error + verdict option" where
  "verify_composes L ck p al r subject =
     sum_then (new_compose_log r) (\<lambda>lg.
       case lg of
         None \<Rightarrow> Inr (Some (refused (Some subject) (''endpoint published no compose-manager attestation, ''
             @ ''so nothing says which model container is serving'') None))
       | Some l \<Rightarrow>
     sum_then (log_actions l) (\<lambda>actions.
     sum_then (text_field (cl_payload l) ''actions_hash'') (\<lambda>claimed.
       if computed_hash L actions \<noteq> claimed
       then Inr (Some (refused (Some subject) (''actions_hash '' @ claimed @ '' does not match the actions ''
             @ ''it is supposed to cover ('' @ computed_hash L actions @ '')'') None))
       else
     sum_then (hex_field (jget (cl_payload l) ''quote'') ''compose_manager_attestation quote'' None) (\<lambda>quote.
     sum_then (log_report_data l claimed) (\<lambda>data.
     sum_then (raising (verify (il_dcap L) (il_sha256 L) (ck_log ck) quote al (Some subject) data
                          (Some (pv_name p)))) (\<lambda>manager.
       if \<not> v_ok manager
       then Inr (Some (refused (Some subject) (''compose-manager quote: '' @ text_or_none (v_reason manager))
              (v_measurement manager)))
       else
     sum_then (started actions) (\<lambda>up.
       if unauthorized al (pv_name p) up \<noteq> []
       then Inr (Some (refused (Some subject) (''unauthorized composes started in the enclave: ''
              @ repr_list (sort (map (compose_text L) (unauthorized al (pv_name p) up)))) (v_measurement manager)))
       else Inr None)))))))"

definition judge ::
  "inf_lib \<Rightarrow> verify_clock \<Rightarrow> provider \<Rightarrow> allowlist \<Rightarrow> report \<Rightarrow> string \<Rightarrow> inf_error + verdict" where
  "judge L ck p al r subject =
     sum_then (hex_field (jget (rp_payload r) ''intel_quote'') ''intel_quote'' None) (\<lambda>quote.
     sum_then (expected_report_data r) (\<lambda>data.
     sum_then (raising (verify (il_dcap L) (il_sha256 L) (ck_quote ck) quote al (Some subject) data
                          (Some (pv_name p)))) (\<lambda>v.
       if v_ok v
       then sum_then (verify_composes L ck p al r subject) (\<lambda>w. Inr (case w of None \<Rightarrow> v | Some w \<Rightarrow> w))
       else Inr v)))"

definition fetch_report :: "inf_lib \<Rightarrow> string \<Rightarrow> provider \<Rightarrow> string + report" where
  "fetch_report L nonce p =
     (if \<not> truthy (pv_attestation_url p)
      then Inl (''provider '' @ py_repr (pv_name p) @ '' names no attestation url'')
      else case il_fetch L (str_or (pv_attestation_url p) '''') nonce of
          Inl err \<Rightarrow> Inl err
        | Inr payload \<Rightarrow>
            (case new_report payload nonce of
               Inl (MalformedReport e) \<Rightarrow> Inl e
             | Inl _ \<Rightarrow> Inl ''''
             | Inr r \<Rightarrow> Inr r))"

definition cached_verdict :: "secs \<Rightarrow> string \<Rightarrow> verdict option attesting" where
  "cached_verdict now subject s = (Inr (cache_get now subject (if_cache s)), s)"

definition remember_verdict :: "secs \<Rightarrow> string \<Rightarrow> verdict \<Rightarrow> verdict attesting" where
  "remember_verdict now subject v s = (Inr v, s\<lparr>if_cache := cache_put now subject v (if_cache s)\<rparr>)"

definition verify_report ::
  "inf_lib \<Rightarrow> verify_clock \<Rightarrow> provider \<Rightarrow> allowlist \<Rightarrow> report \<Rightarrow> verdict attesting" where
  "verify_report L ck p al r =
     (case enclave_identity r of
        Inl (MalformedReport e) \<Rightarrow> give (refused (Some (pv_name p)) (''malformed report: '' @ e) None)
      | Inl e \<Rightarrow> raise e
      | Inr ident \<Rightarrow>
     (let subject = pv_name p @ '':'' @ ident
      in and_then (of_sum (text_field (rp_payload r) ''request_nonce'')) (\<lambda>echo.
      if echo \<noteq> rp_nonce r
      then give (refused (Some subject) (''endpoint echoed nonce '' @ py_repr echo @ '', not the one we sent'') None)
      else if jget (rp_payload r) ''model_name'' \<noteq> JStr (pv_model p)
      then give (refused (Some subject) (''enclave serves model '' @ il_repr L (jget (rp_payload r) ''model_name'')
              @ '', not '' @ py_repr (pv_model p)) None)
      else and_then (cached_verdict (ck_get ck) subject) (\<lambda>hit.
        case hit of
          Some v \<Rightarrow> give v
        | None \<Rightarrow>
            (case judge L ck p al r subject of
               Inl (MalformedReport e) \<Rightarrow>
                 remember_verdict (ck_put ck) subject (refused (Some subject) (''malformed report: '' @ e) None)
             | Inl e \<Rightarrow> raise e
             | Inr v \<Rightarrow> remember_verdict (ck_put ck) subject v)))))"

definition verify_provider ::
  "inf_lib \<Rightarrow> date \<Rightarrow> verify_clock \<Rightarrow> string \<Rightarrow> provider \<Rightarrow> verdict attesting" where
  "verify_provider L today ck nonce p s =
     (case mode_now L today s of
        (Inl (AllowlistInvalid e), s') \<Rightarrow> (Inr (refused (Some (pv_name p)) (il_message L e) None), s')
      | (Inl e, s') \<Rightarrow> (Inl e, s')
      | (Inr (mode, al), s') \<Rightarrow>
          if mode = DEV_INSECURE then (Inr (dev_verdict (Some (pv_name p))), s')
          else case fetch_report L nonce p of
              Inl err \<Rightarrow> (Inr (refused (Some (pv_name p)) (''attestation report unavailable: '' @ err) None), s')
            | Inr r \<Rightarrow> verify_report L ck p al r s')"

text \<open>The message of the refusal names the pin list, so a pin list that may not be named is raised again.\<close>

definition require_provider ::
  "inf_lib \<Rightarrow> date \<Rightarrow> verify_clock \<Rightarrow> string \<Rightarrow> provider \<Rightarrow> verdict attesting" where
  "require_provider L today ck nonce p =
     and_then (verify_provider L today ck nonce p) (\<lambda>v.
       if v_ok v then give v
       else and_then (of_sum (allowlist_path L)) (\<lambda>path.
         raise (AttestationError (''refusing to send mail to '' @ py_repr (pv_name p) @ '': ''
           @ text_or_none (v_reason v) @ '' (measurement '' @ text_or_none (v_measurement v)
           @ ''); authorize it in '' @ path @ '' after reviewing it, or pick another provider''))))"

section \<open>The client\<close>

record llm_client =
  lc_provider :: provider
  lc_key :: string
  lc_base_url :: string

definition make_client ::
  "inf_lib \<Rightarrow> date \<Rightarrow> verify_clock \<Rightarrow> string \<Rightarrow> account option \<Rightarrow> llm_client attesting" where
  "make_client L today ck nonce acct =
     and_then (of_sum (resolve_provider (il_env L) acct)) (\<lambda>p.
     and_then (if attests p then and_then (require_provider L today ck nonce p) (\<lambda>_. give ()) else give ()) (\<lambda>_.
       give \<lparr>lc_provider = p, lc_key = api_key (il_env L) p, lc_base_url = pv_base_url p\<rparr>))"

fun undecidable :: "string \<Rightarrow> allowlist \<Rightarrow> provider list \<Rightarrow> string option" where
  "undecidable path al [] = None"
| "undecidable path al (p # ps) =
     (let gap = (\<lambda>key. Some (''provider '' @ py_repr (pv_name p) @ '' is confidential but no '' @ key
             @ '' are authorized for it in '' @ path
             @ ''; run `python -m backend.integrations.inference_attestation '' @ pv_name p @ ''`''))
      in if \<not> attests p then undecidable path al ps
         else if rows (Some (pv_name p)) al = [] then gap ''measurements''
         else if compose_rows (Some (pv_name p)) al = [] then gap ''composes''
         else undecidable path al ps)"

definition providers_configured :: "inf_lib \<Rightarrow> date \<Rightarrow> provider list \<Rightarrow> string option attesting" where
  "providers_configured L today ps s =
     (case mode_now L today s of
        (Inl (AllowlistInvalid e), s') \<Rightarrow> (Inr (Some (il_message L e)), s')
      | (Inl e, s') \<Rightarrow> (Inl e, s')
      | (Inr (mode, al), s') \<Rightarrow>
          (Inr (if mode = DEV_INSECURE then None
                else if il_dcap L = None then Some ''attestation required but dcap-qvl is not installed''
                else case allowlist_path L of Inl _ \<Rightarrow> None | Inr path \<Rightarrow> undecidable path al ps), s'))"

section \<open>What the compose log says is running\<close>

definition brings :: "string \<Rightarrow> json \<Rightarrow> json \<Rightarrow> bool" where
  "brings verb name a \<longleftrightarrow> jtrue name \<and> attr_get a ''action'' = Inr (JStr verb) \<and> attr_get a ''file'' = Inr name"

definition concerns :: "json \<Rightarrow> json \<Rightarrow> bool" where
  "concerns name a \<longleftrightarrow> brings ''compose_up'' name a \<or> brings ''compose_down'' name a"

lemma brings_one: "brings v name a \<Longrightarrow> brings w name' a \<Longrightarrow> v = w \<and> name = name'"
  by (auto simp: brings_def)

lemma replay_action_lookup:
  assumes "replay_action a up = Inr up'"
  shows "map_of up' name =
    (if brings ''compose_up'' name a then Some (case attr_get a ''file_sha256'' of Inr d \<Rightarrow> d | Inl _ \<Rightarrow> JNull)
     else if brings ''compose_down'' name a then None else map_of up name)"
proof -
  obtain verb name' where f: "attr_get a ''action'' = Inr verb" "attr_get a ''file'' = Inr name'"
    using assms by (auto simp: replay_action_def)
  show ?thesis
    using assms by (auto simp: replay_action_def f brings_def update_conv' delete_conv' split: if_splits)
qed

lemma replay_from_append:
  "replay_from (as @ bs) up = sum_then (replay_from as up) (replay_from bs)"
  by (induction as arbitrary: up) (auto simp: sum_then_def split: sum.splits)

lemma replay_from_lookup:
  "replay_from actions up = Inr up' \<Longrightarrow>
   map_of up' name =
     (case rev (filter (concerns name) actions) of
        [] \<Rightarrow> map_of up name
      | a # _ \<Rightarrow> if brings ''compose_up'' name a
               then Some (case attr_get a ''file_sha256'' of Inr d \<Rightarrow> d | Inl _ \<Rightarrow> JNull) else None)"
proof (induction actions arbitrary: up' rule: rev_induct)
  case Nil
  then show ?case by simp
next
  case (snoc a as)
  then obtain mid where mid: "replay_from as up = Inr mid" "replay_action a mid = Inr up'"
    by (auto simp: replay_from_append)
  show ?case
    using replay_action_lookup [OF mid(2), of name] snoc.IH [OF mid(1)]
    by (auto simp: concerns_def)
qed

text \<open>
  The replay of the compose log answers which composes were started and never stopped, by
  content: a file counts as running with a digest exactly when the last action of the log that
  starts or stops it starts it, with that digest.
\<close>

theorem compose_runs_until_stopped:
  assumes "started actions = Inr up"
  shows "map_of up name = Some d \<longleftrightarrow>
    (\<exists>pre a post. actions = pre @ a # post \<and> brings ''compose_up'' name a
       \<and> attr_get a ''file_sha256'' = Inr d \<and> (\<forall>b \<in> set post. \<not> concerns name b))"
proof -
  note look = replay_from_lookup [OF assms [unfolded started_def], of name]
  have dict: "\<exists>d. attr_get a ''file_sha256'' = Inr d" if "brings ''compose_up'' name a" for a
    using that by (auto simp: brings_def attr_get_def split: option.splits)
  show ?thesis
  proof (cases "rev (filter (concerns name) actions)")
    case Nil
    then have none: "\<forall>a \<in> set actions. \<not> concerns name a" by (simp add: filter_empty_conv)
    with look Nil show ?thesis by (auto simp: concerns_def)
  next
    case (Cons a rest)
    then obtain us' vs' where "rev actions = us' @ a # vs'" "\<forall>b \<in> set us'. \<not> concerns name b" "concerns name a"
      using filter_eq_ConsD [of "concerns name" "rev actions" a rest] by (auto simp: rev_filter)
    moreover from this have "actions = rev vs' @ a # rev us'" by (simp add: rev_eq_append_conv)
    ultimately obtain us vs where split: "actions = us @ a # vs" "\<forall>b \<in> set vs. \<not> concerns name b" "concerns name a"
      by (metis set_rev)
    have same: "b = a" if "actions = pre @ b # post" "concerns name b" "\<forall>b \<in> set post. \<not> concerns name b" for pre b post
    proof -
      have "filter (concerns name) actions = filter (concerns name) pre @ [b]"
        using that by (simp add: filter_False)
      moreover have "filter (concerns name) actions = filter (concerns name) us @ [a]"
        using split by (simp add: filter_False)
      ultimately show ?thesis by simp
    qed
    show ?thesis
    proof (cases "brings ''compose_up'' name a")
      case True
      with dict obtain d' where d': "attr_get a ''file_sha256'' = Inr d'" by blast
      with look Cons True have "map_of up name = Some d'" by simp
      with True d' split same show ?thesis
        by (metis concerns_def option.inject sum.inject(2))
    next
      case False
      with look Cons have "map_of up name = None" by simp
      with False same show ?thesis by (metis concerns_def option.distinct(1))
    qed
  qed
qed

section \<open>What a positive verdict rests on\<close>

lemma raising_Inr [simp]: "raising r = Inr x \<longleftrightarrow> r = Inr x"
  by (simp add: raising_def)

lemma unauthorized_none:
  "unauthorized al scope up = [] \<longleftrightarrow> (\<forall>(name, d) \<in> set up. authorized al scope name = d)"
  by (auto simp: unauthorized_def filter_empty_conv)

text \<open>The row that decides a file: the last of the provider's rows that names it.\<close>

definition deciding_row :: "allowlist \<Rightarrow> string \<Rightarrow> json \<Rightarrow> compose_row option" where
  "deciding_row al scope name =
     find (\<lambda>c. option_json (cr_file c) = name) (rev (filter (\<lambda>c. cr_scope c = Some scope) (al_composes al)))"

lemma find_in: "find P xs = Some x \<Longrightarrow> x \<in> set xs"
  by (auto simp: find_Some_iff)

lemma find_holds: "find P xs = Some x \<Longrightarrow> P x"
  by (auto simp: find_Some_iff)

lemma map_of_find: "map_of (map (\<lambda>c. (f c, g c)) cs) x = map_option g (find (\<lambda>c. f c = x) cs)"
  by (induction cs) auto

lemma authorized_row:
  "authorized al scope name = (case deciding_row al scope name of None \<Rightarrow> JNull | Some c \<Rightarrow> option_json (cr_sha256 c))"
  unfolding authorized_def deciding_row_def compose_rows_def Let_def rev_map option.case
  by (simp add: map_of_find split: option.split)

lemma authorized_string:
  assumes "authorized al scope name = d" and "d \<noteq> JNull"
  shows "\<exists>c \<in> set (al_composes al). cr_scope c = Some scope \<and> option_json (cr_file c) = name
     \<and> cr_sha256 c \<noteq> None \<and> option_json (cr_sha256 c) = d"
proof -
  obtain c where c: "deciding_row al scope name = Some c" "d = option_json (cr_sha256 c)"
    using assms by (auto simp: authorized_row split: option.splits)
  then have "c \<in> set (al_composes al)" "cr_scope c = Some scope" "option_json (cr_file c) = name"
    by (auto simp: deciding_row_def dest: find_in find_holds)
  moreover have "cr_sha256 c \<noteq> None" using c assms(2) by (auto simp: option_json_def split: option.splits)
  ultimately show ?thesis using c by blast
qed

definition quote_passes :: "inf_lib \<Rightarrow> int \<Rightarrow> provider \<Rightarrow> allowlist \<Rightarrow> string \<Rightarrow> bytes \<Rightarrow> bytes \<Rightarrow> bool" where
  "quote_passes L now p al subject quote data \<longleftrightarrow>
     (\<exists>v. verify (il_dcap L) (il_sha256 L) now quote al (Some subject) data (Some (pv_name p)) = Inr v \<and> v_ok v)"

text \<open>The evidence behind a positive verdict: the two quotes, what each binds, and the pinned composes.\<close>

definition evidence :: "inf_lib \<Rightarrow> verify_clock \<Rightarrow> provider \<Rightarrow> allowlist \<Rightarrow> report \<Rightarrow> string \<Rightarrow> bool" where
  "evidence L ck p al r subject \<longleftrightarrow>
     (\<exists>address addr nb quote l actions claimed h mquote up.
        text_field (rp_payload r) ''signing_address'' = Inr address
      \<and> hex_field (JStr address) ''signing_address'' (Some 20) = Inr addr
      \<and> from_hex (rp_nonce r) = Some nb
      \<and> hex_field (jget (rp_payload r) ''intel_quote'') ''intel_quote'' None = Inr quote
      \<and> quote_passes L (ck_quote ck) p al subject quote (addr @ replicate 12 0 @ nb)
      \<and> new_compose_log r = Inr (Some l) \<and> log_actions l = Inr actions
      \<and> text_field (cl_payload l) ''actions_hash'' = Inr claimed
      \<and> claimed = il_sha256 L (dumps (compact L) (JList actions))
      \<and> hex_field (JStr claimed) ''actions_hash'' None = Inr h
      \<and> hex_field (jget (cl_payload l) ''quote'') ''compose_manager_attestation quote'' None = Inr mquote
      \<and> quote_passes L (ck_log ck) p al subject mquote (h @ nb)
      \<and> started actions = Inr up
      \<and> (\<forall>name d. map_of up name = Some d \<longrightarrow> d = JNull \<or>
           (\<exists>c \<in> set (al_composes al). cr_scope c = Some (pv_name p) \<and> option_json (cr_file c) = name
              \<and> cr_sha256 c \<noteq> None \<and> option_json (cr_sha256 c) = d)))"

lemma nonce_bytes_Inr [simp]: "nonce_bytes n = Inr bs \<longleftrightarrow> from_hex n = Some bs"
  by (auto simp: nonce_bytes_def split: option.splits)

lemma new_compose_log_nonce: "new_compose_log r = Inr (Some l) \<Longrightarrow> cl_nonce l = rp_nonce r"
  by (auto simp: new_compose_log_def Let_def split: if_splits json.splits)

lemma verify_composes_None:
  assumes "verify_composes L ck p al r subject = Inr None"
  obtains l actions claimed h mquote nb up where
    "new_compose_log r = Inr (Some l)" "log_actions l = Inr actions"
    "text_field (cl_payload l) ''actions_hash'' = Inr claimed" "computed_hash L actions = claimed"
    "hex_field (JStr claimed) ''actions_hash'' None = Inr h" "from_hex (rp_nonce r) = Some nb"
    "hex_field (jget (cl_payload l) ''quote'') ''compose_manager_attestation quote'' None = Inr mquote"
    "quote_passes L (ck_log ck) p al subject mquote (h @ nb)"
    "started actions = Inr up" "unauthorized al (pv_name p) up = []"
proof -
  obtain l where l: "new_compose_log r = Inr (Some l)"
    using assms by (auto simp: verify_composes_def split: option.splits)
  then have nonce: "cl_nonce l = rp_nonce r" by (rule new_compose_log_nonce)
  obtain actions where a: "log_actions l = Inr actions"
    using assms by (auto simp: verify_composes_def l)
  obtain claimed where cl: "text_field (cl_payload l) ''actions_hash'' = Inr claimed" "computed_hash L actions = claimed"
    using assms by (auto simp: verify_composes_def l a split: if_splits)
  obtain mquote where mq: "hex_field (jget (cl_payload l) ''quote'') ''compose_manager_attestation quote'' None = Inr mquote"
    using assms by (auto simp: verify_composes_def l a cl)
  obtain data where data: "log_report_data l claimed = Inr data"
    using assms by (auto simp: verify_composes_def l a cl mq)
  obtain manager where mg: "verify (il_dcap L) (il_sha256 L) (ck_log ck) mquote al (Some subject) data
        (Some (pv_name p)) = Inr manager" "v_ok manager"
    using assms by (auto simp: verify_composes_def l a cl mq data split: if_splits)
  obtain up where up: "started actions = Inr up" "unauthorized al (pv_name p) up = []"
    using assms by (auto simp: verify_composes_def l a cl mq data mg split: if_splits)
  obtain h nb where "hex_field (JStr claimed) ''actions_hash'' None = Inr h" "from_hex (rp_nonce r) = Some nb" "data = h @ nb"
    using data nonce by (auto simp: log_report_data_def)
  moreover from this mg have "quote_passes L (ck_log ck) p al subject mquote (h @ nb)"
    by (auto simp: quote_passes_def)
  ultimately show thesis using l a cl mq up by (intro that)
qed

lemma verify_composes_refuses: "verify_composes L ck p al r subject = Inr (Some w) \<Longrightarrow> \<not> v_ok w"
  by (auto simp: verify_composes_def split: option.splits if_splits)

lemma judge_ok:
  assumes "judge L ck p al r subject = Inr v" and "v_ok v"
  shows "v_attested v \<and> v_subject v = Some subject \<and> al_measurements al \<noteq> [] \<and> evidence L ck p al r subject"
proof -
  obtain quote where qu: "hex_field (jget (rp_payload r) ''intel_quote'') ''intel_quote'' None = Inr quote"
    using assms by (auto simp: judge_def)
  obtain data where data: "expected_report_data r = Inr data"
    using assms by (auto simp: judge_def qu)
  obtain w where w: "verify (il_dcap L) (il_sha256 L) (ck_quote ck) quote al (Some subject) data (Some (pv_name p)) = Inr w"
    using assms by (auto simp: judge_def qu data)
  have ok: "v_ok w" using assms by (auto simp: judge_def qu data w split: if_splits)
  obtain c where c0: "verify_composes L ck p al r subject = Inr c"
    using assms ok by (auto simp: judge_def qu data w)
  with assms ok verify_composes_refuses have "c = None" and "v = w"
    by (auto simp: judge_def qu data w split: option.splits)
  with c0 w have c: "verify_composes L ck p al r subject = Inr None"
    and v': "verify (il_dcap L) (il_sha256 L) (ck_quote ck) quote al (Some subject) data (Some (pv_name p)) = Inr v"
    by simp_all
  obtain address addr nb where q: "text_field (rp_payload r) ''signing_address'' = Inr address"
    "hex_field (JStr address) ''signing_address'' (Some 20) = Inr addr" "from_hex (rp_nonce r) = Some nb"
    and d: "data = addr @ replicate 12 0 @ nb"
    using data by (auto simp: expected_report_data_def ADDRESS_BYTES_def PAD_BYTES_def)
  have v: "verify (il_dcap L) (il_sha256 L) (ck_quote ck) quote al (Some subject)
      (addr @ replicate 12 0 @ nb) (Some (pv_name p)) = Inr v" using v' d by simp
  have passes: "quote_passes L (ck_quote ck) p al subject quote (addr @ replicate 12 0 @ nb)"
    using v assms(2) by (auto simp: quote_passes_def)
  from c obtain l actions claimed h mquote nb' up where m:
    "new_compose_log r = Inr (Some l)" "log_actions l = Inr actions"
    "text_field (cl_payload l) ''actions_hash'' = Inr claimed" "computed_hash L actions = claimed"
    "hex_field (JStr claimed) ''actions_hash'' None = Inr h" "from_hex (rp_nonce r) = Some nb'"
    "hex_field (jget (cl_payload l) ''quote'') ''compose_manager_attestation quote'' None = Inr mquote"
    "quote_passes L (ck_log ck) p al subject mquote (h @ nb')"
    "started actions = Inr up" "unauthorized al (pv_name p) up = []" by (rule verify_composes_None)
  have pinned: "d = JNull \<or> (\<exists>c \<in> set (al_composes al). cr_scope c = Some (pv_name p)
      \<and> option_json (cr_file c) = name \<and> cr_sha256 c \<noteq> None \<and> option_json (cr_sha256 c) = d)"
    if "map_of up name = Some d" for name d
  proof -
    have "authorized al (pv_name p) name = d"
      using m(10) map_of_SomeD [OF that] by (auto simp: unauthorized_none)
    then show ?thesis using authorized_string by blast
  qed
  have "nb' = nb" using q(3) m(6) by simp
  with q qu passes m pinned have "evidence L ck p al r subject"
    unfolding evidence_def computed_hash_def by blast
  with verify_ok_facts [OF v assms(2)] show ?thesis by simp
qed

section \<open>A process that verifies\<close>

text \<open>
  What a process may do to its verdicts over its life: verify providers of the catalog, with any
  answer of the network, at any time and under any environment, or start again. The list holds
  its calls, the latest first.
\<close>

type_synonym call = "inf_lib \<times> date \<times> verify_clock \<times> string \<times> provider"

inductive inference_run :: "call list \<Rightarrow> inference \<Rightarrow> bool" where
  booted: "inference_run [] fresh_inference"
| verified: "inference_run calls s \<Longrightarrow> p \<in> set catalog \<Longrightarrow>
    verify_provider L today ck nonce p s = (r, s') \<Longrightarrow>
    inference_run ((L, today, ck, nonce, p) # calls) s'"
| rebooted: "inference_run calls s \<Longrightarrow> inference_run calls fresh_inference"

text \<open>A call that read a report of enclave \<open>ident\<close> echoing its own nonce and judged it fit.\<close>

definition judged_fit :: "call \<Rightarrow> allowlist \<Rightarrow> string \<Rightarrow> verdict \<Rightarrow> bool" where
  "judged_fit c al ident v =
     (case c of (L, today, ck, nonce, p) \<Rightarrow>
        \<exists>r. fetch_report L nonce p = Inr r \<and> rp_nonce r = nonce \<and> enclave_identity r = Inr ident
          \<and> text_field (rp_payload r) ''request_nonce'' = Inr nonce
          \<and> jget (rp_payload r) ''model_name'' = JStr (pv_model p)
          \<and> judge L ck p al r (pv_name p @ '':'' @ ident) = Inr v \<and> v_ok v)"

text \<open>The pin list was read from the file the environment of one of the calls named.\<close>

definition loaded_by :: "call list \<Rightarrow> allowlist \<Rightarrow> bool" where
  "loaded_by calls al \<longleftrightarrow> (\<exists>(L, c) \<in> set calls. \<exists>path.
     allowlist_path L = Inr path \<and> load_policy (il_files L path) = Inr al)"

definition policy_vouched :: "call list \<Rightarrow> inference \<Rightarrow> bool" where
  "policy_vouched calls s \<longleftrightarrow> (\<forall>path al. if_policy s = Some (path, al) \<longrightarrow> loaded_by calls al)"

definition cache_vouched :: "call list \<Rightarrow> verdict_cache \<Rightarrow> bool" where
  "cache_vouched calls c \<longleftrightarrow>
     (\<forall>subject v t. c subject = Some (v, t) \<longrightarrow> v_ok v \<longrightarrow>
        (\<exists>L today ck nonce p al ident. (L, today, ck, nonce, p) \<in> set calls \<and> p \<in> set catalog \<and> ck_put ck = t
           \<and> loaded_by calls al \<and> subject = pv_name p @ '':'' @ ident
           \<and> judged_fit (L, today, ck, nonce, p) al ident v))"

lemma fetch_report_nonce: "fetch_report L nonce p = Inr r \<Longrightarrow> rp_nonce r = nonce"
  by (auto simp: fetch_report_def new_report_def split: if_splits sum.splits json.splits inf_error.splits)

lemma cache_ops [simp]:
  "cached_verdict now subject s = (Inr (cache_get now subject (if_cache s)), s)"
  "remember_verdict now subject v s = (Inr v, s\<lparr>if_cache := cache_put now subject v (if_cache s)\<rparr>)"
  by (simp_all add: cached_verdict_def remember_verdict_def)

lemma mode_now_cache: "mode_now L today s = (r, s') \<Longrightarrow> if_cache s' = if_cache s"
  by (auto simp: mode_now_def and_then_def pin_list_def of_sum_def give_def Let_def
      split: prod.splits sum.splits option.splits if_splits)

text \<open>The two checks before the cache, as one condition on the report.\<close>

definition answers_us :: "provider \<Rightarrow> report \<Rightarrow> string \<Rightarrow> bool" where
  "answers_us p r ident \<longleftrightarrow> enclave_identity r = Inr ident
     \<and> text_field (rp_payload r) ''request_nonce'' = Inr (rp_nonce r)
     \<and> jget (rp_payload r) ''model_name'' = JStr (pv_model p)"

lemma verify_report_hit:
  "answers_us p r ident \<Longrightarrow> cache_get (ck_get ck) (pv_name p @ '':'' @ ident) (if_cache s) = Some v \<Longrightarrow>
   verify_report L ck p al r s = (Inr v, s)"
  by (simp add: verify_report_def answers_us_def and_then_def of_sum_def give_def Let_def)

lemma verify_report_judges:
  assumes "answers_us p r ident" and "cache_get (ck_get ck) (pv_name p @ '':'' @ ident) (if_cache s) = None"
  shows "verify_report L ck p al r s =
    (let subject = pv_name p @ '':'' @ ident;
         keep = (\<lambda>v. (Inr v, s\<lparr>if_cache := cache_put (ck_put ck) subject v (if_cache s)\<rparr>))
     in case judge L ck p al r subject of
          Inl (MalformedReport e) \<Rightarrow> keep (refused (Some subject) (''malformed report: '' @ e) None)
        | Inl e \<Rightarrow> (Inl e, s)
        | Inr v \<Rightarrow> keep v)"
  using assms by (auto simp: verify_report_def answers_us_def and_then_def of_sum_def raise_def Let_def
      split: sum.splits inf_error.splits)

lemma verify_report_refuses:
  assumes "\<And>ident. \<not> answers_us p r ident" and "verify_report L ck p al r s = (q, s')"
  shows "s' = s \<and> (\<forall>v. q = Inr v \<longrightarrow> \<not> v_ok v)"
proof (cases "enclave_identity r")
  case (Inl e)
  with assms(2) show ?thesis by (cases e) (auto simp: verify_report_def give_def raise_def)
next
  case (Inr ident)
  with assms show ?thesis
    by (auto simp: verify_report_def answers_us_def and_then_def of_sum_def give_def Let_def
        split: sum.splits if_splits)
qed

lemma verify_report_ok:
  assumes "verify_report L ck p al r s = (Inr v, s')" and "v_ok v"
  obtains ident where "answers_us p r ident"
    "(\<exists>t. if_cache s (pv_name p @ '':'' @ ident) = Some (v, t) \<and> ck_get ck < t + 24 * 3600)
       \<or> judge L ck p al r (pv_name p @ '':'' @ ident) = Inr v"
proof -
  obtain ident where id: "answers_us p r ident"
    using verify_report_refuses [of p r L ck al s] assms by blast
  show thesis
  proof (cases "cache_get (ck_get ck) (pv_name p @ '':'' @ ident) (if_cache s)")
    case None
    from verify_report_judges [OF id None] assms have "judge L ck p al r (pv_name p @ '':'' @ ident) = Inr v"
      by (auto simp: Let_def split: sum.splits inf_error.splits)
    with id show thesis by (intro that) auto
  next
    case (Some w)
    with verify_report_hit [OF id Some] assms(1) have "w = v" by simp
    with Some obtain t where "if_cache s (pv_name p @ '':'' @ ident) = Some (v, t)" "\<not> cache_ttl v \<le> ck_get ck - t"
      by (auto simp: cache_get_def split: option.splits if_splits)
    with cache_ttl_bounds(1) [of v] have "ck_get ck < t + 24 * 3600" by (simp add: RECHECK_SECONDS_def)
    with id \<open>if_cache s _ = _\<close> show thesis by (intro that) auto
  qed
qed

lemma verify_report_cache:
  assumes "verify_report L ck p al r s = (q, s')"
  shows "if_cache s' = if_cache s \<or> (\<exists>ident v. answers_us p r ident
     \<and> if_cache s' = cache_put (ck_put ck) (pv_name p @ '':'' @ ident) v (if_cache s)
     \<and> (v_ok v \<longrightarrow> judge L ck p al r (pv_name p @ '':'' @ ident) = Inr v))"
proof (cases "\<exists>ident. answers_us p r ident")
  case False
  with verify_report_refuses assms show ?thesis by blast
next
  case True
  then obtain ident where id: "answers_us p r ident" by blast
  show ?thesis
  proof (cases "cache_get (ck_get ck) (pv_name p @ '':'' @ ident) (if_cache s)")
    case None
    show ?thesis
    proof (cases "judge L ck p al r (pv_name p @ '':'' @ ident)")
      case (Inr v)
      with verify_report_judges [OF id None, of L al] assms have
        "if_cache s' = cache_put (ck_put ck) (pv_name p @ '':'' @ ident) v (if_cache s)" by (auto simp: Let_def)
      with id Inr show ?thesis by blast
    next
      case (Inl e)
      define w where "w = (\<lambda>m. refused (Some (pv_name p @ '':'' @ ident)) (''malformed report: '' @ m) None)"
      have "s' = s \<or> (\<exists>m. if_cache s' = cache_put (ck_put ck) (pv_name p @ '':'' @ ident) (w m) (if_cache s))"
        using verify_report_judges [OF id None, of L al] assms Inl by (cases e) (auto simp: Let_def w_def)
      moreover have "\<not> v_ok (w m)" for m by (simp add: w_def)
      ultimately show ?thesis using id by blast
    qed
  next
    case (Some w)
    with verify_report_hit [OF id Some] assms show ?thesis by simp
  qed
qed

lemma loaded_by_Cons: "loaded_by calls al \<Longrightarrow> loaded_by (c # calls) al"
  by (auto simp: loaded_by_def)

lemma mode_now_loaded:
  assumes "mode_now L today s = (r, s')" and "policy_vouched calls s"
  shows "policy_vouched ((L, c) # calls) s' \<and> (\<forall>m al. r = Inr (m, al) \<longrightarrow> loaded_by ((L, c) # calls) al)"
proof -
  obtain q where q: "pin_list L s = (q, s')" and qr: "\<And>m al. r = Inr (m, al) \<Longrightarrow> q = Inr al"
    using assms(1) by (auto simp: mode_now_def and_then_def give_def of_sum_def split: prod.splits sum.splits)
  have "policy_vouched ((L, c) # calls) s' \<and> (\<forall>al. q = Inr al \<longrightarrow> loaded_by ((L, c) # calls) al)"
    using q assms(2) loaded_by_Cons
    by (fastforce simp: pin_list_def policy_vouched_def loaded_by_def Let_def
        split: sum.splits option.splits prod.splits if_splits)
  with qr show ?thesis by blast
qed

lemma verify_report_policy: "verify_report L ck p al r s = (q, s') \<Longrightarrow> if_policy s' = if_policy s"
  by (auto simp: verify_report_def and_then_def give_def raise_def of_sum_def Let_def
      split: sum.splits inf_error.splits if_splits option.splits)

lemma inference_run_vouched:
  "inference_run calls s \<Longrightarrow> cache_vouched calls (if_cache s) \<and> policy_vouched calls s"
proof (induction rule: inference_run.induct)
  case booted
  then show ?case by (simp add: cache_vouched_def policy_vouched_def fresh_inference_def cache_clear_def)
next
  case (rebooted calls s)
  then show ?case by (simp add: cache_vouched_def policy_vouched_def fresh_inference_def cache_clear_def)
next
  case (verified calls s p L today ck nonce q s')
  let ?calls = "(L, today, ck, nonce, p) # calls"
  have old: "cache_vouched ?calls (if_cache s)"
    using verified.IH loaded_by_Cons unfolding cache_vouched_def by (meson list.set_intros(2))
  obtain q1 s1 where m: "mode_now L today s = (q1, s1)" by fastforce
  have loaded: "policy_vouched ?calls s1" "\<And>m al. q1 = Inr (m, al) \<Longrightarrow> loaded_by ?calls al"
    using mode_now_loaded [OF m conjunct2 [OF verified.IH], of "(today, ck, nonce, p)"] by auto
  have same: "if_cache s1 = if_cache s" by (rule mode_now_cache [OF m])
  consider "s' = s1" | mode al r where "q1 = Inr (mode, al)" "fetch_report L nonce p = Inr r"
      "verify_report L ck p al r s1 = (q, s')"
    using verified.hyps(3)
    by (auto simp: verify_provider_def m split: prod.splits sum.splits inf_error.splits if_splits)
  then show ?case
  proof cases
    case 1
    with old loaded same show ?thesis by simp
  next
    case 2
    then have al: "loaded_by ?calls al" and pol: "policy_vouched ?calls s'"
      using loaded verify_report_policy [OF 2(3)] by (auto simp: policy_vouched_def)
    have "cache_vouched ?calls (if_cache s')"
    proof (cases "if_cache s' = if_cache s")
      case True
      with old show ?thesis by simp
    next
      case False
      with verify_report_cache [OF 2(3)] same obtain ident v where
        id: "answers_us p r ident" and put: "if_cache s' = cache_put (ck_put ck) (pv_name p @ '':'' @ ident) v (if_cache s)"
        and ok: "v_ok v \<Longrightarrow> judge L ck p al r (pv_name p @ '':'' @ ident) = Inr v" by auto
      have fit: "judged_fit (L, today, ck, nonce, p) al ident v" if "v_ok v"
        using id 2(2) ok [OF that] that fetch_report_nonce [OF 2(2)]
        by (auto simp: judged_fit_def answers_us_def)
      show ?thesis
        unfolding cache_vouched_def
      proof (intro allI impI)
        fix subject w t
        assume hit: "if_cache s' subject = Some (w, t)" and okw: "v_ok w"
        show "\<exists>L' today' ck' nonce' p' al' ident. (L', today', ck', nonce', p') \<in> set ?calls \<and> p' \<in> set catalog
            \<and> ck_put ck' = t \<and> loaded_by ?calls al' \<and> subject = pv_name p' @ '':'' @ ident
            \<and> judged_fit (L', today', ck', nonce', p') al' ident w"
        proof (cases "subject = pv_name p @ '':'' @ ident")
          case True
          with hit put okw have "w = v" "t = ck_put ck" by (auto simp: cache_put_def)
          with fit okw True al verified.hyps(2) show ?thesis
            by (metis list.set_intros(1))
        next
          case False
          with hit put have "if_cache s subject = Some (w, t)" by (simp add: cache_put_def)
          with old okw show ?thesis unfolding cache_vouched_def by blast
        qed
      qed
    qed
    with pol show ?thesis by simp
  qed
qed

text \<open>No name of the catalog is a prefix of another up to the colon, so a subject names one provider.\<close>

lemma catalog_name_list: "map pv_name catalog = [''deepseek'', ''nearai-glm'', ''nearai-gpt-oss'']"
  by (simp add: catalog_def)

lemma catalog_one_name: "p \<in> set catalog \<Longrightarrow> q \<in> set catalog \<Longrightarrow> pv_name p = pv_name q \<Longrightarrow> p = q"
proof -
  have "distinct (map pv_name catalog)" by (simp add: catalog_name_list)
  then show "p \<in> set catalog \<Longrightarrow> q \<in> set catalog \<Longrightarrow> pv_name p = pv_name q \<Longrightarrow> p = q"
    by (metis distinct_map inj_onD)
qed

lemma catalog_no_colon:
  assumes "p \<in> set catalog"
  shows "CHR '':'' \<notin> set (pv_name p)"
proof -
  have "pv_name p \<in> set (map pv_name catalog)" using assms by simp
  then show ?thesis by (auto simp: catalog_name_list)
qed

lemma catalog_subject:
  assumes "p \<in> set catalog" "q \<in> set catalog" "pv_name p @ '':'' @ i = pv_name q @ '':'' @ j"
  shows "p = q \<and> i = j"
proof -
  from assms(3) have "split_on (CHR '':'') (pv_name p @ CHR '':'' # i) = split_on (CHR '':'') (pv_name q @ CHR '':'' # j)"
    by simp
  then have "pv_name p = pv_name q"
    by (simp add: split_on_append [OF catalog_no_colon [OF assms(1)]] split_on_append [OF catalog_no_colon [OF assms(2)]])
  with assms catalog_one_name show ?thesis by simp
qed

lemma catalog_well_specified: "p \<in> set catalog \<Longrightarrow> well_specified p"
  by (auto simp: catalog_def well_specified_def truthy_def)

lemma catalog_names: "map (\<lambda>p. (pv_name p, pv_key_env p)) catalog = PROVIDERS"
  by (simp add: catalog_def PROVIDERS_def)

lemma provider_named_in: "provider_named name = Some p \<Longrightarrow> p \<in> set catalog"
  by (auto simp: provider_named_def find_Some_iff)

lemma available_in: "p \<in> set (available_providers e) \<longleftrightarrow> p \<in> set catalog \<and> configured e p"
  by (auto simp: available_providers_def)

lemma resolve_in_catalog:
  assumes "resolve_provider e acct = Inr p"
  shows "p \<in> set catalog \<and> configured e p"
proof -
  have one: "available_providers e = [q] \<Longrightarrow> q \<in> set catalog \<and> configured e q" for q
    using available_in [of q e] by simp
  show ?thesis
    using assms
    by (auto simp: resolve_provider_def Let_def split: option.splits if_splits list.splits
        dest: provider_named_in one)
qed

text \<open>
  C19: no client for a confidential provider exists unless its enclave was checked. Outside the
  mode that accepts without verifying, which a pin list with measurements rules out, the endpoint
  has in this very call echoed our nonce and named the model; and the two quotes, the hash of the
  compose log and a pin for the digest of everything it says is running have been checked, in this call or
  in one of the process's calls of the last day about the same identity of the same provider.
  A running compose for which the log gives no digest needs no pin.
\<close>

theorem confidential_client_is_attested:
  assumes "inference_run calls s" and "make_client L today ck nonce acct s = (Inr c, s')"
    and "pv_confidential (lc_provider c)" and "p = lc_provider c" and "me = (L, today, ck, nonce, p)"
  shows "(\<exists>al s1. mode_now L today s = (Inr (DEV_INSECURE, al), s1) \<and> al_measurements al = [])
    \<or> (\<exists>r ident. fetch_report L nonce p = Inr r \<and> rp_nonce r = nonce \<and> answers_us p r ident
         \<and> ((\<exists>al. loaded_by (me # calls) al \<and> evidence L ck p al r (pv_name p @ '':'' @ ident))
            \<or> (\<exists>L' today' ck' nonce' al r'. (L', today', ck', nonce', p) \<in> set calls
                 \<and> ck_get ck < ck_put ck' + 24 * 3600 \<and> loaded_by calls al
                 \<and> fetch_report L' nonce' p = Inr r' \<and> rp_nonce r' = nonce' \<and> answers_us p r' ident
                 \<and> evidence L' ck' p al r' (pv_name p @ '':'' @ ident))))"
proof -
  have res: "resolve_provider (il_env L) acct = Inr p"
    using assms(2,4) by (auto simp: make_client_def split: if_splits)
  then have cat: "p \<in> set catalog" using resolve_in_catalog by blast
  then have att: "attests p"
    using catalog_well_specified [OF cat] assms(3,4) by (simp add: attests_def well_specified_def)
  obtain v s1 where v: "verify_provider L today ck nonce p s = (Inr v, s1)" "v_ok v"
    using assms(2) att res by (auto simp: make_client_def require_provider_def split: if_splits)
  obtain mode al s2 where m: "mode_now L today s = (Inr (mode, al), s2)"
    using v by (auto simp: verify_provider_def split: prod.splits sum.splits inf_error.splits)
  note inv = inference_run_vouched [OF assms(1)]
  show ?thesis
  proof (cases "mode = DEV_INSECURE")
    case True
    have "al_measurements al = []"
      using m True by (auto simp: mode_now_def inference_mode_def dest: policy_mode_dev)
    with m True show ?thesis by blast
  next
    case False
    then obtain r where r: "fetch_report L nonce p = Inr r" "verify_report L ck p al r s2 = (Inr v, s1)"
      using v m by (auto simp: verify_provider_def split: sum.splits)
    have al: "loaded_by (me # calls) al"
      using mode_now_loaded [OF m conjunct2 [OF inv]] assms(5) by blast
    obtain ident where id: "answers_us p r ident"
      and how: "(\<exists>t. if_cache s2 (pv_name p @ '':'' @ ident) = Some (v, t) \<and> ck_get ck < t + 24 * 3600)
         \<or> judge L ck p al r (pv_name p @ '':'' @ ident) = Inr v"
      by (rule verify_report_ok [OF r(2) v(2)])
    from how show ?thesis
    proof
      assume "judge L ck p al r (pv_name p @ '':'' @ ident) = Inr v"
      from judge_ok [OF this v(2)] al r(1) id fetch_report_nonce [OF r(1)] show ?thesis by blast
    next
      assume "\<exists>t. if_cache s2 (pv_name p @ '':'' @ ident) = Some (v, t) \<and> ck_get ck < t + 24 * 3600"
      then obtain t where t: "if_cache s (pv_name p @ '':'' @ ident) = Some (v, t)" "ck_get ck < t + 24 * 3600"
        using mode_now_cache [OF m] by auto
      with inv v(2) obtain L' today' ck' nonce' q al' j where past: "(L', today', ck', nonce', q) \<in> set calls"
        "q \<in> set catalog" "ck_put ck' = t" "loaded_by calls al'" "pv_name p @ '':'' @ ident = pv_name q @ '':'' @ j"
        "judged_fit (L', today', ck', nonce', q) al' j v"
        unfolding cache_vouched_def by blast
      have "q = p" "j = ident" using catalog_subject [OF cat past(2,5)] by simp_all
      with past(6) obtain r' where "fetch_report L' nonce' p = Inr r'" "rp_nonce r' = nonce'" "answers_us p r' ident"
        "judge L' ck' p al' r' (pv_name p @ '':'' @ ident) = Inr v"
        by (auto simp: judged_fit_def answers_us_def)
      with judge_ok [OF _ v(2)] past(1,3,4) t(2) \<open>q = p\<close> r(1) id fetch_report_nonce [OF r(1)]
      show ?thesis by blast
    qed
  qed
qed

section \<open>A provider on concrete values\<close>

definition demo_pins :: allowlist where
  "demo_pins =
     \<lparr>al_mode = None,
      al_measurements = [\<lparr>entry_name = Some ''glm'', entry_scope = Some ''nearai-glm'',
        entry_field = (\<lambda>f. if f = ''mr_td'' then Some ''aa'' else None)\<rparr>],
      al_expires = None, al_tcb_status = [''UpToDate''], al_rejected = [], al_quote_oid = None,
      al_binding = None, al_pccs_url = Some ''https://pccs'',
      al_composes = [\<lparr>cr_scope = Some ''nearai-glm'', cr_file = Some ''model.yaml'', cr_sha256 = Some ''d1''\<rparr>]\<rparr>"

definition up_action :: "string \<Rightarrow> json \<Rightarrow> json" where
  "up_action name d = JObj [(''action'', JStr ''compose_up''), (''file'', JStr name), (''file_sha256'', d)]"

definition demo_actions :: "json list" where
  "demo_actions = [up_action ''model.yaml'' (JStr ''d1''),
     JObj [(''action'', JStr ''compose_up''), (''file'', JStr ''other.yaml'')]]"

definition demo_payload :: "(string \<times> json) list" where
  "demo_payload =
     [(''signing_address'', JStr (''0x'' @ concat (replicate 20 ''aa''))), (''request_nonce'', JStr ''00ff''),
      (''model_name'', JStr ''z-ai/glm-5.2''), (''intel_quote'', JStr ''01''),
      (''compose_manager_attestation'', JObj [(''actions'', JList demo_actions),
         (''actions_hash'', JStr ''abcd''), (''quote'', JStr ''02'')])]"

definition demo_inf_lib :: inf_lib where
  "demo_inf_lib =
     \<lparr>il_env = (\<lambda>name. if name = ''NEARAI_API_KEY'' then Some ''key'' else None),
      il_files = (\<lambda>_. Object demo_pins),
      il_dcap = Some \<lparr>dcap_parse = (\<lambda>q. Inr \<lparr>pq_is_tdx = True,
          pq_report_data = (if q = [1] then replicate 20 0xAA @ replicate 12 0 else [0xAB, 0xCD]) @ [0, 0xFF],
          pq_register = (\<lambda>f. if f = ''mr_td'' then Some ''aa'' else None)\<rparr>),
        dcap_collateral = (\<lambda>u q. Inr []),
        dcap_verify = (\<lambda>q c n. Inr \<lparr>tr_status = ''UpToDate'', tr_advisories = []\<rparr>)\<rparr>,
      il_sha256 = (\<lambda>_. ''abcd''), il_fetch = (\<lambda>u n. Inr (JObj demo_payload)), il_repr = (\<lambda>_. []), il_str = (\<lambda>_. []),
      il_float = (\<lambda>_. []), il_message = (\<lambda>_. [])\<rparr>"

definition demo_reader :: account where
  "demo_reader =
     \<lparr>ac_id = ''a@x.com'', ac_handle = None,
      ac_identity = \<lparr>id_first = ''A'', id_last = ''B'', id_first_aliases = [], id_emails = [], id_phones = [],
        id_phone_digits = [], id_contacts = [], id_account = ''a@x.com'', id_analyzer = False\<rparr>,
      ac_state_file = [], ac_telegram = None, ac_token_file = None, ac_plan_status = ''active'',
      ac_polar_customer_id = None, ac_timezone = ''UTC'', ac_auto_schedule = False, ac_community_calendar = None,
      ac_voice_file = None, ac_inference_provider = Some ''nearai-glm'', ac_pii_analyzer = False, ac_ban_dashes = False\<rparr>"

definition demo_clock :: verify_clock where
  "demo_clock = \<lparr>ck_get = 0, ck_quote = 0, ck_log = 0, ck_put = 1\<rparr>"

lemma demo_client:
  "fst (make_client demo_inf_lib (2026, 1, 1) demo_clock ''00ff'' (Some demo_reader) fresh_inference)
     = Inr \<lparr>lc_provider = catalog ! 1, lc_key = ''key'', lc_base_url = ''https://glm-5-2.completions.near.ai/v1''\<rparr>"
  by code_simp

theorem confidential_client_is_attested_witness:
  "(\<exists>al s1. mode_now demo_inf_lib (2026, 1, 1) fresh_inference = (Inr (DEV_INSECURE, al), s1) \<and> al_measurements al = [])
   \<or> (\<exists>r ident. fetch_report demo_inf_lib ''00ff'' (catalog ! 1) = Inr r \<and> answers_us (catalog ! 1) r ident)"
proof -
  obtain c s' where c: "make_client demo_inf_lib (2026, 1, 1) demo_clock ''00ff'' (Some demo_reader) fresh_inference
      = (Inr c, s')" and p: "lc_provider c = catalog ! 1"
    using demo_client by (metis llm_client.select_convs(1) prod.collapse)
  have "pv_confidential (lc_provider c)" unfolding p by (simp add: catalog_def)
  from confidential_client_is_attested [OF booted c this p [symmetric] refl] show ?thesis by blast
qed

lemma demo_started:
  "started demo_actions = Inr [(JStr ''model.yaml'', JStr ''d1''), (JStr ''other.yaml'', JNull)]"
  by code_simp

theorem compose_runs_until_stopped_witness:
  "\<exists>pre a post. demo_actions = pre @ a # post \<and> brings ''compose_up'' (JStr ''model.yaml'') a
     \<and> attr_get a ''file_sha256'' = Inr (JStr ''d1'')"
  using compose_runs_until_stopped [OF demo_started, of "JStr ''model.yaml''" "JStr ''d1''"] by auto

lemma started_distinct: "started actions = Inr up \<Longrightarrow> distinct (map fst up)"
proof -
  have step: "distinct (map fst up')" if "replay_action a up = Inr up'" "distinct (map fst up)" for a up up'
    using that by (auto simp: replay_action_def distinct_update distinct_delete split: if_splits)
  have "distinct (map fst up')" if "replay_from as up = Inr up'" "distinct (map fst up)" for as up up'
    using that by (induction as arbitrary: up) (auto dest: step)
  then show "started actions = Inr up \<Longrightarrow> distinct (map fst up)" by (simp add: started_def)
qed

text \<open>
  C20: which running composes the check of the compose log stops at. Once the log is there, its
  actions hash to what it claims and its quote passes, the check accepts exactly when every file
  the actions leave running has the digest of the last row of the provider's pin list that names
  it, and, where no row names it, no digest at all. So a compose nobody pinned is refused when the
  log gives its digest, and passes when the log leaves the digest out.
\<close>

theorem unpinned_compose_passes:
  assumes "new_compose_log r = Inr (Some l)" and "log_actions l = Inr actions"
    and "text_field (cl_payload l) ''actions_hash'' = Inr (computed_hash L actions)"
    and "hex_field (jget (cl_payload l) ''quote'') ''compose_manager_attestation quote'' None = Inr quote"
    and "log_report_data l (computed_hash L actions) = Inr data"
    and "quote_passes L (ck_log ck) p al subject quote data"
    and "started actions = Inr up"
  shows "verify_composes L ck p al r subject = Inr None \<longleftrightarrow>
    (\<forall>name d. map_of up name = Some d \<longrightarrow>
       (case find (\<lambda>c. option_json (cr_file c) = name)
               (rev (filter (\<lambda>c. cr_scope c = Some (pv_name p)) (al_composes al))) of
          None \<Rightarrow> d = JNull
        | Some c \<Rightarrow> d = option_json (cr_sha256 c)))"
proof -
  obtain v where v: "verify (il_dcap L) (il_sha256 L) (ck_log ck) quote al (Some subject) data (Some (pv_name p)) = Inr v"
    "v_ok v" using assms(6) by (auto simp: quote_passes_def)
  have "verify_composes L ck p al r subject = Inr None \<longleftrightarrow> unauthorized al (pv_name p) up = []"
    by (auto simp: verify_composes_def assms v)
  also have "\<dots> \<longleftrightarrow> (\<forall>name d. map_of up name = Some d \<longrightarrow> authorized al (pv_name p) name = d)"
    by (auto simp: unauthorized_none map_of_eq_Some_iff [OF started_distinct [OF assms(7)]])
  moreover have "authorized al (pv_name p) name = d \<longleftrightarrow>
      (case deciding_row al (pv_name p) name of None \<Rightarrow> d = JNull | Some c \<Rightarrow> d = option_json (cr_sha256 c))" for name d
    by (auto simp: authorized_row split: option.splits)
  ultimately show ?thesis unfolding deciding_row_def by simp
qed

lemma demo_log:
  "new_compose_log \<lparr>rp_payload = demo_payload, rp_nonce = ''00ff''\<rparr>
     = Inr (Some \<lparr>cl_payload = [(''actions'', JList demo_actions), (''actions_hash'', JStr ''abcd''),
         (''quote'', JStr ''02'')], cl_nonce = ''00ff''\<rparr>)"
  by code_simp

lemma demo_log_quote:
  "quote_passes demo_inf_lib (ck_log demo_clock) (catalog ! 1) demo_pins ''s'' [2] [0xAB, 0xCD, 0, 0xFF]"
proof -
  have "case verify (il_dcap demo_inf_lib) (il_sha256 demo_inf_lib) (ck_log demo_clock) [2] demo_pins (Some ''s'')
      [0xAB, 0xCD, 0, 0xFF] (Some (pv_name (catalog ! 1))) of Inl _ \<Rightarrow> False | Inr v \<Rightarrow> v_ok v"
    by code_simp
  then show ?thesis by (auto simp: quote_passes_def split: sum.splits)
qed

theorem unpinned_compose_passes_witness:
  "verify_composes demo_inf_lib demo_clock (catalog ! 1) demo_pins \<lparr>rp_payload = demo_payload, rp_nonce = ''00ff''\<rparr> ''s''
     = Inr None
   \<and> (\<exists>up. started demo_actions = Inr up \<and> map_of up (JStr ''other.yaml'') = Some JNull)
   \<and> filter (\<lambda>c. cr_file c = Some ''other.yaml'') (al_composes demo_pins) = []"
proof -
  let ?l = "\<lparr>cl_payload = [(''actions'', JList demo_actions), (''actions_hash'', JStr ''abcd''),
         (''quote'', JStr ''02'')], cl_nonce = ''00ff''\<rparr>"
  have hash: "computed_hash demo_inf_lib demo_actions = ''abcd''"
    by (simp add: computed_hash_def demo_inf_lib_def)
  have "log_actions ?l = Inr demo_actions" by (simp add: log_actions_def demo_actions_def)
  moreover have "text_field (cl_payload ?l) ''actions_hash'' = Inr ''abcd''" by code_simp
  moreover have "hex_field (jget (cl_payload ?l) ''quote'') ''compose_manager_attestation quote'' None = Inr [2]"
    by code_simp
  moreover have "log_report_data ?l ''abcd'' = Inr [0xAB, 0xCD, 0, 0xFF]" by code_simp
  ultimately show ?thesis
    using demo_log_quote demo_started
      unpinned_compose_passes [OF demo_log, of demo_actions demo_inf_lib "[2]" "[0xAB, 0xCD, 0, 0xFF]"
        demo_clock "catalog ! 1" demo_pins "''s''"]
    by (auto simp: hash demo_pins_def catalog_def option_json_def)
qed

end
