(* ===== verification/Onboarding.thy ===== *)
theory Onboarding
  imports ChatLink JsonText
begin

text \<open>
  A Google consent made into an account: \<open>backend/onboarding/provisioning.py\<close> with the scopes of
  \<open>oauth_app.py\<close> and the address of \<open>gmail_api.profile_address\<close>. \<open>mail\<close> is what the mail process
  keeps between requests; the custody operations and the desk of the chat link act on their
  parts of it. Parameters beside those of the custody: the profile request (an exception
  \<open>exchange_code\<close> catches, or the parsed body), the registration of the mailbox watch, SHA-256,
  and the text of a custody error. File modes and the per-thread service objects are not
  modelled, nor a refresh token of Google's that is no string.
\<close>

section \<open>The mail process\<close>

record voice_job =
  vj_state :: string
  vj_started :: secs
  vj_error :: "string option"

record 'w mail =
  ml_toks :: "'w toks"
  ml_pending :: "string \<Rightarrow> change option"
  ml_proven :: "string \<Rightarrow> secs option"
  ml_username :: "json option"
  ml_jobs :: "string \<Rightarrow> voice_job option"

datatype mail_error =
    Provision int string | Refusal int string | OfCustody custody_error | OfDesk desk_error
  | OfStore acct_error | MailAssert string | MailUncaught string

type_synonym ('w, 'a) mail_op = "('w mail, mail_error, 'a) comp"

abbreviation ml_proc :: "'w mail \<Rightarrow> 'w proc" where
  "ml_proc s \<equiv> tk_proc (ml_toks s)"

abbreviation ml_store :: "'w mail \<Rightarrow> store" where
  "ml_store s \<equiv> pr_store (ml_proc s)"

definition in_toks :: "('w, 'a) tok \<Rightarrow> ('w, 'a) mail_op" where
  "in_toks f s = (case f (ml_toks s) of (r, t) \<Rightarrow> (lift_err OfCustody r, s\<lparr>ml_toks := t\<rparr>))"

definition set_proc :: "'w proc \<Rightarrow> 'w mail \<Rightarrow> 'w mail" where
  "set_proc p s = s\<lparr>ml_toks := (ml_toks s)\<lparr>tk_proc := p\<rparr>\<rparr>"

definition in_files :: "(store \<Rightarrow> (acct_error + 'a) \<times> store) \<Rightarrow> ('w, 'a) mail_op" where
  "in_files f s =
     (case f (ml_store s) of (r, st) \<Rightarrow> (lift_err OfStore r, set_proc ((ml_proc s)\<lparr>pr_store := st\<rparr>) s))"

definition in_desk :: "('w, 'a) desk_op \<Rightarrow> ('w, 'a) mail_op" where
  "in_desk f s =
     (case f \<lparr>dk_store = ml_store s, dk_pending = ml_pending s, dk_proven = ml_proven s,
              dk_username = ml_username s, dk_world = pr_world (ml_proc s)\<rparr> of
        (r, d) \<Rightarrow> (lift_err OfDesk r,
          (set_proc ((ml_proc s)\<lparr>pr_store := dk_store d, pr_world := dk_world d\<rparr>) s)
            \<lparr>ml_pending := dk_pending d, ml_proven := dk_proven d, ml_username := dk_username d\<rparr>))"

definition on_wire :: "('w \<Rightarrow> 'a \<times> 'w) \<Rightarrow> ('w, 'a) mail_op" where
  "on_wire f s =
     (case f (pr_world (ml_proc s)) of (x, w) \<Rightarrow> (Inr x, set_proc ((ml_proc s)\<lparr>pr_world := w\<rparr>) s))"

section \<open>Scopes\<close>

definition GMAIL_SCOPE :: string where "GMAIL_SCOPE = ''https://www.googleapis.com/auth/gmail.modify''"
definition EVENTS_SCOPE :: string where "EVENTS_SCOPE = ''https://www.googleapis.com/auth/calendar.events''"
definition ACL_SCOPE :: string where "ACL_SCOPE = ''https://www.googleapis.com/auth/calendar.acls.readonly''"

definition BASE_SCOPES :: "string list" where
  "BASE_SCOPES = [''openid'', ''email'', ''profile'', GMAIL_SCOPE, EVENTS_SCOPE]"

definition BASE_REQUIRED_SCOPES :: "string list" where
  "BASE_REQUIRED_SCOPES = [GMAIL_SCOPE, EVENTS_SCOPE]"

definition acl_scope_registered :: "env \<Rightarrow> bool" where
  "acl_scope_registered e \<longleftrightarrow> py_strip (env_get e ''LETTERLOCK_CALENDAR_ACL_SCOPE'') = ''1''"

definition scopes :: "env \<Rightarrow> string list" where
  "scopes e = BASE_SCOPES @ (if acl_scope_registered e then [ACL_SCOPE] else [])"

definition required_scopes :: "env \<Rightarrow> string list" where
  "required_scopes e = BASE_REQUIRED_SCOPES @ (if acl_scope_registered e then [ACL_SCOPE] else [])"

definition scope_param :: "env \<Rightarrow> string" where
  "scope_param e = join_with '' '' (scopes e)"

definition missing_scopes :: "env \<Rightarrow> string \<Rightarrow> string list" where
  "missing_scopes e granted = filter (\<lambda>scope. scope \<notin> set (py_words [] granted)) (required_scopes e)"

definition describe_scopes :: "string list \<Rightarrow> string" where
  "describe_scopes ss = join_with '', '' (map (\<lambda>s. last (split_on (CHR ''/'') s)) ss)"

definition scope_refusal :: "string list \<Rightarrow> string" where
  "scope_refusal missing =
     ''this sign-in did not grant everything Letterlock needs ('' @ describe_scopes missing
       @ ''); sign in again and leave every permission ticked''"

definition require_full_grant :: "env \<Rightarrow> string \<Rightarrow> mail_error + unit" where
  "require_full_grant e granted =
     (let missing = missing_scopes e granted
      in if missing \<noteq> [] then Inl (Provision 403 (scope_refusal missing)) else Inr ())"

text \<open>The assertion inside \<open>required_scopes\<close> never fires.\<close>

lemma required_are_asked: "set (required_scopes e) \<subseteq> set (scopes e)"
  by (auto simp: required_scopes_def scopes_def BASE_REQUIRED_SCOPES_def BASE_SCOPES_def)

section \<open>The consent URL\<close>

record 'w onboard_lib =
  ob_enclave :: "'w enclave"
  ob_google :: "'w google"
  ob_profile :: "json \<Rightarrow> 'w \<Rightarrow> (string + json) \<times> 'w"
  ob_watch :: "account \<Rightarrow> 'w \<Rightarrow> (string + unit) \<times> 'w"
  ob_sha256 :: "string \<Rightarrow> bytes"
  ob_text :: "custody_error \<Rightarrow> string"

abbreviation ob_env :: "'w onboard_lib \<Rightarrow> env" where
  "ob_env L \<equiv> en_env (ob_enclave L)"

abbreviation ob_site :: "'w onboard_lib \<Rightarrow> site_env" where
  "ob_site L \<equiv> en_site (ob_enclave L)"

definition AUTH_ENDPOINT :: string where "AUTH_ENDPOINT = ''https://accounts.google.com/o/oauth2/v2/auth''"

definition b64u :: "bytes \<Rightarrow> string" where
  "b64u raw =
     map (\<lambda>c. if c = CHR ''+'' then CHR ''-'' else if c = CHR ''/'' then CHR ''_'' else c)
       (rev (dropWhile (\<lambda>c. c = CHR ''='') (rev (b64 raw))))"

definition pkce_verifier :: "'w onboard_lib \<Rightarrow> string \<Rightarrow> ('w, string) mail_op" where
  "pkce_verifier L state =
     and_then (demand (state \<noteq> []) (MailAssert ''pkce_verifier needs the consent's state value'')) (\<lambda>_.
     and_then (in_toks (in_proc (app_secret (ob_enclave L)))) (\<lambda>secret.
       give (b64u (kdf (en_crypto (ob_enclave L)) state ''oauth-pkce'' secret))))"

definition challenge :: "'w onboard_lib \<Rightarrow> string \<Rightarrow> string" where
  "challenge L verifier = b64u (ob_sha256 L verifier)"

text \<open>\<open>urllib.parse.quote_plus\<close> on the UTF-8 of a text, and \<open>urlencode\<close>.\<close>

definition upper_hex :: "nat \<Rightarrow> char" where
  "upper_hex d = (if d < 10 then char_of (48 + d) else char_of (55 + d))"

definition quote_byte :: "8 word \<Rightarrow> string" where
  "quote_byte b =
     (let n = unat b; c = char_of n
      in if 65 \<le> n \<and> n \<le> 90 \<or> is_lower c \<or> is_digit c \<or> c \<in> set ''_.-~'' then [c]
         else if n = 32 then ''+'' else [CHR ''%'', upper_hex (n div 16), upper_hex (n mod 16)])"

definition quote_plus :: "string \<Rightarrow> string" where
  "quote_plus s = concat (map quote_byte (utf8 s))"

definition urlencode :: "(string \<times> string) list \<Rightarrow> string" where
  "urlencode params = join_with ''&'' (map (\<lambda>(k, v). quote_plus k @ ''='' @ quote_plus v) params)"

definition auth_params :: "string \<Rightarrow> string \<Rightarrow> string \<Rightarrow> string \<Rightarrow> string \<Rightarrow> string \<Rightarrow> (string \<times> string) list" where
  "auth_params client_id redirect scope state code_challenge jkt =
     [(''client_id'', client_id), (''redirect_uri'', redirect), (''response_type'', ''code''),
      (''scope'', scope), (''access_type'', ''offline''), (''prompt'', ''consent''),
      (''include_granted_scopes'', ''true''), (''state'', state), (''code_challenge'', code_challenge),
      (''code_challenge_method'', ''S256''), (''dpop_jkt'', jkt)]"

definition load_keys :: "'w onboard_lib \<Rightarrow> ('w, string \<times> string) mail_op" where
  "load_keys L = of_sum (lift_err MailUncaught (gg_keys (ob_google L)))"

definition build_auth_url :: "'w onboard_lib \<Rightarrow> moment \<Rightarrow> string \<Rightarrow> string \<Rightarrow> ('w, string) mail_op" where
  "build_auth_url L m state redirect =
     and_then (demand (state \<noteq> [] \<and> redirect \<noteq> []) (MailAssert ''build_auth_url needs a state and a redirect'')) (\<lambda>_.
     and_then (load_keys L) (\<lambda>keys.
     and_then (pkce_verifier L state) (\<lambda>verifier.
     and_then (in_toks (in_proc (client_dpop_jkt (ob_enclave L) m))) (\<lambda>jkt.
       give (AUTH_ENDPOINT @ ''?'' @ urlencode (auth_params (fst keys) redirect (scope_param (ob_env L)) state
         (challenge L verifier) jkt))))))"

section \<open>Who consented\<close>

text \<open>
  \<open>base64.urlsafe_b64decode\<close>: the decoder that skips what is not of the alphabet and stops at
  the padding of a quad; \<open>q\<close> holds the sextets of the quad so far.
\<close>

definition quad_bytes :: "nat list \<Rightarrow> bytes" where
  "quad_bytes q =
     (case q of
        [a, b] \<Rightarrow> [word_of_nat (a * 4 + b div 16)]
      | [a, b, c] \<Rightarrow> [word_of_nat (a * 4 + b div 16), word_of_nat (b mod 16 * 16 + c div 4)]
      | [a, b, c, d] \<Rightarrow> [word_of_nat (a * 4 + b div 16), word_of_nat (b mod 16 * 16 + c div 4),
           word_of_nat (c mod 4 * 64 + d)]
      | _ \<Rightarrow> [])"

fun a2b_lenient :: "nat list \<Rightarrow> nat \<Rightarrow> string \<Rightarrow> bytes option" where
  "a2b_lenient q pads [] = (if q = [] then Some [] else None)"
| "a2b_lenient q pads (c # cs) =
     (if c = CHR ''='' then
        (if 2 \<le> length q \<and> 4 \<le> length q + (pads + 1) then Some (quad_bytes q)
         else a2b_lenient q (if 2 \<le> length q then pads + 1 else pads) cs)
      else case b64_val c of
          None \<Rightarrow> a2b_lenient q pads cs
        | Some v \<Rightarrow>
            if length q = 3 then map_option ((@) (quad_bytes (q @ [v]))) (a2b_lenient [] 0 cs)
            else a2b_lenient (q @ [v]) 0 cs)"

definition urlsafe_b64decode :: "string \<Rightarrow> bytes option" where
  "urlsafe_b64decode s =
     a2b_lenient [] 0 (map (\<lambda>c. if c = CHR ''-'' then CHR ''+'' else if c = CHR ''_'' then CHR ''/'' else c) s)"

definition id_token_claims :: "json \<Rightarrow> mail_error + json" where
  "id_token_claims id_token =
     (if \<not> jtrue id_token then Inr (JObj [])
      else case id_token of
          JStr t \<Rightarrow>
            (case split_on (CHR ''.'') t of
               _ # payload # _ \<Rightarrow>
                 (case urlsafe_b64decode (payload @ replicate ((4 - length payload mod 4) mod 4) (CHR ''='')) of
                    None \<Rightarrow> Inl (MailUncaught ''binascii.Error'')
                  | Some raw \<Rightarrow>
                      (case utf8_decode raw of
                         None \<Rightarrow> Inl (MailUncaught ''UnicodeDecodeError'')
                       | Some body \<Rightarrow>
                           (case loads body of None \<Rightarrow> Inl (MailUncaught ''JSONDecodeError'') | Some j \<Rightarrow> Inr j)))
             | _ \<Rightarrow> Inr (JObj []))
        | _ \<Rightarrow> Inl (MailUncaught ''AttributeError''))"

definition member_of :: "json \<Rightarrow> string \<Rightarrow> mail_error + json" where
  "member_of j name = (case jobj j of None \<Rightarrow> Inl (MailUncaught ''AttributeError'') | Some kvs \<Rightarrow> Inr (jget kvs name))"

text \<open>A member that is to be a text: empty when it is missing or falsy, else it must be a string.\<close>

definition text_member :: "json \<Rightarrow> string \<Rightarrow> mail_error + string" where
  "text_member j name =
     sum_then (member_of j name) (\<lambda>v.
       if \<not> jtrue v then Inr '''' else case v of JStr t \<Rightarrow> Inr t | _ \<Rightarrow> Inl (MailUncaught ''AttributeError''))"

definition split_name :: "json \<Rightarrow> string \<Rightarrow> mail_error + string \<times> string" where
  "split_name claims email =
     sum_then (text_member claims ''given_name'') (\<lambda>given.
     sum_then (text_member claims ''family_name'') (\<lambda>family.
     sum_then (if py_strip given = [] then text_member claims ''name'' else Inr '''') (\<lambda>name.
       let parts = py_words [] name;
           first = (if name = [] then py_strip given else case parts of [] \<Rightarrow> '''' | p # _ \<Rightarrow> p);
           lst = (if name \<noteq> [] \<and> py_strip family = [] then join_with '' '' (tl parts) else py_strip family);
           first' = (if first = [] then (let user = hd (split_on (CHR ''@'') email)
                                         in if user = [] then ''User'' else user)
                     else first)
       in Inr (first', if lst = [] then first' else lst))))"

text \<open>\<open>gmail_api.profile_address\<close>: what it raises that \<open>exchange_code\<close> catches becomes its refusal.\<close>

definition unreadable :: "string \<Rightarrow> mail_error" where
  "unreadable why = Provision 502 (''could not read the mailbox address: '' @ why)"

definition profile_address :: "'w onboard_lib \<Rightarrow> json \<Rightarrow> ('w, string) mail_op" where
  "profile_address L access =
     and_then (on_wire (ob_profile L access)) (\<lambda>answer.
     case answer of
       Inl why \<Rightarrow> raise (unreadable why)
     | Inr body \<Rightarrow>
         and_then (of_sum (text_member body ''emailAddress'')) (\<lambda>address.
           if norm_id address = [] then raise (unreadable ''Gmail getProfile returned no emailAddress'')
           else give (norm_id address)))"

section \<open>The exchange\<close>

text \<open>\<open>CustodyError\<close> and its subclasses, which a caller's \<open>except\<close> turns into its own refusal.\<close>

fun is_custody :: "custody_error \<Rightarrow> bool" where
  "is_custody (AssertFail _) = False"
| "is_custody (AccountError _) = False"
| "is_custody (Uncaught _) = False"
| "is_custody _ = True"

definition except_custody :: "(custody_error \<Rightarrow> mail_error) \<Rightarrow> ('w, 'a) mail_op \<Rightarrow> ('w, 'a) mail_op" where
  "except_custody f g s =
     (case g s of (Inl (OfCustody e), t) \<Rightarrow> (Inl (if is_custody e then f e else OfCustody e), t) | q \<Rightarrow> q)"

definition exchange_form :: "string \<Rightarrow> string \<times> string \<Rightarrow> string \<Rightarrow> string \<Rightarrow> (string \<times> string) list" where
  "exchange_form code keys redirect verifier =
     [(''code'', code), (''client_id'', fst keys), (''client_secret'', snd keys), (''redirect_uri'', redirect),
      (''grant_type'', ''authorization_code''), (''code_verifier'', verifier)]"

definition trade_code ::
  "'w onboard_lib \<Rightarrow> moment \<Rightarrow> string \<Rightarrow> string \<Rightarrow> string \<Rightarrow> string \<times> string \<Rightarrow> ('w, json) mail_op" where
  "trade_code L m code redirect state keys =
     except_custody (\<lambda>e. Provision 502 (''code exchange failed: '' @ ob_text L e))
       (and_then (pkce_verifier L state) (\<lambda>verifier.
          in_toks (exchange_with_dpop (ob_google L) (exchange_form code keys redirect verifier) None None
            (Some (\<lambda>nonce. in_proc (sign_dpop (ob_enclave L) m ''POST'' TOKEN_ENDPOINT nonce))))))"

record google_profile =
  gp_email :: string
  gp_first :: string
  gp_last :: string
  gp_refresh :: string

text \<open>The refresh token of an answer: a missing one is refused, and one that is no string is not modelled.\<close>

definition refresh_of :: "json \<Rightarrow> mail_error + string" where
  "refresh_of payload =
     sum_then (member_of payload ''refresh_token'') (\<lambda>v.
       if \<not> jtrue v then Inl (Provision 502 ''Google returned no refresh_token (prior grant without prompt=consent?)'')
       else case v of JStr t \<Rightarrow> Inr t | _ \<Rightarrow> Inl (MailUncaught ''refresh_token is no string''))"

definition exchange_code ::
  "'w onboard_lib \<Rightarrow> moment \<Rightarrow> string \<Rightarrow> string \<Rightarrow> string \<Rightarrow> ('w, google_profile) mail_op" where
  "exchange_code L m code redirect state =
     and_then (demand (code \<noteq> [] \<and> redirect \<noteq> [] \<and> state \<noteq> [])
         (MailAssert ''exchange_code needs code, redirect, state'')) (\<lambda>_.
     and_then (load_keys L) (\<lambda>keys.
     and_then (trade_code L m code redirect state keys) (\<lambda>payload.
     and_then (of_sum (sum_then (text_member payload ''scope'') (require_full_grant (ob_env L)))) (\<lambda>_.
     and_then (of_sum (refresh_of payload)) (\<lambda>rtok.
     and_then (of_sum (member_of payload ''access_token'')) (\<lambda>access.
     and_then (demand (jtrue access) (Provision 502 ''Google returned no access_token'')) (\<lambda>_.
     and_then (profile_address L access) (\<lambda>email.
     and_then (of_sum (sum_then (member_of payload ''id_token'') id_token_claims)) (\<lambda>claims.
     and_then (of_sum (split_name claims email)) (\<lambda>(first, lst).
       give \<lparr>gp_email = email, gp_first = first, gp_last = lst, gp_refresh = rtok\<rparr>))))))))))"

section \<open>The account\<close>

text \<open>What one sign-in draws from outside: its custody moment, its log context, its clock, its bytes.\<close>

record sign_in_moment =
  sm_moment :: moment
  sm_ctx :: ctx
  sm_note :: secs
  sm_raw :: "nat list"

definition usable_address :: "string \<Rightarrow> mail_error + string" where
  "usable_address email =
     (case check_id email of
        Inl _ \<Rightarrow> Inl (Provision 502 (''unusable mailbox address: refusing to build an account path from '' @ py_repr email))
      | Inr u \<Rightarrow> Inr u)"

definition handle_to_use :: "nat list \<Rightarrow> string \<Rightarrow> ('w, string) mail_op" where
  "handle_to_use raw email s = (Inr (str_or (handle_for_email (Some email) (ml_store s)) (new_handle raw)), s)"

definition relative_if_inside :: "site_env \<Rightarrow> string \<Rightarrow> string" where
  "relative_if_inside E path =
     (let root = se_root E @ ''/'' in if take (length root) path = root then drop (length root) path else path)"

definition token_path :: "site_env \<Rightarrow> string \<Rightarrow> string" where
  "token_path E uid = se_accounts E @ ''/'' @ uid @ ''/'' @ TOKEN_FILE"

definition take_grant :: "'w onboard_lib \<Rightarrow> moment \<Rightarrow> string \<Rightarrow> string \<Rightarrow> string \<Rightarrow> ('w, unit) mail_op" where
  "take_grant L m email handle rtok =
     except_custody (\<lambda>e. Provision 503 (''custody unavailable: '' @ ob_text L e))
       (in_toks (in_proc (take_custody (ob_enclave L) m (Pair email handle) rtok)))"

definition new_signup :: "site_env \<Rightarrow> string \<Rightarrow> string \<Rightarrow> google_profile \<Rightarrow> signup" where
  "new_signup E email handle gp =
     \<lparr>su_email = Some email, su_first = gp_first gp, su_last = gp_last gp,
      su_token_file = Some (relative_if_inside E (token_path E email)), su_first_aliases = [],
      su_chat_id = None, su_bot = None, su_plan_status = ''inactive'', su_state_file = None, su_timezone = None,
      su_auto = False, su_voice_file = None, su_handle = Some handle\<rparr>"

definition event :: "ctx \<Rightarrow> string \<Rightarrow> event_action \<Rightarrow> string \<Rightarrow> string list \<Rightarrow> ('w, unit) mail_op" where
  "event cx uid action outcome detail = in_files (logged cx uid action outcome detail ())"

text \<open>A full store: the token just taken is dropped again, the refusal is logged, and told.\<close>

definition refuse_signup :: "site_env \<Rightarrow> ctx \<Rightarrow> string \<Rightarrow> string \<Rightarrow> ('w, 'a) mail_op" where
  "refuse_signup E cx email handle =
     and_then (in_toks (in_proc (discard (Pair email handle)))) (\<lambda>_.
     and_then (event cx email CONSENT ''refused'' [''account-limit'']) (\<lambda>_.
       raise (Provision 503 (''signup refused: account store is at its '' @ str_nat (se_max E) @ ''-account limit''))))"

definition register ::
  "'w onboard_lib \<Rightarrow> sign_in_moment \<Rightarrow> string \<Rightarrow> string \<Rightarrow> google_profile \<Rightarrow> ('w, account) mail_op" where
  "register L sm email handle gp s =
     (case in_files (register_account (ob_site L) (sm_ctx sm) (new_handle (sm_raw sm))
              (new_signup (ob_site L) email handle gp)) s of
        (Inl (OfStore AccountLimitReached), t) \<Rightarrow> refuse_signup (ob_site L) (sm_ctx sm) email handle t
      | q \<Rightarrow> q)"

definition renew_account :: "'w onboard_lib \<Rightarrow> account \<Rightarrow> ('w, unit) mail_op" where
  "renew_account L acct =
     and_then (demand (id_account (ac_identity acct) = ac_id acct)
         (MailAssert ''account carries identity for another'')) (\<lambda>_.
     and_then (on_wire (ob_watch L acct)) (\<lambda>answer. of_sum (lift_err MailUncaught answer)))"

definition drop_caches :: "string \<Rightarrow> ('w, unit) mail_op" where
  "drop_caches uid s = (Inr (), s\<lparr>ml_toks := forget_tokens (Some uid) (ml_toks s)\<rparr>)"

definition provision ::
  "'w onboard_lib \<Rightarrow> sign_in_moment \<Rightarrow> string \<Rightarrow> string \<Rightarrow> string \<Rightarrow> ('w, account) mail_op" where
  "provision L sm code redirect state =
     and_then (exchange_code L (sm_moment sm) code redirect state) (\<lambda>gp.
     and_then (of_sum (usable_address (gp_email gp))) (\<lambda>email.
     and_then (handle_to_use (sm_raw sm) email) (\<lambda>handle.
     and_then (take_grant L (sm_moment sm) email handle (gp_refresh gp)) (\<lambda>_.
     and_then (register L sm email handle gp) (\<lambda>acct.
     and_then (event (sm_ctx sm) (ac_id acct) CONSENT ''granted'' []) (\<lambda>_.
     and_then (drop_caches (ac_id acct)) (\<lambda>_.
     and_then (renew_account L acct) (\<lambda>_.
       give acct))))))))"

type_synonym callback_query = "string \<Rightarrow> string option"

text \<open>The decisions of \<open>handle_callback\<close> before anything is exchanged.\<close>

definition admit_callback ::
  "env \<Rightarrow> callback_query \<Rightarrow> (string \<Rightarrow> bool) \<Rightarrow> mail_error + string \<times> string" where
  "admit_callback e query state_is_ours =
     (let err = query ''error''; code = query ''code''; state = query ''state''
      in if truthy err then Inl (Provision 400 (''consent denied: '' @ str_or err ''''))
         else if \<not> truthy code \<or> \<not> truthy state then Inl (Provision 400 ''missing code or state'')
         else if \<not> state_is_ours (str_or state '''')
           then Inl (Provision 403 ''this sign-in did not start in this browser, or took too long'')
         else if truthy (query ''scope'')
           then sum_then (require_full_grant e (str_or (query ''scope'') '''')) (\<lambda>_. Inr (str_or code '''', str_or state ''''))
         else Inr (str_or code '''', str_or state ''''))"

definition handle_callback ::
  "'w onboard_lib \<Rightarrow> sign_in_moment \<Rightarrow> callback_query \<Rightarrow> (string \<Rightarrow> bool) \<Rightarrow> string \<Rightarrow> string
   \<Rightarrow> ('w, account \<times> string) mail_op" where
  "handle_callback L sm query state_is_ours redirect fallback =
     and_then (of_sum (admit_callback (ob_env L) query state_is_ours)) (\<lambda>(code, state).
     and_then (provision L sm code redirect state) (\<lambda>acct.
     and_then (in_desk (record_sign_in (sm_note sm) (ac_id acct))) (\<lambda>_.
       give (acct, fallback))))"

end
