(* ===== verification/OnboardingRun.thy ===== *)
theory OnboardingRun
  imports Onboarding ManifestRun
begin

text \<open>
  What a sign-in does to the mail process, on every branch: which callbacks are refused before
  anything happens, what is stored when one goes through, and what a refused signup leaves behind.
\<close>

section \<open>Up to the consent's answer nothing is stored\<close>

definition post_kept :: "'w enclave \<Rightarrow> 'w toks \<Rightarrow> 'w toks \<Rightarrow> bool" where
  "post_kept E s t \<longleftrightarrow> channel_kept E (tk_proc s) (tk_proc t) \<and> tk_access t = tk_access s"

interpretation posting: kept_relation "post_kept E" for E
  by unfold_locales (auto simp: post_kept_def intro: channel.R_refl channel.R_trans)

definition asked_only :: "'w enclave \<Rightarrow> 'w mail \<Rightarrow> 'w mail \<Rightarrow> bool" where
  "asked_only E s t \<longleftrightarrow>
     post_kept E (ml_toks s) (ml_toks t) \<and> ml_pending t = ml_pending s \<and> ml_proven t = ml_proven s
     \<and> ml_username t = ml_username s \<and> ml_jobs t = ml_jobs s"

interpretation asking: kept_relation "asked_only E" for E
  by unfold_locales (auto simp: asked_only_def intro: posting.R_refl posting.R_trans)

lemma posting_in_proc: "channel.keeps E f \<Longrightarrow> posting.keeps E (in_proc f)"
  by (rule posting.keepsI) (auto simp: in_proc_def post_kept_def dest: channel.keepsD split: prod.splits)

lemma posting_http: "posting.keeps E (http_post G url form p)"
  by (rule posting.keepsI) (auto simp: http_post_def post_kept_def channel_update split: prod.splits)

lemma posting_nonce: "posting.keeps E (keep_nonce resp)"
  by (rule posting.keepsI) (simp add: post_kept_def channel.R_refl)

lemma posting_exchange:
  assumes "\<And>n. posting.keeps E (f n)"
  shows "posting.keeps E (exchange_with_dpop G form who None (Some f))"
proof -
  have "posting.keeps E (\<lambda>s. f (tk_nonce s) s)"
    by (rule posting.keepsI) (blast dest: posting.keepsD [OF assms])
  then show ?thesis
    unfolding exchange_with_dpop_def
    by (auto intro!: posting.keeps_rules posting_http posting_nonce assms)
qed

lemma asking_in_toks: "posting.keeps E f \<Longrightarrow> asking.keeps E (in_toks f)"
  by (rule asking.keepsI) (auto simp: in_toks_def asked_only_def dest: posting.keepsD split: prod.splits)

lemma asking_wire: "asking.keeps E (on_wire f)"
  by (rule asking.keepsI)
    (auto simp: on_wire_def set_proc_def asked_only_def post_kept_def channel_update split: prod.splits)

lemma asking_except: "asking.keeps E g \<Longrightarrow> asking.keeps E (except_custody f g)"
proof (rule asking.keepsI)
  fix s r t
  assume "asking.keeps E g" and "except_custody f g s = (r, t)"
  moreover obtain q u where q: "g s = (q, u)" by fastforce
  ultimately show "asked_only E s t"
    using asking.keepsD [where f = g and s = s]
    by (auto simp: except_custody_def split: sum.splits mail_error.splits)
qed

lemma asking_verifier: "asking.keeps (ob_enclave L) (pkce_verifier L state)"
  unfolding pkce_verifier_def
  by (intro asking.keeps_rules asking_in_toks posting_in_proc keeps_app_secret)

lemma asking_trade: "asking.keeps (ob_enclave L) (trade_code L m code redirect state keys)"
  unfolding trade_code_def
  by (intro asking_except asking.keeps_and_then asking_verifier asking_in_toks posting_exchange posting_in_proc keeps_calls)

lemma asking_profile: "asking.keeps E (profile_address L access)"
  unfolding profile_address_def
  by (auto intro!: asking.keeps_rules asking_wire split: sum.splits)

lemma asking_exchange_code: "asking.keeps (ob_enclave L) (exchange_code L m code redirect state)"
  unfolding exchange_code_def load_keys_def
  by (auto intro!: asking.keeps_rules asking_trade asking_profile)

section \<open>Which callbacks get that far\<close>

text \<open>
  C9: a callback is refused before anything is asked, changed or written when Google reports an
  error, when the code or the state is missing, when this browser is not waiting on that state,
  or when the redirect says a required permission was unticked; the answer is a 400 or a 403.
\<close>

theorem refused_callback_touches_nothing:
  assumes "truthy (query ''error'') \<or> \<not> truthy (query ''code'') \<or> \<not> truthy (query ''state'')
    \<or> \<not> ours (str_or (query ''state'') '''')
    \<or> truthy (query ''scope'') \<and> \<not> set (required_scopes (ob_env L)) \<subseteq> set (py_words [] (str_or (query ''scope'') ''''))"
  shows "\<exists>c msg. handle_callback L sm query ours redirect fallback s = (Inl (Provision c msg), s) \<and> (c = 400 \<or> c = 403)"
  using assms
  by (auto simp: handle_callback_def admit_callback_def require_full_grant_def missing_scopes_def Let_def and_then_def
      of_sum_def sum_then_def filter_empty_conv split: if_splits)

section \<open>What an exchange that returned has seen\<close>

lemma exchange_signed:
  assumes "exchange_with_dpop G form who None (Some f) s = (Inr j, t)"
  shows "\<exists>p u. exchange_with_dpop G form who (Some p) (Some f) u = (Inr j, t)"
proof -
  have "exchange_with_dpop G form who None (Some f) s =
      and_then (f (tk_nonce s)) (\<lambda>p. exchange_with_dpop G form who (Some p) (Some f)) s"
    by (simp add: exchange_with_dpop_def and_then_def demand_def give_def split: prod.splits sum.splits)
  with assms show ?thesis by auto
qed

lemma in_toks_Inr: "in_toks f s = (Inr x, t) \<longleftrightarrow> (\<exists>k. f (ml_toks s) = (Inr x, k) \<and> t = s\<lparr>ml_toks := k\<rparr>)"
  by (auto simp: in_toks_def lift_err_def split: prod.splits sum.splits)

lemma in_proc_Inr: "in_proc f s = (Inr x, t) \<longleftrightarrow> (\<exists>p. f (tk_proc s) = (Inr x, p) \<and> t = s\<lparr>tk_proc := p\<rparr>)"
  by (auto simp: in_proc_def split: prod.splits)

lemma except_Inr: "except_custody f g s = (Inr x, t) \<longleftrightarrow> g s = (Inr x, t)"
  by (auto simp: except_custody_def split: prod.splits sum.splits mail_error.splits)

lemma load_keys_Inr [simp]: "load_keys L s = (Inr keys, t) \<longleftrightarrow> gg_keys (ob_google L) = Inr keys \<and> t = s"
  by (auto simp: load_keys_def lift_err_def split: sum.splits)

text \<open>The verifier is a function of the state value and the secret the enclave is given.\<close>

lemma pkce_verifier_Inr:
  assumes "pkce_verifier L state s = (Inr v, t)" and "secret_ok (ob_enclave L) (ml_proc s)"
  shows "\<exists>secret. released_secret (ob_enclave L) = Inr secret \<and> v = b64u (kdf (en_crypto (ob_enclave L)) state ''oauth-pkce'' secret)"
proof -
  from assms(1) obtain secret p where "app_secret (ob_enclave L) (ml_proc s) = (Inr secret, p)"
    "v = b64u (kdf (en_crypto (ob_enclave L)) state ''oauth-pkce'' secret)"
    by (auto simp: pkce_verifier_def in_toks_Inr in_proc_def split: prod.splits)
  with app_secret_Inr assms(2) show ?thesis by blast
qed

lemma trade_Inr:
  assumes "trade_code L m code redirect state keys s = (Inr payload, t)" and "secret_ok (ob_enclave L) (ml_proc s)"
  shows "\<exists>secret. released_secret (ob_enclave L) = Inr secret
    \<and> answered_with (ob_google L)
        (exchange_form code keys redirect (b64u (kdf (en_crypto (ob_enclave L)) state ''oauth-pkce'' secret)))
        (pr_world (ml_proc t)) payload"
proof -
  from assms(1) obtain v s1 k where v: "pkce_verifier L state s = (Inr v, s1)" and
    x: "exchange_with_dpop (ob_google L) (exchange_form code keys redirect v) None None
      (Some (\<lambda>nonce. in_proc (sign_dpop (ob_enclave L) m ''POST'' TOKEN_ENDPOINT nonce))) (ml_toks s1) = (Inr payload, k)" and
    t: "t = s1\<lparr>ml_toks := k\<rparr>"
    unfolding trade_code_def except_Inr and_then_Inr in_toks_Inr by blast
  from exchange_signed [OF x] exchange_body have
    "answered_with (ob_google L) (exchange_form code keys redirect v) (pr_world (tk_proc k)) payload" by blast
  with pkce_verifier_Inr [OF v assms(2)] t show ?thesis by auto
qed

text \<open>
  The consent behind a profile: Google answered the exchange of this code, under the verifier of
  this state, with a payload that grants every required scope and holds the refresh token, and the
  profile request under its access token named the mailbox.
\<close>

definition consent_verifier :: "'w onboard_lib \<Rightarrow> string \<Rightarrow> string \<Rightarrow> bool" where
  "consent_verifier L state v \<longleftrightarrow>
     (\<exists>secret. released_secret (ob_enclave L) = Inr secret
        \<and> v = b64u (kdf (en_crypto (ob_enclave L)) state ''oauth-pkce'' secret))"

definition consented :: "'w onboard_lib \<Rightarrow> string \<Rightarrow> string \<Rightarrow> string \<Rightarrow> google_profile \<Rightarrow> bool" where
  "consented L code redirect state gp \<longleftrightarrow>
     (\<exists>keys v w payload granted access w0 body w1 address.
        gg_keys (ob_google L) = Inr keys \<and> consent_verifier L state v
        \<and> answered_with (ob_google L) (exchange_form code keys redirect v) w payload
        \<and> text_member payload ''scope'' = Inr granted \<and> set (required_scopes (ob_env L)) \<subseteq> set (py_words [] granted)
        \<and> member_of payload ''refresh_token'' = Inr (JStr (gp_refresh gp)) \<and> gp_refresh gp \<noteq> []
        \<and> member_of payload ''access_token'' = Inr access \<and> ob_profile L access w0 = (Inr body, w1)
        \<and> text_member body ''emailAddress'' = Inr address \<and> gp_email gp = norm_id address)"

lemma on_wire_Inr: "on_wire f s = (Inr x, t) \<longleftrightarrow>
   (\<exists>w. f (pr_world (ml_proc s)) = (x, w) \<and> t = set_proc ((ml_proc s)\<lparr>pr_world := w\<rparr>) s)"
  by (auto simp: on_wire_def split: prod.splits)

lemma profile_Inr:
  assumes "profile_address L access s = (Inr email, t)"
  shows "\<exists>w body w' address. ob_profile L access w = (Inr body, w') \<and> text_member body ''emailAddress'' = Inr address
     \<and> email = norm_id address"
proof -
  from assms obtain answer s1 where "on_wire (ob_profile L access) s = (Inr answer, s1)" and
    "(case answer of Inl why \<Rightarrow> raise (unreadable why) | Inr body \<Rightarrow>
        and_then (of_sum (text_member body ''emailAddress'')) (\<lambda>address.
          if norm_id address = [] then raise (unreadable ''Gmail getProfile returned no emailAddress'')
          else give (norm_id address))) s1 = (Inr email, t)"
    unfolding profile_address_def and_then_Inr by blast
  then show ?thesis by (cases answer) (fastforce simp: on_wire_Inr split: if_splits)+
qed

lemma text_or_refusal:
  "(if \<not> jtrue v then Inl e else case v of JStr t \<Rightarrow> Inr t | _ \<Rightarrow> Inl d) = Inr rt \<longleftrightarrow> v = JStr rt \<and> rt \<noteq> []"
  by (cases v) auto

lemma refresh_of_Inr: "refresh_of payload = Inr rt \<longleftrightarrow> rt \<noteq> [] \<and> member_of payload ''refresh_token'' = Inr (JStr rt)"
  by (auto simp: refresh_of_def text_or_refusal)

lemma full_grant_Inr [simp]:
  "require_full_grant e granted = Inr x \<longleftrightarrow> set (required_scopes e) \<subseteq> set (py_words [] granted)"
  by (auto simp: require_full_grant_def missing_scopes_def filter_empty_conv Let_def)

lemma exchange_code_Inr:
  assumes "exchange_code L m code redirect state s = (Inr gp, t)" and "secret_ok (ob_enclave L) (ml_proc s)"
  shows "consented L code redirect state gp"
proof -
  from assms(1) obtain keys payload s1 granted access s2 where
    k: "gg_keys (ob_google L) = Inr keys" and tr: "trade_code L m code redirect state keys s = (Inr payload, s1)" and
    g: "text_member payload ''scope'' = Inr granted" "set (required_scopes (ob_env L)) \<subseteq> set (py_words [] granted)" and
    r: "refresh_of payload = Inr (gp_refresh gp)" and a: "member_of payload ''access_token'' = Inr access" and
    p: "profile_address L access s1 = (Inr (gp_email gp), s2)"
    unfolding exchange_code_def and_then_Inr by (auto split: prod.splits)
  from trade_Inr [OF tr assms(2)] k g r [unfolded refresh_of_Inr] a profile_Inr [OF p]
  show ?thesis unfolding consented_def consent_verifier_def by blast
qed

text \<open>
  The code is traded under the verifier whose challenge the consent was opened with: whichever
  process of this enclave built the URL for a state, and whenever, an exchange for that state that
  returned posted the verifier of which the URL carries the challenge, beside the thumbprint of
  the co-signer's key.
\<close>

theorem exchange_matches_the_consent:
  assumes "build_auth_url L m state redirect s = (Inr url, s1)" and "secret_ok (ob_enclave L) (ml_proc s)"
    and "exchange_code L m' code redirect' state u = (Inr gp, u1)" and "secret_ok (ob_enclave L) (ml_proc u)"
  shows "\<exists>keys v jkt w payload. gg_keys (ob_google L) = Inr keys
    \<and> url = AUTH_ENDPOINT @ ''?'' @ urlencode (auth_params (fst keys) redirect (scope_param (ob_env L)) state (challenge L v) jkt)
    \<and> (\<exists>p q. client_dpop_jkt (ob_enclave L) m p = (Inr jkt, q))
    \<and> answered_with (ob_google L) (exchange_form code keys redirect' v) w payload"
proof -
  from assms(1) obtain keys v s2 jkt q where k: "gg_keys (ob_google L) = Inr keys" and
    v: "pkce_verifier L state s = (Inr v, s2)" and j: "client_dpop_jkt (ob_enclave L) m (ml_proc s2) = (Inr jkt, q)" and
    url: "url = AUTH_ENDPOINT @ ''?'' @ urlencode (auth_params (fst keys) redirect (scope_param (ob_env L)) state (challenge L v) jkt)"
    unfolding build_auth_url_def and_then_Inr in_toks_Inr in_proc_Inr by auto
  from exchange_code_Inr [OF assms(3,4)] obtain keys' v' w payload where
    x: "gg_keys (ob_google L) = Inr keys'" "consent_verifier L state v'"
      "answered_with (ob_google L) (exchange_form code keys' redirect' v') w payload"
    unfolding consented_def by blast
  have "keys' = keys" "v' = v"
    using x(1,2) k pkce_verifier_Inr [OF v assms(2)] by (auto simp: consent_verifier_def)
  with x(3) k j url show ?thesis by blast
qed

section \<open>What a sign-in stores\<close>

lemma in_files_Inr: "in_files f s = (Inr x, t) \<longleftrightarrow>
   (\<exists>st. f (ml_store s) = (Inr x, st) \<and> t = set_proc ((ml_proc s)\<lparr>pr_store := st\<rparr>) s)"
  by (auto simp: in_files_def lift_err_def split: prod.splits sum.splits)

lemma set_proc_simps [simp]:
  "ml_proc (set_proc p s) = p" "ml_pending (set_proc p s) = ml_pending s" "ml_proven (set_proc p s) = ml_proven s"
  "tk_access (ml_toks (set_proc p s)) = tk_access (ml_toks s)"
  by (simp_all add: set_proc_def)

lemma register_cases:
  assumes "register_account E cx fresh su s = (r, s')"
  obtains e where "r = Inl e" "s' = s"
  | out e u q where "transaction True (put_entry (se_max E) (new_entry (norm_arg (su_email su)) su (str_or (su_handle su) fresh))) s
        = (Inr (out, e), u)" "logged cx (norm_arg (su_email su)) ACCOUNT out [] () u = (q, s')"
      "r = (case q of Inl err \<Rightarrow> Inl err | Inr _ \<Rightarrow> account_from_entry E e)"
proof (cases "\<exists>e. r = Inl e \<and> s' = s")
  case False
  obtain t u where t: "transaction True (put_entry (se_max E) (new_entry (norm_arg (su_email su)) su (str_or (su_handle su) fresh))) s
      = (t, u)" by fastforce
  show thesis
  proof (cases t)
    case (Inl e)
    with False assms t transaction_entries(6) [OF t Inl] show thesis
      by (auto simp: register_account_def Let_def split: if_splits option.splits sum.splits)
  next
    case (Inr x)
    obtain out e where x: "x = (out, e)" by fastforce
    obtain q v where q: "logged cx (norm_arg (su_email su)) ACCOUNT out [] () u = (q, v)" by fastforce
    from False assms t Inr x q have "s' = v" "r = (case q of Inl err \<Rightarrow> Inl err | Inr _ \<Rightarrow> account_from_entry E e)"
      by (auto simp: register_account_def Let_def split: if_splits option.splits sum.splits)
    with that(2) t Inr x q show thesis by blast
  qed
qed (use that(1) in blast)

lemma from_entry_id: "account_from_entry E e = Inr a \<Longrightarrow> ac_id a = ae_id e"
  by (auto simp: account_from_entry_def Let_def split: sum.splits)

lemma put_entry_id:
  "put_entry n entry es = Inr ((out, e), es') \<Longrightarrow> ae_polar_customer_id entry = None \<Longrightarrow> ae_id e = ae_id entry"
  by (auto simp: put_entry_def carry_over_fields(1) split: option.splits sum.splits if_splits)

lemma register_frame:
  assumes "register_account E cx fresh su s = (r, s')"
  shows "st_files s' = st_files s" "st_deks s' = st_deks s"
    and "r = Inr a \<Longrightarrow> ac_id a = norm_arg (su_email su)"
    and "r = Inl AccountLimitReached \<Longrightarrow> s' = s"
proof -
  have no_limit: "logged cx aid act out d x u \<noteq> (Inl AccountLimitReached, v)" "account_from_entry E e \<noteq> Inl AccountLimitReached"
    for aid act out d u v e and x :: unit
    by (auto simp: logged_def event_record_def detail_string_def account_from_entry_def user_identity_def Let_def
        split: sum.splits if_splits list.splits)
  show "st_files s' = st_files s" "st_deks s' = st_deks s"
    by (rule register_cases [OF assms]; auto dest!: logged_store simp: transaction_entries(2,3))+
  show "ac_id a = norm_arg (su_email su)" if "r = Inr a"
  proof (rule register_cases [OF assms])
    fix out e u q
    assume t: "transaction True (put_entry (se_max E) (new_entry (norm_arg (su_email su)) su (str_or (su_handle su) fresh))) s
        = (Inr (out, e), u)" and r: "r = (case q of Inl err \<Rightarrow> Inl err | Inr _ \<Rightarrow> account_from_entry E e)"
    from put_entry_id [OF transaction_entries(5) [OF t refl]] from_entry_id [of E e a] r that
    show ?thesis by (simp split: sum.splits)
  qed (use that in simp)
  show "s' = s" if "r = Inl AccountLimitReached"
  proof (rule register_cases [OF assms])
    fix out e u q
    assume q: "logged cx (norm_arg (su_email su)) ACCOUNT out [] () u = (q, s')"
      and r: "r = (case q of Inl err \<Rightarrow> Inl err | Inr _ \<Rightarrow> account_from_entry E e)"
    from q no_limit(1) have "q \<noteq> Inl AccountLimitReached" by blast
    with that r no_limit(2) [of e] show ?thesis by (cases q) auto
  qed
qed

lemma in_desk_sign_in:
  assumes "in_desk (record_sign_in now uid) s = (Inr x, t)"
  shows "ml_store t = ml_store s \<and> ml_proven t uid = Some now \<and> ml_pending t = ml_pending s"
proof -
  define d where "d = \<lparr>dk_store = ml_store s, dk_pending = ml_pending s, dk_proven = ml_proven s,
    dk_username = ml_username s, dk_world = pr_world (ml_proc s)\<rparr>"
  obtain r e where r: "record_sign_in now uid d = (r, e)" by fastforce
  with assms have "t = (set_proc ((ml_proc s)\<lparr>pr_store := dk_store e, pr_world := dk_world e\<rparr>) s)
      \<lparr>ml_pending := dk_pending e, ml_proven := dk_proven e, ml_username := dk_username e\<rparr>" "lift_err OfDesk r = Inr x"
    by (auto simp: in_desk_def d_def [symmetric])
  with r show ?thesis by (auto simp: record_sign_in_def note_sign_in_def d_def)
qed

text \<open>Everything of a sign-in from the exchange to the end, on the path that returns.\<close>

lemma provision_Inr:
  assumes "provision L sm code redirect state s = (Inr acct, t)" and "secret_ok (ob_enclave L) (ml_proc s)"
  obtains gp handle p u where "consented L code redirect state gp" "check_id (gp_email gp) = Inr (gp_email gp)"
    "handle = str_or (handle_for_email (Some (gp_email gp)) (ml_store s)) (new_handle (sm_raw sm))"
    "channel_kept (ob_enclave L) (ml_proc s) p"
    "take_custody (ob_enclave L) (sm_moment sm) (Pair (gp_email gp) handle) (gp_refresh gp) p = (Inr (), u)"
    "ac_id acct = norm_id (gp_email gp)" "st_files (ml_store t) = st_files (pr_store u)" "ml_pending t = ml_pending s"
proof -
  from assms(1) obtain gp s1 email handle s2 s3 s4 s5 s6 where
    x: "exchange_code L (sm_moment sm) code redirect state s = (Inr gp, s1)" and
    id: "usable_address (gp_email gp) = Inr email" and
    h: "handle_to_use (sm_raw sm) email s1 = (Inr handle, s1)" and
    g: "take_grant L (sm_moment sm) email handle (gp_refresh gp) s1 = (Inr (), s2)" and
    r: "register L sm email handle gp s2 = (Inr acct, s3)" and
    e: "event (sm_ctx sm) (ac_id acct) CONSENT ''granted'' [] s3 = (Inr (), s4)" and
    d: "drop_caches (ac_id acct) s4 = (Inr (), s5)" and
    w: "renew_account L acct s5 = (Inr (), s6)" and t: "t = s6"
    unfolding provision_def and_then_Inr by (auto simp: handle_to_use_def)
  have email: "email = gp_email gp" "check_id (gp_email gp) = Inr (gp_email gp)"
    using id by (auto simp: usable_address_def simp del: check_id_Inr split: sum.splits) (simp_all)
  from g obtain u where u: "take_custody (ob_enclave L) (sm_moment sm) (Pair email handle) (gp_refresh gp) (ml_proc s1) = (Inr (), u)"
    and s2: "s2 = s1\<lparr>ml_toks := (ml_toks s1)\<lparr>tk_proc := u\<rparr>\<rparr>"
    unfolding take_grant_def except_Inr in_toks_Inr in_proc_Inr by blast
  have kept: "asked_only (ob_enclave L) s s1" by (rule asking.keepsD [OF asking_exchange_code x])
  then have s1: "channel_kept (ob_enclave L) (ml_proc s) (ml_proc s1)" "ml_pending s1 = ml_pending s" "ml_store s1 = ml_store s"
    by (simp_all add: asked_only_def post_kept_def channel_kept_def)
  from r have "in_files (register_account (ob_site L) (sm_ctx sm) (new_handle (sm_raw sm)) (new_signup (ob_site L) email handle gp)) s2
      = (Inr acct, s3)"
    by (auto simp: register_def refuse_signup_def raise_def split: prod.splits sum.splits mail_error.splits acct_error.splits)
  then obtain st where st: "register_account (ob_site L) (sm_ctx sm) (new_handle (sm_raw sm)) (new_signup (ob_site L) email handle gp)
      (ml_store s2) = (Inr acct, st)" "s3 = set_proc ((ml_proc s2)\<lparr>pr_store := st\<rparr>) s2"
    unfolding in_files_Inr by blast
  have files: "st_files (ml_store t) = st_files (ml_store s3)" "ml_pending t = ml_pending s3"
    using e d w t
    by (auto simp: event_def in_files_Inr drop_caches_def forget_tokens_def renew_account_def on_wire_Inr dest!: logged_store)
  have id: "ac_id acct = norm_id (gp_email gp)"
    using register_frame(3) [OF st(1) refl] email by (simp add: new_signup_def norm_arg_def str_or_def truthy_def)
  have "handle = str_or (handle_for_email (Some (gp_email gp)) (ml_store s)) (new_handle (sm_raw sm))"
    using h s1(3) email(1) by (simp add: handle_to_use_def)
  with that exchange_code_Inr [OF x assms(2)] email s1 u id files st(2) s2 register_frame(1) [OF st(1)] show thesis
    by auto
qed

text \<open>
  C8: a sign-in that returns has kept exactly the grant it was given. This browser was waiting on
  the state; Google traded the code, under that state's verifier, for a payload that grants every
  required scope; the mailbox is the one the granted access token names; and the only document
  that changed in the whole store is that account's token, which now reads back as the refresh
  token of that payload. The sign-in is noted for the chat link, and no pending change is touched.
\<close>

theorem sign_in_stores_the_grant:
  assumes "handle_callback L sm query ours redirect fallback s = (Inr (acct, loc), t)"
    and "honest ks (ob_enclave L)" and "aead_inverts (en_crypto (ob_enclave L))"
    and "keyring_inv (ob_enclave L) ks hs (ml_proc s)"
    and "hs = (\<lambda>uid. str_or (handle_for_email (Some uid) (ml_store s)) (new_handle (sm_raw sm)))"
    and "length (mo_seal (sm_moment sm)) = 12" and "length (mo_nonce (sm_moment sm)) = 12"
    and "\<forall>uid. fresh_key (ob_enclave L) (sm_moment sm) hs uid (ml_proc s)"
  shows "\<exists>code state gp. query ''code'' = Some code \<and> query ''state'' = Some state \<and> ours state
    \<and> consented L code redirect state gp \<and> ac_id acct = gp_email gp
    \<and> vault (ob_enclave L) ks hs (ml_store t) =
        (vault (ob_enclave L) ks hs (ml_store s))((ac_id acct, TOKEN_FILE) \<mapsto> utf8 (gp_refresh gp))
    \<and> ml_proven t (ac_id acct) = Some (sm_note sm) \<and> ml_pending t = ml_pending s \<and> loc = fallback"
proof -
  have sec: "secret_ok (ob_enclave L) (ml_proc s)" using assms(4) by (simp add: keyring_inv_def)
  from assms(1) obtain code state s1 x where
    adm: "admit_callback (ob_env L) query ours = Inr (code, state)" and
    p: "provision L sm code redirect state s = (Inr acct, s1)" and
    n: "in_desk (record_sign_in (sm_note sm) (ac_id acct)) s1 = (Inr x, t)" and loc: "loc = fallback"
    by (auto simp: handle_callback_def)
  from adm have q: "query ''code'' = Some code" "query ''state'' = Some state" "ours state"
    by (auto simp: admit_callback_def Let_def truthy_def str_or_def split: if_splits option.splits)
  from provision_Inr [OF p sec] obtain gp handle p0 u where
    c: "consented L code redirect state gp" "check_id (gp_email gp) = Inr (gp_email gp)"
      "handle = str_or (handle_for_email (Some (gp_email gp)) (ml_store s)) (new_handle (sm_raw sm))"
      "channel_kept (ob_enclave L) (ml_proc s) p0"
      "take_custody (ob_enclave L) (sm_moment sm) (Pair (gp_email gp) handle) (gp_refresh gp) p0 = (Inr (), u)"
      "ac_id acct = norm_id (gp_email gp)" "st_files (ml_store s1) = st_files (pr_store u)" "ml_pending s1 = ml_pending s"
    by blast
  have id: "norm_id (gp_email gp) = gp_email gp" using c(1) by (auto simp: consented_def norm_id_idem)
  have who: "identify (Pair (gp_email gp) handle) = Inr (gp_email gp, hs (gp_email gp))"
    using c(5) by (auto simp: take_custody_def identify_def c(2) c(3) assms(5) simp del: check_id_Inr check_handle_Inr
        split: if_splits sum.splits) (simp_all add: check_handle_def split: if_splits)
  have quiet: "quiet (ob_enclave L) ks hs (ml_proc s) p0" by (rule channel_quiet [OF c(4)])
  then have inv: "keyring_inv (ob_enclave L) ks hs p0" using assms(4) by (simp add: quiet_def)
  have fresh: "fresh_key (ob_enclave L) (sm_moment sm) hs (gp_email gp) p0"
    using assms(8) fresh_quiet [OF quiet] by blast
  from take_step [where hs = hs and ks = ks, OF c(5) who assms(2,3) inv assms(6,7) fresh] quiet_vault [OF quiet]
    vault_files [OF c(7), of "ob_enclave L" ks hs] in_desk_sign_in [OF n] q c(1,6,8) id loc
  show ?thesis by (rule_tac exI [of _ code], rule_tac exI [of _ state], rule_tac exI [of _ gp]) (simp del: utf8.simps)
qed

section \<open>A signup refused at the ceiling\<close>

text \<open>The record a mint leaves on disk is one the co-signer opens for no other handle.\<close>

lemma create_bound:
  assumes "create E m uid handle s = (Inr x, t)" and "honest ks E"
    and "aead_inverts (en_crypto E)" and "aead_binds (en_crypto E)" and "other \<noteq> handle"
  shows "\<exists>blob. st_files (pr_store t) uid DEK_FILE = Some blob \<and> account_dir uid = Inr uid
    \<and> (\<forall>st. st_files st uid DEK_FILE = Some blob \<longrightarrow> account_key E ks (\<lambda>_. other) st uid = None)"
proof -
  from assms(1) obtain inner outer s1 s2 s3 where
    wrapped: "client_wrap E m handle inner s1 = (Inr outer, s2)" and
    stored: "store_record uid outer KEY_VERSION s2 = (Inr (), s3)" and
    t: "t = s3\<lparr>pr_store := (pr_store s3)\<lparr>st_deks := dek_put (mo_created m) uid (mo_dek m) (st_deks (pr_store s3))\<rparr>\<rparr>"
    by (auto simp: create_def remember_def)
  from client_wrap_Inr [OF wrapped assms(2)] obtain nonce where
    w: "length nonce = 12" "wrap (en_crypto E) ks nonce handle inner = Inr outer" by blast
  from wrap_other_handle [OF assms(3,4) w assms(5)] have no: "\<exists>e. unwrap (en_crypto E) ks other outer = Inl e" .
  from store_record_Inr [OF stored] obtain blob where
    b: "account_dir uid = Inr uid" "encode_record KEY_VERSION outer = Inr blob"
      "s3 = s2\<lparr>pr_store := put_file uid DEK_FILE blob (pr_store s2)\<rparr>" by auto
  have "st_files (pr_store t) uid DEK_FILE = Some blob" unfolding t b(3) by simp
  moreover have "account_key E ks (\<lambda>_. other) st uid = None" if "st_files st uid DEK_FILE = Some blob" for st
    using that no decode_encode [OF b(2)]
    by (auto simp: account_key_def stored_key_def record_key_def split: sum.splits)
  ultimately show ?thesis using b(1) by blast
qed

lemma dek_for_files: "dek_for E m a s = (r, t) \<Longrightarrow> st_files (pr_store t) = st_files (pr_store s)"
proof -
  assume run: "dek_for E m a s = (r, t)"
  have "pr_store u = pr_store s" if "open_key E m uid handle s = (q, u)" for uid handle q u
    using channel.keepsD [OF keeps_opening(1) that] by (simp add: channel_kept_def)
  with run show ?thesis
    by (fastforce simp: dek_for_def and_then_def of_sum_def read_store_def remember_def change_store_def give_def
        split: sum.splits prod.splits option.splits)
qed

lemma put_doc_Inr: "put_doc dir name blob s = (Inr x, t) \<longleftrightarrow> t = s\<lparr>pr_store := put_file dir name blob (pr_store s)\<rparr>"
  by (auto simp: put_doc_def change_store_def)

lemma write_keeps_record:
  assumes "write_encrypted E m a name body s = (Inr x, t)" and "identify a = Inr (uid, handle)"
    and "st_files (pr_store s) uid DEK_FILE = Some blob" and "name \<noteq> DEK_FILE"
  shows "st_files (pr_store t) uid DEK_FILE = Some blob"
proof -
  from assms(1,2) obtain there s1 dir dek s2 blob' where
    k: "has_key uid (pr_store s) = Inr there" "ensure_key E m a uid handle there s = (Inr (), s1)"
      "account_dir uid = Inr dir" "dek_for E m a s1 = (Inr dek, s2)" "put_doc dir name blob' s2 = (Inr x, t)"
    unfolding write_encrypted_unfold by (auto simp: read_store_def)
  from k(1) assms(3) account_dir_Inr [OF k(3)] have there by (auto simp: has_key_def dest: account_dir_Inr split: sum.splits)
  with k(2) have "s1 = s" by (simp add: ensure_key_def)
  with k(4,5) assms(3,4) show ?thesis by (auto simp: put_doc_Inr dek_for_files)
qed

text \<open>A token is not taken under a handle the record does not open for, once the key has left memory.\<close>

lemma take_other_fails:
  assumes "take_custody E m (Pair uid other) tok s = (Inr x, t)" and "honest ks E" and "secret_ok E s"
    and "st_files (pr_store s) uid DEK_FILE = Some blob" and "account_key E ks (\<lambda>_. other) (pr_store s) uid = None"
    and "dek_get (mo_mono m) uid (st_deks (pr_store s)) = None"
  shows False
proof -
  from assms(1) obtain h there u where
    i: "identify (Pair uid other) = Inr (uid, h)" "has_key uid (pr_store s) = Inr there"
      "(if there then give () else create E m uid h) s = (Inr (), u)"
      "write_encrypted E m (Pair uid other) TOKEN_FILE tok u = (Inr x, t)"
    by (auto simp: take_custody_def identify_def read_store_def simp del: check_id_Inr check_handle_Inr
        split: if_splits sum.splits) simp_all
  have h: "h = other" using i(1) by (auto simp: identify_def split: if_splits sum.splits)
  from i(2) assms(4) have there by (auto simp: has_key_def dest: account_dir_Inr split: sum.splits)
  with i(3) have u: "u = s" by simp
  from i(4) [unfolded u] i(1) obtain there' s1 dek s2 where
    w: "has_key uid (pr_store s) = Inr there'" "ensure_key E m (Pair uid other) uid h there' s = (Inr (), s1)"
      "dek_for E m (Pair uid other) s1 = (Inr dek, s2)"
    unfolding write_encrypted_unfold by (auto simp: read_store_def)
  with i(2) \<open>there\<close> have "s1 = s" by (simp add: ensure_key_def)
  with w(3) i(1) assms(6) obtain s3 where "open_key E m uid h s = (Inr dek, s3)"
    by (auto simp: dek_for_def read_store_def)
  from open_key_Inr [where hs = "\<lambda>_. other", OF this [unfolded h] assms(2,3)] assms(5) show False by simp
qed

lemma register_refused:
  assumes "register L sm email handle gp s = (Inl (Provision c msg), t)"
  shows "c = 503" "st_manifest (ml_store t) = st_manifest (ml_store s)"
    and "st_files (ml_store t) = (st_files (ml_store s))(email := (st_files (ml_store s) email)(TOKEN_FILE := None))"
    and "identify (Pair email handle) = Inr (email, handle)"
proof -
  obtain r st where reg: "register_account (ob_site L) (sm_ctx sm) (new_handle (sm_raw sm))
      (new_signup (ob_site L) email handle gp) (ml_store s) = (r, st)" by fastforce
  with assms have r: "r = Inl AccountLimitReached" and
    rest: "refuse_signup (ob_site L) (sm_ctx sm) email handle (set_proc ((ml_proc s)\<lparr>pr_store := st\<rparr>) s)
      = (Inl (Provision c msg) :: mail_error + account, t)"
    by (auto simp: register_def in_files_def lift_err_def split: sum.splits prod.splits mail_error.splits acct_error.splits)
  define u where "u = set_proc ((ml_proc s)\<lparr>pr_store := st\<rparr>) s"
  have u: "ml_store u = ml_store s" using register_frame(4) [OF reg r] by (simp add: u_def)
  obtain q v where q: "in_toks (in_proc (discard (Pair email handle))) u = (q, v)" by fastforce
  with rest obtain b where b: "q = Inr b"
    by (cases q) (auto simp: refuse_signup_def u_def [symmetric] and_then_def in_toks_def lift_err_def split: prod.splits sum.splits)
  from q b obtain p where p: "clear_encrypted (Pair email handle) TOKEN_FILE (ml_proc u) = (Inr b, p)"
    and v: "ml_store v = pr_store p"
    by (auto simp: in_toks_Inr in_proc_Inr discard_def)
  from rest q b obtain w z where w: "event (sm_ctx sm) email CONSENT ''refused'' [''account-limit''] v = (w, z)"
    and t: "w = Inr () \<longrightarrow> c = 503" "z = t" "\<exists>x. w = Inr x"
    by (auto simp: refuse_signup_def u_def [symmetric] and_then_def raise_def event_def in_files_def lift_err_def
        split: prod.splits sum.splits)
  from p have id: "identify (Pair email handle) = Inr (email, handle)"
    by (auto simp: clear_encrypted_def identify_def simp del: check_id_Inr check_handle_Inr split: if_splits sum.splits)
      (simp_all add: check_handle_def split: if_splits)
  have "st_files (ml_store t) = st_files (ml_store v)" "st_manifest (ml_store t) = st_manifest (ml_store v)"
    using w t(2,3) by (auto simp: event_def in_files_Inr dest!: logged_store)
  moreover have "st_files (pr_store p) = (st_files (ml_store u))(email := (st_files (ml_store u) email)(TOKEN_FILE := None))"
    "st_manifest (pr_store p) = st_manifest (ml_store u)"
    using p id
    by (auto simp: clear_encrypted_def read_store_def change_store_def drop_file_def fun_eq_iff dest: account_dir_Inr split: if_splits)
  ultimately show "c = 503" "st_manifest (ml_store t) = st_manifest (ml_store s)"
    "st_files (ml_store t) = (st_files (ml_store s))(email := (st_files (ml_store s) email)(TOKEN_FILE := None))"
    "identify (Pair email handle) = Inr (email, handle)"
    using u v t id by auto
qed

text \<open>
  C10: a signup refused because the store is full takes the token back but not the data key it
  minted for it, and that record opens only under the handle drawn for the refused attempt, which
  nobody keeps: from the moment the key kept in memory is no longer served (five minutes after the
  attempt, or in a process that never had it), no sign-in of that mailbox returns, even after room was
  made, unless it draws the same handle again. Before that moment the process that made the attempt
  still has the key, and the theorem says nothing.
\<close>

theorem refused_signup_locks_the_address:
  assumes "take_grant L m email handle rt s = (Inr x, s1)" and "st_files (ml_store s) email DEK_FILE = None"
    and "register L sm email handle gp s1 = (Inl (Provision c msg), t)"
    and "honest ks (ob_enclave L)" and "aead_inverts (en_crypto (ob_enclave L))" and "aead_binds (en_crypto (ob_enclave L))"
    and "st_files (ml_store u) email DEK_FILE = st_files (ml_store t) email DEK_FILE" and "dek_get (mo_mono (sm_moment sm')) email (st_deks (ml_store u)) = None"
    and "secret_ok (ob_enclave L) (ml_proc u)" and "handle_for_email (Some email) (ml_store u) = None"
    and "new_handle (sm_raw sm') \<noteq> handle"
  shows "c = 503 \<and> st_manifest (ml_store t) = st_manifest (ml_store s1) \<and> st_files (ml_store t) email TOKEN_FILE = None
    \<and> (\<forall>code redirect state acct v. provision L sm' code redirect state u = (Inr acct, v) \<longrightarrow> ac_id acct \<noteq> email)"
proof -
  note r = register_refused [OF assms(3)]
  from assms(1) obtain p where p: "take_custody (ob_enclave L) m (Pair email handle) rt (ml_proc s) = (Inr (), p)"
    and s1: "ml_store s1 = pr_store p"
    by (auto simp: take_grant_def except_Inr in_toks_Inr in_proc_Inr)
  from p r(4) assms(2) obtain p1 y where mint: "create (ob_enclave L) m email handle (ml_proc s) = (Inr y, p1)"
    and wr: "write_encrypted (ob_enclave L) m (Pair email handle) TOKEN_FILE rt p1 = (Inr (), p)"
    by (auto simp: take_custody_def read_store_def has_key_def dest: account_dir_Inr split: sum.splits if_splits)
  from create_bound [OF mint assms(4-6), of "new_handle (sm_raw sm')"] assms(11) obtain blob where
    b: "st_files (pr_store p1) email DEK_FILE = Some blob"
      "\<forall>st. st_files st email DEK_FILE = Some blob \<longrightarrow> account_key (ob_enclave L) ks (\<lambda>_. new_handle (sm_raw sm')) st email = None"
    by auto
  have ne: "TOKEN_FILE \<noteq> DEK_FILE" by (simp add: TOKEN_FILE_def DEK_FILE_def)
  have left: "st_files (ml_store u) email DEK_FILE = Some blob"
    using write_keeps_record [OF wr r(4) b(1) ne] r(3) s1 ne assms(7) by simp
  have "ac_id acct \<noteq> email" if run: "provision L sm' code redirect state u = (Inr acct, v)" for code redirect state acct v
  proof
    assume acct: "ac_id acct = email"
    obtain gp' h q q' where c: "consented L code redirect state gp'" "check_id (gp_email gp') = Inr (gp_email gp')"
        "h = str_or (handle_for_email (Some (gp_email gp')) (ml_store u)) (new_handle (sm_raw sm'))"
        "channel_kept (ob_enclave L) (ml_proc u) q"
        "take_custody (ob_enclave L) (sm_moment sm') (Pair (gp_email gp') h) (gp_refresh gp') q = (Inr (), q')"
        "ac_id acct = norm_id (gp_email gp')" "st_files (ml_store v) = st_files (pr_store q')" "ml_pending v = ml_pending u"
      by (rule provision_Inr [OF run assms(9)])
    have e: "gp_email gp' = email" using acct c(1,6) by (auto simp: consented_def)
    have q: "pr_store q = ml_store u" "secret_ok (ob_enclave L) q" using c(4) assms(9) by (auto simp: channel_kept_def)
    have "h = new_handle (sm_raw sm')" using c(3) e assms(10) by (simp add: str_or_def truthy_def)
    with take_other_fails [OF c(5) [unfolded e] assms(4) q(2)] left b(2) q(1) assms(8) show False by auto
  qed
  moreover have "st_files (ml_store t) email TOKEN_FILE = None" using r(3) by simp
  ultimately show ?thesis using r(1,2) by blast
qed

end
