(* ===== verification/OnboardingDemo.thy ===== *)
theory OnboardingDemo
  imports OnboardingRun TokensDemo
begin

text \<open>
  Sign-ins on concrete values: a consent for a mailbox that has an account already, a refused
  callback, and a first signup that meets a full store.
\<close>

definition consent_answer :: json where
  "consent_answer = JObj [(''scope'', JStr (GMAIL_SCOPE @ '' '' @ EVENTS_SCOPE)), (''refresh_token'', JStr ''rt''),
     (''access_token'', JStr ''ya29'')]"

definition consent_google :: "unit google" where
  "consent_google = \<lparr>gg_post = (\<lambda>url form pf w. (Inr \<lparr>rs_status = 200, rs_nonce = None, rs_www = None, rs_debug = None,
     rs_text = [], rs_json = Some consent_answer\<rparr>, w)), gg_keys = Inr (''id'', ''secret'')\<rparr>"

definition demo_onboard :: "unit onboard_lib" where
  "demo_onboard = \<lparr>ob_enclave = demo_enclave, ob_google = consent_google,
     ob_profile = (\<lambda>access w. (Inr (JObj [(''emailAddress'', JStr ''A@b '')]), w)),
     ob_watch = (\<lambda>a w. (Inr (), w)), ob_sha256 = utf8, ob_text = (\<lambda>_. '''')\<rparr>"

definition demo_mail :: "unit proc \<Rightarrow> unit mail" where
  "demo_mail p = \<lparr>ml_toks = demo_toks p, ml_pending = (\<lambda>_. None), ml_proven = (\<lambda>_. None), ml_username = None,
     ml_jobs = (\<lambda>_. None)\<rparr>"

definition demo_sign_in :: sign_in_moment where
  "demo_sign_in = \<lparr>sm_moment = demo_moment, sm_ctx = demo_ctx, sm_note = 5, sm_raw = [1, 2, 3, 4, 5, 6, 7, 8, 9, 10, 11, 12, 13, 14, 15, 16]\<rparr>"

definition demo_query :: callback_query where
  "demo_query = [''code'' \<mapsto> ''c'', ''state'' \<mapsto> ''st'']"


lemma ran: "(case fst q of Inr x \<Rightarrow> P x | Inl _ \<Rightarrow> False) \<Longrightarrow> \<exists>x t. q = (Inr x, t) \<and> P x"
  by (cases q) (auto split: sum.splits)

lemma demo_sign_in_run:
  "(case fst (handle_callback demo_onboard demo_sign_in demo_query (\<lambda>s. s = ''st'') ''r'' ''/d'' (demo_mail demo_home)) of
     Inr (a, loc) \<Rightarrow> ac_id a = ''a@b'' | Inl _ \<Rightarrow> False)"
  by code_simp

lemma demo_mail_simps [simp]:
  "ml_proc (demo_mail p) = p" "ob_enclave demo_onboard = demo_enclave" "sm_moment demo_sign_in = demo_moment"
  "ob_google demo_onboard = consent_google" "ml_toks (demo_mail p) = demo_toks p"
  by (simp_all add: demo_mail_def demo_toks_def demo_onboard_def demo_sign_in_def)

definition demo_handles :: "string \<Rightarrow> string" where
  "demo_handles uid = str_or (handle_for_email (Some uid) (pr_store demo_home)) (new_handle (sm_raw demo_sign_in))"

lemma demo_handles_known: "demo_handles ''a@b'' = demo_h"
  by code_simp

lemma demo_sign_in_inv:
  "keyring_inv demo_enclave demo_keystore demo_handles demo_home"
  "fresh_key demo_enclave demo_moment demo_handles uid demo_home"
proof -
  have files: "st_files (pr_store demo_home) u n = (if u = ''a@b'' \<and> n = DEK_FILE then Some demo_file else None)" for u n
    by (simp add: demo_home_def demo_with_def demo_keyed_def)
  have "u = ''a@b''" if "st_deks (pr_store demo_home) u = Some k" for u k
    using that by (simp add: demo_home_def demo_with_def demo_keyed_def dek_put_def split: if_splits)
  moreover have "account_key demo_enclave demo_keystore demo_handles st ''a@b'' = account_key demo_enclave demo_keystore (\<lambda>_. demo_h) st ''a@b''" for st
    by (simp add: account_key_def demo_handles_known split: sum.splits)
  ultimately show "keyring_inv demo_enclave demo_keystore demo_handles demo_home"
    using demo_home_inv unfolding keyring_inv_def by metis
  show "fresh_key demo_enclave demo_moment demo_handles uid demo_home"
    by (simp add: fresh_key_def files)
qed

theorem sign_in_stores_the_grant_witness:
  "\<exists>a t gp. handle_callback demo_onboard demo_sign_in demo_query (\<lambda>s. s = ''st'') ''r'' ''/d'' (demo_mail demo_home) = (Inr (a, ''/d''), t)
     \<and> consented demo_onboard ''c'' ''r'' ''st'' gp
     \<and> vault demo_enclave demo_keystore demo_handles (ml_store t) (''a@b'', TOKEN_FILE) = Some (utf8 (gp_refresh gp))"
proof -
  obtain a loc t where run: "handle_callback demo_onboard demo_sign_in demo_query (\<lambda>s. s = ''st'') ''r'' ''/d'' (demo_mail demo_home)
      = (Inr (a, loc), t)" and id: "ac_id a = ''a@b''"
    using ran [OF demo_sign_in_run] by auto
  have hs: "demo_handles = (\<lambda>uid. str_or (handle_for_email (Some uid) (ml_store (demo_mail demo_home))) (new_handle (sm_raw demo_sign_in)))"
    by (rule ext) (simp add: demo_handles_def)
  have "honest demo_keystore (ob_enclave demo_onboard)" "aead_inverts (en_crypto (ob_enclave demo_onboard))"
    using demo_honest demo_crypto_laws(1) by simp_all
  from sign_in_stores_the_grant [OF run this _ hs] demo_sign_in_inv
  obtain code state gp where "demo_query ''code'' = Some code" "demo_query ''state'' = Some state"
    "consented demo_onboard code ''r'' state gp" "loc = ''/d''"
    "vault demo_enclave demo_keystore demo_handles (ml_store t) =
       (vault demo_enclave demo_keystore demo_handles (pr_store demo_home))((ac_id a, TOKEN_FILE) \<mapsto> utf8 (gp_refresh gp))"
    by (auto simp del: utf8.simps)
  with run id show ?thesis by (auto simp: demo_query_def simp del: utf8.simps)
qed

theorem refused_callback_touches_nothing_witness:
  "\<exists>c msg. handle_callback demo_onboard demo_sign_in demo_query (\<lambda>s. s = ''other'') ''r'' ''/d'' (demo_mail demo_home)
     = (Inl (Provision c msg), demo_mail demo_home)"
  using refused_callback_touches_nothing [of demo_query "\<lambda>s. s = ''other''" demo_onboard demo_sign_in "''r''" "''/d''" "demo_mail demo_home"]
  by (auto simp: demo_query_def str_or_def truthy_def)

definition demo_knowing :: "unit proc" where
  "demo_knowing = demo_home\<lparr>pr_jwk := Some [(''kty'', JStr ''RSA''), (''e'', JStr ''AQAB''), (''n'', JStr ''n'')]\<rparr>"

lemma demo_auth_run:
  "(case fst (and_then (pkce_verifier demo_onboard ''st'')
       (\<lambda>v. in_toks (in_proc (client_dpop_jkt demo_enclave demo_moment))) (demo_mail demo_knowing)) of
     Inr u \<Rightarrow> True | Inl _ \<Rightarrow> False)"
  "(case fst (exchange_code demo_onboard demo_moment ''c'' ''r'' ''st'' (demo_mail demo_home)) of Inr gp \<Rightarrow> gp_email gp = ''a@b'' | Inl _ \<Rightarrow> False)"
  by code_simp+

lemma demo_auth_url: "\<exists>url s1. build_auth_url demo_onboard demo_moment ''st'' ''r'' (demo_mail demo_knowing) = (Inr url, s1)"
proof -
  obtain u t where "and_then (pkce_verifier demo_onboard ''st'')
      (\<lambda>v. in_toks (in_proc (client_dpop_jkt demo_enclave demo_moment))) (demo_mail demo_knowing) = (Inr u, t)"
    using ran [OF demo_auth_run(1)] by blast
  then obtain v s1 where "pkce_verifier demo_onboard ''st'' (demo_mail demo_knowing) = (Inr v, s1)"
    "in_toks (in_proc (client_dpop_jkt demo_enclave demo_moment)) s1 = (Inr u, t)" by auto
  moreover have "load_keys demo_onboard s = (Inr (''id'', ''secret''), s)" for s by (simp add: consent_google_def)
  ultimately show ?thesis by (simp add: build_auth_url_def and_then_eval demand_def give_def)
qed

theorem exchange_matches_the_consent_witness:
  "\<exists>url s1 v jkt w payload. build_auth_url demo_onboard demo_moment ''st'' ''r'' (demo_mail demo_knowing) = (Inr url, s1)
     \<and> url = AUTH_ENDPOINT @ ''?'' @ urlencode (auth_params ''id'' ''r'' (scope_param (ob_env demo_onboard)) ''st'' (challenge demo_onboard v) jkt)
     \<and> answered_with consent_google (exchange_form ''c'' (''id'', ''secret'') ''r'' v) w payload"
proof -
  obtain url s1 where b: "build_auth_url demo_onboard demo_moment ''st'' ''r'' (demo_mail demo_knowing) = (Inr url, s1)"
    using demo_auth_url by blast
  obtain gp u1 where x: "exchange_code demo_onboard demo_moment ''c'' ''r'' ''st'' (demo_mail demo_home) = (Inr gp, u1)"
    using ran [OF demo_auth_run(2)] by blast
  have sec: "secret_ok (ob_enclave demo_onboard) (ml_proc (demo_mail demo_home))"
    using demo_home_inv by (simp add: keyring_inv_def)
  have known: "secret_ok (ob_enclave demo_onboard) (ml_proc (demo_mail demo_knowing))"
    using sec by (simp add: secret_ok_def demo_knowing_def)
  from exchange_matches_the_consent [OF b known x sec] b show ?thesis
    by (auto simp: consent_google_def)
qed

text \<open>A store of a hundred other accounts, and a signup that arrives at it.\<close>

definition demo_full :: "acct_entry list" where
  "demo_full = replicate 100 (demo_entry\<lparr>ae_id := ''z@z''\<rparr>)"

definition demo_newcomer :: "unit proc" where "demo_newcomer = demo_with demo_full demo_proc"
definition demo_admitted :: "unit proc" where
  "demo_admitted = (demo_with demo_full demo_keyed)\<lparr>pr_store := put_file ''a@b'' TOKEN_FILE demo_grant (pr_store (demo_with demo_full demo_keyed))\<rparr>"

lemma demo_newcomer_create:
  "create demo_enclave demo_moment ''a@b'' demo_h demo_newcomer = (Inr (), demo_with demo_full demo_keyed)"
proof -
  let ?s = "demo_newcomer\<lparr>pr_secret := Some (utf8 (replicate 16 CHR ''s''))\<rparr>"
  have "seal_dek demo_enclave (replicate 12 1) demo_h (replicate 32 9) 1 demo_newcomer = (Inr demo_inner, ?s)"
    by (simp add: seal_dek_def and_then_def demand_def KEY_LEN_def app_secret_eval [OF demo_secret] give_def demo_inner_def
        demo_newcomer_def demo_with_def secret_ok_def)
  moreover have "client_wrap demo_enclave demo_moment demo_h demo_inner ?s = (Inr demo_record, ?s)"
    by (rule demo_client_wrap [OF demo_outer_wrap]) (simp_all add: demo_newcomer_def demo_with_def)
  ultimately show ?thesis
    using demo_encode
    by (simp add: create_def and_then_def check_handle_of_def of_sum_def check_handle_def read_store_def has_key_def
        file_at_def demand_def KEY_VERSION_def store_record_def put_doc_def change_store_def remember_def demo_keyed_def
        demo_newcomer_def demo_with_def put_file_def
        del: check_handle_Inr file_at_Inr)
qed

lemma demo_newcomer_take:
  "take_custody demo_enclave demo_moment (Pair ''a@b'' demo_h) ''rt'' demo_newcomer = (Inr (), demo_admitted)"
proof -
  let ?k = "demo_with demo_full demo_keyed"
  have k: "has_key ''a@b'' (pr_store demo_newcomer) = Inr False" "has_key ''a@b'' (pr_store ?k) = Inr True"
    by (simp_all add: has_key_def file_at_def demo_newcomer_def demo_with_def demo_keyed_def DEK_FILE_def demo_proc_def del: file_at_Inr)
  have d: "dek_for demo_enclave demo_moment (Pair ''a@b'' demo_h) ?k = (Inr (replicate 32 9), ?k)"
    using demo_names(5)
    by (simp add: demo_who_def dek_for_def and_then_def of_sum_def read_store_def demo_with_def demo_keyed_def dek_get_def
        dek_put_def DEK_TTL_def give_def)
  show ?thesis
    using k d demo_grant_enc demo_newcomer_create demo_names(5)
    by (simp add: demo_who_def take_custody_def write_encrypted_def and_then_def of_sum_def read_store_def demand_def give_def
        put_doc_def change_store_def demo_admitted_def)
qed

definition demo_profile :: google_profile where
  "demo_profile = \<lparr>gp_email = ''a@b'', gp_first = ''a'', gp_last = ''a'', gp_refresh = ''rt''\<rparr>"

lemma demo_refused:
  "\<exists>c msg t. register demo_onboard demo_sign_in ''a@b'' demo_h demo_profile (demo_mail demo_admitted) = (Inl (Provision c msg), t)"
proof -
  have names: "norm_arg (Some ''a@b'') = ''a@b''" "norm_id ''z@z'' \<noteq> ''a@b''" "\<not> contains ''..'' ''a@b''" by code_simp+
  have full: "put_entry 100 (new_entry ''a@b'' su h) demo_full = Inl AccountLimitReached" for su h
  proof -
    have "find (has_id ''a@b'') demo_full = None" using names(2) by (simp add: demo_full_def has_id_def find_None_iff)
    then show ?thesis by (simp add: put_entry_def) (simp add: demo_full_def)
  qed
  have "register_account demo_site demo_ctx (new_handle (sm_raw demo_sign_in)) (new_signup demo_site ''a@b'' demo_h demo_profile)
      (ml_store (demo_mail demo_admitted)) = (Inl AccountLimitReached, ml_store (demo_mail demo_admitted))"
    using names full
    by (simp add: register_account_def new_signup_def str_or_def truthy_def check_handle_def transaction_def the_default_def
        demo_admitted_def demo_with_def demo_site_def put_file_def Let_def del: check_handle_Inr)
  moreover have refuses: "(case fst (refuse_signup demo_site demo_ctx ''a@b'' demo_h (demo_mail demo_admitted) :: (mail_error + account) \<times> _) of
      Inl (Provision c msg) \<Rightarrow> True | _ \<Rightarrow> False)"
    by code_simp
  obtain r t where r: "(refuse_signup demo_site demo_ctx ''a@b'' demo_h (demo_mail demo_admitted) :: (mail_error + account) \<times> _) = (r, t)"
    by fastforce
  with refuses obtain c msg where "r = Inl (Provision c msg)" by (auto split: sum.splits mail_error.splits)
  ultimately show ?thesis
    using r by (simp add: register_def in_files_def lift_err_def set_proc_def demo_onboard_def demo_sign_in_def demo_mail_def demo_toks_def)
qed

text \<open>The same person comes back after room was made, and draws another handle.\<close>

definition demo_returning :: "unit mail \<Rightarrow> unit mail" where
  "demo_returning s = set_proc ((ml_proc s)\<lparr>pr_secret := None, pr_store := (forget_keys None (ml_store s))\<lparr>st_manifest := Some []\<rparr>\<rparr>) s"

theorem refused_signup_locks_the_address_witness:
  "\<exists>c msg t. register demo_onboard demo_sign_in ''a@b'' demo_h demo_profile (demo_mail demo_admitted) = (Inl (Provision c msg), t)
     \<and> c = 503 \<and> (\<forall>code redirect state acct v.
          provision demo_onboard demo_sign_in code redirect state (demo_returning t) = (Inr acct, v) \<longrightarrow> ac_id acct \<noteq> ''a@b'')"
proof -
  obtain c msg t where r: "register demo_onboard demo_sign_in ''a@b'' demo_h demo_profile (demo_mail demo_admitted) = (Inl (Provision c msg), t)"
    using demo_refused by blast
  have g: "take_grant demo_onboard demo_moment ''a@b'' demo_h ''rt'' (demo_mail demo_newcomer) = (Inr (), demo_mail demo_admitted)"
    using demo_newcomer_take by (simp add: take_grant_def except_custody_def in_toks_def in_proc_def lift_err_def demo_mail_def demo_toks_def)
  have none: "st_files (ml_store (demo_mail demo_newcomer)) ''a@b'' DEK_FILE = None"
    by (simp add: demo_newcomer_def demo_with_def)
  have laws: "honest demo_keystore (ob_enclave demo_onboard)" "aead_inverts (en_crypto (ob_enclave demo_onboard))"
    "aead_binds (en_crypto (ob_enclave demo_onboard))" using demo_honest demo_crypto_laws by simp_all
  have other: "new_handle (sm_raw demo_sign_in) \<noteq> demo_h" by code_simp
  have sec: "secret_ok (ob_enclave demo_onboard) (ml_proc (demo_returning t))"
    by (simp add: secret_ok_def demo_returning_def)
  from refused_signup_locks_the_address [OF g none r laws _ _ sec _ other] r show ?thesis
    by (auto simp: demo_returning_def handle_for_email_def dek_get_def)
qed

end
