(* ===== verification/Regex.thy ===== *)
theory Regex
  imports Prelude
begin

text \<open>
  The part of Python's \<open>re\<close> and of its string searches that the sources use. A position in a text
  is what has been read, reversed, and what is left. \<open>ends\<close> gives every end of a match from a
  position in the order the backtracking matcher tries them, so its head is the match; lists of
  ends make greedy and lazy repetition, alternation and the zero-width tests one definition each.
\<close>

type_synonym pos = "string \<times> string"

datatype rx =
    Eps | Sat "char \<Rightarrow> bool" | Edge | NotAfter "char \<Rightarrow> bool" | NotBefore "char \<Rightarrow> bool"
  | Cat rx rx | Either rx rx | Star rx | Lazy rx

text \<open>\<open>\w\<close>, and the word edge \<open>\b\<close> between two characters or at an end.\<close>

definition word_char :: "char \<Rightarrow> bool" where
  "word_char c =
     (let n = (of_char c :: nat)
      in is_digit c \<or> (65 \<le> n \<and> n \<le> 90) \<or> (97 \<le> n \<and> n \<le> 122) \<or> n = 95
         \<or> n = 170 \<or> n = 181 \<or> n = 186 \<or> n = 178 \<or> n = 179 \<or> n = 185 \<or> (188 \<le> n \<and> n \<le> 190)
         \<or> (192 \<le> n \<and> n \<noteq> 215 \<and> n \<noteq> 247))"

definition next_is :: "(char \<Rightarrow> bool) \<Rightarrow> string \<Rightarrow> bool" where
  "next_is p s = (case s of [] \<Rightarrow> False | c # _ \<Rightarrow> p c)"

text \<open>\<open>loop n\<close> repeats at most \<open>n\<close> times, and never a step that consumes nothing.\<close>

fun loop :: "nat \<Rightarrow> (pos \<Rightarrow> pos list) \<Rightarrow> pos \<Rightarrow> pos list" where
  "loop 0 f p = [p]"
| "loop (Suc n) f p =
     concat (map (loop n f) (filter (\<lambda>q. length (snd q) < length (snd p)) (f p))) @ [p]"

fun loop_lazy :: "nat \<Rightarrow> (pos \<Rightarrow> pos list) \<Rightarrow> pos \<Rightarrow> pos list" where
  "loop_lazy 0 f p = [p]"
| "loop_lazy (Suc n) f p =
     p # concat (map (loop_lazy n f) (filter (\<lambda>q. length (snd q) < length (snd p)) (f p)))"

primrec ends :: "rx \<Rightarrow> pos \<Rightarrow> pos list" where
  "ends Eps p = [p]"
| "ends (Sat c) p = (case snd p of [] \<Rightarrow> [] | x # xs \<Rightarrow> if c x then [(x # fst p, xs)] else [])"
| "ends Edge p = (if next_is word_char (fst p) \<noteq> next_is word_char (snd p) then [p] else [])"
| "ends (NotAfter c) p = (if next_is c (fst p) then [] else [p])"
| "ends (NotBefore c) p = (if next_is c (snd p) then [] else [p])"
| "ends (Cat a b) p = concat (map (ends b) (ends a p))"
| "ends (Either a b) p = ends a p @ ends b p"
| "ends (Star a) p = loop (length (snd p)) (ends a) p"
| "ends (Lazy a) p = loop_lazy (length (snd p)) (ends a) p"

definition same_char :: "char \<Rightarrow> char \<Rightarrow> bool" where
  "same_char c x \<longleftrightarrow> lower_char x = lower_char c"

definition lit :: "string \<Rightarrow> rx" where
  "lit s = foldr (\<lambda>c r. Cat (Sat (\<lambda>x. x = c)) r) s Eps"

text \<open>A literal under \<open>IGNORECASE\<close>.\<close>

definition lit_i :: "string \<Rightarrow> rx" where
  "lit_i s = foldr (\<lambda>c r. Cat (Sat (same_char c)) r) s Eps"

definition opt :: "rx \<Rightarrow> rx" where "opt r = Either r Eps"
definition some_of :: "rx \<Rightarrow> rx" where "some_of r = Cat r (Star r)"

primrec times :: "nat \<Rightarrow> rx \<Rightarrow> rx" where
  "times 0 r = Eps"
| "times (Suc n) r = Cat r (times n r)"

definition at_least :: "nat \<Rightarrow> rx \<Rightarrow> rx" where "at_least n r = Cat (times n r) (Star r)"

definition cat_all :: "rx list \<Rightarrow> rx" where "cat_all rs = foldr Cat rs Eps"

section \<open>Searching and replacing\<close>

text \<open>\<open>rx.sub\<close>: the replacement of each match may change a state. After a match that consumed nothing, the
  next one from the same position has to consume something.\<close>

definition consumed :: "pos \<Rightarrow> pos \<Rightarrow> string" where
  "consumed p q = take (length (snd p) - length (snd q)) (snd p)"

definition match_at :: "rx \<Rightarrow> bool \<Rightarrow> pos \<Rightarrow> pos option" where
  "match_at r must p =
     (case filter (\<lambda>q. length (snd q) \<le> length (snd p) \<and> (must \<longrightarrow> length (snd q) < length (snd p))) (ends r p) of
        [] \<Rightarrow> None | q # _ \<Rightarrow> Some q)"

lemma match_at_ends:
  "match_at r must p = Some q \<Longrightarrow>
   q \<in> set (ends r p) \<and> length (snd q) \<le> length (snd p) \<and> (must \<longrightarrow> length (snd q) < length (snd p))"
proof -
  assume m: "match_at r must p = Some q"
  define ok where "ok = (\<lambda>q :: pos. length (snd q) \<le> length (snd p) \<and> (must \<longrightarrow> length (snd q) < length (snd p)))"
  from m have "\<exists>qs. filter ok (ends r p) = q # qs"
    unfolding match_at_def ok_def [symmetric] by (cases "filter ok (ends r p)") simp_all
  then have "q \<in> set (filter ok (ends r p))" by (metis list.set_intros(1))
  then show ?thesis by (simp add: ok_def)
qed

function sub_from :: "rx \<Rightarrow> (string \<Rightarrow> 's \<Rightarrow> string \<times> 's) \<Rightarrow> bool \<Rightarrow> pos \<Rightarrow> 's \<Rightarrow> string \<times> 's" where
  "sub_from r f must p st =
     (case match_at r must p of
        Some q \<Rightarrow>
          (case f (consumed p q) st of (t, st') \<Rightarrow>
             (case sub_from r f (length (snd q) = length (snd p)) q st' of (out, st'') \<Rightarrow> (t @ out, st'')))
      | None \<Rightarrow>
          (case snd p of
             [] \<Rightarrow> ([], st)
           | c # cs \<Rightarrow> (case sub_from r f False (c # fst p, cs) st of (out, st') \<Rightarrow> (c # out, st'))))"
  by pat_completeness auto

termination sub_from
  by (relation "measure (\<lambda>(r, f, must, p, st). 2 * length (snd p) + (if must then 0 else 1))")
    (auto dest: match_at_ends)

declare sub_from.simps [simp del]

definition sub_with :: "rx \<Rightarrow> (string \<Rightarrow> 's \<Rightarrow> string \<times> 's) \<Rightarrow> string \<Rightarrow> 's \<Rightarrow> string \<times> 's" where
  "sub_with r f text st = sub_from r f False ([], text) st"

definition sub :: "rx \<Rightarrow> string \<Rightarrow> string \<Rightarrow> string" where
  "sub r repl text = fst (sub_with r (\<lambda>_ u. (repl, u)) text ())"

fun finds :: "rx \<Rightarrow> string \<Rightarrow> string \<Rightarrow> bool" where
  "finds r seen [] = (ends r (seen, []) \<noteq> [])"
| "finds r seen (c # cs) = (ends r (seen, c # cs) \<noteq> [] \<or> finds r (c # seen) cs)"

definition search :: "rx \<Rightarrow> string \<Rightarrow> bool" where
  "search r text = finds r [] text"

text \<open>\<open>text.replace\<close> and \<open>text.count\<close> of a non-empty part, and the start of every occurrence.\<close>

definition starts_with :: "string \<Rightarrow> string \<Rightarrow> bool" where
  "starts_with part s \<longleftrightarrow> take (length part) s = part"

function replace_all :: "string \<Rightarrow> string \<Rightarrow> string \<Rightarrow> string" where
  "replace_all part by_text s =
     (case s of
        [] \<Rightarrow> []
      | c # cs \<Rightarrow>
          if part \<noteq> [] \<and> starts_with part s then by_text @ replace_all part by_text (drop (length part) s)
          else c # replace_all part by_text cs)"
  by pat_completeness auto

termination replace_all
  by (relation "measure (\<lambda>(part, by_text, s). length s)") auto

function count_of :: "string \<Rightarrow> string \<Rightarrow> nat" where
  "count_of part s =
     (case s of
        [] \<Rightarrow> 0
      | c # cs \<Rightarrow> if part \<noteq> [] \<and> starts_with part s then Suc (count_of part (drop (length part) s)) else count_of part cs)"
  by pat_completeness auto

termination count_of
  by (relation "measure (\<lambda>(part, s). length s)") auto

declare replace_all.simps [simp del] count_of.simps [simp del]

fun starts_at :: "string \<Rightarrow> nat \<Rightarrow> string \<Rightarrow> nat list" where
  "starts_at part i [] = (if part = [] then [i] else [])"
| "starts_at part i (c # cs) = (if starts_with part (c # cs) then i # starts_at part (Suc i) cs else starts_at part (Suc i) cs)"

section \<open>What a match reads\<close>

lemma ends_consume: "q \<in> set (ends r p) \<Longrightarrow> \<exists>m. snd p = m @ snd q \<and> fst q = rev m @ fst p"
proof (induction r arbitrary: p q)
  case (Sat c)
  then show ?case by (cases p) (auto split: list.splits if_splits)
next
  case (Cat a b)
  then obtain o' where "o' \<in> set (ends a p)" "q \<in> set (ends b o')" by auto
  with Cat.IH obtain m n where "snd p = m @ snd o'" "fst o' = rev m @ fst p" "snd o' = n @ snd q" "fst q = rev n @ fst o'"
    by meson
  then show ?case by (intro exI [of _ "m @ n"]) simp
next
  case (Star a)
  have "q \<in> set (loop n (ends a) p) \<Longrightarrow> \<exists>m. snd p = m @ snd q \<and> fst q = rev m @ fst p" for n
  proof (induction n arbitrary: p)
    case (Suc n)
    show ?case
    proof (cases "q = p")
      case False
      with Suc.prems obtain o' where "o' \<in> set (ends a p)" "q \<in> set (loop n (ends a) o')" by auto
      with Suc.IH Star.IH obtain m k where "snd p = m @ snd o'" "fst o' = rev m @ fst p" "snd o' = k @ snd q" "fst q = rev k @ fst o'"
        by meson
      then show ?thesis by (intro exI [of _ "m @ k"]) simp
    qed simp
  qed simp
  with Star.prems show ?case by simp
next
  case (Lazy a)
  have "q \<in> set (loop_lazy n (ends a) p) \<Longrightarrow> \<exists>m. snd p = m @ snd q \<and> fst q = rev m @ fst p" for n
  proof (induction n arbitrary: p)
    case (Suc n)
    show ?case
    proof (cases "q = p")
      case False
      with Suc.prems obtain o' where "o' \<in> set (ends a p)" "q \<in> set (loop_lazy n (ends a) o')" by auto
      with Suc.IH Lazy.IH obtain m k where "snd p = m @ snd o'" "fst o' = rev m @ fst p" "snd o' = k @ snd q" "fst q = rev k @ fst o'"
        by meson
      then show ?thesis by (intro exI [of _ "m @ k"]) simp
    qed simp
  qed simp
  with Lazy.prems show ?case by simp
qed (auto split: if_splits)

section \<open>Evaluation\<close>

text \<open>Characters a match has to read: a text without one of them has no match, and need not be scanned.\<close>

primrec wants :: "rx \<Rightarrow> (char \<Rightarrow> bool) list" where
  "wants Eps = []" | "wants (Sat c) = [c]" | "wants Edge = []" | "wants (NotAfter c) = []" | "wants (NotBefore c) = []"
| "wants (Cat a b) = wants a @ wants b" | "wants (Either a b) = []" | "wants (Star a) = []" | "wants (Lazy a) = []"

lemma ends_wants:
  "q \<in> set (ends r p) \<Longrightarrow> c \<in> set (wants r) \<Longrightarrow> \<exists>m x. snd p = m @ snd q \<and> x \<in> set m \<and> c x"
proof (induction r arbitrary: p q)
  case (Sat d)
  then show ?case by (cases p) (auto split: list.splits if_splits)
next
  case (Cat a b)
  from Cat.prems(1) obtain o' where o': "o' \<in> set (ends a p)" "q \<in> set (ends b o')" by auto
  obtain m where m: "snd p = m @ snd o'" using ends_consume [OF o'(1)] by blast
  obtain k where k: "snd o' = k @ snd q" using ends_consume [OF o'(2)] by blast
  from Cat.prems(2) consider "c \<in> set (wants a)" | "c \<in> set (wants b)" by auto
  then show ?case
  proof cases
    case 1
    from Cat.IH(1) [OF o'(1) this] obtain m' x where "snd p = m' @ snd o'" "x \<in> set m'" "c x" by blast
    with k show ?thesis by (intro exI [of _ "m' @ k"] exI [of _ x]) simp
  next
    case 2
    from Cat.IH(2) [OF o'(2) this] obtain k' x where "snd o' = k' @ snd q" "x \<in> set k'" "c x" by blast
    with m show ?thesis by (intro exI [of _ "m @ k'"] exI [of _ x]) simp
  qed
qed simp_all

definition possible :: "rx \<Rightarrow> string \<Rightarrow> bool" where
  "possible r s \<longleftrightarrow> list_all (\<lambda>c. list_ex c s) (wants r)"

lemma impossible: "\<not> possible r s \<Longrightarrow> snd p = drop k s \<Longrightarrow> ends r p = []"
proof (rule ccontr)
  assume s: "\<not> possible r s" "snd p = drop k s" and "ends r p \<noteq> []"
  then obtain q where q: "q \<in> set (ends r p)" by (cases "ends r p") auto
  from s(1) obtain c where c: "c \<in> set (wants r)" "\<forall>x \<in> set s. \<not> c x"
    by (auto simp: possible_def list_all_iff list_ex_iff)
  from ends_wants [OF q c(1)] obtain m x where "snd p = m @ snd q" "x \<in> set m" "c x" by blast
  with s(2) c(2) show False by (metis Un_iff in_set_dropD set_append)
qed

lemma sub_from_impossible:
  "\<not> possible r s \<Longrightarrow> \<forall>j \<ge> k. \<forall>rd. ends r (rd, drop j s) = [] \<Longrightarrow> snd p = drop k s \<Longrightarrow> sub_from r f must p st = (drop k s, st)"
proof (induction "length s - k" arbitrary: k must p)
  case 0
  then have "match_at r must p = None" by (cases p) (auto simp: match_at_def)
  with 0 show ?case by (simp add: sub_from.simps [of r f must p])
next
  case (Suc n)
  then have none: "match_at r must p = None" by (cases p) (auto simp: match_at_def)
  obtain c cs where d: "drop k s = c # cs" using Suc.hyps(2) by (cases "drop k s") auto
  then have cs: "cs = drop (Suc k) s" by (metis drop_Suc list.sel(3) tl_drop)
  have "sub_from r f False (c # fst p, cs) st = (drop (Suc k) s, st)"
    by (rule Suc.hyps(1)) (use Suc cs in auto)
  with none Suc.prems(3) d cs show ?case by (simp add: sub_from.simps [of r f must p])
qed

lemma sub_with_code [code]:
  "sub_with r f s st = (if possible r s then sub_from r f False ([], s) st else (s, st))"
proof (cases "possible r s")
  case False
  then have "\<forall>j \<ge> 0. \<forall>rd. ends r (rd, drop j s) = []" using impossible [OF False] by simp
  from sub_from_impossible [OF False this, of "([], s)"] False show ?thesis by (simp add: sub_with_def)
qed (simp add: sub_with_def)


text \<open>The tests of a character by its bits, so that a concrete text evaluates quickly.\<close>

lemma is_digit_bits [code]:
  "is_digit (Char b0 b1 b2 b3 b4 b5 b6 b7) \<longleftrightarrow> \<not> b7 \<and> \<not> b6 \<and> b5 \<and> b4 \<and> (b3 \<longrightarrow> \<not> b2 \<and> \<not> b1)"
  by (cases b0; cases b1; cases b2; cases b3; cases b4; cases b5; cases b6; cases b7; simp add: is_digit_def)

lemma py_space_bits [code]:
  "py_space (Char b0 b1 b2 b3 b4 b5 b6 b7) \<longleftrightarrow>
     (if b7 then \<not> b6 \<and> \<not> b4 \<and> \<not> b3 \<and> (if b5 then \<not> b2 \<and> \<not> b1 \<and> \<not> b0 else b2 \<and> \<not> b1 \<and> b0)
      else \<not> b6 \<and> (if b5 then \<not> b4 \<and> \<not> b3 \<and> \<not> b2 \<and> \<not> b1 \<and> \<not> b0
                 else b3 \<and> (if b4 then b2 else (b0 \<or> b1 \<or> b2) \<and> \<not> (b2 \<and> b1))))"
  by (cases b0; cases b1; cases b2; cases b3; cases b4; cases b5; cases b6; cases b7; simp add: py_space_def)

lemma word_char_bits [code]:
  "word_char (Char b0 b1 b2 b3 b4 b5 b6 b7) \<longleftrightarrow>
     (if b7 then
        (if b6 then \<not> (b4 \<and> \<not> b3 \<and> b2 \<and> b1 \<and> b0)
         else b5 \<and> (if b4 then (if b3 then (b2 \<or> b1 \<or> b0) \<and> \<not> (b1 \<and> b0) else (\<not> b2 \<and> b1) \<or> (b2 \<and> \<not> b1 \<and> b0))
                    else b3 \<and> \<not> b2 \<and> b1 \<and> \<not> b0))
      else if b6 then (if b4 \<and> b3 then (if b2 then \<not> b5 \<and> b1 \<and> b0 else \<not> (b1 \<and> b0)) else b0 \<or> b1 \<or> b2 \<or> b3 \<or> b4)
      else b5 \<and> b4 \<and> (b3 \<longrightarrow> \<not> b2 \<and> \<not> b1))"
  by (cases b0; cases b1; cases b2; cases b3; cases b4; cases b5; cases b6; cases b7; simp add: word_char_def is_digit_def)

lemma lower_char_bits [code]:
  "lower_char (Char b0 b1 b2 b3 b4 b5 b6 b7) =
     (if b6 \<and> \<not> b5 \<and> (if b7 then \<not> (b4 \<and> b2 \<and> b1 \<and> b0) else (b0 \<or> b1 \<or> b2 \<or> b3 \<or> b4) \<and> \<not> (b4 \<and> b3 \<and> (b2 \<or> b1 \<and> b0)))
      then Char b0 b1 b2 b3 b4 True b6 b7 else Char b0 b1 b2 b3 b4 b5 b6 b7)"
  by (cases b0; cases b1; cases b2; cases b3; cases b4; cases b5; cases b6; cases b7; simp add: lower_char_def char_of_def take_bit_eq_mod bit_0)

end
