(* ===== verification/Masking.thy ===== *)
theory Masking
  imports Regex Manifest
begin

text \<open>
  What a language model gets to see: \<open>backend/masking/pseudonymizer.py\<close>. The owner's own identifiers,
  the known contacts and the names seen before are replaced deterministically, then either the
  analyzer or the patterns replace what they find; \<open>restore\<close> puts the values back. The state is the
  dictionary shared by one draft. The analyzer and the anonymizer of Presidio are parameters: the
  first answers hits, the second calls our operator on the ones it applies. Texts are of the
  characters of Latin-1; \<open>PSEUDONYMIZE_ENABLED\<close> is the constant the source has, so the state
  is never None where masking is asked for. A replaced template holds no backslash, because it is made of
  tags and of stop words.
\<close>

definition USER_FIRST_TAG :: string where "USER_FIRST_TAG = ''[USER_FIRST]''"
definition USER_LAST_TAG :: string where "USER_LAST_TAG = ''[USER_LAST]''"
definition USER_EMAIL_TAG :: string where "USER_EMAIL_TAG = ''[USER_EMAIL]''"
definition USER_PHONE_TAG :: string where "USER_PHONE_TAG = ''[USER_PHONE]''"

definition PHONE_RUN :: rx where
  "PHONE_RUN = cat_all [NotAfter word_char, opt (Sat (\<lambda>c. c = CHR ''+'')), Sat is_digit,
     at_least 5 (Sat (\<lambda>c. is_digit c \<or> py_space c \<or> c \<in> set ''().-'')), Sat is_digit, NotBefore word_char]"

definition digits :: "string \<Rightarrow> string" where "digits s = filter is_digit s"

definition STOPWORDS :: "string list" where
  "STOPWORDS =
     [''will'', ''hope'', ''grace'', ''mark'', ''may'', ''june'', ''april'', ''august'',
      ''dawn'', ''rose'', ''art'', ''bill'', ''rich'', ''drew'', ''chase'', ''sky'', ''summer'',
      ''autumn'', ''brook'', ''reed'', ''victor'', ''joy'', ''faith'', ''crystal'', ''daisy'',
      ''ivy'', ''jean'', ''frank'', ''holly'', ''pearl'', ''ruby'', ''jade'', ''amber'', ''angel'',
      ''king'', ''prince'', ''major'', ''general'', ''miles'', ''wade'', ''penny'', ''sunny'',
      ''star'', ''cliff'', ''dale'', ''glen'', ''heath'', ''dean'', ''page'', ''sincerely'',
      ''regards'', ''best'', ''thanks'', ''dear'', ''hello'', ''cheers'']"

definition stop_word :: "string \<Rightarrow> bool" where "stop_word t \<longleftrightarrow> py_lower t \<in> set STOPWORDS"

section \<open>The owner\<close>

definition whole :: "rx \<Rightarrow> rx" where "whole r = cat_all [Edge, r, Edge]"

definition full_name :: "string \<Rightarrow> string \<Rightarrow> rx" where
  "full_name given family = whole (cat_all [lit_i given, some_of (Sat py_space), lit_i family])"

definition build_rules :: "identity \<Rightarrow> (rx \<times> string) list" where
  "build_rules i =
     (let firsts = id_first i # id_first_aliases i
      in map (\<lambda>f. (full_name f (id_last i), USER_FIRST_TAG @ '' '' @ USER_LAST_TAG)) firsts
         @ map (\<lambda>e. (lit_i e, USER_EMAIL_TAG)) (id_emails i)
         @ [(whole (lit (id_last i)), USER_LAST_TAG)]
         @ map (\<lambda>f. (whole (lit f), USER_FIRST_TAG)) firsts)"

definition ends_in :: "string \<Rightarrow> string \<Rightarrow> bool" where
  "ends_in part s \<longleftrightarrow> length part \<le> length s \<and> drop (length s - length part) s = part"

definition phone_or_same :: "string list \<Rightarrow> string \<Rightarrow> string" where
  "phone_or_same numbers m =
     (let cand = digits m
      in if length cand < MIN_PHONE_DIGITS then m
         else if \<exists>pd \<in> set numbers. cand = pd \<or> ends_in pd cand \<or> ends_in cand pd then USER_PHONE_TAG
         else m)"

definition mask_phones :: "identity \<Rightarrow> string \<Rightarrow> string" where
  "mask_phones i text =
     (if id_phone_digits i = [] then text
      else fst (sub_with PHONE_RUN (\<lambda>m u. (phone_or_same (id_phone_digits i) m, u)) text ()))"

definition mask_user :: "identity \<Rightarrow> string \<Rightarrow> string" where
  "mask_user i text = mask_phones i (fold (\<lambda>(rx, repl) t. sub rx repl t) (build_rules i) text)"

definition seed_mapping :: "identity \<Rightarrow> (string \<times> string) list" where
  "seed_mapping i =
     [(USER_FIRST_TAG, id_first i), (USER_LAST_TAG, id_last i)]
     @ (case id_emails i of [] \<Rightarrow> [] | e # _ \<Rightarrow> [(USER_EMAIL_TAG, e)])
     @ (case id_phone_digits i of [] \<Rightarrow> [] | d # _ \<Rightarrow> [(USER_PHONE_TAG, d)])"

section \<open>The patterns\<close>

definition is_upper :: "char \<Rightarrow> bool" where
  "is_upper c = (let n = (of_char c :: nat) in 65 \<le> n \<and> n \<le> 90)"

lemma is_upper_bits [code]:
  "is_upper (Char b0 b1 b2 b3 b4 b5 b6 b7) \<longleftrightarrow>
     \<not> b7 \<and> b6 \<and> \<not> b5 \<and> (b0 \<or> b1 \<or> b2 \<or> b3 \<or> b4) \<and> \<not> (b4 \<and> b3 \<and> (b2 \<or> b1 \<and> b0))"
  by (cases b0; cases b1; cases b2; cases b3; cases b4; cases b5; cases b6; cases b7; simp add: is_upper_def)

lemma is_lower_bits [code]:
  "is_lower (Char b0 b1 b2 b3 b4 b5 b6 b7) \<longleftrightarrow>
     \<not> b7 \<and> b6 \<and> b5 \<and> (b0 \<or> b1 \<or> b2 \<or> b3 \<or> b4) \<and> \<not> (b4 \<and> b3 \<and> (b2 \<or> b1 \<and> b0))"
  by (cases b0; cases b1; cases b2; cases b3; cases b4; cases b5; cases b6; cases b7; simp add: is_lower_def)

definition alnum :: "char \<Rightarrow> bool" where "alnum c \<longleftrightarrow> is_digit c \<or> is_upper c \<or> is_lower c"

abbreviation one_of :: "string \<Rightarrow> rx" where "one_of cs \<equiv> Sat (\<lambda>c. c \<in> set cs)"
abbreviation alnum_or :: "string \<Rightarrow> rx" where "alnum_or cs \<equiv> Sat (\<lambda>c. alnum c \<or> c \<in> set cs)"

definition PEM_EDGE :: "string \<Rightarrow> rx" where
  "PEM_EDGE word = cat_all [lit (''-----'' @ word @ '' ''),
     opt (Cat (some_of (Sat (\<lambda>c. is_upper c \<or> c = CHR '' ''))) (lit '' '')), lit ''PRIVATE KEY-----'']"

definition SECRET_RULES :: "(string \<times> rx) list" where
  "SECRET_RULES =
     [(''API_KEY'', whole (cat_all [lit ''sk-'', opt (lit ''ant-''), at_least 20 (alnum_or ''_-'')])),
      (''API_KEY'', whole (Cat (lit ''AKIA'') (times 16 (Sat (\<lambda>c. is_digit c \<or> is_upper c))))),
      (''API_KEY'', whole (Cat (lit ''AIza'') (times 35 (alnum_or ''_-'')))),
      (''API_KEY'', whole (cat_all [lit ''xox'', one_of ''baprs'', lit ''-'', at_least 10 (alnum_or ''-'')])),
      (''API_KEY'', whole (cat_all [lit ''gh'', one_of ''pousr'', lit ''_'', at_least 36 (Sat alnum)])),
      (''API_KEY'', whole (cat_all [lit ''lsv2_'', times 2 (Sat is_lower), lit ''_'', times 32 (Sat is_hex), lit ''_'',
         times 10 (Sat is_hex)])),
      (''API_KEY'', whole (cat_all [lit_i ''Bearer'', some_of (Sat py_space), at_least 20 (alnum_or ''._-'')])),
      (''JWT'', whole (cat_all [lit ''eyJ'', some_of (alnum_or ''_-''), lit ''.'', some_of (alnum_or ''_-''), lit ''.'',
         some_of (alnum_or ''_-'')])),
      (''PRIVATE_KEY'', cat_all [PEM_EDGE ''BEGIN'', Sat (\<lambda>_. True), Lazy (Sat (\<lambda>_. True)), PEM_EDGE ''END''])]"

definition NER_ENTITIES :: "string list" where
  "NER_ENTITIES = [''PERSON'', ''EMAIL_ADDRESS'', ''PHONE_NUMBER'', ''CREDIT_CARD'', ''IBAN_CODE'']"

text \<open>The entities of \<open>SECRET_RULES\<close>, sorted.\<close>

definition ENTITIES :: "string list" where
  "ENTITIES = NER_ENTITIES @ [''API_KEY'', ''JWT'', ''PRIVATE_KEY'']"

definition EMAIL_RUN :: rx where
  "EMAIL_RUN = whole (cat_all [some_of (alnum_or ''._%+-''), lit ''@'', some_of (alnum_or ''.-''), lit ''.'',
     at_least 2 (Sat (\<lambda>c. is_upper c \<or> is_lower c))])"

section \<open>The state of one draft\<close>

record person =
  ps_roles :: "(string \<times> string) list"
  ps_surftag :: "string \<Rightarrow> string option"

record masking =
  mk_identity :: identity
  mk_analyzer :: bool
  mk_counters :: "string \<Rightarrow> nat"
  mk_seen :: "string \<times> string \<Rightarrow> string option"
  mk_mapping :: "(string \<times> string) list"
  mk_names :: "(string \<times> string) list"
  mk_pindex :: "string \<Rightarrow> string option"
  mk_persons :: "nat \<Rightarrow> person option"
  mk_token_index :: "string \<Rightarrow> nat option"
  mk_protected :: "string list"

record hit =
  ht_entity :: string
  ht_start :: nat
  ht_stop :: nat

type_synonym operator = "string \<Rightarrow> string \<Rightarrow> masking \<Rightarrow> string \<times> masking"

record presidio =
  pr_available :: bool
  pr_analyze :: "string list \<Rightarrow> string \<Rightarrow> hit list"
  pr_anonymize :: "string \<Rightarrow> hit list \<Rightarrow> operator \<Rightarrow> masking \<Rightarrow> string \<times> masking"

datatype masking_failed = MaskingRewrote string nat nat | EmptyToken

definition new_state :: "presidio \<Rightarrow> identity \<Rightarrow> masking" where
  "new_state P i =
     \<lparr>mk_identity = i, mk_analyzer = (id_analyzer i \<and> pr_available P), mk_counters = (\<lambda>_. 0), mk_seen = (\<lambda>_. None),
      mk_mapping = seed_mapping i, mk_names = [], mk_pindex = (\<lambda>_. None), mk_persons = (\<lambda>_. None),
      mk_token_index = (\<lambda>_. None), mk_protected = []\<rparr>"

definition protect :: "string \<Rightarrow> masking \<Rightarrow> masking_failed + masking" where
  "protect token st =
     (if token = [] then Inl EmptyToken
      else Inr (if token \<in> set (mk_protected st) then st else st\<lparr>mk_protected := mk_protected st @ [token]\<rparr>))"

text \<open>\<open>d[k] = v\<close> and \<open>d.setdefault(k, v)\<close> of a dictionary whose order is read.\<close>

definition set_item :: "'k \<Rightarrow> 'v \<Rightarrow> ('k \<times> 'v) list \<Rightarrow> ('k \<times> 'v) list" where
  "set_item k v d = (if k \<in> fst ` set d then map (\<lambda>(a, b). if a = k then (a, v) else (a, b)) d else d @ [(k, v)])"

definition set_default :: "'k \<Rightarrow> 'v \<Rightarrow> ('k \<times> 'v) list \<Rightarrow> ('k \<times> 'v) list" where
  "set_default k v d = (if k \<in> fst ` set d then d else d @ [(k, v)])"

definition default_to :: "'k \<Rightarrow> 'v \<Rightarrow> ('k \<Rightarrow> 'v option) \<Rightarrow> 'k \<Rightarrow> 'v option" where
  "default_to k v m = (if m k = None then m(k \<mapsto> v) else m)"

section \<open>Numbered tags\<close>

definition value_key :: "string \<Rightarrow> string" where "value_key surface = py_strip (py_lower surface)"

definition number_tag :: "string \<Rightarrow> nat \<Rightarrow> string" where
  "number_tag etype n = ''['' @ etype @ str_nat n @ '']''"

definition tag_value :: "string \<Rightarrow> string \<Rightarrow> masking \<Rightarrow> string \<times> masking" where
  "tag_value etype surface st =
     (case mk_seen st (etype, value_key surface) of
        Some tag \<Rightarrow> (tag, st)
      | None \<Rightarrow>
          (let n = mk_counters st etype + 1; tag = number_tag etype n
           in (tag, st\<lparr>mk_counters := (mk_counters st)(etype := n),
                       mk_seen := (mk_seen st)((etype, value_key surface) \<mapsto> tag),
                       mk_mapping := set_item tag surface (mk_mapping st)\<rparr>)))"

definition phone_value :: "string \<Rightarrow> masking \<Rightarrow> string \<times> masking" where
  "phone_value m st = (if length (digits m) < MIN_PHONE_DIGITS then (m, st) else tag_value ''PHONE_NUMBER'' m st)"

fun secrets_masked :: "(string \<times> rx) list \<Rightarrow> string \<Rightarrow> masking \<Rightarrow> string \<times> masking" where
  "secrets_masked [] text st = (text, st)"
| "secrets_masked ((entity, r) # rules) text st =
     (case sub_with r (tag_value entity) text st of (t, st') \<Rightarrow> secrets_masked rules t st')"

definition pseudonymize_patterns :: "string \<Rightarrow> masking \<Rightarrow> string \<times> masking" where
  "pseudonymize_patterns text st =
     (case secrets_masked SECRET_RULES text st of (t1, s1) \<Rightarrow>
      case sub_with EMAIL_RUN (tag_value ''EMAIL_ADDRESS'') t1 s1 of (t2, s2) \<Rightarrow>
        sub_with PHONE_RUN phone_value t2 s2)"

section \<open>People\<close>

text \<open>
  The loop that looks for a free role; as many turns as there are roles are enough. A person id is
  in \<open>mk_persons\<close> whenever it is read, so the default stands for no KeyError.
\<close>

fun free_role :: "(string \<times> string) list \<Rightarrow> nat \<Rightarrow> nat \<Rightarrow> nat" where
  "free_role roles 0 n = n"
| "free_role roles (Suc fuel) n =
     (if ''X'' @ str_nat n \<in> fst ` set roles then free_role roles fuel (Suc n) else n)"

definition role_for :: "(string \<times> string) list \<Rightarrow> string \<Rightarrow> string" where
  "role_for roles preferred =
     (if preferred \<in> fst ` set roles then ''X'' @ str_nat (free_role roles (length roles) 1) else preferred)"

definition nobody :: person where "nobody = \<lparr>ps_roles = [], ps_surftag = (\<lambda>_. None)\<rparr>"

definition person_label :: "nat \<Rightarrow> string \<Rightarrow> string" where
  "person_label pid role = ''[PERSON'' @ str_nat pid @ ''_'' @ role @ '']''"

definition person_tag :: "nat \<Rightarrow> string \<Rightarrow> string \<Rightarrow> masking \<Rightarrow> string \<times> masking" where
  "person_tag pid surface preferred st =
     (let p = the_default nobody (mk_persons st pid); key = py_lower surface
      in case ps_surftag p key of
           Some tag \<Rightarrow> (tag, st)
         | None \<Rightarrow>
             (let role = role_for (ps_roles p) preferred; tag = person_label pid role
              in (tag, st\<lparr>mk_persons := (mk_persons st)(pid \<mapsto> \<lparr>ps_roles = set_item role surface (ps_roles p),
                                                              ps_surftag = (ps_surftag p)(key \<mapsto> tag)\<rparr>),
                          mk_mapping := set_default tag surface (mk_mapping st),
                          mk_names := set_default surface tag (mk_names st),
                          mk_pindex := default_to key tag (mk_pindex st),
                          mk_token_index := (mk_token_index st)(key \<mapsto> pid)\<rparr>)))"

definition new_person :: "masking \<Rightarrow> nat \<times> masking" where
  "new_person st =
     (let pid = mk_counters st ''PERSON'' + 1
      in (pid, st\<lparr>mk_counters := (mk_counters st)(''PERSON'' := pid), mk_persons := (mk_persons st)(pid \<mapsto> nobody)\<rparr>))"

definition person_of :: "string list \<Rightarrow> masking \<Rightarrow> nat \<times> masking" where
  "person_of tokens st =
     (case find (\<lambda>t. mk_token_index st (py_lower t) \<noteq> None) tokens of
        Some t \<Rightarrow> (the_default 0 (mk_token_index st (py_lower t)), st)
      | None \<Rightarrow> new_person st)"

definition role_at :: "nat \<Rightarrow> nat \<Rightarrow> string" where
  "role_at n i = (if i = 0 then ''FIRST'' else if i = n - 1 then ''LAST'' else ''MID'' @ str_nat i)"

fun tag_tokens :: "nat \<Rightarrow> nat \<Rightarrow> nat \<Rightarrow> string list \<Rightarrow> masking \<Rightarrow> string list \<times> masking" where
  "tag_tokens pid n i [] st = ([], st)"
| "tag_tokens pid n i (t # ts) st =
     (case (if stop_word t then (t, st) else person_tag pid t (role_at n i) st) of (x, st1) \<Rightarrow>
      case tag_tokens pid n (Suc i) ts st1 of (xs, st2) \<Rightarrow> (x # xs, st2))"

definition resolve_full :: "string \<Rightarrow> masking \<Rightarrow> string \<times> masking" where
  "resolve_full surface st =
     (let tokens = py_words [] surface
      in case person_of tokens st of (pid, st1) \<Rightarrow>
         case tag_tokens pid (length tokens) 0 tokens st1 of (parts, st2) \<Rightarrow>
           (let name = join_with '' '' parts
            in (name, st2\<lparr>mk_names := set_default surface name (mk_names st2),
                          mk_pindex := default_to (py_lower surface) name (mk_pindex st2)\<rparr>)))"

definition resolve_single :: "string \<Rightarrow> masking \<Rightarrow> string \<times> masking" where
  "resolve_single surface st =
     (if stop_word surface then (surface, st)
      else case mk_token_index st (py_lower surface) of
          Some pid \<Rightarrow> person_tag pid surface ''FIRST'' st
        | None \<Rightarrow> (case new_person st of (pid, st1) \<Rightarrow> person_tag pid surface ''FIRST'' st1))"

text \<open>\<open>sorted(\<dots>, reverse=True)\<close> keeps the order of what is equal.\<close>

definition longest_first :: "('a \<Rightarrow> nat) \<Rightarrow> 'a list \<Rightarrow> 'a list" where
  "longest_first f xs = sort_key (\<lambda>x. - int (f x)) xs"

definition hit_text :: "string \<Rightarrow> hit \<Rightarrow> string" where
  "hit_text text r = take (ht_stop r - ht_start r) (drop (ht_start r) text)"

fun resolve_all :: "string list \<Rightarrow> masking \<Rightarrow> masking" where
  "resolve_all [] st = st"
| "resolve_all (s # ss) st =
     resolve_all ss
       (if mk_pindex st (py_lower s) \<noteq> None then st
        else if 2 \<le> length (py_words [] s) then snd (resolve_full s st) else snd (resolve_single s st))"

definition resolve_persons :: "hit list \<Rightarrow> string \<Rightarrow> masking \<Rightarrow> masking" where
  "resolve_persons results text st =
     resolve_all (longest_first (\<lambda>s. length (py_words [] s))
       (filter (\<lambda>s. s \<noteq> []) (map (\<lambda>r. py_strip (hit_text text r)) (filter (\<lambda>r. ht_entity r = ''PERSON'') results)))) st"

definition contact_rx :: "string list \<Rightarrow> rx" where
  "contact_rx tokens =
     whole (case tokens of [] \<Rightarrow> Eps
       | t # ts \<Rightarrow> Cat (lit_i t) (cat_all (map (\<lambda>u. Cat (some_of (Sat py_space)) (lit_i u)) ts)))"

fun scrub_contacts :: "string list \<Rightarrow> string \<Rightarrow> masking \<Rightarrow> string \<times> masking" where
  "scrub_contacts [] text st = (text, st)"
| "scrub_contacts (surface # rest) text st =
     (let tokens = py_words [] surface; pat = contact_rx tokens
      in if tokens = [] \<or> \<not> search pat text then scrub_contacts rest text st
         else let st1 = (if mk_pindex st (py_lower surface) \<noteq> None then st
                         else if 2 \<le> length tokens then snd (resolve_full surface st)
                         else if \<not> stop_word surface then snd (resolve_single surface st) else st)
              in scrub_contacts rest
                   (if truthy (mk_pindex st1 (py_lower surface))
                    then sub pat (str_or (mk_pindex st1 (py_lower surface)) '''') text else text) st1)"

definition mask_names :: "string \<Rightarrow> masking \<Rightarrow> string" where
  "mask_names text st =
     fold (\<lambda>(surface, name) t. sub (whole (lit surface)) name t) (longest_first (\<lambda>(s, _). length s) (mk_names st)) text"

section \<open>Masking a text, and putting the values back\<close>

definition protected_spans :: "string \<Rightarrow> masking \<Rightarrow> (nat \<times> nat) list" where
  "protected_spans text st =
     concat (map (\<lambda>token. map (\<lambda>i. (i, i + length token)) (starts_at token 0 text)) (mk_protected st))"

definition drop_overlapping :: "hit list \<Rightarrow> (nat \<times> nat) list \<Rightarrow> hit list" where
  "drop_overlapping results spans =
     (if spans = [] then results
      else filter (\<lambda>r. \<not> (\<exists>(i, j) \<in> set spans. ht_start r < j \<and> i < ht_stop r)) results)"

definition operate :: operator where
  "operate etype text st =
     (if etype = ''PERSON'' then (the_default text (mk_pindex st (value_key text)), st)
      else tag_value etype text st)"

definition analyzed :: "presidio \<Rightarrow> string \<Rightarrow> masking \<Rightarrow> string \<times> masking" where
  "analyzed P text st =
     (let results = drop_overlapping (pr_analyze P ENTITIES text) (protected_spans text st)
      in if results = [] then (text, st)
         else pr_anonymize P text results operate (resolve_persons results text st))"

fun rewritten :: "string \<Rightarrow> string \<Rightarrow> string list \<Rightarrow> masking_failed option" where
  "rewritten old new [] = None"
| "rewritten old new (t # ts) =
     (if count_of t new \<noteq> count_of t old then Some (MaskingRewrote t (count_of t old) (count_of t new))
      else rewritten old new ts)"

definition pseudonymize :: "presidio \<Rightarrow> string \<Rightarrow> masking \<Rightarrow> (masking_failed + string) \<times> masking" where
  "pseudonymize P text st =
     (if text = [] then (Inr text, st)
      else case scrub_contacts (id_contacts (mk_identity st)) (mask_user (mk_identity st) text) st of (t1, s1) \<Rightarrow>
        (let t2 = mask_names t1 s1
         in case (if mk_analyzer s1 then analyzed P t2 s1 else pseudonymize_patterns t2 s1) of (t3, s3) \<Rightarrow>
              (case rewritten text t3 (mk_protected st) of Some e \<Rightarrow> Inl e | None \<Rightarrow> Inr t3, s3)))"

definition restore :: "string \<Rightarrow> masking \<Rightarrow> string" where
  "restore text st =
     (if text = [] then text
      else fold (\<lambda>(tag, v) t. replace_all tag v t) (longest_first (\<lambda>(tag, _). length tag) (mk_mapping st)) text)"

end
