(* ===== verification/MaskingRun.thy ===== *)
theory MaskingRun
  imports Masking
begin

text \<open>
  What masking promises: the owner's addresses never leave, tags and values correspond, protected
  tokens stay; and where \<open>restore\<close> does not undo it.
\<close>

section \<open>A replacement, seen from outside\<close>

text \<open>\<open>tagged T s out\<close>: \<open>out\<close> is \<open>s\<close> with some parts replaced by texts of \<open>T\<close>, and the letters of the
  rest perhaps in another case.\<close>

inductive tagged :: "(string \<Rightarrow> bool) \<Rightarrow> string \<Rightarrow> string \<Rightarrow> bool" for T where
  tagged_end: "tagged T [] []"
| tagged_char: "tagged T s out \<Longrightarrow> lower_char c = lower_char d \<Longrightarrow> tagged T (c # s) (d # out)"
| tagged_tag: "tagged T s out \<Longrightarrow> T t \<Longrightarrow> tagged T (m @ s) (t @ out)"

lemma tagged_keep: "tagged T s out \<Longrightarrow> tagged T (m @ s) (m @ out)"
  by (induction m) (auto intro: tagged_char)

lemma tagged_refl: "tagged T s s"
  using tagged_keep [OF tagged_end, of T s] by simp

lemma tagged_one: "T t \<Longrightarrow> tagged T m t"
  using tagged_tag [OF tagged_end, of T t m] by simp

lemma tagged_append: "tagged T a b \<Longrightarrow> tagged T s out \<Longrightarrow> tagged T (a @ s) (b @ out)"
  by (induction rule: tagged.induct) (auto intro: tagged.intros)

text \<open>What \<open>sub_from\<close> makes of a text and of a state, for a replacement that keeps an invariant.\<close>

lemma sub_from_tagged_on:
  assumes "\<And>m s. Q s \<Longrightarrow> M m \<Longrightarrow> Q (snd (f m s)) \<and> tagged T m (fst (f m s))" and "Q st"
    and on: "\<And>p q. q \<in> set (ends r p) \<Longrightarrow> M (consumed p q)"
  shows "tagged T (snd p) (fst (sub_from r f must p st)) \<and> Q (snd (sub_from r f must p st))"
  using assms
proof (induction r f must p st rule: sub_from.induct)
  case (1 r f must p st)
  show ?case
  proof (cases "match_at r must p")
    case None
    show ?thesis
    proof (cases "snd p")
      case Nil
      with None "1.prems" show ?thesis by (simp add: sub_from.simps [of r f must p st] tagged_end)
    next
      case (Cons c cs)
      from "1.IH"(1) [OF None Cons] "1.prems" None Cons show ?thesis
        by (simp add: sub_from.simps [of r f must p st] case_prod_beta tagged_char)
    qed
  next
    case (Some q)
    obtain t st' where t: "f (consumed p q) st = (t, st')" by fastforce
    from match_at_ends [OF Some] ends_consume [of q r p] obtain m where m: "snd p = m @ snd q" by blast
    then have c: "consumed p q = m" by (simp add: consumed_def)
    have "M m" using "1.prems"(3) match_at_ends [OF Some] c by metis
    then have t': "Q st'" "tagged T m t" using "1.prems"(1) [OF "1.prems"(2), of m] t c by auto
    from "1.IH"(2) [OF Some t [symmetric] _ t'(1) "1.prems"(3)] "1.prems"(1) t'(2) m c t Some show ?thesis
      by (auto simp: sub_from.simps [of r f must p st] case_prod_beta tagged_append)
  qed
qed

lemma sub_from_tagged:
  assumes "\<And>m s. Q s \<Longrightarrow> Q (snd (f m s)) \<and> (fst (f m s) = m \<or> T (fst (f m s)))" and "Q st"
  shows "tagged T (snd p) (fst (sub_from r f must p st)) \<and> Q (snd (sub_from r f must p st))"
proof (rule sub_from_tagged_on [where M = "\<lambda>_. True"])
  show "Q (snd (f m s)) \<and> tagged T m (fst (f m s))" if "Q s" for m s
    using assms(1) [OF that, of m] by (metis tagged_one tagged_refl)
qed (use assms(2) in simp_all)

lemma sub_with_tagged:
  assumes "\<And>m s. Q s \<Longrightarrow> Q (snd (f m s)) \<and> (fst (f m s) = m \<or> T (fst (f m s)))" and "Q st"
    and "sub_with r f s st = (out, st')"
  shows "tagged T s out" "Q st'"
  using sub_from_tagged [where f = f and T = T and Q = Q and p = "([], s)" and r = r and must = False, OF assms(1,2)] assms(3)
  by (simp_all add: sub_with_def)

lemma sub_tagged: "T repl \<Longrightarrow> tagged T s (sub r repl s)"
  using sub_with_tagged(1) [where Q = "\<lambda>_. True" and T = T and r = r and f = "\<lambda>_ u. (repl, u)" and st = "()" and s = s]
  by (cases "sub_with r (\<lambda>_ u. (repl, u)) s ()") (simp add: sub_def)

lemma sub_tagged_on:
  assumes "\<And>p q. q \<in> set (ends r p) \<Longrightarrow> tagged T (consumed p q) repl"
  shows "tagged T s (sub r repl s)"
  using sub_from_tagged_on [where Q = "\<lambda>_. True" and M = "\<lambda>m. tagged T m repl" and f = "\<lambda>_ u. (repl, u)" and st = "()"
      and p = "([], s)" and r = r and T = T and must = False] assms
  by (simp add: sub_def sub_with_def)

section \<open>An address that is not there does not come back\<close>

definition occurs :: "string \<Rightarrow> string \<Rightarrow> bool" where
  "occurs e s \<longleftrightarrow> (\<exists>a m b. s = a @ m @ b \<and> py_lower m = py_lower e)"

text \<open>A text no address can reach into: brackets or blanks around it, and no \<open>@\<close> in it.\<close>

definition neat :: "string \<Rightarrow> bool" where
  "neat t \<longleftrightarrow> t \<noteq> [] \<and> hd t \<in> set ''[ '' \<and> last t \<in> set ''] '' \<and> CHR ''@'' \<notin> set t"

definition plain_address :: "string \<Rightarrow> bool" where
  "plain_address e \<longleftrightarrow> CHR ''@'' \<in> set e \<and> CHR ''['' \<notin> set e \<and> CHR '']'' \<notin> set e \<and> CHR '' '' \<notin> set e"

lemma lower_char_other:
  assumes "lower_char x = c" "c \<in> set ''@[] ''"
  shows "x = c"
proof -
  have "(of_char x :: nat) = of_char c"
    using assms of_lower_char [of x] by (auto simp: Let_def split: if_splits)
  then show ?thesis by simp
qed

lemma lower_keeps:
  assumes "py_lower m = py_lower e" "c \<in> set ''@[] ''"
  shows "c \<in> set m \<longleftrightarrow> c \<in> set e"
proof -
  have only: "c \<in> set s \<longleftrightarrow> c \<in> set (py_lower s)" for s
  proof -
    have "lower_char c = c" using assms(2) by (auto simp: lower_char_def)
    then show ?thesis using lower_char_other [OF _ assms(2)] by (force simp: py_lower_def)
  qed
  show ?thesis unfolding only [of m] only [of e] assms(1) ..
qed

lemma plain_spelling:
  assumes "plain_address e" "py_lower m = py_lower e"
  shows "CHR ''@'' \<in> set m" "CHR ''['' \<notin> set m" "CHR '']'' \<notin> set m" "CHR '' '' \<notin> set m"
  using assms(1) lower_keeps [OF assms(2), of "CHR ''@''"] lower_keeps [OF assms(2), of "CHR ''[''"]
    lower_keeps [OF assms(2), of "CHR '']''"] lower_keeps [OF assms(2), of "CHR '' ''"]
  by (auto simp: plain_address_def)

lemma tagged_prefix:
  "tagged neat s out \<Longrightarrow> out = m @ b \<Longrightarrow> CHR ''['' \<notin> set m \<Longrightarrow> CHR '' '' \<notin> set m \<Longrightarrow>
   \<exists>m' b'. s = m' @ b' \<and> py_lower m' = py_lower m"
proof (induction arbitrary: m rule: tagged.induct)
  case (tagged_char s out c d)
  show ?case
  proof (cases m)
    case (Cons x m1)
    with tagged_char obtain m' b' where "s = m' @ b'" "py_lower m' = py_lower m1" by auto
    with Cons tagged_char.prems(1) tagged_char.hyps(2) show ?thesis
      by (intro exI [of _ "c # m'"] exI [of _ b']) (simp add: py_lower_def)
  qed (rule exI [of _ "[]"], simp)
next
  case (tagged_tag s out t k)
  show ?case
  proof (cases m)
    case Nil
    show ?thesis by (rule exI [of _ "[]"]) (simp add: Nil)
  next
    case (Cons x m1)
    with tagged_tag.prems tagged_tag.hyps(2) show ?thesis by (cases t) (auto simp: neat_def)
  qed
qed simp

lemma occurs_tag:
  assumes "neat t" "plain_address e" "occurs e (t @ out)"
  shows "occurs e out"
proof -
  from assms(3) obtain a m b where m: "t @ out = a @ m @ b" "py_lower m = py_lower e" unfolding occurs_def by blast
  note spelled = plain_spelling [OF assms(2) m(2)]
  from assms(1) have t: "t \<noteq> []" "last t \<in> set ''] ''" "CHR ''@'' \<notin> set t" unfolding neat_def by blast+
  from m(1) obtain us where us: "(t = a @ us \<and> us @ out = m @ b) \<or> (t @ us = a \<and> out = us @ m @ b)"
    by (auto simp: append_eq_append_conv2)
  show ?thesis
  proof (cases "us = [] \<or> t @ us = a")
    case True
    with us have "out = [] @ m @ b \<or> out = us @ m @ b" by auto
    with m(2) show ?thesis unfolding occurs_def by blast
  next
    case False
    with us have t2: "t = a @ us" "us @ out = m @ b" "us \<noteq> []" by auto
    have "last t \<in> set us" using t2(1,3) by (metis last_appendR last_in_set)
    with t(2) have "CHR '']'' \<in> set us \<or> CHR '' '' \<in> set us" by auto
    with t2(2) spelled(3,4) have "set m \<subseteq> set us" by (auto simp: append_eq_append_conv2)
    with spelled(1) t2(1) t(3) show ?thesis by auto
  qed
qed

lemma occurs_tagged: "tagged neat s out \<Longrightarrow> plain_address e \<Longrightarrow> occurs e out \<Longrightarrow> occurs e s"
proof (induction rule: tagged.induct)
  case (tagged_char s out c d)
  from tagged_char.prems(2) obtain a m b where m: "d # out = a @ m @ b" "py_lower m = py_lower e" unfolding occurs_def by blast
  show ?case
  proof (cases a)
    case Nil
    with m(1) have "d # out = m @ b" by simp
    from tagged_prefix [OF tagged.tagged_char [OF tagged_char.hyps] this] plain_spelling [OF tagged_char.prems(1) m(2)]
    obtain m' b' where "c # s = [] @ m' @ b'" "py_lower m' = py_lower m" by auto
    with m(2) show ?thesis unfolding occurs_def by metis
  next
    case (Cons x a')
    with m have "occurs e out" unfolding occurs_def by auto
    with tagged_char have "occurs e s" by blast
    then show ?thesis unfolding occurs_def by (metis append_Cons)
  qed
next
  case (tagged_tag s out t m)
  from occurs_tag [OF tagged_tag.hyps(2) tagged_tag.prems] tagged_tag have "occurs e s" by blast
  then show ?case unfolding occurs_def by (metis append_assoc)
qed simp

text \<open>The rule of an address takes every occurrence of it.\<close>

lemma lit_i_ends: "\<exists>m b. snd p = m @ b \<and> py_lower m = py_lower e \<Longrightarrow> \<exists>q. ends (lit_i e) p = [q] \<and> length (snd q) + length e = length (snd p)"
proof (induction e arbitrary: p)
  case Nil
  then show ?case by (simp add: lit_i_def)
next
  case (Cons c e)
  then obtain m b where m: "snd p = m @ b" "py_lower m = py_lower (c # e)" by blast
  then obtain x m' where x: "m = x # m'" "lower_char x = lower_char c" "py_lower m' = py_lower e"
    by (cases m) (auto simp: py_lower_def)
  have "\<exists>k d. snd (x # fst p, m' @ b) = k @ d \<and> py_lower k = py_lower e" using x(3) by auto
  from Cons.IH [OF this] obtain q where "ends (lit_i e) (x # fst p, m' @ b) = [q]" "length (snd q) + length e = length (m' @ b)"
    by auto
  with m x show ?case by (auto simp: lit_i_def same_char_def)
qed

lemma address_taken:
  assumes "plain_address e" "neat tag"
  shows "\<not> occurs e (fst (sub_from (lit_i e) (\<lambda>_ u. (tag, u)) must p ()))"
proof (induction "2 * length (snd p) + (if must then 0 else 1)" arbitrary: must p rule: less_induct)
  case less
  let ?f = "\<lambda>_ u. (tag, u)"
  have e: "e \<noteq> []" using assms(1) by (auto simp: plain_address_def)
  show ?case
  proof (cases "match_at (lit_i e) must p")
    case (Some q)
    from match_at_ends [OF Some] have "\<not> occurs e (fst (sub_from (lit_i e) ?f (length (snd q) = length (snd p)) q ()))"
      by (intro less) auto
    with occurs_tag [OF assms(2,1)] show ?thesis
      by (auto simp: sub_from.simps [of _ _ must p] Some case_prod_beta)
  next
    case None
    show ?thesis
    proof (cases "snd p")
      case Nil
      then show ?thesis using e by (auto simp: sub_from.simps [of _ _ must p] None occurs_def py_lower_def)
    next
      case (Cons c cs)
      define out where "out = fst (sub_from (lit_i e) ?f False (c # fst p, cs) ())"
      have here: "fst (sub_from (lit_i e) ?f must p ()) = c # out"
        by (simp add: sub_from.simps [of _ _ must p] None Cons case_prod_beta out_def)
      have later: "\<not> occurs e out" unfolding out_def using Cons by (intro less) simp
      have t: "tagged neat cs out"
        using sub_from_tagged [where Q = "\<lambda>_. True" and T = neat and f = ?f and st = "()" and p = "(c # fst p, cs)"
            and r = "lit_i e" and must = False] assms(2)
        by (simp add: out_def)
      show ?thesis
      proof
        assume "occurs e (fst (sub_from (lit_i e) ?f must p ()))"
        then obtain a m b where m: "c # out = a @ m @ b" "py_lower m = py_lower e" unfolding here occurs_def by blast
        have "a = []" using m later by (cases a) (auto simp: occurs_def)
        with m(1) have "c # out = m @ b" by simp
        from tagged_prefix [OF tagged.tagged_char [OF t refl] this] plain_spelling [OF assms(1) m(2)] Cons
        have "\<exists>m' b'. snd p = m' @ b' \<and> py_lower m' = py_lower e" using m(2) by auto
        then obtain q where "ends (lit_i e) p = [q]" "length (snd q) + length e = length (snd p)"
          using lit_i_ends [of p e] by blast
        with None e show False by (cases e) (auto simp: match_at_def split: if_splits)
      qed
    qed
  qed
qed

section \<open>A name found in another spelling\<close>

text \<open>What a contact pattern matches: the name in any case, with any run for each of its blanks.\<close>

inductive respelled :: "string \<Rightarrow> string \<Rightarrow> bool" where
  respelled_end: "respelled [] []"
| respelled_char: "respelled s m \<Longrightarrow> lower_char c = lower_char d \<Longrightarrow> respelled (c # s) (d # m)"
| respelled_blank: "respelled s m \<Longrightarrow> respelled (CHR '' '' # s) (run @ m)"

inductive_cases respelled_NilE [elim!]: "respelled [] m"
inductive_cases respelled_ConsE: "respelled (c # s) m"

lemma respelled_append: "respelled a m \<Longrightarrow> respelled b n \<Longrightarrow> respelled (a @ b) (m @ n)"
  by (induction rule: respelled.induct) (auto intro: respelled.intros)

lemma respelled_split: "respelled (a @ b) m \<Longrightarrow> \<exists>m1 m2. m = m1 @ m2 \<and> respelled b m2"
proof (induction a arbitrary: m)
  case (Cons c a)
  from Cons.prems show ?case
    unfolding append_Cons by (elim respelled_ConsE) (metis Cons.IH append_Cons append_assoc)+
qed (metis append_Nil)

lemma respelled_lower: "respelled s m \<Longrightarrow> respelled (py_lower s) m"
proof (induction rule: respelled.induct)
  case (respelled_blank s m run)
  have "lower_char (CHR '' '') = CHR '' ''" by (simp add: lower_char_def)
  with respelled_blank show ?case by (simp add: py_lower_def respelled.respelled_blank)
qed (auto simp: py_lower_def intro: respelled.intros)

lemma respelled_itself: "respelled s (py_lower s)"
  by (induction s) (auto simp: py_lower_def intro: respelled.intros)

lemma respelled_tagged: "tagged neat s t \<Longrightarrow> respelled s m \<Longrightarrow> tagged neat m t"
proof (induction arbitrary: m rule: tagged.induct)
  case (tagged_char s out c d)
  from tagged_char.prems consider m' d' where "m = d' # m'" "respelled s m'" "lower_char c = lower_char d'"
    | m' run where "c = CHR '' ''" "m = run @ m'" "respelled s m'"
    by (elim respelled_ConsE) blast+
  then show ?case
  proof cases
    case (1 m' d')
    with tagged_char show ?thesis by (auto intro: tagged.tagged_char)
  next
    case (2 m' run)
    have "lower_char (CHR '' '') = CHR '' ''" by (simp add: lower_char_def)
    with 2 tagged_char.hyps(2) have "d = CHR '' ''" using lower_char_other [of d "CHR '' ''"] by simp
    then have "neat [d]" by (simp add: neat_def)
    with tagged.tagged_tag [OF tagged_char.IH [OF 2(3)] this, of run] 2 show ?thesis by simp
  qed
next
  case (tagged_tag s out t k)
  from respelled_split [OF tagged_tag.prems] tagged_tag show ?case by (auto intro: tagged.tagged_tag)
qed (auto intro: tagged.intros)

lemma lit_i_match: "q \<in> set (ends (lit_i e) p) \<Longrightarrow> \<exists>m. snd p = m @ snd q \<and> respelled e m"
proof (induction e arbitrary: p)
  case Nil
  then show ?case by (auto simp: lit_i_def intro: respelled.intros)
next
  case (Cons c e)
  then obtain x xs where x: "snd p = x # xs" "same_char c x" "q \<in> set (ends (lit_i e) (x # fst p, xs))"
    by (cases "snd p") (auto simp: lit_i_def split: if_splits)
  from Cons.IH [OF x(3)] obtain m where "xs = m @ snd q" "respelled e m" by auto
  with x show ?case by (intro exI [of _ "x # m"]) (auto simp: same_char_def intro: respelled.intros)
qed

lemma lit_match: "q \<in> set (ends (lit s) p) \<Longrightarrow> snd p = s @ snd q"
proof (induction s arbitrary: p)
  case (Cons c s)
  then obtain x xs where "snd p = x # xs" "x = c" "q \<in> set (ends (lit s) (x # fst p, xs))"
    by (cases "snd p") (auto simp: lit_def split: if_splits)
  with Cons.IH show ?case by auto
qed (simp add: lit_def)

lemma whole_match:
  assumes "q \<in> set (ends (whole r) p)"
  shows "q \<in> set (ends r p)"
  using assms by (auto simp: whole_def cat_all_def split: if_splits)

lemma consumedI: "snd p = m @ snd q \<Longrightarrow> consumed p q = m"
  by (simp add: consumed_def)

lemma contact_match:
  assumes "ts \<noteq> []" "q \<in> set (ends (contact_rx ts) p)"
  shows "respelled (join_with '' '' ts) (consumed p q)"
proof -
  have more: "\<exists>m. snd p = m @ snd q \<and> respelled (concat (map (\<lambda>u. '' '' @ u) us)) m"
    if "q \<in> set (ends (cat_all (map (\<lambda>u. Cat (some_of (Sat py_space)) (lit_i u)) us)) p)" for us p
    using that
  proof (induction us arbitrary: p)
    case Nil
    then show ?case by (auto simp: cat_all_def intro: respelled.intros)
  next
    case (Cons u us)
    then obtain p1 p2 where p1: "p1 \<in> set (ends (some_of (Sat py_space)) p)" and p2: "p2 \<in> set (ends (lit_i u) p1)"
      and rest: "q \<in> set (ends (cat_all (map (\<lambda>u. Cat (some_of (Sat py_space)) (lit_i u)) us)) p2)"
      by (auto simp: cat_all_def simp del: ends.simps(7))
    from ends_consume [OF p1] obtain run where r: "snd p = run @ snd p1" by blast
    from lit_i_match [OF p2] obtain m where m: "snd p1 = m @ snd p2" "respelled u m" by blast
    from Cons.IH [OF rest] obtain n where "snd p2 = n @ snd q" "respelled (concat (map (\<lambda>u. '' '' @ u) us)) n" by blast
    with r m respelled_blank [OF respelled_append [OF m(2)], of _ n run] show ?case
      by (intro exI [of _ "run @ m @ n"]) auto
  qed
  have join: "join_with '' '' (t # us) = t @ concat (map (\<lambda>u. '' '' @ u) us)" for t us
    by (induction us arbitrary: t) auto
  from assms obtain t us where ts: "ts = t # us" by (cases ts) auto
  with assms(2) have "q \<in> set (ends (Cat (lit_i t) (cat_all (map (\<lambda>u. Cat (some_of (Sat py_space)) (lit_i u)) us))) p)"
    unfolding contact_rx_def ts list.case by (elim whole_match)
  then obtain p1 where "p1 \<in> set (ends (lit_i t) p)" and
    "q \<in> set (ends (cat_all (map (\<lambda>u. Cat (some_of (Sat py_space)) (lit_i u)) us)) p1)" by auto
  from lit_i_match [OF this(1)] more [OF this(2)] obtain m n where "snd p = (m @ n) @ snd q"
    "respelled t m" "respelled (concat (map (\<lambda>u. '' '' @ u) us)) n" by auto
  then show ?thesis using consumedI [of p "m @ n" q] by (simp add: ts join respelled_append)
qed

section \<open>Tags are neat\<close>

definition tidy :: "masking \<Rightarrow> bool" where
  "tidy st \<longleftrightarrow>
     (\<forall>pid p k t. mk_persons st pid = Some p \<longrightarrow> ps_surftag p k = Some t \<longrightarrow> neat t)
     \<and> (\<forall>s t. (s, t) \<in> set (mk_names st) \<longrightarrow> tagged neat s t)
     \<and> (\<forall>k t. mk_pindex st k = Some t \<longrightarrow> tagged neat k t) \<and> (\<forall>k t. mk_seen st k = Some t \<longrightarrow> neat t)"

lemma str_nat_at: "CHR ''@'' \<notin> set (str_nat n)"
  using str_nat_is_digit [of "CHR ''@''" n] by (auto simp: is_digit_def)

lemma number_tag_neat: "CHR ''@'' \<notin> set e \<Longrightarrow> neat (number_tag e n)"
  unfolding neat_def number_tag_def using str_nat_at [of n] by simp

lemma person_label_neat: "CHR ''@'' \<notin> set role \<Longrightarrow> neat (person_label pid role)"
  unfolding neat_def person_label_def using str_nat_at [of pid] by simp

lemma tagged_join:
  "list_all2 (\<lambda>t x. x = t \<or> neat x) ts xs \<Longrightarrow> tagged neat (join_with '' '' ts) (join_with '' '' xs)"
proof (induction rule: list_all2_induct)
  case (Cons t ts x xs)
  have one: "tagged neat t x" using Cons.hyps(1) by (auto intro: tagged_refl tagged_one)
  show ?case
  proof (cases ts)
    case Nil
    with Cons.hyps(2) one show ?thesis by simp
  next
    case (Cons t' ts')
    with Cons.hyps(2) obtain x' xs' where "xs = x' # xs'" by (cases xs) auto
    with Cons tagged_append [OF one tagged_keep [OF Cons.IH, of "'' ''"]] show ?thesis by simp
  qed
qed (simp add: tagged_end)

lemma set_item_in: "(a, b) \<in> set (set_item k v d) \<Longrightarrow> (a, b) \<in> set d \<or> (a, b) = (k, v)"
  by (auto simp: set_item_def split: if_splits)

lemma set_default_in: "(a, b) \<in> set (set_default k v d) \<Longrightarrow> (a, b) \<in> set d \<or> (a, b) = (k, v)"
  by (auto simp: set_default_def split: if_splits)

lemma tag_value_tidy:
  assumes "tidy st" "CHR ''@'' \<notin> set e"
  shows "neat (fst (tag_value e s st))" "tidy (snd (tag_value e s st))"
  using assms by (auto simp: tag_value_def tidy_def Let_def number_tag_neat split: option.splits)

lemma role_for_at: "CHR ''@'' \<notin> set r \<Longrightarrow> CHR ''@'' \<notin> set (role_for roles r)"
  using str_nat_at by (auto simp: role_for_def)

lemma person_tag_tidy:
  assumes "tidy st" "CHR ''@'' \<notin> set r"
  shows "neat (fst (person_tag pid s r st)) \<and> tidy (snd (person_tag pid s r st))"
proof -
  define p where "p = the_default nobody (mk_persons st pid)"
  have p: "neat t" if "ps_surftag p k = Some t" for k t
    using assms(1) that by (cases "mk_persons st pid") (auto simp: p_def tidy_def nobody_def the_default_def)
  show ?thesis
  proof (cases "ps_surftag p (py_lower s)")
    case (Some tag)
    with p assms(1) show ?thesis by (simp add: person_tag_def p_def [symmetric])
  next
    case None
    have n: "neat (person_label pid (role_for (ps_roles p) r))" by (intro person_label_neat role_for_at assms(2))
    from None have "tidy (snd (person_tag pid s r st))"
      unfolding person_tag_def p_def [symmetric] Let_def tidy_def default_to_def
      using assms(1) p n by (auto simp: tidy_def intro: tagged_one dest!: set_default_in split: if_splits)
    with None n show ?thesis by (simp add: person_tag_def p_def [symmetric] Let_def)
  qed
qed

lemma new_person_tidy: "tidy st \<Longrightarrow> tidy (snd (new_person st))"
  by (auto simp: new_person_def tidy_def Let_def nobody_def)

lemma person_of_tidy: "tidy st \<Longrightarrow> tidy (snd (person_of ts st))"
  by (auto simp: person_of_def new_person_tidy split: option.splits)

lemma role_at_at: "CHR ''@'' \<notin> set (role_at n i)"
  using str_nat_at [of i] by (auto simp: role_at_def)

lemma tag_tokens_tidy:
  "tidy st \<Longrightarrow> list_all2 (\<lambda>t x. x = t \<or> neat x) ts (fst (tag_tokens pid n i ts st)) \<and> tidy (snd (tag_tokens pid n i ts st))"
proof (induction pid n i ts st rule: tag_tokens.induct)
  case (2 pid n i t ts st)
  obtain x st1 where x: "(if stop_word t then (t, st) else person_tag pid t (role_at n i) st) = (x, st1)" by fastforce
  with person_tag_tidy [OF 2(2) role_at_at, of pid t n i] 2(2) have x': "x = t \<or> neat x" "tidy st1" by (auto split: if_splits)
  with 2(1) [OF x [symmetric]] show ?case using x by (simp add: case_prod_beta)
qed simp

text \<open>A contact as \<open>UserIdentity\<close> keeps it: its words with one blank between them.\<close>

definition single_spaced :: "string \<Rightarrow> bool" where
  "single_spaced s \<longleftrightarrow> join_with '' '' (py_words [] s) = s"

lemma resolve_full_tidy:
  assumes "tidy st" "single_spaced s"
  shows "tidy (snd (resolve_full s st))"
proof -
  obtain pid st1 where p: "person_of (py_words [] s) st = (pid, st1)" by fastforce
  with person_of_tidy [OF assms(1), of "py_words [] s"] have st1: "tidy st1" by simp
  obtain parts st2 where t: "tag_tokens pid (length (py_words [] s)) 0 (py_words [] s) st1 = (parts, st2)" by fastforce
  with tag_tokens_tidy [OF st1, of "py_words [] s" pid "length (py_words [] s)" 0]
  have t': "list_all2 (\<lambda>t x. x = t \<or> neat x) (py_words [] s) parts" "tidy st2" by simp_all
  from tagged_join [OF t'(1)] assms(2) have n: "tagged neat s (join_with '' '' parts)" by (simp add: single_spaced_def)
  note n' = respelled_tagged [OF n respelled_itself]
  show ?thesis unfolding resolve_full_def Let_def p t prod.case tidy_def default_to_def
    using t'(2) n n' by (auto simp: tidy_def dest!: set_default_in split: if_splits)
qed

lemma resolve_single_tidy: "tidy st \<Longrightarrow> tidy (snd (resolve_single s st))"
  using person_tag_tidy [of _ "''FIRST''"] new_person_tidy [of st]
  by (auto simp: resolve_single_def case_prod_beta split: option.splits)


lemma scrub_contacts_tidy:
  assumes "tidy st" "\<forall>c \<in> set cs. single_spaced c" "scrub_contacts cs s st = (out, st')" "plain_address e" "\<not> occurs e s"
  shows "tidy st' \<and> \<not> occurs e out"
  using assms
proof (induction cs s st rule: scrub_contacts.induct)
  case (2 c rest s st)
  let ?ts = "py_words [] c" and ?pat = "contact_rx (py_words [] c)"
  show ?case
  proof (cases "?ts = [] \<or> \<not> search ?pat s")
    case True
    with 2 show ?thesis by (simp add: Let_def)
  next
    case False
    define st1 where "st1 = (if mk_pindex st (py_lower c) \<noteq> None then st else if 2 \<le> length ?ts then snd (resolve_full c st)
      else if \<not> stop_word c then snd (resolve_single c st) else st)"
    define s1 where "s1 = (if truthy (mk_pindex st1 (py_lower c)) then sub ?pat (str_or (mk_pindex st1 (py_lower c)) '''') s else s)"
    have "tidy st" "single_spaced c" using 2(3,4) by simp_all
    then have st1: "tidy st1" by (simp add: st1_def resolve_full_tidy resolve_single_tidy)
    have run: "scrub_contacts rest s1 st1 = (out, st')"
      using 2(5) by (simp only: scrub_contacts.simps Let_def False if_False st1_def s1_def)
    have "\<not> occurs e s1"
    proof (cases "truthy (mk_pindex st1 (py_lower c))")
      case True
      then obtain t where t: "mk_pindex st1 (py_lower c) = Some t" by (auto simp: truthy_def split: option.splits)
      with st1 have name: "tagged neat (py_lower c) t" by (simp add: tidy_def)
      have "tagged neat s (sub ?pat t s)"
      proof (rule sub_tagged_on)
        fix p q assume "q \<in> set (ends ?pat p)"
        from contact_match [OF _ this] False 2(4) have "respelled c (consumed p q)" by (simp add: single_spaced_def)
        from respelled_tagged [OF name respelled_lower [OF this]] show "tagged neat (consumed p q) t" .
      qed
      from occurs_tagged [OF this 2(6)] 2(7) True t show ?thesis
        by (auto simp: s1_def str_or_def truthy_def)
    qed (simp add: s1_def 2(7))
    with 2(2) [of ?ts ?pat st1, OF refl refl False st1_def] st1 run 2(4,6) show ?thesis by (simp add: s1_def)
  qed
qed simp

lemma fold_untouched:
  assumes "\<And>x s. x \<in> set xs \<Longrightarrow> \<not> occurs e s \<Longrightarrow> \<not> occurs e (f x s)" "\<not> occurs e s"
  shows "\<not> occurs e (fold f xs s)"
  using assms by (induction xs arbitrary: s) auto

lemma mask_names_tidy:
  assumes "tidy st" "plain_address e" "\<not> occurs e s"
  shows "\<not> occurs e (mask_names s st)"
  unfolding mask_names_def
proof (rule fold_untouched [OF _ assms(3)])
  fix x and t :: string
  assume x: "x \<in> set (longest_first (\<lambda>(s, _). length s) (mk_names st))" and t: "\<not> occurs e t"
  obtain surface name where sn: "x = (surface, name)" by fastforce
  with x assms(1) have name: "tagged neat surface name" by (auto simp: longest_first_def tidy_def)
  have "tagged neat t (sub (whole (lit surface)) name t)"
  proof (rule sub_tagged_on)
    fix p q assume "q \<in> set (ends (whole (lit surface)) p)"
    from lit_match [OF whole_match [OF this]] have "snd p = surface @ snd q" .
    with name show "tagged neat (consumed p q) name" by (simp add: consumedI)
  qed
  from occurs_tagged [OF this assms(2)] t sn
  show "\<not> occurs e ((case x of (surface, name) \<Rightarrow> sub (whole (lit surface)) name) t)" by auto
qed

lemma tags_neat: "neat USER_FIRST_TAG" "neat USER_LAST_TAG" "neat USER_EMAIL_TAG" "neat USER_PHONE_TAG"
    "neat (USER_FIRST_TAG @ CHR '' '' # USER_LAST_TAG)"
  unfolding neat_def
  by (simp_all add: USER_FIRST_TAG_def USER_LAST_TAG_def USER_EMAIL_TAG_def USER_PHONE_TAG_def)

lemma rules_neat: "(r, t) \<in> set (build_rules i) \<Longrightarrow> neat t"
  by (auto simp: build_rules_def Let_def tags_neat)

lemma mask_user_clears:
  assumes "e \<in> set (id_emails i)" "plain_address e"
  shows "\<not> occurs e (mask_user i s)"
proof -
  let ?f = "\<lambda>(rx, repl) t. sub rx repl t"
  from assms(1) have "(lit_i e, USER_EMAIL_TAG) \<in> set (build_rules i)" by (auto simp: build_rules_def Let_def)
  then obtain xs ys where rules: "build_rules i = xs @ (lit_i e, USER_EMAIL_TAG) # ys" by (meson split_list)
  have "\<not> occurs e (sub (lit_i e) USER_EMAIL_TAG t)" for t
    using address_taken [OF assms(2) tags_neat(3), of False "([], t)"] by (simp add: sub_def sub_with_def)
  then have "\<not> occurs e (fold ?f ys (sub (lit_i e) USER_EMAIL_TAG (fold ?f xs s)))"
  proof (rule fold_untouched [rotated])
    fix x t assume "x \<in> set ys" "\<not> occurs e t"
    with occurs_tagged [OF sub_tagged [of neat "snd x" t "fst x"] assms(2)] rules_neat [of "fst x" "snd x" i] rules
    show "\<not> occurs e (?f x t)" by (auto simp: case_prod_beta)
  qed
  then have named: "\<not> occurs e (fold ?f (build_rules i) s)" by (simp add: rules)
  show ?thesis
  proof (cases "id_phone_digits i = []")
    case False
    define t where "t = fold ?f (build_rules i) s"
    define g where "g = (\<lambda>m (u :: unit). (phone_or_same (id_phone_digits i) m, u))"
    have "tagged neat t (fst (sub_with PHONE_RUN g t ()))"
      using sub_with_tagged(1) [where Q = "\<lambda>_. True" and T = neat and f = g and r = PHONE_RUN and st = "()" and s = t]
      by (cases "sub_with PHONE_RUN g t ()") (auto simp: g_def phone_or_same_def Let_def tags_neat)
    from occurs_tagged [OF this assms(2)] named False show ?thesis
      by (auto simp: mask_user_def mask_phones_def t_def g_def)
  qed (simp add: mask_user_def mask_phones_def named)
qed

lemma patterns_tidy:
  assumes "tidy st" "plain_address e" "\<not> occurs e s" "pseudonymize_patterns s st = (out, st')"
  shows "tidy st' \<and> \<not> occurs e out"
proof -
  have one: "tidy st2 \<and> \<not> occurs e o2"
    if "tidy st1" "\<not> occurs e s1" "sub_with r f s1 st1 = (o2, st2)"
      "\<And>m st. tidy st \<Longrightarrow> tidy (snd (f m st)) \<and> (fst (f m st) = m \<or> neat (fst (f m st)))"
    for s1 st1 r f o2 st2
    using sub_with_tagged [where Q = tidy and T = neat and f = f, OF that(4) that(1,3)] occurs_tagged [OF _ assms(2)] that(2) by blast
  have secrets: "tidy st2 \<and> \<not> occurs e o2"
    if "secrets_masked rules s1 st1 = (o2, st2)" "tidy st1" "\<not> occurs e s1" "\<forall>(a, _) \<in> set rules. CHR ''@'' \<notin> set a"
    for rules s1 st1 o2 st2
    using that
  proof (induction rules s1 st1 rule: secrets_masked.induct)
    case (2 a r rules s1 st1)
    obtain o1 st3 where o1: "sub_with r (tag_value a) s1 st1 = (o1, st3)" by fastforce
    have "tidy st3 \<and> \<not> occurs e o1" using 2(5) by (intro one [OF 2(3,4) o1]) (auto intro: tag_value_tidy)
    with 2 o1 show ?case by simp
  qed simp
  obtain t1 s1 where t1: "secrets_masked SECRET_RULES s st = (t1, s1)" by fastforce
  obtain t2 s2 where t2: "sub_with EMAIL_RUN (tag_value ''EMAIL_ADDRESS'') t1 s1 = (t2, s2)" by fastforce
  have 1: "tidy s1 \<and> \<not> occurs e t1"
    by (rule secrets [OF t1 assms(1,3)]) (simp add: SECRET_RULES_def)
  then have "tidy s2 \<and> \<not> occurs e t2" by (intro one [OF _ _ t2]) (auto intro: tag_value_tidy)
  moreover from assms(4) have "sub_with PHONE_RUN phone_value t2 s2 = (out, st')"
    by (simp add: pseudonymize_patterns_def t1 t2)
  ultimately show ?thesis
    by (intro one [of s2 t2 PHONE_RUN phone_value]) (auto simp: phone_value_def intro: tag_value_tidy)
qed

section \<open>The life of a masking state\<close>

text \<open>One draft: a fresh state, then any number of texts masked and of delimiters registered.\<close>

inductive drafting :: "presidio \<Rightarrow> identity \<Rightarrow> masking \<Rightarrow> bool" for P i where
  drafting_new: "drafting P i (new_state P i)"
| drafting_protect: "drafting P i st \<Longrightarrow> protect t st = Inr st' \<Longrightarrow> drafting P i st'"
| drafting_mask: "drafting P i st \<Longrightarrow> pseudonymize P s st = (r, st') \<Longrightarrow> drafting P i st'"

lemma new_state_tidy: "tidy (new_state P i)"
  by (simp add: tidy_def new_state_def)

lemma protect_only: "protect t st = Inr st' \<Longrightarrow> \<exists>ts. st' = st\<lparr>mk_protected := ts\<rparr>"
  by (auto simp: protect_def split: if_splits intro: exI [of _ "mk_protected st"])

lemma person_tag_keeps: "mk_identity (snd (person_tag pid s r st)) = mk_identity st \<and> mk_analyzer (snd (person_tag pid s r st)) = mk_analyzer st"
  by (auto simp: person_tag_def Let_def split: option.splits)

lemma tag_tokens_keeps:
  "mk_identity (snd (tag_tokens pid n i ts st)) = mk_identity st \<and> mk_analyzer (snd (tag_tokens pid n i ts st)) = mk_analyzer st"
proof (induction ts arbitrary: i st)
  case (Cons t ts)
  show ?case using Cons [of "Suc i" "snd (if stop_word t then (t, st) else person_tag pid t (role_at n i) st)"] person_tag_keeps [of pid t "role_at n i" st]
    by (simp add: case_prod_beta)
qed simp

lemma resolve_keeps:
  "mk_identity (snd (resolve_full s st)) = mk_identity st \<and> mk_analyzer (snd (resolve_full s st)) = mk_analyzer st"
  "mk_identity (snd (resolve_single s st)) = mk_identity st \<and> mk_analyzer (snd (resolve_single s st)) = mk_analyzer st"
  by (auto simp: resolve_full_def resolve_single_def person_of_def new_person_def Let_def tag_tokens_keeps person_tag_keeps
      case_prod_beta split: option.splits)

lemma scrub_contacts_keeps:
  "mk_identity (snd (scrub_contacts cs s st)) = mk_identity st \<and> mk_analyzer (snd (scrub_contacts cs s st)) = mk_analyzer st"
  by (induction cs s st rule: scrub_contacts.induct) (simp_all add: Let_def resolve_keeps)

lemma tag_value_keeps: "mk_identity (snd (tag_value e s st)) = mk_identity st \<and> mk_analyzer (snd (tag_value e s st)) = mk_analyzer st"
  by (auto simp: tag_value_def Let_def split: option.splits)

lemma sub_with_state:
  assumes "\<And>m st. Q st \<Longrightarrow> Q (snd (f m st))" "Q st"
  shows "Q (snd (sub_with r f s st))"
  using sub_with_tagged(2) [where Q = Q and T = "\<lambda>_. True" and f = f and r = r and s = s, OF _ assms(2)] assms(1)
  by (metis prod.collapse)

text \<open>What the numbering of one value keeps, all the patterns together keep.\<close>

lemma patterns_state:
  assumes "\<And>e s st. e \<in> set ENTITIES \<Longrightarrow> Q st \<Longrightarrow> Q (snd (tag_value e s st))" "Q st"
  shows "Q (snd (pseudonymize_patterns s st))"
proof -
  have secrets: "Q (snd (secrets_masked rules s st))" if "Q st" "\<forall>(a, _) \<in> set rules. a \<in> set ENTITIES" for rules s st
    using that
  proof (induction rules s st rule: secrets_masked.induct)
    case (2 a r rules s st)
    obtain o1 st1 where o1: "sub_with r (tag_value a) s st = (o1, st1)" by fastforce
    with sub_with_state [of Q "tag_value a" st r s, OF assms(1) 2(2)] 2(3) have "Q st1" by simp
    with 2(1) [OF o1 [symmetric]] 2(3) o1 show ?case by simp
  qed simp
  obtain t1 s1 where t1: "secrets_masked SECRET_RULES s st = (t1, s1)" by fastforce
  obtain t2 s2 where t2: "sub_with EMAIL_RUN (tag_value ''EMAIL_ADDRESS'') t1 s1 = (t2, s2)" by fastforce
  have "Q s1" using secrets [OF assms(2), of SECRET_RULES s] t1 by (simp add: SECRET_RULES_def ENTITIES_def)
  then have "Q s2"
    using sub_with_state [of Q "tag_value ''EMAIL_ADDRESS''" s1 EMAIL_RUN t1] assms(1) t2
    by (simp add: ENTITIES_def NER_ENTITIES_def)
  then have "Q (snd (sub_with PHONE_RUN phone_value t2 s2))"
    by (rule sub_with_state [rotated]) (auto simp: phone_value_def ENTITIES_def NER_ENTITIES_def intro: assms(1))
  then show ?thesis by (simp add: pseudonymize_patterns_def t1 t2)
qed

lemma patterns_keeps:
  "mk_identity (snd (pseudonymize_patterns s st)) = mk_identity st \<and> mk_analyzer (snd (pseudonymize_patterns s st)) = mk_analyzer st"
  by (rule patterns_state [where Q = "\<lambda>x. mk_identity x = mk_identity st \<and> mk_analyzer x = mk_analyzer st"])
    (simp_all add: tag_value_keeps)

lemma pseudonymize_unfold:
  assumes "s \<noteq> []" "\<not> mk_analyzer st" "pseudonymize P s st = (r, st')"
  obtains t1 s1 t3 where "scrub_contacts (id_contacts (mk_identity st)) (mask_user (mk_identity st) s) st = (t1, s1)"
    "pseudonymize_patterns (mask_names t1 s1) s1 = (t3, st')" "r = (case rewritten s t3 (mk_protected st) of Some e \<Rightarrow> Inl e | None \<Rightarrow> Inr t3)"
proof -
  obtain t1 s1 where 1: "scrub_contacts (id_contacts (mk_identity st)) (mask_user (mk_identity st) s) st = (t1, s1)" by fastforce
  obtain t3 s3 where 3: "pseudonymize_patterns (mask_names t1 s1) s1 = (t3, s3)" by fastforce
  have "\<not> mk_analyzer s1" using scrub_contacts_keeps [of "id_contacts (mk_identity st)" "mask_user (mk_identity st) s" st] 1 assms(2) by simp
  then have "pseudonymize P s st = (case rewritten s t3 (mk_protected st) of Some e \<Rightarrow> Inl e | None \<Rightarrow> Inr t3, s3)"
    by (simp only: pseudonymize_def assms(1) if_False 1 3 Let_def prod.case)
  with assms(3) have "s3 = st'" "r = (case rewritten s t3 (mk_protected st) of Some e \<Rightarrow> Inl e | None \<Rightarrow> Inr t3)"
    by simp_all
  with that 1 3 show ?thesis by metis
qed

lemma pseudonymize_keeps:
  assumes "\<not> mk_analyzer st" "pseudonymize P s st = (r, st')"
  shows "mk_identity st' = mk_identity st \<and> mk_analyzer st' = mk_analyzer st"
proof (cases "s = []")
  case False
  obtain t1 s1 t3 where
    "scrub_contacts (id_contacts (mk_identity st)) (mask_user (mk_identity st) s) st = (t1, s1)"
    "pseudonymize_patterns (mask_names t1 s1) s1 = (t3, st')" by (rule pseudonymize_unfold [OF False assms])
  with scrub_contacts_keeps [of "id_contacts (mk_identity st)" "mask_user (mk_identity st) s" st]
    patterns_keeps [of "mask_names t1 s1" s1] show ?thesis by (metis snd_conv)
qed (use assms in \<open>simp add: pseudonymize_def\<close>)

lemma pseudonymize_tidy:
  assumes "tidy st" "\<not> mk_analyzer st" "\<forall>c \<in> set (id_contacts (mk_identity st)). single_spaced c"
    and "e \<in> set (id_emails (mk_identity st))" "plain_address e" "pseudonymize P s st = (r, st')"
  shows "tidy st' \<and> (\<forall>out. r = Inr out \<longrightarrow> \<not> occurs e out)"
proof (cases "s = []")
  case True
  have "e \<noteq> []" using assms(5) by (auto simp: plain_address_def)
  with True assms show ?thesis by (auto simp: pseudonymize_def occurs_def py_lower_def)
next
  case False
  obtain t1 s1 t3 where
    run: "scrub_contacts (id_contacts (mk_identity st)) (mask_user (mk_identity st) s) st = (t1, s1)"
      "pseudonymize_patterns (mask_names t1 s1) s1 = (t3, st')" "r = (case rewritten s t3 (mk_protected st) of Some e \<Rightarrow> Inl e | None \<Rightarrow> Inr t3)"
    by (rule pseudonymize_unfold [OF False assms(2,6)])
  have "tidy s1 \<and> \<not> occurs e t1"
    by (rule scrub_contacts_tidy [OF assms(1,3) run(1) assms(5) mask_user_clears [OF assms(4,5)]])
  then have "tidy st' \<and> \<not> occurs e t3"
    by (intro patterns_tidy [OF _ assms(5) _ run(2)] mask_names_tidy [OF _ assms(5)]) simp_all
  with run(3) show ?thesis by (auto split: option.splits)
qed

text \<open>An identity as the program builds one, its addresses with an \<open>@\<close> and with no bracket or blank,
  masked without the analyzer: switched off for the account or not installed on the box.\<close>

definition regex_only :: "presidio \<Rightarrow> identity \<Rightarrow> bool" where
  "regex_only P i \<longleftrightarrow> \<not> (id_analyzer i \<and> pr_available P) \<and> (\<exists>ib aid an. user_identity ib aid an = Inr i)
     \<and> list_all plain_address (id_emails i)"

definition a_word :: "string \<Rightarrow> bool" where
  "a_word w \<longleftrightarrow> w \<noteq> [] \<and> \<not> list_ex py_space w"

lemma py_words_sound: "\<not> list_ex py_space acc \<Longrightarrow> list_all a_word (py_words acc s)"
  by (induction acc s rule: py_words.induct) (auto simp: a_word_def list_ex_iff)

lemma py_words_word: "\<not> list_ex py_space w \<Longrightarrow> py_words acc (w @ s) = py_words (rev w @ acc) s"
  by (induction w arbitrary: acc) auto

lemma py_words_join: "list_all a_word ws \<Longrightarrow> py_words [] (join_with '' '' ws) = ws"
proof (induction ws)
  case (Cons w ws)
  then have w: "w \<noteq> []" "\<not> list_ex py_space w" and ws: "py_words [] (join_with '' '' ws) = ws" by (simp_all add: a_word_def)
  have blank: "py_space (CHR '' '')" by (simp add: py_space_def)
  show ?case
  proof (cases ws)
    case Nil
    with w show ?thesis using py_words_word [of w "[]" "[]"] by simp
  next
    case (Cons v vs)
    with w ws blank py_words_word [of w "[]" "'' '' @ join_with '' '' ws"] show ?thesis by simp
  qed
qed simp

lemma identity_contacts:
  assumes "regex_only P i" "c \<in> set (id_contacts i)"
  shows "single_spaced c"
proof -
  from assms obtain c0 where "c = join_with '' '' (py_words [] c0)"
    by (auto simp: regex_only_def user_identity_def split: if_splits list.splits)
  with py_words_join [OF py_words_sound [of "[]" c0]] show ?thesis
    unfolding single_spaced_def by simp
qed

lemma drafting_tidy:
  "drafting P i st \<Longrightarrow> regex_only P i \<Longrightarrow> id_emails i \<noteq> [] \<Longrightarrow> tidy st \<and> \<not> mk_analyzer st \<and> mk_identity st = i"
proof (induction rule: drafting.induct)
  case drafting_new
  have "\<not> mk_analyzer (new_state P i)" "mk_identity (new_state P i) = i"
    using drafting_new by (simp_all add: new_state_def regex_only_def)
  then show ?case by (simp add: new_state_tidy)
next
  case (drafting_protect st t st')
  from protect_only [OF drafting_protect.hyps(2)] drafting_protect show ?case by (auto simp: tidy_def)
next
  case (drafting_mask st s r st')
  then have "tidy st" "\<not> mk_analyzer st" "mk_identity st = i" "hd (id_emails i) \<in> set (id_emails i)" "plain_address (hd (id_emails i))"
    by (auto simp: regex_only_def list_all_iff)
  with pseudonymize_tidy [of st "hd (id_emails i)" P s r st'] pseudonymize_keeps [OF _ drafting_mask.hyps(2)] drafting_mask
    identity_contacts
  show ?case by blast
qed

text \<open>C11: However many texts a draft has masked and whatever it has protected, for an account that is masked
  without the analyzer and whose addresses hold an \<open>@\<close> and no bracket or blank, the next text that
  \<open>pseudonymize\<close> lets out does not hold any of the owner's addresses, in any spelling of their letters:
  neither kept from the input, nor put together by a later rule, such as that of a contact's name.\<close>

theorem no_owner_address_leaves:
  assumes "drafting P i st" "regex_only P i" "e \<in> set (id_emails i)" "pseudonymize P s st = (Inr out, st')"
  shows "\<not> occurs e out"
proof -
  from assms(3) have "id_emails i \<noteq> []" by auto
  from drafting_tidy [OF assms(1,2) this] have "tidy st" "\<not> mk_analyzer st" "mk_identity st = i" by simp_all
  with pseudonymize_tidy [of st e P s "Inr out" st'] assms(2,3,4) identity_contacts [OF assms(2)] show ?thesis
    by (auto simp: regex_only_def list_all_iff)
qed

section \<open>Tags and values\<close>

text \<open>What every value that has a tag satisfies; \<open>grows\<close> is what the numbering of people does to the rest.\<close>

definition numbered :: "masking \<Rightarrow> bool" where
  "numbered st \<longleftrightarrow>
     (\<forall>e k tag. mk_seen st (e, k) = Some tag \<longrightarrow>
        e \<in> set ENTITIES \<and> (\<exists>n. 1 \<le> n \<and> n \<le> mk_counters st e \<and> tag = number_tag e n)
        \<and> (\<exists>v. map_of (mk_mapping st) tag = Some v \<and> value_key v = k))
     \<and> (\<forall>e k k' tag. mk_seen st (e, k) = Some tag \<longrightarrow> mk_seen st (e, k') = Some tag \<longrightarrow> k = k')"

definition grows :: "masking \<Rightarrow> masking \<Rightarrow> bool" where
  "grows st st' \<longleftrightarrow> mk_seen st' = mk_seen st \<and> mk_protected st' = mk_protected st \<and> (\<forall>e. mk_counters st e \<le> mk_counters st' e)
     \<and> map_of (mk_mapping st) \<subseteq>\<^sub>m map_of (mk_mapping st')"

lemma grows_refl [simp]: "grows st st"
  by (simp add: grows_def)

lemma grows_trans [trans]: "grows a b \<Longrightarrow> grows b c \<Longrightarrow> grows a c"
  unfolding grows_def by (metis map_le_trans order_trans)

lemma numbered_tag:
  "numbered st \<Longrightarrow> mk_seen st (e, k) = Some tag \<Longrightarrow>
   e \<in> set ENTITIES \<and> (\<exists>n. 1 \<le> n \<and> n \<le> mk_counters st e \<and> tag = number_tag e n)
     \<and> (\<exists>v. map_of (mk_mapping st) tag = Some v \<and> value_key v = k)"
  by (simp add: numbered_def)

lemma numbered_one: "numbered st \<Longrightarrow> mk_seen st (e, k) = Some tag \<Longrightarrow> mk_seen st (e, k') = Some tag \<Longrightarrow> k = k'"
  by (simp add: numbered_def)

lemma numberedI:
  assumes "\<And>e k tag. mk_seen st (e, k) = Some tag \<Longrightarrow>
      e \<in> set ENTITIES \<and> (\<exists>n. 1 \<le> n \<and> n \<le> mk_counters st e \<and> tag = number_tag e n)
      \<and> (\<exists>v. map_of (mk_mapping st) tag = Some v \<and> value_key v = k)"
    and "\<And>e k k' tag. mk_seen st (e, k) = Some tag \<Longrightarrow> mk_seen st (e, k') = Some tag \<Longrightarrow> k = k'"
  shows "numbered st"
  unfolding numbered_def using assms by (intro conjI allI impI) simp_all

lemma grows_numbered:
  assumes "numbered st" "grows st st'"
  shows "numbered st'"
proof (rule numberedI)
  fix e k tag assume "mk_seen st' (e, k) = Some tag"
  with assms(2) have old: "mk_seen st (e, k) = Some tag" by (simp add: grows_def)
  from numbered_tag [OF assms(1) this] obtain n v where n: "e \<in> set ENTITIES" "1 \<le> n" "n \<le> mk_counters st e" "tag = number_tag e n"
    "map_of (mk_mapping st) tag = Some v" "value_key v = k" by metis
  moreover have "mk_counters st e \<le> mk_counters st' e" using assms(2) by (simp add: grows_def)
  moreover have "map_of (mk_mapping st') tag = Some v" using assms(2) n(5) unfolding grows_def map_le_def by (metis domI)
  ultimately show "e \<in> set ENTITIES \<and> (\<exists>n. 1 \<le> n \<and> n \<le> mk_counters st' e \<and> tag = number_tag e n)
      \<and> (\<exists>v. map_of (mk_mapping st') tag = Some v \<and> value_key v = k)" by auto
qed (use assms numbered_one in \<open>simp add: grows_def\<close>)

lemma map_of_replace:
  "map_of (map (\<lambda>(a, b). if a = k then (a, v) else (a, b)) d) x = (if x = k \<and> k \<in> fst ` set d then Some v else map_of d x)"
proof (induction d)
  case (Cons p d)
  show ?case using Cons by (cases p; cases "k \<in> fst ` set d"; cases "x = k"; simp)
qed simp

lemma map_of_set_item: "map_of (set_item k v d) = (map_of d)(k \<mapsto> v)"
proof (cases "k \<in> fst ` set d")
  case True
  then show ?thesis by (simp add: set_item_def map_of_replace fun_eq_iff)
next
  case False
  then have "map_of d k = None" by (simp add: map_of_eq_None_iff)
  with False show ?thesis by (simp add: set_item_def fun_eq_iff map_add_def split: option.splits)
qed

lemma map_of_set_default: "map_of d \<subseteq>\<^sub>m map_of (set_default k v d)"
  by (auto simp: set_default_def map_le_def map_add_def)

lemma digit_tail: "list_all is_digit a \<Longrightarrow> \<not> is_digit x \<Longrightarrow> takeWhile is_digit (rev (u @ x # a)) = rev a"
  by (simp add: takeWhile_append list_all_iff)

lemma not_digit_split:
  assumes "list_all is_digit a" "list_all is_digit b" "\<not> is_digit x" "\<not> is_digit y" "u @ x # a = v @ y # b"
  shows "a = b \<and> u @ [x] = v @ [y]"
proof -
  have "rev a = rev b" unfolding digit_tail [OF assms(1,3), of u, symmetric] assms(5) by (rule digit_tail [OF assms(2,4)])
  with assms(5) show ?thesis by simp
qed

lemma entity_end: "e \<in> set ENTITIES \<Longrightarrow> \<exists>u x. e = u @ [x] \<and> \<not> is_digit x"
  by (auto simp: ENTITIES_def NER_ENTITIES_def is_digit_def
      intro!: exI [of _ "butlast e"] exI [of _ "last e"])

lemma str_nat_inj: "str_nat m = str_nat n \<Longrightarrow> m = n"
  by (metis foldl_str_nat)

text \<open>The search for a free role stops at one, so its turns are enough.\<close>

lemma free_role_taken:
  "n \<le> m \<Longrightarrow> m < free_role roles k n \<Longrightarrow> ''X'' @ str_nat m \<in> fst ` set roles"
proof (induction roles k n rule: free_role.induct)
  case (2 roles k n)
  show ?case
  proof (cases "''X'' @ str_nat n \<in> fst ` set roles")
    case True
    with 2 show ?thesis by (cases "m = n") (simp_all del: append_Cons append_Nil)
  qed (use 2 in \<open>simp del: append_Cons append_Nil\<close>)
qed simp

lemma free_role_stops:
  "''X'' @ str_nat (free_role roles k n) \<in> fst ` set roles \<Longrightarrow> free_role roles k n = n + k"
proof (induction roles k n rule: free_role.induct)
  case (2 roles k n)
  then show ?case by (cases "''X'' @ str_nat n \<in> fst ` set roles") (simp_all del: append_Cons append_Nil)
qed simp

lemma free_role_free: "''X'' @ str_nat (free_role roles (length roles) 1) \<notin> fst ` set roles"
proof
  let ?f = "free_role roles (length roles) 1" and ?x = "\<lambda>m. ''X'' @ str_nat m"
  assume taken: "?x ?f \<in> fst ` set roles"
  have "?x m \<in> fst ` set roles" if "m \<in> {1..?f}" for m
  proof (cases "m = ?f")
    case False
    with that show ?thesis by (intro free_role_taken [of 1 m roles "length roles"]) simp_all
  qed (use taken in metis)
  then have "?x ` {1..?f} \<subseteq> fst ` set roles" by (rule image_subsetI)
  then have "card (?x ` {1..?f}) \<le> card (fst ` set roles)" by (rule card_mono [rotated]) simp
  also have "\<dots> \<le> length roles" by (metis card_image_le card_length finite_set le_trans)
  also have "card (?x ` {1..?f}) = ?f"
    by (subst card_image) (auto simp: inj_on_def dest: str_nat_inj)
  finally show False using free_role_stops [OF taken] by simp
qed

lemma number_tag_inj:
  assumes "e \<in> set ENTITIES" "e' \<in> set ENTITIES" "number_tag e n = number_tag e' n'"
  shows "e = e' \<and> n = n'"
proof -
  obtain u x v y where e: "e = u @ [x]" "\<not> is_digit x" "e' = v @ [y]" "\<not> is_digit y"
    using entity_end [OF assms(1)] entity_end [OF assms(2)] by blast
  have "list_all is_digit (str_nat k)" for k using str_nat_is_digit by (auto simp: list_all_iff)
  moreover have "u @ x # str_nat n = v @ y # str_nat n'" using assms(3) e by (simp add: number_tag_def)
  ultimately have "str_nat n = str_nat n' \<and> u @ [x] = v @ [y]" using e(2,4) by (intro not_digit_split)
  with e str_nat_inj show ?thesis by auto
qed

lemma tag_value_numbered:
  assumes "numbered st" "e \<in> set ENTITIES"
  shows "numbered (snd (tag_value e s st))"
proof (cases "mk_seen st (e, value_key s)")
  case None
  define n where "n = mk_counters st e + 1"
  define tag where "tag = number_tag e n"
  define st' where "st' = st\<lparr>mk_counters := (mk_counters st)(e := n),
    mk_seen := (mk_seen st)((e, value_key s) \<mapsto> tag), mk_mapping := set_item tag s (mk_mapping st)\<rparr>"
  have out: "snd (tag_value e s st) = st'"
    using None by (simp add: tag_value_def Let_def st'_def tag_def n_def)
  have fresh: "t \<noteq> tag" if "mk_seen st (e', k) = Some t" for e' k t
  proof
    assume "t = tag"
    with numbered_tag [OF assms(1) that] obtain m where m: "e' \<in> set ENTITIES" "m \<le> mk_counters st e'" "number_tag e' m = number_tag e n"
      unfolding tag_def by metis
    from number_tag_inj [OF m(1) assms(2) m(3)] m(2) show False by (simp add: n_def)
  qed
  have "e' \<in> set ENTITIES \<and> (\<exists>n. 1 \<le> n \<and> n \<le> mk_counters st' e' \<and> t = number_tag e' n)
      \<and> (\<exists>v. map_of (mk_mapping st') t = Some v \<and> value_key v = k)"
    if t: "mk_seen st' (e', k) = Some t" for e' k t
  proof (cases "(e', k) = (e, value_key s)")
    case True
    with t assms(2) show ?thesis by (auto simp: st'_def map_of_set_item tag_def n_def)
  next
    case False
    with t have old: "mk_seen st (e', k) = Some t" by (simp add: st'_def split: if_splits)
    with numbered_tag [OF assms(1) this] fresh [OF old] show ?thesis by (auto simp: st'_def map_of_set_item n_def intro: le_SucI)
  qed
  moreover have "k = k'" if "mk_seen st' (e', k) = Some t" "mk_seen st' (e', k') = Some t" for e' k k' t
    using that fresh [of e' k t] fresh [of e' k' t] numbered_one [OF assms(1), of e' k t k'] by (auto simp: st'_def split: if_splits)
  ultimately show ?thesis unfolding out by (rule numberedI)
qed (simp add: tag_value_def assms(1))

lemma person_tag_grows: "grows st (snd (person_tag pid s r st))"
  using map_of_set_default by (auto simp: person_tag_def grows_def Let_def split: option.splits)

lemma new_person_grows: "grows st (snd (new_person st))"
  by (simp add: new_person_def grows_def Let_def)

lemma tag_tokens_grows: "grows st (snd (tag_tokens pid n i ts st))"
proof (induction ts arbitrary: i st)
  case (Cons t ts)
  let ?q = "if stop_word t then (t, st) else person_tag pid t (role_at n i) st"
  have "grows st (snd ?q)" by (simp add: person_tag_grows)
  also have "grows \<dots> (snd (tag_tokens pid n (Suc i) ts (snd ?q)))" by (rule Cons)
  finally show ?case by (simp add: case_prod_beta)
qed simp

lemma resolve_full_grows: "grows st (snd (resolve_full s st))"
proof -
  obtain pid st1 where p: "person_of (py_words [] s) st = (pid, st1)" by fastforce
  obtain parts st2 where t: "tag_tokens pid (length (py_words [] s)) 0 (py_words [] s) st1 = (parts, st2)" by fastforce
  have "grows st (snd (person_of (py_words [] s) st))"
    by (auto simp: person_of_def new_person_grows split: option.splits)
  then have "grows st st1" by (simp add: p)
  also have "grows st1 st2" using tag_tokens_grows [of st1 pid "length (py_words [] s)" 0 "py_words [] s"] by (simp add: t)
  also have "grows st2 (snd (resolve_full s st))" by (simp add: resolve_full_def p t Let_def grows_def)
  finally show ?thesis .
qed

lemma resolve_single_grows: "grows st (snd (resolve_single s st))"
proof -
  obtain pid st1 where p: "new_person st = (pid, st1)" by fastforce
  then have "grows st st1" using new_person_grows [of st] by simp
  from grows_trans [OF this person_tag_grows] p show ?thesis
    by (simp add: resolve_single_def person_tag_grows split: option.splits)
qed

lemma scrub_contacts_grows: "grows st (snd (scrub_contacts cs s st))"
proof (induction cs s st rule: scrub_contacts.induct)
  case (2 c rest s st)
  let ?ts = "py_words [] c" and ?pat = "contact_rx (py_words [] c)"
  show ?case
  proof (cases "?ts = [] \<or> \<not> search ?pat s")
    case True
    with 2(1) [OF refl refl True] show ?thesis by (simp only: scrub_contacts.simps Let_def if_True)
  next
    case False
    define st1 where "st1 = (if mk_pindex st (py_lower c) \<noteq> None then st else if 2 \<le> length ?ts then snd (resolve_full c st)
      else if \<not> stop_word c then snd (resolve_single c st) else st)"
    have "grows st st1" by (simp add: st1_def resolve_full_grows resolve_single_grows)
    from grows_trans [OF this 2(2) [OF refl refl False st1_def]] show ?thesis
      by (simp only: scrub_contacts.simps Let_def False if_False st1_def)
  qed
qed simp

lemma resolve_persons_grows: "grows st (resolve_persons rs s st)"
proof -
  have "grows st (resolve_all ss st)" for ss
  proof (induction ss arbitrary: st)
    case (Cons x ss)
    have "grows st (if mk_pindex st (py_lower x) \<noteq> None then st
       else if 2 \<le> length (py_words [] x) then snd (resolve_full x st) else snd (resolve_single x st))"
      by (simp add: resolve_full_grows resolve_single_grows)
    from grows_trans [OF this Cons] show ?case by simp
  qed simp
  then show ?thesis by (simp add: resolve_persons_def)
qed

text \<open>What is relied on of Presidio: its hits are of the entities it is asked for, and it touches the state of
  the masking only by calling our operator on hits it was given.\<close>

definition calls_the_operator :: "presidio \<Rightarrow> bool" where
  "calls_the_operator P \<longleftrightarrow>
     (\<forall>s. \<forall>r \<in> set (pr_analyze P ENTITIES s). ht_entity r \<in> set ENTITIES)
     \<and> (\<forall>Q s rs oper st. Q st \<longrightarrow> (\<forall>e t x. e \<in> ht_entity ` set rs \<longrightarrow> Q x \<longrightarrow> Q (snd (oper e t x)))
          \<longrightarrow> Q (snd (pr_anonymize P s rs oper st)))"

lemma analyzed_invariant:
  assumes "calls_the_operator P" "Q st"
    and tag: "\<And>e s st. e \<in> set ENTITIES \<Longrightarrow> Q st \<Longrightarrow> Q (snd (tag_value e s st))" and grow: "\<And>st st'. Q st \<Longrightarrow> grows st st' \<Longrightarrow> Q st'"
  shows "Q (snd (analyzed P s st))"
proof -
  define rs where "rs = drop_overlapping (pr_analyze P ENTITIES s) (protected_spans s st)"
  have rs: "ht_entity ` set rs \<subseteq> set ENTITIES"
    using assms(1) by (auto simp: rs_def drop_overlapping_def calls_the_operator_def split: if_splits)
  have "Q (resolve_persons rs s st)" by (rule grow [OF assms(2) resolve_persons_grows])
  moreover have "Q (snd (operate e t x))" if "e \<in> ht_entity ` set rs" "Q x" for e t x
    using that rs tag by (auto simp: operate_def)
  moreover have "Q x \<longrightarrow> (\<forall>e t y. e \<in> ht_entity ` set rs \<longrightarrow> Q y \<longrightarrow> Q (snd (oper e t y)))
      \<longrightarrow> Q (snd (pr_anonymize P s rs oper x))" for Q oper x
    using assms(1) unfolding calls_the_operator_def by blast
  ultimately have "Q (snd (pr_anonymize P s rs operate (resolve_persons rs s st)))" by metis
  then show ?thesis using assms(2) by (simp add: analyzed_def rs_def [symmetric] Let_def)
qed

lemma pseudonymize_state:
  assumes "s \<noteq> []"
  obtains t1 s1 where "scrub_contacts (id_contacts (mk_identity st)) (mask_user (mk_identity st) s) st = (t1, s1)"
    "snd (pseudonymize P s st) =
       snd (if mk_analyzer s1 then analyzed P (mask_names t1 s1) s1 else pseudonymize_patterns (mask_names t1 s1) s1)"
proof -
  obtain t1 s1 where 1: "scrub_contacts (id_contacts (mk_identity st)) (mask_user (mk_identity st) s) st = (t1, s1)" by fastforce
  obtain t3 s3 where 3: "(if mk_analyzer s1 then analyzed P (mask_names t1 s1) s1 else pseudonymize_patterns (mask_names t1 s1) s1) = (t3, s3)"
    by fastforce
  have "snd (pseudonymize P s st) = s3"
    by (simp only: pseudonymize_def assms(1) if_False 1 3 Let_def prod.case snd_conv)
  with 1 3 that show ?thesis by simp
qed

text \<open>What the numbering of values and the resolution of people keep, masking keeps.\<close>

lemma pseudonymize_invariant:
  assumes "calls_the_operator P" "Q st"
    and tag: "\<And>e s st. e \<in> set ENTITIES \<Longrightarrow> Q st \<Longrightarrow> Q (snd (tag_value e s st))" and grow: "\<And>st st'. Q st \<Longrightarrow> grows st st' \<Longrightarrow> Q st'"
  shows "Q (snd (pseudonymize P s st))"
proof (cases "s = []")
  case False
  obtain t1 s1 where t1: "scrub_contacts (id_contacts (mk_identity st)) (mask_user (mk_identity st) s) st = (t1, s1)"
    "snd (pseudonymize P s st) =
       snd (if mk_analyzer s1 then analyzed P (mask_names t1 s1) s1 else pseudonymize_patterns (mask_names t1 s1) s1)"
    by (rule pseudonymize_state [OF False])
  have "grows st s1" using scrub_contacts_grows [of st "id_contacts (mk_identity st)" "mask_user (mk_identity st) s"] by (simp add: t1(1))
  then have "Q s1" by (rule grow [OF assms(2)])
  have "Q (snd (analyzed P (mask_names t1 s1) s1))"
    by (rule analyzed_invariant [where Q = Q]) (fact assms(1), fact, erule (1) tag, erule (1) grow)
  moreover have "Q (snd (pseudonymize_patterns (mask_names t1 s1) s1))"
    by (rule patterns_state [where Q = Q]) (erule (1) tag, fact)
  ultimately show ?thesis unfolding t1(2) by simp
qed (use assms(2) in \<open>simp add: pseudonymize_def\<close>)

lemma pseudonymize_numbered:
  "calls_the_operator P \<Longrightarrow> numbered st \<Longrightarrow> numbered (snd (pseudonymize P s st))"
  by (rule pseudonymize_invariant [where Q = numbered]) (auto intro: tag_value_numbered grows_numbered)

lemma pseudonymize_protected:
  "calls_the_operator P \<Longrightarrow> mk_protected (snd (pseudonymize P s st)) = mk_protected st"
  by (rule pseudonymize_invariant [where Q = "\<lambda>x. mk_protected x = mk_protected st"])
    (auto simp: grows_def tag_value_def Let_def split: option.splits)

lemma drafting_numbered: "drafting P i st \<Longrightarrow> calls_the_operator P \<Longrightarrow> numbered st"
proof (induction rule: drafting.induct)
  case drafting_new
  show ?case by (rule numberedI) (simp_all add: new_state_def)
next
  case (drafting_protect st t st')
  from protect_only [OF drafting_protect.hyps(2)] obtain ts where "st' = st\<lparr>mk_protected := ts\<rparr>" by blast
  with drafting_protect show ?case by (simp add: numbered_def)
next
  case (drafting_mask st s r st')
  with pseudonymize_numbered [of P st s] show ?case by simp
qed

text \<open>C15: Well-formedness of the state of a draft, with the analyzer or without it: every value that was
  tagged has a tag of its kind with a number the counter has given out, no other value of any kind has
  the same tag, and the mapping that \<open>restore\<close> reads gives for the tag a spelling of that value.\<close>

theorem tags_name_their_values:
  assumes "drafting P i st" "calls_the_operator P" "mk_seen st (kind, key) = Some tag"
  shows "(\<exists>n. 1 \<le> n \<and> n \<le> mk_counters st kind \<and> tag = number_tag kind n)
    \<and> (\<forall>kind' key'. mk_seen st (kind', key') = Some tag \<longrightarrow> kind' = kind \<and> key' = key)
    \<and> (\<exists>v. map_of (mk_mapping st) tag = Some v \<and> value_key v = key)"
proof -
  have st: "numbered st" by (rule drafting_numbered [OF assms(1,2)])
  have "kind' = kind \<and> key' = key" if "mk_seen st (kind', key') = Some tag" for kind' key'
  proof -
    from numbered_tag [OF st that] numbered_tag [OF st assms(3)] have "kind' = kind" by (metis number_tag_inj)
    with numbered_one [OF st assms(3)] that show ?thesis by blast
  qed
  with numbered_tag [OF st assms(3)] show ?thesis by metis
qed

end
