(* ===== verification/DraftingRun.thy ===== *)
theory DraftingRun
  imports Drafting MaskingRun
begin

text \<open>
  What drafting promises: a stranger's text cannot end its fence, and masking keeps the number of its
  nonces; everything sent was masked by the state of this draft; and the model is asked a bounded number of times.
\<close>

section \<open>Where a part occurs\<close>

lemma starts_with_apart:
  assumes "c \<notin> set n"
  shows "starts_with n (u @ c # v) \<longleftrightarrow> starts_with n u"
proof (cases "length n \<le> length u")
  case False
  then have "length n - length u = Suc (length n - Suc (length u))" by simp
  with False have "take (length n) (u @ c # v) = u @ c # take (length n - Suc (length u)) v"
    by (simp only: take_append take_Suc_Cons) simp
  with assms have "take (length n) (u @ c # v) \<noteq> n" by (metis in_set_conv_decomp)
  moreover from False have "take (length n) u \<noteq> n" by auto
  ultimately show ?thesis by (simp add: starts_with_def)
qed (simp add: starts_with_def)

lemma starts_at_apart: "n \<noteq> [] \<Longrightarrow> c \<notin> set n \<Longrightarrow> starts_at n i (u @ c # v) = starts_at n i u @ starts_at n (i + length u + 1) v"
proof (induction u arbitrary: i)
  case Nil
  then have "\<not> starts_with n (c # v)" by (cases n) (auto simp: starts_with_def)
  with Nil show ?case by simp
next
  case (Cons x u)
  with starts_with_apart [of c n "x # u" v] show ?case by simp
qed

lemma starts_at_skip: "n \<noteq> [] \<Longrightarrow> \<forall>c \<in> set m. c \<notin> set n \<Longrightarrow> starts_at n i (m @ v) = starts_at n (i + length m) v"
proof (induction m arbitrary: i)
  case (Cons c m)
  with starts_at_apart [of n c i "[]" "m @ v"] Cons.IH [of "Suc i"] show ?case by simp
qed simp

lemma starts_at_short: "n \<noteq> [] \<Longrightarrow> length s < length n \<Longrightarrow> starts_at n i s = []"
proof (induction s arbitrary: i)
  case (Cons x s)
  then have "take (length n) (x # s) \<noteq> n" by (metis length_take less_irrefl min.strict_coboundedI1 min_less_iff_disj)
  with Cons show ?case by (simp add: starts_with_def)
qed simp

lemma starts_at_self: "n \<noteq> [] \<Longrightarrow> starts_at n i n = [i]"
  by (cases n) (simp_all add: starts_with_def starts_at_short)

lemma count_apart: "c \<notin> set n \<Longrightarrow> count_of n (u @ c # v) = count_of n u + count_of n v"
proof (induction n u rule: count_of.induct)
  case (1 n u)
  show ?case
  proof (cases u)
    case Nil
    have "n = [] \<or> \<not> starts_with n (c # v)" using 1(3) by (cases n) (auto simp: starts_with_def)
    with Nil show ?thesis by (auto simp: count_of.simps [of n "c # v"] count_of.simps [of n "[]"])
  next
    case (Cons x xs)
    show ?thesis
    proof (cases "n \<noteq> [] \<and> starts_with n u")
      case True
      then have "length n \<le> length u" by (auto simp: starts_with_def min_def split: if_splits) (metis length_take min_def nat_le_linear)
      then have "drop (length n) (x # xs @ c # v) = drop (length n) (x # xs) @ c # v"
        using drop_append [of "length n" "x # xs" "c # v"] Cons by simp
      with 1(1) [OF Cons] True Cons 1(3) starts_with_apart [OF 1(3), of u v] show ?thesis
        by (simp add: count_of.simps [of n "x # xs"] count_of.simps [of n "x # xs @ c # v"])
    next
      case False
      with 1(2) [OF Cons] Cons 1(3) starts_with_apart [OF 1(3), of u v] show ?thesis
        by (auto simp: count_of.simps [of n "x # xs"] count_of.simps [of n "x # xs @ c # v"])
    qed
  qed
qed

lemma count_short: "length s < length n \<Longrightarrow> count_of n s = 0"
proof (induction n s rule: count_of.induct)
  case (1 n s)
  then have "\<not> starts_with n s" by (auto simp: starts_with_def)
  with 1 show ?case by (subst count_of.simps) (auto split: list.splits)
qed

lemma count_self: "n \<noteq> [] \<Longrightarrow> count_of n n = 1"
  by (subst count_of.simps) (auto simp: starts_with_def count_short split: list.splits)

lemma count_none: "n \<noteq> [] \<Longrightarrow> count_of n s = 0 \<longleftrightarrow> starts_at n i s = []"
proof (induction s arbitrary: i)
  case (Cons x s)
  then show ?case by (simp add: count_of.simps [of n "x # s"])
qed (simp add: count_of.simps)

text \<open>What replaces the nonce shares no character with it, so no new occurrence arises.\<close>

lemma replace_all_prefix:
  assumes "m \<noteq> []" "\<forall>c \<in> set m. c \<notin> set n"
  shows "set p \<subseteq> set n \<Longrightarrow> take (length p) (replace_all n m s) = p \<Longrightarrow> take (length p) s = p"
  using assms
proof (induction n m s arbitrary: p rule: replace_all.induct)
  case (1 n m s)
  show ?case
  proof (cases p)
    case p: (Cons y p')
    show ?thesis
    proof (cases s)
      case Nil
      with 1(4) p show ?thesis by (simp add: replace_all.simps [of n m "[]"])
    next
      case (Cons x xs)
      show ?thesis
      proof (cases "n \<noteq> [] \<and> starts_with n s")
        case True
        then have "replace_all n m s = m @ replace_all n m (drop (length n) s)"
          by (subst replace_all.simps) (auto simp: Cons)
        moreover obtain z m' where "m = z # m'" using 1(5) by (cases m) auto
        ultimately show ?thesis using 1(3,4,6) p by auto
      next
        case False
        then have "replace_all n m s = x # replace_all n m xs" by (subst replace_all.simps) (auto simp: Cons)
        with 1(2) [OF Cons False, of p'] 1(3-6) p Cons show ?thesis by auto
      qed
    qed
  qed simp
qed

lemma replace_all_gone:
  assumes "n \<noteq> []" "m \<noteq> []" "\<forall>c \<in> set m. c \<notin> set n"
  shows "starts_at n i (replace_all n m s) = []"
  using assms
proof (induction n m s arbitrary: i rule: replace_all.induct)
  case (1 n m s)
  show ?case
  proof (cases s)
    case Nil
    with 1(3) show ?thesis by (simp add: replace_all.simps [of n m "[]"])
  next
    case (Cons x xs)
    show ?thesis
    proof (cases "n \<noteq> [] \<and> starts_with n s")
      case True
      then have "replace_all n m s = m @ replace_all n m (drop (length n) s)"
        by (subst replace_all.simps) (auto simp: Cons)
      with 1(1) [OF Cons True 1(3-5)] starts_at_skip [OF 1(3,5)] show ?thesis by simp
    next
      case False
      then have r: "replace_all n m s = x # replace_all n m xs" by (subst replace_all.simps) (auto simp: Cons)
      have "\<not> starts_with n (replace_all n m s)"
        using replace_all_prefix [OF 1(4,5), of n s] False 1(3) by (auto simp: starts_with_def)
      with 1(2) [OF Cons False 1(3-5)] show ?thesis by (simp add: r)
    qed
  qed
qed

section \<open>The fence holds\<close>

lemma nonce_chars: "nonce_ok n \<Longrightarrow> n \<noteq> [] \<and> length n = 16 \<and> (\<forall>c. \<not> is_upper c \<longrightarrow> \<not> is_digit c \<longrightarrow> c \<notin> set n)"
  by (auto simp: nonce_ok_def NONCE_CHARS_def list_all_iff)

lemma fence_parts:
  "Fence draw given = Inr F \<Longrightarrow> nonce_ok (fc_nonce F) \<and> fc_open F = FENCE_PREFIX @ fc_nonce F \<and> fc_close F = fc_nonce F @ FENCE_SUFFIX"
  by (auto simp: Fence_def Let_def split: if_splits)

text \<open>What stands between the markers.\<close>

definition body_of :: "fence \<Rightarrow> string option \<Rightarrow> string" where
  "body_of F given =
     (let body = str_or given []
      in if 0 < count_of (fc_nonce F) body then replace_all (fc_nonce F) FORGED_MARKER body else body)"

lemma wrap_parts: "wrap F given = fc_open F @ nl @ body_of F given @ nl @ fc_close F"
  by (simp add: wrap_def body_of_def Let_def)

lemma body_clean:
  assumes "nonce_ok (fc_nonce F)"
  shows "starts_at (fc_nonce F) i (body_of F given) = []"
proof -
  note n = nonce_chars [OF assms]
  have "\<forall>c \<in> set FORGED_MARKER. \<not> is_upper c \<and> \<not> is_digit c"
    by (simp add: FORGED_MARKER_def is_upper_bits is_digit_bits)
  with replace_all_gone [of "fc_nonce F" FORGED_MARKER i] n count_none [of "fc_nonce F" "str_or given []" i] show ?thesis
    by (auto simp: body_of_def Let_def FORGED_MARKER_def)
qed

lemma count_skip: "\<forall>c \<in> set m. c \<notin> set n \<Longrightarrow> count_of n (m @ v) = count_of n v"
proof (induction m)
  case (Cons c m)
  then show ?case using count_apart [of c n "[]" "m @ v"] by (simp add: count_of.simps [of n "[]"])
qed simp

text \<open>C14: The fence: whatever text a stranger sends, also one that holds the nonce of this conversation, the
  fenced text opens with the opening marker, ends with the closing one, and has the nonce nowhere
  else: no text can end its own fence.\<close>

theorem fence_cannot_be_closed_inside:
  assumes "Fence draw given = Inr F"
  shows "starts_at (fc_nonce F) 0 (wrap F t) = [length FENCE_PREFIX, length (wrap F t) - length (fc_close F)]
    \<and> starts_with (fc_open F) (wrap F t) \<and> ends_in (fc_close F) (wrap F t)"
proof -
  let ?n = "fc_nonce F"
  note F = fence_parts [OF assms]
  have n: "?n \<noteq> []" "length ?n = 16" "\<And>c. \<not> is_upper c \<Longrightarrow> \<not> is_digit c \<Longrightarrow> c \<notin> set ?n"
    using nonce_chars [of ?n] F by blast+
  have us: "CHR ''_'' \<notin> set ?n" and nl: "CHR 0x0A \<notin> set ?n"
    by (simp_all add: n(3) is_upper_bits is_digit_bits)
  have short: "starts_at ?n i s = []" if "length s < 16" for i s using starts_at_short [OF n(1)] that n(2) by simp
  have opened: "starts_at ?n 0 (FENCE_PREFIX @ v) = starts_at ?n 20 v" for v
  proof -
    have "FENCE_PREFIX @ v = ''<<<EXTERNAL'' @ CHR ''_'' # ''CONTENT'' @ CHR ''_'' # v" by (simp add: FENCE_PREFIX_def)
    then show ?thesis by (simp only: starts_at_apart [OF n(1) us]) (simp add: short eval_nat_numeral del: starts_at.simps)
  qed
  have closed: "starts_at ?n i (?n @ FENCE_SUFFIX) = [i]" for i
  proof -
    have "?n @ FENCE_SUFFIX = ?n @ CHR ''_'' # ''EXTERNAL'' @ CHR ''_'' # ''CONTENT>>>''" by (simp add: FENCE_SUFFIX_def)
    then show ?thesis
      by (simp only: starts_at_apart [OF n(1) us]) (simp add: short starts_at_self [OF n(1)] del: starts_at.simps)
  qed
  define B where "B = body_of F t"
  have w: "wrap F t = FENCE_PREFIX @ ?n @ CHR 0x0A # B @ CHR 0x0A # ?n @ FENCE_SUFFIX"
    using F by (simp add: wrap_parts B_def)
  have "starts_at ?n 0 (wrap F t) = [20, 20 + 16 + 1 + length B + 1]"
    using body_clean [of F _ t] F
    by (simp only: w opened starts_at_apart [OF n(1) nl] closed) (simp add: starts_at_self [OF n(1)] n(2) B_def)
  moreover have "length FENCE_PREFIX = 20" by (simp add: FENCE_PREFIX_def)
  ultimately show ?thesis
    using F by (simp add: w n(2) starts_with_def ends_in_def)
qed

lemma wrap_count:
  assumes "Fence draw given = Inr F"
  shows "count_of (fc_nonce F) (wrap F t) = 2"
proof -
  let ?n = "fc_nonce F"
  note F = fence_parts [OF assms]
  have n: "?n \<noteq> []" "length ?n = 16" "\<And>c. \<not> is_upper c \<Longrightarrow> \<not> is_digit c \<Longrightarrow> c \<notin> set ?n"
    using nonce_chars [of ?n] F by blast+
  have us: "CHR ''_'' \<notin> set ?n" and nl: "CHR 0x0A \<notin> set ?n"
    by (simp_all add: n(3) is_upper_bits is_digit_bits)
  have short: "count_of ?n s = 0" if "length s < 16" for s using count_short [of s ?n] that n(2) by simp
  have w: "wrap F t = ''<<<EXTERNAL'' @ CHR ''_'' # ''CONTENT'' @ CHR ''_'' # ?n @ CHR 0x0A # body_of F t @ CHR 0x0A # ?n
      @ CHR ''_'' # ''EXTERNAL'' @ CHR ''_'' # ''CONTENT>>>''"
    using F by (simp add: wrap_parts FENCE_PREFIX_def FENCE_SUFFIX_def)
  have b: "count_of ?n (body_of F t) = 0" using body_clean [of F 0 t] F count_none [OF n(1)] by simp
  have "count_of ?n (wrap F t) = count_of ?n ''<<<EXTERNAL'' + (count_of ?n ''CONTENT'' + (count_of ?n ?n + (count_of ?n (body_of F t)
      + (count_of ?n ?n + (count_of ?n ''EXTERNAL'' + count_of ?n ''CONTENT>>>'')))))"
    unfolding w count_apart [OF us] count_apart [OF nl] ..
  also have "\<dots> = 2" by (simp add: short b count_self [OF n(1)])
  finally show ?thesis .
qed

section \<open>What the loop sends\<close>

text \<open>\<open>assured I Q f\<close>: from a state with \<open>I\<close> the step \<open>f\<close> ends in one, and what it returns satisfies \<open>Q\<close>.\<close>

definition assured :: "('s \<Rightarrow> bool) \<Rightarrow> ('a \<Rightarrow> bool) \<Rightarrow> ('s, 'e, 'a) comp \<Rightarrow> bool" where
  "assured I Q f \<longleftrightarrow> (\<forall>s. I s \<longrightarrow> I (snd (f s)) \<and> (\<forall>x. fst (f s) = Inr x \<longrightarrow> Q x))"

lemma assuredI: "(\<And>s. I s \<Longrightarrow> I (snd (f s)) \<and> (\<forall>x. fst (f s) = Inr x \<longrightarrow> Q x)) \<Longrightarrow> assured I Q f"
  by (simp add: assured_def)

lemma assured_and_then: "assured I Q f \<Longrightarrow> (\<And>x. Q x \<Longrightarrow> assured I Q' (g x)) \<Longrightarrow> assured I Q' (and_then f g)"
  unfolding assured_def and_then_def by (auto split: prod.splits sum.splits)

lemma assured_basic: "Q x \<Longrightarrow> assured I Q (give x)" "assured I Q (raise e)"
  by (simp_all add: assured_def give_def raise_def)

lemma assured_any: "assured I Q f \<Longrightarrow> assured I (\<lambda>_. True) f"
  by (simp add: assured_def)

lemma assured_state: "(\<And>s. I s \<Longrightarrow> assured I Q (f s)) \<Longrightarrow> assured I Q (\<lambda>s. f s s)"
  unfolding assured_def by blast

text \<open>Where a message may have come from: unless it was given to the loop, what the system, the user and the tools say is the output of
  masking by a state of this draft that protects the nonce, or one of the two texts of the loop.\<close>

definition NO_MORE_TOOLS :: string where
  "NO_MORE_TOOLS = ''Stop calling tools. Write the final reply body now, plain text only.''"

definition came_masked :: "message set \<Rightarrow> 'w drafter \<Rightarrow> account \<Rightarrow> fence \<Rightarrow> message \<Rightarrow> bool" where
  "came_masked given E a F m \<longleftrightarrow>
     m \<in> given \<or> ms_role m = ''assistant''
     \<or> (ms_role m = ''user'' \<and> (ms_content m = NO_MORE_TOOLS \<or> ms_content m = df_dash_retry E))
     \<or> (\<exists>t st st'. drafting (df_presidio E) (ac_identity a) st \<and> fc_nonce F \<in> set (mk_protected st)
          \<and> (ms_role m = ''tool'' \<longrightarrow> (\<exists>result. t = wrap F (Some result)))
          \<and> pseudonymize (df_presidio E) t st = (Inr (ms_content m), st'))"

definition at_work :: "sending set \<Rightarrow> message set \<Rightarrow> 'w drafter \<Rightarrow> account \<Rightarrow> fence \<Rightarrow> 'w desk \<Rightarrow> bool" where
  "at_work earlier given E a F s \<longleftrightarrow>
     drafting (df_presidio E) (ac_identity a) (dk_mask s) \<and> fc_nonce F \<in> set (mk_protected (dk_mask s))
     \<and> (\<forall>rq \<in> set (dk_sent s). rq \<in> earlier \<or> list_all (came_masked given E a F) (sd_messages rq))"

lemma at_work_world: "at_work B G E a F s \<Longrightarrow> at_work B G E a F (s\<lparr>dk_world := w\<rparr>)"
  by (simp add: at_work_def)

lemma masked_assured:
  assumes "calls_the_operator (df_presidio E)"
  shows "assured (at_work B G E a F) (\<lambda>t'. \<exists>st st'. drafting (df_presidio E) (ac_identity a) st \<and> fc_nonce F \<in> set (mk_protected st)
    \<and> pseudonymize (df_presidio E) t st = (Inr t', st')) (masked E t)"
proof (rule assuredI)
  fix s assume s: "at_work B G E a F s"
  obtain r st where run: "pseudonymize (df_presidio E) t (dk_mask s) = (r, st)" by fastforce
  with pseudonymize_protected [OF assms, of t "dk_mask s"] s have "at_work B G E a F (s\<lparr>dk_mask := st\<rparr>)"
    by (auto simp: at_work_def intro: drafting_mask)
  with run s show "at_work B G E a F (snd (masked E t s)) \<and> (\<forall>x. fst (masked E t s) = Inr x \<longrightarrow>
      (\<exists>st st'. drafting (df_presidio E) (ac_identity a) st \<and> fc_nonce F \<in> set (mk_protected st)
        \<and> pseudonymize (df_presidio E) t st = (Inr x, st')))"
    by (auto simp: masked_def at_work_def)
qed

lemma create_assured:
  "list_all (came_masked G E a F) (sd_messages rq) \<Longrightarrow> assured (at_work B G E a F) (\<lambda>_. True) (create E c rq)"
  by (rule assuredI) (auto simp: create_def at_work_def Let_def split: prod.splits sum.splits option.splits)

lemma complete_assured:
  "list_all (came_masked G E a F) ms \<Longrightarrow> assured (at_work B G E a F) (\<lambda>_. True) (complete_masked E c k tools ms)"
  by (auto simp: complete_masked_def request_of_def intro: assured_basic create_assured)

lemma tools_assured:
  fixes E :: "'w drafter"
  shows "assured (at_work B G E a F) (\<lambda>_. True) (run_tool E acct name raw)"
proof -
  have call: "assured (at_work B G E a F) (\<lambda>_. True) (world_call f :: ('w, 'b) drafting_step)" for f :: "'w \<Rightarrow> 'b \<times> 'w"
    by (rule assuredI) (auto simp: world_call_def at_work_world split: prod.splits)
  have one: "assured (at_work B G E a F) (\<lambda>_. True) (ex kvs acct)" if "map_of (TOOL_REGISTRY E) name = Some ex" for ex kvs
    using that
    by (auto simp: TOOL_REGISTRY_def search_emails_def get_calendar_events_def get_email_thread_def run_search_def Let_def
        split: if_splits sum.splits intro!: assured_and_then assured_basic call)
  show ?thesis
    by (auto simp: run_tool_def split: option.splits intro!: assured_and_then assured_basic one)
qed

lemma notify_assured: "assured (at_work B G E a F) (\<lambda>_. True) (safe_notify E n r hist final)"
  by (rule assuredI) (auto simp: safe_notify_def at_work_world split: option.splits)

lemma finish_assured: "assured (at_work B G E a F) (\<lambda>_. True) (finish complaint r)"
  by (auto simp: finish_def Let_def intro: assured_basic)

lemma answer_assured:
  assumes "calls_the_operator (df_presidio E)"
  shows "list_all (came_masked G E a F) ms \<Longrightarrow>
    assured (at_work B G E a F) (\<lambda>(ms', _). list_all (came_masked G E a F) ms') (answer_calls E acct F n tcs ms hist)"
proof (induction tcs arbitrary: ms hist)
  case Nil
  then show ?case by (simp add: assured_basic)
next
  case (Cons tc tcs)
  show ?case unfolding answer_calls.simps
  proof (rule assured_state, rule assured_and_then [OF tools_assured], clarify, rule assured_and_then [OF masked_assured [OF assms]])
    fix args result t'
    assume "\<exists>st st'. drafting (df_presidio E) (ac_identity a) st \<and> fc_nonce F \<in> set (mk_protected st)
        \<and> pseudonymize (df_presidio E) (wrap F (Some (dumps (df_format E) result))) st = (Inr t', st')"
    then have "came_masked G E a F \<lparr>ms_role = ''tool'', ms_content = t', ms_calls = [], ms_call_id = Some (tc_id tc)\<rparr>"
      unfolding came_masked_def by auto
    with Cons.prems show "assured (at_work B G E a F) (\<lambda>(ms', _). list_all (came_masked G E a F) ms')
      (answer_calls E acct F n tcs
        (ms @ [\<lparr>ms_role = ''tool'', ms_content = t', ms_calls = [], ms_call_id = Some (tc_id tc)\<rparr>])
        (hist @ [\<lparr>tn_iteration = n, tn_name = tc_name tc, tn_args = args, tn_summary = summarize_tool_result E result\<rparr>]))"
      by (intro Cons.IH) simp
  qed
qed

lemma loop_assured:
  assumes "calls_the_operator (df_presidio E)"
  shows "list_all (came_masked G E a F) ms \<Longrightarrow>
    assured (at_work B G E a F) (\<lambda>(_, ms'). list_all (came_masked G E a F) ms') (run_loop E c acct F left n ms hist)"
proof (induction "left" arbitrary: n ms hist)
  case 0
  have "came_masked G E a F (said ''user'' NO_MORE_TOOLS)" by (simp add: came_masked_def said_def)
  with 0 have "list_all (came_masked G E a F) (ms @ [said ''user'' NO_MORE_TOOLS])" by simp
  with 0 show ?case
    by (auto simp: NO_MORE_TOOLS_def intro!: assured_and_then assured_basic complete_assured notify_assured finish_assured)
next
  case (Suc k)
  show ?case unfolding run_loop.simps
  proof (rule assured_and_then [OF complete_assured [OF Suc.prems]])
    fix r :: response
    let ?asked = "\<lparr>ms_role = ''assistant'', ms_content = str_or (rs_content r) [], ms_calls = rs_calls r, ms_call_id = None\<rparr>"
    have "came_masked G E a F ?asked" by (simp add: came_masked_def)
    with Suc.prems have ms: "list_all (came_masked G E a F) (ms @ [?asked])" by simp
    have "assured (at_work B G E a F) (\<lambda>(_, ms'). list_all (came_masked G E a F) ms')
      (and_then (answer_calls E acct F n (rs_calls r) (ms @ [?asked]) hist) (\<lambda>(ms', hist').
            and_then (safe_notify E n r hist' False) (\<lambda>_. run_loop E c acct F k (Suc n) ms' hist')))"
      by (rule assured_and_then [OF answer_assured [OF assms ms]])
        (auto intro!: assured_and_then [OF notify_assured] Suc.IH)
    with Suc.prems show "assured (at_work B G E a F) (\<lambda>(_, ms'). list_all (came_masked G E a F) ms')
      (if rs_calls r = []
       then and_then (safe_notify E n r hist True) (\<lambda>_. and_then (finish ''drafter returned empty body'' r) (\<lambda>body. give (body, ms)))
       else and_then (answer_calls E acct F n (rs_calls r) (ms @ [?asked]) hist) (\<lambda>(ms', hist').
            and_then (safe_notify E n r hist' False) (\<lambda>_. run_loop E c acct F k (Suc n) ms' hist')))"
      by (auto intro!: assured_and_then [OF notify_assured] assured_and_then [OF finish_assured] assured_basic)
  qed
qed

lemma retry_assured:
  assumes "calls_the_operator (df_presidio E)"
  shows "list_all (came_masked G E a F) ms \<Longrightarrow>
    assured (at_work B G E a F) (\<lambda>_. True) (retry_dashes E c acct F k attempts body ms)"
proof (induction attempts arbitrary: body ms)
  case 0
  show ?case by (simp add: assured_basic)
next
  case (Suc attempts)
  have "came_masked G E a F (said ''assistant'' body)" "came_masked G E a F (said ''user'' (df_dash_retry E))"
    by (simp_all add: came_masked_def said_def)
  with Suc.prems have "list_all (came_masked G E a F) (ms @ [said ''assistant'' body, said ''user'' (df_dash_retry E)])" by simp
  then have "assured (at_work B G E a F) (\<lambda>_. True)
    (and_then (run_loop E c acct F k 1 (ms @ [said ''assistant'' body, said ''user'' (df_dash_retry E)]) [])
             (\<lambda>(body', ms'). retry_dashes E c acct F k attempts body' ms'))"
    by (intro assured_and_then [OF loop_assured [OF assms]]) (auto intro: Suc.IH)
  then show ?case by (simp add: assured_basic)
qed

lemma with_retry_assured:
  assumes "calls_the_operator (df_presidio E)" "list_all (came_masked G E a F) ms"
  shows "assured (at_work B G E a F) (\<lambda>_. True) (draft_with_em_dash_retry E c acct F k ban ms)"
  unfolding draft_with_em_dash_retry_def
  by (rule assured_and_then [OF loop_assured [OF assms]]) (auto intro: assured_basic retry_assured [OF assms(1)])

text \<open>A draft once its masking state is made.\<close>

definition draft_steps ::
  "'w drafter \<Rightarrow> llm_client \<Rightarrow> string \<Rightarrow> string \<Rightarrow> nat \<Rightarrow> account \<Rightarrow> fence \<Rightarrow> string \<Rightarrow> ('w, string) drafting_step" where
  "draft_steps E c sys user k a F now =
     and_then (masked E (system_with_time F sys now (id_first (ac_identity a))
             (if dashes_banned a then df_dash_rule E else []))) (\<lambda>t1.
          and_then (masked E user) (\<lambda>t2.
          and_then (draft_with_em_dash_retry E c a F k (dashes_banned a) [said ''system'' t1, said ''user'' t2]) (\<lambda>body s'.
            (Inr (restore body (dk_mask s')), s'))))"

lemma draft_unfold:
  "protect (fc_nonce F) (new_state (df_presidio E) (ac_identity a)) = Inr st \<Longrightarrow>
   draft E c sys user k a F s = draft_steps E c sys user k a F (df_now E (dk_world s)) (s\<lparr>dk_mask := st\<rparr>)"
  by (simp add: draft_def draft_steps_def)

lemma draft_sends:
  assumes "calls_the_operator (df_presidio E)" "draft E c sys user k a F s = (r, s')"
  shows "\<forall>rq \<in> set (dk_sent s'). rq \<in> set (dk_sent s) \<or> list_all (came_masked {} E a F) (sd_messages rq)"
proof (cases "protect (fc_nonce F) (new_state (df_presidio E) (ac_identity a))")
  case (Inl e)
  with assms(2) show ?thesis by (simp add: draft_def)
next
  case (Inr st)
  let ?I = "at_work (set (dk_sent s)) {} E a F"
  have "drafting (df_presidio E) (ac_identity a) st" by (rule drafting_protect [OF drafting_new Inr])
  moreover have "fc_nonce F \<in> set (mk_protected st)" using Inr by (auto simp: protect_def split: if_splits)
  ultimately have start: "?I (s\<lparr>dk_mask := st\<rparr>)" by (simp add: at_work_def)
  let ?f = "draft_steps E c sys user k a F (df_now E (dk_world s))"
  have told: "came_masked {} E a F (said role t')" if "role \<noteq> ''tool''"
      "\<exists>st st'. drafting (df_presidio E) (ac_identity a) st \<and> fc_nonce F \<in> set (mk_protected st)
        \<and> pseudonymize (df_presidio E) t st = (Inr t', st')" for role t t'
    using that unfolding came_masked_def said_def by auto
  have "assured ?I (\<lambda>_. True) ?f"
    unfolding draft_steps_def
  proof (rule assured_and_then [OF masked_assured [OF assms(1)]], rule assured_and_then [OF masked_assured [OF assms(1)]],
      rule assured_and_then [OF with_retry_assured [OF assms(1)]])
    fix t1 t2 
    assume "\<exists>st st'. drafting (df_presidio E) (ac_identity a) st \<and> fc_nonce F \<in> set (mk_protected st)
        \<and> pseudonymize (df_presidio E) (system_with_time F sys (df_now E (dk_world s)) (id_first (ac_identity a))
             (if dashes_banned a then df_dash_rule E else [])) st = (Inr t1, st')"
      and "\<exists>st st'. drafting (df_presidio E) (ac_identity a) st \<and> fc_nonce F \<in> set (mk_protected st)
        \<and> pseudonymize (df_presidio E) user st = (Inr t2, st')"
    then have "came_masked {} E a F (said ''system'' t1)" "came_masked {} E a F (said ''user'' t2)"
      by (auto intro!: told)
    then show "list_all (came_masked {} E a F) [said ''system'' t1, said ''user'' t2]" by simp
  next
    fix body :: string
    show "assured ?I (\<lambda>_. True) (\<lambda>s'. ((Inr (restore body (dk_mask s')) :: draft_error + string), s'))" by (simp add: assured_def)
  qed
  with start have "?I (snd (?f (s\<lparr>dk_mask := st\<rparr>)))" unfolding assured_def by blast
  moreover have "?f (s\<lparr>dk_mask := st\<rparr>) = (r, s')" using assms(2) draft_unfold [OF Inr] by simp
  ultimately show ?thesis by (auto simp: at_work_def)
qed

lemma masking_counts:
  assumes "pseudonymize P t st = (Inr out, st')" "n \<in> set (mk_protected st)"
  shows "count_of n out = count_of n t"
proof -
  have kept: "count_of n new = count_of n old" if "rewritten old new ts = None" "n \<in> set ts" for old new ts
    using that by (induction ts) (auto split: if_splits)
  from assms(1) have "t = out \<or> rewritten t out (mk_protected st) = None"
    by (auto simp: pseudonymize_def Let_def split: if_splits prod.splits option.splits)
  with kept [of t out] assms(2) show ?thesis by auto
qed

lemma loop_sends:
  assumes "calls_the_operator (df_presidio E)" "drafting (df_presidio E) (ac_identity a) (dk_mask s)"
    and "fc_nonce F \<in> set (mk_protected (dk_mask s))" "run_loop E c a F k n ms hist s = (r, s')"
    and "rq \<in> set (dk_sent s')" "rq \<notin> set (dk_sent s)" "m \<in> set (sd_messages rq)"
  shows "came_masked (set ms) E a F m"
proof -
  have "at_work (set (dk_sent s)) (set ms) E a F s" using assms(2,3) by (simp add: at_work_def)
  moreover have "list_all (came_masked (set ms) E a F) ms" by (simp add: list_all_iff came_masked_def)
  ultimately have "at_work (set (dk_sent s)) (set ms) E a F s'"
    using loop_assured [OF assms(1), of "set ms" a F ms "set (dk_sent s)" c a k n hist] assms(4) unfolding assured_def by (metis snd_conv)
  with assms(5-7) show ?thesis by (auto simp: at_work_def list_all_iff)
qed

lemma fenced_count:
  assumes "Fence dice given = Inr F" "came_masked G E a F m" "m \<notin> G" "ms_role m = ''tool''"
  shows "count_of (fc_nonce F) (ms_content m) = 2"
proof -
  from assms(2-4) obtain result st st' where
    "fc_nonce F \<in> set (mk_protected st)" "pseudonymize (df_presidio E) (wrap F (Some result)) st = (Inr (ms_content m), st')"
    by (auto simp: came_masked_def)
  from masking_counts [OF this(2,1)] wrap_count [OF assms(1)] show ?thesis by simp
qed

lemma masked_no_address:
  assumes "regex_only (df_presidio E) (ac_identity a)" "CHR ''@'' \<notin> set (df_dash_retry E)" "e \<in> set (id_emails (ac_identity a))"
    and "came_masked G E a F m" "m \<notin> G" "ms_role m \<noteq> ''assistant''"
  shows "\<not> occurs e (ms_content m)"
proof -
  have e: "plain_address e" using assms(1,3) by (auto simp: regex_only_def list_all_iff)
  have quiet: "\<not> occurs e t" if "CHR ''@'' \<notin> set t" for t
    using plain_spelling(1) [OF e] that by (auto simp: occurs_def)
  from assms(4-6) consider (texts) "ms_content m = NO_MORE_TOOLS \<or> ms_content m = df_dash_retry E"
    | (masked) t st st' where "drafting (df_presidio E) (ac_identity a) st" "pseudonymize (df_presidio E) t st = (Inr (ms_content m), st')"
    by (auto simp: came_masked_def)
  then show ?thesis
  proof cases
    case texts
    then show ?thesis using quiet [of NO_MORE_TOOLS] quiet [OF assms(2)] by (auto simp: NO_MORE_TOOLS_def)
  next
    case masked
    from drafting_tidy [OF masked(1) assms(1)] assms(3) have "tidy st" "\<not> mk_analyzer st" "mk_identity st = ac_identity a"
      by (cases "id_emails (ac_identity a)"; simp)+
    with pseudonymize_tidy [OF _ _ _ _ e masked(2)] assms(3) identity_contacts [OF assms(1)] show ?thesis by auto
  qed
qed

text \<open>The same for a whole draft: its prompts are masked too, so nothing is given.\<close>

lemma draft_keeps_markers_and_addresses:
  assumes "Fence dice given = Inr F" "calls_the_operator (df_presidio E)" "draft E c sys user k a F s = (r, s')"
    and "rq \<in> set (dk_sent s')" "rq \<notin> set (dk_sent s)" "m \<in> set (sd_messages rq)"
  shows "ms_role m = ''tool'' \<Longrightarrow> count_of (fc_nonce F) (ms_content m) = 2"
    and "regex_only (df_presidio E) (ac_identity a) \<Longrightarrow> CHR ''@'' \<notin> set (df_dash_retry E) \<Longrightarrow> ms_role m \<noteq> ''assistant''
      \<Longrightarrow> e \<in> set (id_emails (ac_identity a)) \<Longrightarrow> \<not> occurs e (ms_content m)"
proof -
  from draft_sends [OF assms(2,3)] assms(4-6) have m: "came_masked {} E a F m" by (auto simp: list_all_iff)
  show "ms_role m = ''tool'' \<Longrightarrow> count_of (fc_nonce F) (ms_content m) = 2"
    using fenced_count [OF assms(1) m] by simp
  show "regex_only (df_presidio E) (ac_identity a) \<Longrightarrow> CHR ''@'' \<notin> set (df_dash_retry E) \<Longrightarrow> ms_role m \<noteq> ''assistant''
      \<Longrightarrow> e \<in> set (id_emails (ac_identity a)) \<Longrightarrow> \<not> occurs e (ms_content m)"
    using masked_no_address [OF _ _ _ m] by simp
qed

text \<open>C13: The fence and masking together: in every request of the loop, for any model, tools and account, and
  any analyzer that answers only the kinds it was asked for and changes the draft's state only through
  our operator, each tool result the model reads has the nonce of the conversation exactly twice, as often as the fence put it there;
  where masking would change that number the draft fails instead. It is the number that is compared:
  of the fixed words around the nonce in a marker the theorem says nothing.\<close>

theorem nonces_survive_masking:
  assumes "Fence dice given = Inr F" "calls_the_operator (df_presidio E)"
    and "drafting (df_presidio E) (ac_identity a) (dk_mask s)" "fc_nonce F \<in> set (mk_protected (dk_mask s))"
    and "run_loop E c a F k n ms hist s = (r, s')" "rq \<in> set (dk_sent s')" "rq \<notin> set (dk_sent s)"
    and "m \<in> set (sd_messages rq)" "ms_role m = ''tool''" "m \<notin> set ms"
  shows "count_of (fc_nonce F) (ms_content m) = 2"
  by (rule fenced_count [OF assms(1) loop_sends [OF assms(2-8)] assms(10,9)])

text \<open>C12: The masking boundary of the drafter: for an account that is masked without the analyzer and whose
  addresses hold an \<open>@\<close> and no bracket or blank, no message that the loop adds to
  its requests, on any turn, holds an address of the owner's in any spelling, whatever the mail and
  the calendar entries hold that the tools found; only the model's own words are sent as they are.
  The text that asks for a reply without dashes is a parameter here, and holds no \<open>@\<close>.\<close>

theorem tools_never_show_an_address:
  assumes "regex_only (df_presidio E) (ac_identity a)" "calls_the_operator (df_presidio E)" "CHR ''@'' \<notin> set (df_dash_retry E)"
    and "drafting (df_presidio E) (ac_identity a) (dk_mask s)" "fc_nonce F \<in> set (mk_protected (dk_mask s))"
    and "run_loop E c a F k n ms hist s = (r, s')" "rq \<in> set (dk_sent s')" "rq \<notin> set (dk_sent s)"
    and "m \<in> set (sd_messages rq)" "m \<notin> set ms" "ms_role m \<noteq> ''assistant''" "e \<in> set (id_emails (ac_identity a))"
  shows "\<not> occurs e (ms_content m)"
  by (rule masked_no_address [OF assms(1,3,12) loop_sends [OF assms(2,4-9)] assms(10,11)])

section \<open>How often the model is asked\<close>

definition costs :: "nat \<Rightarrow> ('w desk, 'e, 'a) comp \<Rightarrow> bool" where
  "costs k f \<longleftrightarrow> (\<forall>s. length (dk_sent (snd (f s))) \<le> length (dk_sent s) + k)"

lemma costs_and_then:
  assumes "costs i f" "\<And>x. costs j (g x)"
  shows "costs (i + j) (and_then f g)"
  unfolding costs_def
proof
  fix s
  obtain r s1 where f: "f s = (r, s1)" by fastforce
  then have 1: "length (dk_sent s1) \<le> length (dk_sent s) + i" using assms(1) unfolding costs_def by (metis snd_conv)
  show "length (dk_sent (snd (and_then f g s))) \<le> length (dk_sent s) + (i + j)"
  proof (cases r)
    case (Inr x)
    have "length (dk_sent (snd (g x s1))) \<le> length (dk_sent s1) + j" using assms(2) unfolding costs_def by blast
    with 1 show ?thesis by (simp add: and_then_def f Inr)
  qed (use 1 in \<open>simp add: and_then_def f\<close>)
qed

lemma costs_more: "costs i f \<Longrightarrow> i \<le> j \<Longrightarrow> costs j f"
  unfolding costs_def by (metis add_le_mono1 add.commute le_trans)

lemma costs_free: "costs k (give x)" "costs k (raise e)"
  "costs k (masked E t)" "costs k (safe_notify E n r hist final)" "costs k (finish complaint r)"
  by (auto simp: costs_def give_def raise_def masked_def safe_notify_def finish_def Let_def split: prod.splits option.splits)

lemma costs_state: "(\<And>s. costs k (f s)) \<Longrightarrow> costs k (\<lambda>s. f s s)"
  unfolding costs_def by blast

lemma costs_then0: "costs 0 f \<Longrightarrow> (\<And>x. costs k (g x)) \<Longrightarrow> costs k (and_then f g)"
  using costs_and_then [of 0 f k g] by simp

lemma complete_costs: "costs 1 (complete_masked E c n tools ms)"
  by (auto simp: costs_def complete_masked_def create_def raise_def Let_def split: prod.splits sum.splits option.splits)

lemma tools_cost_nothing: 
  fixes E :: "'w drafter"
  shows "costs 0 (run_tool E acct name raw)"
proof -
  have call: "costs 0 (world_call f :: ('w, 'b) drafting_step)" for f :: "'w \<Rightarrow> 'b \<times> 'w"
    by (simp add: costs_def world_call_def split: prod.splits)
  have one: "costs 0 (ex kvs acct)" if "map_of (TOOL_REGISTRY E) name = Some ex" for ex kvs
    using that
    by (auto simp: TOOL_REGISTRY_def search_emails_def get_calendar_events_def get_email_thread_def run_search_def Let_def
        split: if_splits sum.splits intro!: costs_then0 costs_free call)
  show ?thesis
    by (auto simp: run_tool_def split: option.splits intro!: costs_then0 costs_free one)
qed

lemma answers_cost_nothing: "costs 0 (answer_calls E acct F n tcs ms hist)"
proof (induction tcs arbitrary: ms hist)
  case Nil
  then show ?case by (simp add: costs_free)
next
  case (Cons tc tcs)
  show ?case unfolding answer_calls.simps
    by (rule costs_state) (auto intro!: costs_then0 tools_cost_nothing costs_free Cons)
qed

lemma loop_costs: "costs (left + 1) (run_loop E c acct F left n ms hist)"
proof (induction "left" arbitrary: n ms hist)
  case 0
  have "costs (1 + 0) (run_loop E c acct F 0 n ms hist)" unfolding run_loop.simps
    by (rule costs_and_then [OF complete_costs]) (auto intro!: costs_then0 costs_free)
  then show ?case by simp
next
  case (Suc k)
  have "costs (1 + (k + 1)) (run_loop E c acct F (Suc k) n ms hist)" unfolding run_loop.simps
    by (rule costs_and_then [OF complete_costs]) (auto intro!: costs_then0 costs_free answers_cost_nothing Suc [simplified])
  then show ?case by simp
qed

lemma retry_costs: "costs (attempts * (k + 1)) (retry_dashes E c acct F k attempts body ms)"
proof (induction attempts arbitrary: body ms)
  case 0
  show ?case by (simp add: costs_free)
next
  case (Suc attempts)
  have "costs ((k + 1) + attempts * (k + 1)) (and_then (run_loop E c acct F k 1 (ms @ [said ''assistant'' body, said ''user'' (df_dash_retry E)]) [])
             (\<lambda>(body', ms'). retry_dashes E c acct F k attempts body' ms'))"
    by (rule costs_and_then [OF loop_costs]) (auto intro: Suc [simplified])
  then show ?case by (auto simp: ac_simps intro: costs_free)
qed

text \<open>C16: However many tools the model calls, a draft ends, and asks the model at most once per turn and once
  more to force a body; where the account bans dashes, that much for each of the four retries too.\<close>

theorem draft_asks_boundedly:
  "length (dk_sent (snd (draft E c sys user k a F s)))
     \<le> length (dk_sent s) + (if dashes_banned a then (1 + MAX_EM_DASH_RETRIES) * (k + 1) else k + 1)"
proof (cases "protect (fc_nonce F) (new_state (df_presidio E) (ac_identity a))")
  case (Inr st)
  have loop: "costs (if ban then (1 + MAX_EM_DASH_RETRIES) * (k + 1) else k + 1) (draft_with_em_dash_retry E c a F k ban ms)" for ban ms
  proof (cases ban)
    case True
    have "costs ((k + 1) + MAX_EM_DASH_RETRIES * (k + 1)) (draft_with_em_dash_retry E c a F k True ms)"
      unfolding draft_with_em_dash_retry_def
      by (rule costs_and_then [OF loop_costs]) (auto intro: retry_costs [simplified])
    with True show ?thesis by (simp add: algebra_simps)
  next
    case False
    have "costs ((k + 1) + 0) (draft_with_em_dash_retry E c a F k False ms)"
      unfolding draft_with_em_dash_retry_def
      by (rule costs_and_then [OF loop_costs]) (auto intro: costs_free)
    with False show ?thesis by simp
  qed
  have undo: "costs 0 (\<lambda>s'. ((Inr (restore body (dk_mask s')) :: draft_error + string), s'))" for body by (simp add: costs_def)
  let ?f = "draft_steps E c sys user k a F (df_now E (dk_world s))"
  define K where "K = (if dashes_banned a then (1 + MAX_EM_DASH_RETRIES) * (k + 1) else k + 1)"
  have "costs K ?f"
    unfolding draft_steps_def K_def
    by (rule costs_then0 [OF costs_free(3)], rule costs_then0 [OF costs_free(3)])
      (rule costs_and_then [OF loop undo, unfolded add_0_right])
  then have "length (dk_sent (snd (?f (s\<lparr>dk_mask := st\<rparr>)))) \<le> length (dk_sent (s\<lparr>dk_mask := st\<rparr>)) + K"
    unfolding costs_def by blast
  then show ?thesis by (simp add: draft_unfold [OF Inr] K_def)
qed (simp add: draft_def)

section \<open>A lookup the model asks for\<close>

text \<open>C17: A tool call the model got wrong costs the whole draft: where it asks for a search of no results or
  fewer, \<open>run_search\<close> asserts and nothing catches it, so the loop ends in that error and neither Gmail
  nor the model is asked again.\<close>

theorem a_search_for_nothing_ends_the_draft:
  assumes "complete_masked E c MAX_TOKENS True ms s = (Inr r, s1)" "rs_calls r = tc # rest" "tc_name tc = ''search_emails''"
    and "loads (restore (str_or (tc_arguments tc) []) (dk_mask s1)) = Some (JObj kvs)" "restore (str_or (tc_arguments tc) []) (dk_mask s1) \<noteq> []"
    and "jtrue (jget kvs ''query'')" "map_of kvs ''max_results'' = Some (JNum (of_int i))" "i \<le> 0"
  shows "run_loop E c a F (Suc k) n ms hist s = (Inl (DraftAssertion ''max_results must be positive''), s1)"
proof -
  let ?ms = "ms @ [\<lparr>ms_role = ''assistant'', ms_content = str_or (rs_content r) [], ms_calls = rs_calls r, ms_call_id = None\<rparr>]"
  have "search_emails E kvs a s1 = (Inl (DraftAssertion ''max_results must be positive''), s1)"
    using assms(6-8) by (simp add: search_emails_def run_search_def Let_def the_default_def and_then_def raise_def)
  then have "run_tool E a (tc_name tc) (restore (str_or (tc_arguments tc) []) (dk_mask s1)) s1
      = (Inl (DraftAssertion ''max_results must be positive''), s1)"
    using assms(3-5) by (simp add: run_tool_def TOOL_REGISTRY_def and_then_def)
  then have "answer_calls E a F n (rs_calls r) ?ms hist s1 = (Inl (DraftAssertion ''max_results must be positive''), s1)"
    by (simp add: assms(2) and_then_def)
  with assms(1,2) show ?thesis by (simp add: and_then_def)
qed

end
