(* ===== verification/MaskingDemo.thy ===== *)
theory MaskingDemo
  imports MaskingRun
begin

text \<open>Masking on concrete texts: the witnesses of its properties.\<close>

definition demo_owner :: "string list \<Rightarrow> identity" where
  "demo_owner names =
     \<lparr>id_first = ''Nora'', id_last = ''Quist'', id_first_aliases = [''Nor''], id_emails = [''nora@q.org''],
      id_phones = [''+1 555 0100''], id_phone_digits = [''15550100''], id_contacts = names, id_account = ''a1'', id_analyzer = False\<rparr>"

fun splice :: "nat \<Rightarrow> string \<Rightarrow> hit list \<Rightarrow> operator \<Rightarrow> masking \<Rightarrow> string \<times> masking" where
  "splice i s [] oper st = (s, st)"
| "splice i s (r # rs) oper st =
     (case oper (ht_entity r) (take (ht_stop r - ht_start r) (drop (ht_start r - i) s)) st of (t, st1) \<Rightarrow>
      case splice (ht_stop r) (drop (ht_stop r - i) s) rs oper st1 of (out, st2) \<Rightarrow>
        (take (ht_start r - i) s @ t @ out, st2))"

definition demo_presidio :: presidio where
  "demo_presidio =
     \<lparr>pr_available = True,
      pr_analyze = (\<lambda>entities s. if s = ''Ask Ann Lee at 4111'' then
         [\<lparr>ht_entity = ''PERSON'', ht_start = 4, ht_stop = 11\<rparr>, \<lparr>ht_entity = ''CREDIT_CARD'', ht_start = 15, ht_stop = 19\<rparr>] else []),
      pr_anonymize = splice 0\<rparr>"

lemma splice_keeps:
  assumes "Q st" "\<And>e t x. e \<in> ht_entity ` set rs \<Longrightarrow> Q x \<Longrightarrow> Q (snd (oper e t x))"
  shows "Q (snd (splice i s rs oper st))"
  using assms
proof (induction i s rs oper st rule: splice.induct)
  case (2 i s r rs oper st)
  let ?t = "take (ht_stop r - ht_start r) (drop (ht_start r - i) s)"
  obtain t st1 where t: "oper (ht_entity r) ?t st = (t, st1)" by fastforce
  with 2(3) [of "ht_entity r" st ?t] 2(2) have "Q st1" by simp
  with 2(1) [of t st1] t 2(3) show ?case by (simp add: case_prod_beta)
qed simp

lemma demo_calls: "calls_the_operator demo_presidio"
  unfolding calls_the_operator_def
proof (intro conjI allI impI)
  fix Q s and rs :: "hit list" and oper :: operator and st :: masking
  assume "Q st" "\<forall>e t x. e \<in> ht_entity ` set rs \<longrightarrow> Q x \<longrightarrow> Q (snd (oper e t x))"
  then show "Q (snd (pr_anonymize demo_presidio s rs oper st))"
    using splice_keeps [of Q st rs oper 0 s] by (simp add: demo_presidio_def)
qed (auto simp: demo_presidio_def ENTITIES_def NER_ENTITIES_def split: if_splits)

text \<open>A contact whose first name is a stop word: the word stays, in the contact's spelling.\<close>

lemma masked_mail:
  "fst (pseudonymize demo_presidio ''mark  Lee: NORA@q.org'' (new_state demo_presidio (demo_owner [''Mark Lee''])))
     = Inr ''Mark [PERSON1_LAST]: [USER_EMAIL]''"
  by code_simp

lemma demo_owner_identity:
  "user_identity \<lparr>ib_first = ''Nora'', ib_last = ''Quist'', ib_first_aliases = [''Nor''], ib_emails = [''nora@q.org''],
     ib_phones = [''+1 555 0100''], ib_contacts = ['' Mark  Lee '']\<rparr> ''a1'' False = Inr (demo_owner [''Mark Lee''])"
  by code_simp

theorem no_owner_address_leaves_witness: "\<not> occurs ''nora@q.org'' ''Mark [PERSON1_LAST]: [USER_EMAIL]''"
proof -
  let ?i = "demo_owner [''Mark Lee'']"
  obtain st where "pseudonymize demo_presidio ''mark  Lee: NORA@q.org'' (new_state demo_presidio ?i)
      = (Inr ''Mark [PERSON1_LAST]: [USER_EMAIL]'', st)"
    using masked_mail by (metis prod.collapse)
  moreover have "regex_only demo_presidio ?i"
    unfolding regex_only_def plain_address_def using demo_owner_identity by (auto simp: demo_owner_def)
  moreover have "''nora@q.org'' \<in> set (id_emails ?i)" by (simp add: demo_owner_def)
  ultimately show ?thesis using no_owner_address_leaves [OF drafting_new] by blast
qed

definition demo_card :: masking where
  "demo_card = snd (pseudonymize demo_presidio ''Ask Ann Lee at 4111'' (new_state demo_presidio ((demo_owner [])\<lparr>id_analyzer := True\<rparr>)))"

lemma demo_card_seen: "mk_seen demo_card (''CREDIT_CARD'', ''4111'') = Some ''[CREDIT_CARD1]''"
  by code_simp

theorem tags_name_their_values_witness:
  "(\<exists>n. 1 \<le> n \<and> ''[CREDIT_CARD1]'' = number_tag ''CREDIT_CARD'' n)
    \<and> (\<exists>v. map_of (mk_mapping demo_card) ''[CREDIT_CARD1]'' = Some v \<and> value_key v = ''4111'')"
proof -
  have "drafting demo_presidio ((demo_owner [])\<lparr>id_analyzer := True\<rparr>) demo_card"
    unfolding demo_card_def by (rule drafting_mask [OF drafting_new]) (rule surjective_pairing)
  from tags_name_their_values [OF this demo_calls demo_card_seen] show ?thesis by blast
qed

end
