(* ===== verification/Spec2Isabelle.thy ===== *)
theory Spec2Isabelle
  imports Server Billing ChatDemo Session Inference OnboardingDemo DraftingDemo
begin

text \<open>
  A verification development for an email assistant that runs in a confidential VM (the enclave)
  with its key material split over a second machine (the co-signer). Everything is translated
  from the Python under \<open>src/\<close>; each definition keeps the name of the function it models, with a
  suffix or another word where the name clashes with HOL.

  \<^bold>\<open>The two boxes.\<close> The enclave keeps a manifest of accounts, one data key record per account and the
  documents sealed under that key. A data key is wrapped twice: an inner layer under a secret
  only an attested enclave gets (\<open>backend/custody/wrapping.py\<close>), an outer one under the co-signer's
  master key (\<open>cosigner/keys.py\<close>). To open a record the enclave asks the co-signer over mutual TLS
  (\<open>backend/custody/client.py\<close>, \<open>cosigner/server.py\<close>); the co-signer checks the quote in the client
  certificate (\<open>cosigner/attest.py\<close>, \<open>backend/tee/quote_policy.py\<close>), holds the request against its
  ceilings (\<open>cosigner/policy.py\<close>) and logs the decision (\<open>cosigner/audit.py\<close>). On top of the keys
  stand the documents (\<open>backend/custody/keyring.py\<close>), the refresh tokens of the mailboxes
  (\<open>backend/custody/tokens.py\<close>), the accounts (\<open>backend/accounts/account.py\<close>), the sign-in that
  makes one (\<open>backend/onboarding/provisioning.py\<close>), the chat it may be linked to
  (\<open>backend/accounts/chat_link.py\<close>), the web sessions (\<open>frontend/session.py\<close>) and the billing
  (\<open>backend/billing\<close>). A draft is written by a model at a provider whose enclave is verified first
  (\<open>backend/integrations/inference_attestation.py\<close>), in a loop with tools
  (\<open>backend/drafting/agentic_drafter.py\<close>), and sees masked text only
  (\<open>backend/masking/pseudonymizer.py\<close>).

  \<^bold>\<open>Theories, bottom up.\<close>
  \<^item> \<open>Prelude\<close>: Python's string operations on the characters of Latin-1, sums, association lists.
    \<open>Json\<close>: parsed JSON; \<open>JsonText\<close>: its text, written and read. \<open>Regex\<close>: the part of \<open>re\<close> the
    sources use, as the ends of a match in the order the matcher tries them. \<open>Effects\<close>: computations
    that thread a state and may raise, with the locale \<open>kept_relation\<close> for properties every step of
    one keeps. \<open>Crypto\<close>: AEAD and key derivation as parameters, their laws as the named hypotheses
    \<open>aead_inverts\<close> and \<open>aead_authentic\<close>.
    \<open>TtlCache\<close>: the locale of the in-process caches, interpreted on the attestation verdicts, the
    data keys and the sign-in notes.
  \<^item> \<open>CosignerAudit\<close>, \<open>QuotePolicy\<close>, \<open>Attest\<close>, \<open>Policy\<close>, \<open>Retention\<close>, \<open>Keys\<close>, \<open>Protocol\<close>, \<open>Server\<close>: the
    co-signer, one theory per module. \<open>Policy\<close> shows the order of the checks, \<open>Retention\<close> that a prune
    never changes a later decision, \<open>Server\<close> what an HTTP response implies about the log, the quote and
    the record. \<open>CosignerRun\<close> is the step relation over requests, prunes and restarts; its invariants
    bound every hour and every quarter of an hour of every reachable log.
  \<^item> \<open>Names\<close>, \<open>Store\<close>, \<open>EventLog\<close>, \<open>Manifest\<close>: the enclave's names, files, application log and manifest
    with all its writers. \<open>ManifestRun\<close>: the manifest invariant over any history of writers, routing,
    re-consent and deletion. A directory is removed as \<open>rmtree(ignore_errors=True)\<close> removes it: the files
    of \<open>cx_stuck\<close> stay.
  \<^item> \<open>Custody\<close>: the inner layer and the channel. \<open>Keyring\<close>: records, documents, the key cache, rotation.
    \<open>KeyringRun\<close>: the keyring refines a map from account and file name to text (\<open>vault\<close>), from which the
    survival of documents, the finality of a shred and the soundness of a rotation follow. \<open>Erasure\<close>: manifest
    and keyring together, a deletion and a write that comes after it. \<open>Tokens\<close>: taking
    and spending a grant, the DPoP nonce round trip, the access-token cache; the wall clock is read before
    an exchange (\<open>mo_wall\<close>) and after its answer (\<open>mo_answered\<close>). \<open>KeyringDemo\<close> and
    \<open>TokensDemo\<close> run both ends against each other on concrete values; they hold the witnesses.
  \<^item> \<open>Session\<close>: the signed cookies under a ring of keys. \<open>ChatLink\<close>: who may change where summaries
    go, with the two clocks of a change and of a sign-in. \<open>Onboarding\<close>: consent, exchange, account;
    \<open>OnboardingRun\<close>: what each branch of a sign-in leaves stored. \<open>ChatDemo\<close> and \<open>OnboardingDemo\<close> are
    concrete runs.
  \<^item> \<open>Inference\<close>: which provider reads an account's mail and what its attestation report must say.
    \<open>Masking\<close>: the owner's identifiers, the contacts, the names seen before, then the analyzer or the
    patterns; \<open>MaskingRun\<close>: the replacement relation \<open>tagged\<close>, the invariant of the dictionary, that no
    address of the owner leaves, and that tags name one value each; \<open>MaskingDemo\<close>: the witnesses.
    \<open>Drafting\<close>: fences, the tools and the loop; \<open>DraftingRun\<close>: a fence
    cannot be closed inside, masking keeps the number of its nonces, tool results leave masked, a draft asks the model a bounded number of
    times; \<open>DraftingDemo\<close>: a conversation.
  \<^item> \<open>Spool\<close>, \<open>Billing\<close>: the two queues, over histories of their calls, and what Polar's events, checkouts and
    sweep do to plans.

  \<^bold>\<open>State and errors.\<close> A Python object with fields is a \<open>record\<close>, an exception class a constructor of an
  error datatype, \<open>raise\<close> an \<open>Inl\<close>; the state returned beside an error is the one the exception left.
  A lock held over a function makes that function one step. Times are rationals, so the float
  rounding of clocks is not modelled; counts are \<open>nat\<close> or \<open>int\<close> as Python's are unbounded; bytes are
  8-bit words.

  \<^bold>\<open>Fuel.\<close> One loop has fuel, the sweep over Polar's pages (\<open>entitlement_by_customer\<close>), which in the
  source ends only when the service says so; \<open>sweep_terminates\<close> proves that the number of pages is enough.
  Two searches count down what is left to look at: \<open>free_role\<close> the roles in use (\<open>free_role_free\<close> proves
  that it ends on a free one), a repetition of \<open>Regex\<close> the characters left, since each round must read one. The rounds and retries of a draft are
  counted in the source itself. The scanners of \<open>JsonText\<close> and the substitutions of \<open>Regex\<close> terminate
  by the length of the text; every other recursion is structural.

  \<^bold>\<open>Parameters.\<close> Code that is not under \<open>src/\<close> is an argument: the AEAD, HKDF, X.509, JWS and DCAP
  libraries, the network, Google, Polar, Telegram, the model, Presidio's analyzer and anonymizer, and the
  guest agent. The JSON text parser is one too, except where the text matters (\<open>JsonText\<close>: tool results
  and arguments, the compose log, the identity token of a sign-in). What a theorem
  needs of one is a named hypothesis (\<open>aead_inverts\<close>, \<open>honest\<close>), and the demo theories instantiate each.

  \<^bold>\<open>Not modelled.\<close> Sockets, threads, file modes, fsync and full disks; the text of log lines; steps of the
  wall clock; ISO week dates; characters beyond Latin-1; two processes sharing one cache. Whole parts
  that are I/O or glue over services (the summaries and mail that call the drafting loop, the mail and
  calendar clients, the socket protocol between the processes, the proxies, the pages of the web
  front end, deployment scripts) are listed as such in the manifest.
\<close>

end
